(* ===== verification/Rpc_Docs.thy ===== *)
theory Rpc_Docs
  imports Main
begin

text \<open>
  The script of the generated RPC reference pages, \<^verbatim>\<open>src/doc/rpc/assets/rpcdocs.js\<close>. A document is
  the list of its elements in document order together with the registered change listeners; the
  page's life is the load event followed by changes of the toggles. The theory shows what the page is
  after any such sequence, element by element: the last change decides the filter, all toggles agree
  with it, exactly the unchanged cards are hidden when it is set, and nothing else is touched.
  The classes of an element are its token list, which the platform keeps free of duplicates.
\<close>

subsection \<open>The document\<close>

record element =
  el_class :: "string list"
  el_changed :: "string option"
  el_checked :: bool

record listener =
  ls_target :: nat
  ls_cards :: "nat list"
  ls_toggles :: "nat list"

record dom =
  dom_nodes :: "element list"
  dom_listeners :: "listener list"

definition querySelectorAll :: "string \<Rightarrow> dom \<Rightarrow> nat list" where
  "querySelectorAll c d = filter (\<lambda>i. c \<in> set (el_class (dom_nodes d ! i))) [0..<length (dom_nodes d)]"

definition classList_toggle :: "string \<Rightarrow> bool \<Rightarrow> element \<Rightarrow> element" where
  "classList_toggle tok force e =
    (if force then (if tok \<in> set (el_class e) then e else e\<lparr>el_class := el_class e @ [tok]\<rparr>)
     else e\<lparr>el_class := filter (\<lambda>c. c \<noteq> tok) (el_class e)\<rparr>)"

definition update_node :: "(element \<Rightarrow> element) \<Rightarrow> nat \<Rightarrow> dom \<Rightarrow> dom" where
  "update_node f i d = d\<lparr>dom_nodes := (dom_nodes d)[i := f (dom_nodes d ! i)]\<rparr>"

subsection \<open>The script\<close>

definition isChanged :: "element \<Rightarrow> bool" where
  "isChanged e \<longleftrightarrow> el_changed e = Some ''true''"

definition filterCard :: "bool \<Rightarrow> element \<Rightarrow> element" where
  "filterCard showChangedOnly e =
    classList_toggle ''is-hidden'' (showChangedOnly \<and> \<not> isChanged e) e"

definition setChecked :: "bool \<Rightarrow> element \<Rightarrow> element" where
  "setChecked b toggle = toggle\<lparr>el_checked := b\<rparr>"

definition applyFilter :: "nat list \<Rightarrow> nat list \<Rightarrow> bool \<Rightarrow> dom \<Rightarrow> dom" where
  "applyFilter cards toggles showChangedOnly d =
    fold (update_node (setChecked showChangedOnly)) toggles
      (fold (update_node (filterCard showChangedOnly)) cards d)"

definition onDOMContentLoaded :: "dom \<Rightarrow> dom" where
  "onDOMContentLoaded d =
    (let cards = querySelectorAll ''rpc-method-card'' d in
     if cards = [] then d
     else let toggles = querySelectorAll ''rpc-show-changed-only'' d;
              d1 = fold (\<lambda>t d. d\<lparr>dom_listeners := dom_listeners d @
                     [\<lparr>ls_target = t, ls_cards = cards, ls_toggles = toggles\<rparr>]\<rparr>) toggles d
          in applyFilter cards toggles False d1)"

definition runListener :: "nat \<Rightarrow> listener \<Rightarrow> dom \<Rightarrow> dom" where
  "runListener i l d =
    (if ls_target l = i then applyFilter (ls_cards l) (ls_toggles l) (el_checked (dom_nodes d ! i)) d else d)"

definition onChange :: "nat \<Rightarrow> bool \<Rightarrow> dom \<Rightarrow> dom" where
  "onChange i v d =
    (let d1 = update_node (setChecked v) i d in fold (runListener i) (dom_listeners d1) d1)"

text \<open>
  A page after it was loaded and the reader changed toggles: a change is the position of a toggle and
  the state the browser gave it.
\<close>

definition page :: "dom \<Rightarrow> (nat \<times> bool) list \<Rightarrow> dom" where
  "page d0 changes = fold (\<lambda>(i, v). onChange i v) changes (onDOMContentLoaded d0)"

subsection \<open>What the page should show\<close>

text \<open>
  The filter is off after loading; afterwards the last changed toggle decides it. An element shows a
  setting when, as a card, it carries the hiding class exactly if the filter is on and it is not marked
  as changed, and, as a toggle, it is checked exactly if the filter is on.
\<close>

definition setting :: "(nat \<times> bool) list \<Rightarrow> bool" where
  "setting changes \<longleftrightarrow> changes \<noteq> [] \<and> snd (last changes)"

definition shown :: "bool \<Rightarrow> element \<Rightarrow> element" where
  "shown b e = e\<lparr>
     el_class := (if ''rpc-method-card'' \<in> set (el_class e)
       then filter (\<lambda>c. c \<noteq> ''is-hidden'') (el_class e) @ (if b \<and> el_changed e \<noteq> Some ''true'' then [''is-hidden''] else [])
       else el_class e),
     el_checked := (if ''rpc-show-changed-only'' \<in> set (el_class e) then b else el_checked e)\<rparr>"

abbreviation cards_of :: "dom \<Rightarrow> nat list" where
  "cards_of \<equiv> querySelectorAll ''rpc-method-card''"

abbreviation toggles_of :: "dom \<Rightarrow> nat list" where
  "toggles_of \<equiv> querySelectorAll ''rpc-show-changed-only''"

subsection \<open>Updating single elements\<close>

lemma update_node_simps [simp]:
  "length (dom_nodes (update_node f i d)) = length (dom_nodes d)"
  "dom_listeners (update_node f i d) = dom_listeners d"
  "j < length (dom_nodes d) \<Longrightarrow>
     dom_nodes (update_node f i d) ! j = (if i = j then f (dom_nodes d ! j) else dom_nodes d ! j)"
  by (simp_all add: update_node_def nth_list_update)

lemma fold_update_node_frame [simp]:
  "length (dom_nodes (fold (update_node f) is d)) = length (dom_nodes d)"
  "dom_listeners (fold (update_node f) is d) = dom_listeners d"
  by (induction "is" arbitrary: d) simp_all

lemma fold_update_node_nth:
  assumes "j < length (dom_nodes d)" "\<And>e. f (f e) = f e"
  shows "dom_nodes (fold (update_node f) is d) ! j =
    (if j \<in> set is then f (dom_nodes d ! j) else dom_nodes d ! j)"
  using assms(1) by (induction "is" arbitrary: d) (auto simp: assms(2))

lemma filterCard_idem: "filterCard b (filterCard b e) = filterCard b e"
  by (auto simp: filterCard_def classList_toggle_def isChanged_def)

lemma setChecked_idem: "setChecked b (setChecked b e) = setChecked b e"
  by (simp add: setChecked_def)

lemma applyFilter_nth:
  assumes "j < length (dom_nodes d)"
  shows "dom_nodes (applyFilter cards toggles b d) ! j =
    (if j \<in> set toggles then setChecked b else id)
      ((if j \<in> set cards then filterCard b else id) (dom_nodes d ! j))"
  using assms
  by (simp add: applyFilter_def fold_update_node_nth filterCard_idem setChecked_idem)

lemma applyFilter_frame [simp]:
  "length (dom_nodes (applyFilter cards toggles b d)) = length (dom_nodes d)"
  "dom_listeners (applyFilter cards toggles b d) = dom_listeners d"
  by (simp_all add: applyFilter_def)

lemma query_iff: "i \<in> set (querySelectorAll c d) \<longleftrightarrow> i < length (dom_nodes d) \<and> c \<in> set (el_class (dom_nodes d ! i))"
  by (auto simp: querySelectorAll_def)

lemma distinct_query: "distinct (querySelectorAll c d)"
  by (simp add: querySelectorAll_def)

text \<open>The script writes an element that already shows some setting, or has just been loaded.\<close>

lemma write_shown:
  "(if ''rpc-show-changed-only'' \<in> set (el_class e) then setChecked v else id)
     ((if ''rpc-method-card'' \<in> set (el_class e) then filterCard v else id) (shown b e)) = shown v e"
  by (simp add: shown_def setChecked_def filterCard_def classList_toggle_def isChanged_def)

lemma write_loaded:
  "(if ''rpc-show-changed-only'' \<in> set (el_class e) then setChecked False else id)
     ((if ''rpc-method-card'' \<in> set (el_class e) then filterCard False else id) e) = shown False e"
  by (simp add: shown_def setChecked_def filterCard_def classList_toggle_def)

subsection \<open>Loading and changing\<close>

text \<open>The listeners the script registers, for the elements it found when the page was loaded.\<close>

definition wired :: "dom \<Rightarrow> dom \<Rightarrow> bool" where
  "wired d0 d \<longleftrightarrow> dom_listeners d =
    map (\<lambda>t. \<lparr>ls_target = t, ls_cards = cards_of d0, ls_toggles = toggles_of d0\<rparr>) (toggles_of d0)"

lemma fold_listeners:
  "fold (\<lambda>t d. d\<lparr>dom_listeners := dom_listeners d @ [f t]\<rparr>) ts d =
    d\<lparr>dom_listeners := dom_listeners d @ map f ts\<rparr>"
  by (induction ts arbitrary: d) simp_all

lemma loaded_page:
  assumes "cards_of d0 \<noteq> []" "dom_listeners d0 = []"
  shows "wired d0 (onDOMContentLoaded d0)" "dom_nodes (onDOMContentLoaded d0) = map (shown False) (dom_nodes d0)"
proof -
  let ?L = "map (\<lambda>t. \<lparr>ls_target = t, ls_cards = cards_of d0, ls_toggles = toggles_of d0\<rparr>) (toggles_of d0)"
  have l: "onDOMContentLoaded d0 = applyFilter (cards_of d0) (toggles_of d0) False (d0\<lparr>dom_listeners := ?L\<rparr>)"
    using assms by (simp add: onDOMContentLoaded_def Let_def fold_listeners)
  show "wired d0 (onDOMContentLoaded d0)" by (simp add: l wired_def)
  show "dom_nodes (onDOMContentLoaded d0) = map (shown False) (dom_nodes d0)"
    unfolding l by (rule nth_equalityI) (simp_all add: applyFilter_nth query_iff write_loaded)
qed

text \<open>Only the listener of the changed toggle runs, with the state the toggle has.\<close>

lemma run_listeners:
  assumes "distinct us"
  shows "fold (runListener i) (map (\<lambda>t. \<lparr>ls_target = t, ls_cards = cs, ls_toggles = ts\<rparr>) us) d =
    (if i \<in> set us then applyFilter cs ts (el_checked (dom_nodes d ! i)) d else d)"
  using assms by (induction us arbitrary: d) (auto simp: runListener_def)

lemma changed_page:
  assumes w: "wired d0 d" and n: "dom_nodes d = map (shown b) (dom_nodes d0)" and i: "i \<in> set (toggles_of d0)"
  shows "wired d0 (onChange i v d)" "dom_nodes (onChange i v d) = map (shown v) (dom_nodes d0)"
proof -
  define d1 where "d1 = update_node (setChecked v) i d"
  have len: "length (dom_nodes d1) = length (dom_nodes d0)" by (simp add: d1_def n)
  have lt: "i < length (dom_nodes d0)" using i by (simp add: query_iff)
  have "el_checked (dom_nodes d1 ! i) = v" using lt n by (simp add: d1_def setChecked_def)
  then have o: "onChange i v d = applyFilter (cards_of d0) (toggles_of d0) v d1"
    using w i run_listeners [OF distinct_query, of i] by (simp add: onChange_def Let_def wired_def d1_def)
  show "wired d0 (onChange i v d)" using w by (simp add: o wired_def d1_def)
  show "dom_nodes (onChange i v d) = map (shown v) (dom_nodes d0)"
  proof (rule nth_equalityI)
    fix j assume "j < length (dom_nodes (onChange i v d))"
    then have j: "j < length (dom_nodes d0)" by (simp add: o len)
    let ?w = "\<lambda>e. (if j \<in> set (toggles_of d0) then setChecked v else id) ((if j \<in> set (cards_of d0) then filterCard v else id) e)"
    have "?w (dom_nodes d1 ! j) = ?w (shown b (dom_nodes d0 ! j))"
      using i j n by (auto simp: d1_def setChecked_def filterCard_def classList_toggle_def isChanged_def)
    also have "\<dots> = shown v (dom_nodes d0 ! j)" using write_shown j by (simp add: query_iff)
    finally show "dom_nodes (onChange i v d) ! j = map (shown v) (dom_nodes d0) ! j"
      using j by (simp add: o applyFilter_nth len)
  qed (simp add: o len)
qed

lemma page_shows:
  assumes "dom_listeners d0 = []" "cards_of d0 \<noteq> []" "list_all (\<lambda>(i, v). i \<in> set (toggles_of d0)) changes"
  shows "wired d0 (page d0 changes) \<and> dom_nodes (page d0 changes) = map (shown (setting changes)) (dom_nodes d0)"
  using assms(3)
proof (induction changes rule: rev_induct)
  case Nil
  then show ?case using loaded_page [OF assms(2,1)] by (simp add: page_def setting_def)
next
  case (snoc x xs)
  obtain i v where x: "x = (i, v)" by force
  have "page d0 (xs @ [x]) = onChange i v (page d0 xs)" "setting (xs @ [x]) = v"
    by (simp_all add: page_def setting_def x)
  then show ?case using changed_page [of d0 "page d0 xs" _ i v] snoc x by auto
qed

text \<open>On a page without cards the script registers nothing; a change is then only the browser's.\<close>

lemma page_without_cards:
  assumes "dom_listeners d0 = []" "cards_of d0 = []"
  shows "page d0 changes = fold (\<lambda>(i, v). update_node (setChecked v) i) changes d0"
proof -
  have "fold (\<lambda>(i, v). onChange i v) changes d = fold (\<lambda>(i, v). update_node (setChecked v) i) changes d"
    if "dom_listeners d = []" for d
    using that by (induction changes arbitrary: d) (auto simp: onChange_def Let_def)
  then show ?thesis using assms by (simp add: page_def onDOMContentLoaded_def Let_def)
qed

end
