(* ===== verification/Qbit_Prelude.thy ===== *)
theory Qbit_Prelude
  imports Main "HOL-Library.Word" "HOL-Library.Signed_Division"
begin

unbundle bit_operations_syntax

text \<open>
  Shared vocabulary of the development: the machine integer types of the C++ sources, the ways
  a C++ function can fail to return a value, byte order helpers of
  \<^verbatim>\<open>src/src/crypto/common.h\<close>, and the reading of a little-endian array of 32-bit digits as a
  natural number. The component theories refine their digit arrays and byte vectors to the
  numbers defined here.
\<close>

named_theorems limb_simps \<open>arithmetic of single 64-bit accumulator steps\<close>
named_theorems cxx_simps \<open>evaluation of fallible computations\<close>

subsection \<open>Machine integers and byte vectors\<close>

type_synonym byte = "8 word"
type_synonym u16 = "16 word"
type_synonym u32 = "32 word"
type_synonym u64 = "64 word"
type_synonym bytes = "byte list"

text \<open>
  Signed C++ integers are unbounded \<^typ>\<open>int\<close>s together with an explicit range check where the
  source computes with them: leaving the range is undefined behaviour in C++, and is the failure
  \<open>Signed_Overflow\<close> here.
\<close>

datatype cxx_error =
    Assert_Failure
  | Signed_Overflow
  | Null_Deref
  | Uint_Error
  | Logic_Error
  | Stream_Failure
  | Runtime_Error
  | Out_Of_Fuel
  | Div_By_Zero
  | Bad_Shift

type_synonym 'a cxx = "cxx_error + 'a"

definition bindE :: "'e + 'a \<Rightarrow> ('a \<Rightarrow> 'e + 'b) \<Rightarrow> 'e + 'b" where
  "bindE m f = (case m of Inl e \<Rightarrow> Inl e | Inr a \<Rightarrow> f a)"

definition cxx_assert :: "bool \<Rightarrow> unit cxx" where
  "cxx_assert b = (if b then Inr () else Inl Assert_Failure)"

definition i64_range :: "int \<Rightarrow> bool" where
  "i64_range x \<longleftrightarrow> - (2 ^ 63) \<le> x \<and> x < 2 ^ 63"

definition i32_range :: "int \<Rightarrow> bool" where
  "i32_range x \<longleftrightarrow> - (2 ^ 31) \<le> x \<and> x < 2 ^ 31"

definition i64 :: "int \<Rightarrow> int cxx" where
  "i64 x = (if i64_range x then Inr x else Inl Signed_Overflow)"

definition i32 :: "int \<Rightarrow> int cxx" where
  "i32 x = (if i32_range x then Inr x else Inl Signed_Overflow)"

text \<open>Division and remainder of signed 64-bit integers, which truncate towards zero.\<close>

definition sdivE :: "int \<Rightarrow> int \<Rightarrow> int cxx" where
  "sdivE a b = (if b = 0 then Inl Div_By_Zero else i64 (a sdiv b))"

definition smodE :: "int \<Rightarrow> int \<Rightarrow> int cxx" where
  "smodE a b = bindE (sdivE a b) (\<lambda>_. Inr (a smod b))"

text \<open>A signed value narrowed to 32 bits keeps its low 32 bits.\<close>

definition to_int32 :: "int \<Rightarrow> int" where
  "to_int32 x = sint (of_int x :: u32)"

definition deref :: "'a option \<Rightarrow> 'a cxx" where
  "deref p = (case p of None \<Rightarrow> Inl Null_Deref | Some a \<Rightarrow> Inr a)"

lemma bindE_simps [simp, cxx_simps]:
  "bindE (Inl e) f = Inl e"
  "bindE (Inr a) f = f a"
  by (simp_all add: bindE_def)

lemma bindE_Inr_iff: "bindE m f = Inr b \<longleftrightarrow> (\<exists>a. m = Inr a \<and> f a = Inr b)"
  by (cases m) auto

lemma bindE_assoc: "bindE (bindE m f) g = bindE m (\<lambda>x. bindE (f x) g)"
  by (cases m) auto

lemma cxx_assert_Inr_iff [simp, cxx_simps]: "cxx_assert b = Inr u \<longleftrightarrow> b"
  by (simp add: cxx_assert_def)

lemma cxx_assert_True [simp, cxx_simps]: "b \<Longrightarrow> cxx_assert b = Inr ()"
  by (simp add: cxx_assert_def)

lemma i64_Inr_iff [simp, cxx_simps]: "i64 x = Inr y \<longleftrightarrow> i64_range x \<and> y = x"
  by (auto simp: i64_def)

lemma i64_in_range [simp, cxx_simps]: "i64_range x \<Longrightarrow> i64 x = Inr x"
  by (simp add: i64_def)

lemma i32_Inr_iff [simp, cxx_simps]: "i32 x = Inr y \<longleftrightarrow> i32_range x \<and> y = x"
  by (auto simp: i32_def)

lemma i32_in_range [simp, cxx_simps]: "i32_range x \<Longrightarrow> i32 x = Inr x"
  by (simp add: i32_def)

lemma deref_simps [simp, cxx_simps]:
  "deref (Some a) = Inr a" "deref None = Inl Null_Deref"
  "deref p = Inr b \<longleftrightarrow> p = Some b"
  by (auto simp: deref_def split: option.splits)

subsection \<open>Widening, truncation and shifts of accumulators\<close>

lemma unat_ucast_u32_u64 [simp, limb_simps]: "unat (ucast (x::u32) :: u64) = unat x"
proof -
  have "unat x < 2 ^ 64" using unsigned_less [of x, where 'a = nat] by simp
  then show ?thesis by (simp add: unsigned_ucast_eq take_bit_nat_eq_self)
qed

lemma unat_low32 [simp, limb_simps]:
  "unat (ucast ((n::u64) AND 0xffffffff) :: u32) = unat n mod 2 ^ 32"
proof -
  have "(0xffffffff :: u64) = mask 32" by (simp add: mask_eq_exp_minus_1)
  then have "n AND 0xffffffff = take_bit 32 n" by (simp only: take_bit_eq_mask)
  then show ?thesis
    by (simp add: unsigned_ucast_eq unsigned_take_bit_eq)
      (simp add: take_bit_eq_mod)
qed

lemma unat_trunc32 [simp, limb_simps]: "unat (ucast (n::u64) :: u32) = unat n mod 2 ^ 32"
  by (simp add: unsigned_ucast_eq take_bit_eq_mod)

lemma unat_high32 [simp, limb_simps]: "unat (drop_bit 32 (n::u64)) = unat n div 2 ^ 32"
  unfolding unat_drop_bit_eq by (rule drop_bit_eq_div)

lemma unat_u32_less: "unat (x::u32) < 2 ^ 32"
  using unsigned_less [of x] by simp

lemma unat_u64_less: "unat (x::u64) < 2 ^ 64"
  using unsigned_less [of x] by simp

lemma unat_u16_less: "unat (x::u16) < 2 ^ 16"
  using unsigned_less [of x] by simp

lemma unat_byte_less: "unat (x::byte) < 2 ^ 8"
  using unsigned_less [of x] by simp

lemmas unat_bounds =
  unat_u32_less unat_u32_less [simplified]
  unat_u64_less unat_u64_less [simplified]
  unat_u16_less unat_u16_less [simplified]
  unat_byte_less unat_byte_less [simplified]

lemma unat_add64_3:
  "unat (a::u64) + unat b + unat c < 2 ^ 64 \<Longrightarrow> unat (a + b + c) = unat a + unat b + unat c"
  by (simp add: unat_word_ariths)

lemma unat_NOT32: "unat (NOT (p::u32)) = 2 ^ 32 - 1 - unat p"
proof -
  have "NOT p = - 1 - p" by (simp add: not_eq_complement)
  then show ?thesis
    by (simp add: unat_sub unsigned_minus_1_eq_mask mask_eq_exp_minus_1)
qed

lemma unat_add64: "unat (a::u64) + unat b < 2 ^ 64 \<Longrightarrow> unat (a + b) = unat a + unat b"
  by (simp add: unat_word_ariths)

lemma unat_mult64: "unat (a::u64) * unat b < 2 ^ 64 \<Longrightarrow> unat (a * b) = unat a * unat b"
  by (simp add: unat_word_ariths)

subsection \<open>Bits of natural numbers\<close>

lemma bit_add_shifted:
  fixes a b :: nat
  assumes "a < 2 ^ n"
  shows "bit (a + 2 ^ n * b) i \<longleftrightarrow> (if i < n then bit a i else bit b (i - n))"
proof (cases "i < n")
  case True
  then have "2 ^ n = 2 ^ i * (2 * 2 ^ (n - i - 1) :: nat)"
    by (simp flip: power_Suc power_add)
  then have "(a + 2 ^ n * b) div 2 ^ i = a div 2 ^ i + 2 * (2 ^ (n - i - 1) * b)"
    by (simp add: mult.assoc)
  then show ?thesis using True by (simp add: bit_iff_odd)
next
  case False
  then have "(2::nat) ^ i = 2 ^ n * 2 ^ (i - n)" by (simp flip: power_add)
  then have "(a + 2 ^ n * b) div 2 ^ i = b div 2 ^ (i - n)"
    using assms by (simp add: div_mult2_eq)
  then show ?thesis using False by (simp add: bit_iff_odd)
qed

lemma not_bit_if_less_exp: "(n::nat) < 2 ^ k \<Longrightarrow> k \<le> i \<Longrightarrow> \<not> bit n i"
  by (metis bit_take_bit_iff leD take_bit_nat_eq_self)

lemma less_exp_if_no_bit: "(\<And>i. k \<le> i \<Longrightarrow> \<not> bit (n::nat) i) \<Longrightarrow> n < 2 ^ k"
  by (metis bit_eqI bit_take_bit_iff not_less take_bit_nat_less_exp)

lemma unat_or_disjoint:
  fixes x y :: "'a::len word"
  assumes "unat x < 2 ^ k" "unat y * 2 ^ k + 2 ^ k \<le> 2 ^ LENGTH('a)"
  shows "unat (x OR push_bit k y) = unat x + unat y * 2 ^ k"
proof -
  have "x AND push_bit k y = 0"
  proof (rule bit_word_eqI)
    fix n
    show "bit (x AND push_bit k y) n \<longleftrightarrow> bit (0 :: 'a word) n"
      using not_bit_if_less_exp [OF assms(1), of n]
      by (auto simp: bit_and_iff bit_push_bit_iff bit_unsigned_iff)
  qed
  then have "x OR push_bit k y = x + push_bit k y" by (simp add: disjunctive_add_eq_or)
  moreover have "(0::nat) < 2 ^ k" by simp
  then have "unat y * 2 ^ k < 2 ^ LENGTH('a)" using assms(2) by linarith
  then have "unat (push_bit k y) = unat y * 2 ^ k"
    unfolding unsigned_push_bit_eq by (simp add: push_bit_eq_mult take_bit_nat_eq_self)
  moreover have "unat x + unat y * 2 ^ k < 2 ^ LENGTH('a)" using assms by linarith
  ultimately show ?thesis by (simp add: unat_word_ariths)
qed

subsection \<open>Little-endian digit arrays\<close>

text \<open>
  \<^verbatim>\<open>nval ds\<close> is the number a C++ array of 32-bit digits stands for, least significant digit first.
\<close>

primrec nval :: "u32 list \<Rightarrow> nat" where
  "nval [] = 0"
| "nval (d # ds) = unat d + 2 ^ 32 * nval ds"

definition limbs_of :: "nat \<Rightarrow> nat \<Rightarrow> u32 list" where
  "limbs_of k n = map (\<lambda>i. of_nat (n div 2 ^ (32 * i))) [0..<k]"

lemma length_limbs_of [simp]: "length (limbs_of k n) = k"
  by (simp add: limbs_of_def)

lemma nval_append: "nval (xs @ ys) = nval xs + 2 ^ (32 * length xs) * nval ys"
  by (induction xs) (simp_all add: power_add algebra_simps)

lemma nval_replicate_0 [simp]: "nval (replicate k 0) = 0"
  by (induction k) simp_all

lemma nval_less: "nval xs < 2 ^ (32 * length xs)"
proof (induction xs)
  case (Cons x xs)
  have "nval (x # xs) < 2 ^ 32 + 2 ^ 32 * nval xs"
    using unat_u32_less [of x] by simp
  also have "\<dots> = 2 ^ 32 * Suc (nval xs)" by simp
  also have "\<dots> \<le> 2 ^ 32 * 2 ^ (32 * length xs)"
    by (rule mult_le_mono2) (use Cons.IH in simp)
  finally show ?case by (simp add: power_add)
qed simp

lemma nval_less_256: "length xs = 8 \<Longrightarrow> nval xs < 2 ^ 256"
  using nval_less [of xs] by simp

lemma bit_nval:
  "bit (nval xs) i \<longleftrightarrow> i div 32 < length xs \<and> bit (xs ! (i div 32)) (i mod 32)"
proof (induction xs arbitrary: i)
  case (Cons x xs)
  have b: "bit (nval (x # xs)) i \<longleftrightarrow> (if i < 32 then bit (unat x) i else bit (nval xs) (i - 32))"
    unfolding nval.simps by (rule bit_add_shifted) (rule unat_u32_less)
  show ?case
  proof (cases "i < 32")
    case True
    then show ?thesis unfolding b by (simp add: bit_unsigned_iff)
  next
    case False
    then have "i div 32 = Suc ((i - 32) div 32)" "i mod 32 = (i - 32) mod 32"
      by (simp_all add: le_div_geq le_mod_geq)
    then show ?thesis unfolding b using False by (simp add: Cons.IH)
  qed
qed simp

lemma nval_inj:
  "length xs = length ys \<Longrightarrow> nval xs = nval ys \<longleftrightarrow> xs = ys"
proof (induction xs ys rule: list_induct2)
  case (Cons x xs y ys)
  have "unat x = unat y \<and> nval xs = nval ys" if "nval (x # xs) = nval (y # ys)"
  proof -
    from that have "unat x + 2 ^ 32 * nval xs = unat y + 2 ^ 32 * nval ys" by simp
    then have "(unat x + 2 ^ 32 * nval xs) mod 2 ^ 32 = (unat y + 2 ^ 32 * nval ys) mod 2 ^ 32"
      and "(unat x + 2 ^ 32 * nval xs) div 2 ^ 32 = (unat y + 2 ^ 32 * nval ys) div 2 ^ 32"
      by simp_all
    then show ?thesis by (simp add: unat_bounds)
  qed
  then show ?case using Cons.IH by (auto simp: word_unat_eq_iff)
qed simp

lemma div_pow_Suc: "(n::nat) div 2 ^ (w * Suc i) = n div 2 ^ w div 2 ^ (w * i)"
  by (simp add: power_add div_mult2_eq)

lemma limbs_of_Suc: "limbs_of (Suc k) n = of_nat n # limbs_of k (n div 2 ^ 32)"
  unfolding limbs_of_def
  by (simp only: upt_conv_Cons zero_less_Suc list.map map_Suc_upt [symmetric] map_map o_def
      div_pow_Suc mult_0_right power_0 div_by_1)

lemma nval_limbs_of: "nval (limbs_of k n) = n mod 2 ^ (32 * k)"
proof (induction k arbitrary: n)
  case (Suc k)
  have "n mod (2 ^ 32 * 2 ^ (32 * k)) = 2 ^ 32 * (n div 2 ^ 32 mod 2 ^ (32 * k)) + n mod 2 ^ 32"
    by (rule mod_mult2_eq)
  then show ?case
    by (simp add: limbs_of_Suc Suc.IH power_add unsigned_of_nat take_bit_eq_mod)
qed (simp add: limbs_of_def)

lemma limbs_of_nval [simp]: "length xs = k \<Longrightarrow> limbs_of k (nval xs) = xs"
  using nval_less [of xs] by (simp add: nval_limbs_of flip: nval_inj)

subsection \<open>Byte order\<close>

text \<open>
  The number of a byte vector read least significant byte first, and its inverse for a fixed
  width. \<^verbatim>\<open>memcpy\<close> between an integer and a byte array after \<^verbatim>\<open>htole\<close> or \<^verbatim>\<open>htobe\<close> is this
  correspondence on either kind of machine.
\<close>

primrec bval :: "bytes \<Rightarrow> nat" where
  "bval [] = 0"
| "bval (b # bs) = unat b + 2 ^ 8 * bval bs"

definition le_bytes :: "nat \<Rightarrow> nat \<Rightarrow> bytes" where
  "le_bytes k n = map (\<lambda>i. of_nat (n div 2 ^ (8 * i))) [0..<k]"

lemma length_le_bytes [simp]: "length (le_bytes k n) = k"
  by (simp add: le_bytes_def)

lemma le_bytes_0 [simp]: "le_bytes 0 n = []"
  by (simp add: le_bytes_def)

lemma le_bytes_Suc: "le_bytes (Suc k) n = of_nat n # le_bytes k (n div 2 ^ 8)"
  unfolding le_bytes_def
  by (simp only: upt_conv_Cons zero_less_Suc list.map map_Suc_upt [symmetric] map_map o_def
      div_pow_Suc mult_0_right power_0 div_by_1)

lemma bval_append: "bval (xs @ ys) = bval xs + 2 ^ (8 * length xs) * bval ys"
  by (induction xs) (simp_all add: power_add algebra_simps)

lemma bval_less: "bval bs < 2 ^ (8 * length bs)"
proof (induction bs)
  case (Cons x xs)
  have "bval (x # xs) < 2 ^ 8 + 2 ^ 8 * bval xs"
    using unat_byte_less [of x] by simp
  also have "\<dots> = 2 ^ 8 * Suc (bval xs)" by simp
  also have "\<dots> \<le> 2 ^ 8 * 2 ^ (8 * length xs)"
    by (rule mult_le_mono2) (use Cons.IH in simp)
  finally show ?case by (simp add: power_add)
qed simp

lemma bval_le_bytes: "bval (le_bytes k n) = n mod 2 ^ (8 * k)"
proof (induction k arbitrary: n)
  case (Suc k)
  have "n mod (2 ^ 8 * 2 ^ (8 * k)) = 2 ^ 8 * (n div 2 ^ 8 mod 2 ^ (8 * k)) + n mod 2 ^ 8"
    by (rule mod_mult2_eq)
  then show ?case
    by (simp add: le_bytes_Suc Suc.IH power_add unsigned_of_nat take_bit_eq_mod)
qed simp

lemma le_bytes_bval: "le_bytes (length bs) (bval bs) = bs"
proof (induction bs)
  case (Cons b bs)
  have "(unat b + 256 * bval bs) div 256 = bval bs" by (simp add: unat_bounds)
  moreover have "of_nat (unat b + 256 * bval bs) = b"
  proof -
    have "(of_nat (unat b + 256 * bval bs) :: byte) = of_nat ((unat b + 256 * bval bs) mod 2 ^ 8)"
      by (simp only: word_of_nat_eq_iff) (simp add: take_bit_eq_mod)
    then show ?thesis by (simp add: unat_bounds)
  qed
  ultimately show ?case using Cons.IH by (simp add: le_bytes_Suc)
qed simp

lemma bval_inj: "length xs = length ys \<Longrightarrow> bval xs = bval ys \<longleftrightarrow> xs = ys"
  by (metis le_bytes_bval)

lemma le_bytes_inj:
  "n < 2 ^ (8 * k) \<Longrightarrow> m < 2 ^ (8 * k) \<Longrightarrow> le_bytes k n = le_bytes k m \<longleftrightarrow> n = m"
  by (metis bval_le_bytes mod_less)

definition ReadLE16 :: "bytes \<Rightarrow> u16" where
  "ReadLE16 p = of_nat (bval (take 2 p))"

definition ReadLE32 :: "bytes \<Rightarrow> u32" where
  "ReadLE32 p = of_nat (bval (take 4 p))"

definition ReadLE64 :: "bytes \<Rightarrow> u64" where
  "ReadLE64 p = of_nat (bval (take 8 p))"

definition WriteLE16 :: "u16 \<Rightarrow> bytes" where
  "WriteLE16 x = le_bytes 2 (unat x)"

definition WriteLE32 :: "u32 \<Rightarrow> bytes" where
  "WriteLE32 x = le_bytes 4 (unat x)"

definition WriteLE64 :: "u64 \<Rightarrow> bytes" where
  "WriteLE64 x = le_bytes 8 (unat x)"

definition ReadBE32 :: "bytes \<Rightarrow> u32" where
  "ReadBE32 p = of_nat (bval (rev (take 4 p)))"

definition WriteBE32 :: "u32 \<Rightarrow> bytes" where
  "WriteBE32 x = rev (le_bytes 4 (unat x))"

lemma length_WriteLE [simp]:
  "length (WriteLE16 x) = 2" "length (WriteLE32 y) = 4" "length (WriteLE64 z) = 8"
  by (simp_all add: WriteLE16_def WriteLE32_def WriteLE64_def)

lemma ReadLE_WriteLE [simp]:
  "ReadLE16 (WriteLE16 x @ r) = x" "ReadLE32 (WriteLE32 y @ r) = y" "ReadLE64 (WriteLE64 z @ r) = z"
  by (simp_all add: ReadLE16_def WriteLE16_def ReadLE32_def WriteLE32_def ReadLE64_def WriteLE64_def
      bval_le_bytes unat_bounds)

end
