(* ===== verification/Arith256.thy ===== *)
theory Arith256
  imports Qbit_Prelude
begin

text \<open>
  The fixed-width unsigned integers of \<^verbatim>\<open>src/src/arith_uint256.h\<close> and
  \<^verbatim>\<open>src/src/arith_uint256.cpp\<close>. A \<^verbatim>\<open>base_uint\<close> is its digit array \<^verbatim>\<open>pn\<close>, a list of 32-bit
  words whose length is the class's \<^verbatim>\<open>WIDTH\<close>; each operator is the source's loop over that array.
  The theory shows that every operator computes the corresponding operation on natural numbers
  modulo \<^verbatim>\<open>2 ^ BITS\<close>, that the assertions of \<^verbatim>\<open>GetCompact\<close> hold, and what the compact encoding
  keeps of a number.
\<close>

unbundle bit_operations_syntax

subsection \<open>Representation, constructors and bitwise operators\<close>

type_synonym base_uint = "u32 list"
type_synonym arith_uint256 = base_uint

definition WIDTH :: nat where
  "WIDTH = 256 div 32"

definition base_uint_zero :: base_uint where
  "base_uint_zero = replicate WIDTH 0"

definition base_uint_of_u64 :: "u64 \<Rightarrow> base_uint" where
  "base_uint_of_u64 b = ucast b # ucast (drop_bit 32 b) # replicate (WIDTH - 2) 0"

definition base_uint_not :: "base_uint \<Rightarrow> base_uint" where
  "base_uint_not pn = map NOT pn"

definition base_uint_xor :: "base_uint \<Rightarrow> base_uint \<Rightarrow> base_uint" where
  "base_uint_xor a b = map2 (XOR) a b"

definition base_uint_and :: "base_uint \<Rightarrow> base_uint \<Rightarrow> base_uint" where
  "base_uint_and a b = map2 (AND) a b"

definition base_uint_or :: "base_uint \<Rightarrow> base_uint \<Rightarrow> base_uint" where
  "base_uint_or a b = map2 (OR) a b"

definition GetLow64 :: "base_uint \<Rightarrow> u64" where
  "GetLow64 pn = ucast (pn ! 0) OR push_bit 32 (ucast (pn ! 1))"

subsection \<open>Addition, negation, subtraction\<close>

fun add_loop :: "u64 \<Rightarrow> u32 list \<Rightarrow> u32 list \<Rightarrow> u32 list" where
  "add_loop carry (p # ps) (b # bs) =
    (let n = carry + ucast p + ucast b
     in ucast (n AND 0xffffffff) # add_loop (drop_bit 32 n) ps bs)"
| "add_loop carry _ _ = []"

definition base_uint_add :: "base_uint \<Rightarrow> base_uint \<Rightarrow> base_uint" where
  "base_uint_add a b = add_loop 0 a b"

fun base_uint_inc :: "base_uint \<Rightarrow> base_uint" where
  "base_uint_inc (p # ps) = (let q = p + 1 in if q = 0 then q # base_uint_inc ps else q # ps)"
| "base_uint_inc [] = []"

fun base_uint_dec :: "base_uint \<Rightarrow> base_uint" where
  "base_uint_dec (p # ps) =
    (let q = p - 1 in if q = 0xffffffff then q # base_uint_dec ps else q # ps)"
| "base_uint_dec [] = []"

definition base_uint_neg :: "base_uint \<Rightarrow> base_uint" where
  "base_uint_neg b = base_uint_inc (map NOT b)"

definition base_uint_sub :: "base_uint \<Rightarrow> base_uint \<Rightarrow> base_uint" where
  "base_uint_sub a b = base_uint_add a (base_uint_neg b)"

definition base_uint_add64 :: "base_uint \<Rightarrow> u64 \<Rightarrow> base_uint" where
  "base_uint_add64 a b64 = base_uint_add a (base_uint_of_u64 b64)"

definition base_uint_sub64 :: "base_uint \<Rightarrow> u64 \<Rightarrow> base_uint" where
  "base_uint_sub64 a b64 = base_uint_add a (base_uint_neg (base_uint_of_u64 b64))"

subsection \<open>Multiplication\<close>

fun mul32_loop :: "u64 \<Rightarrow> u32 \<Rightarrow> u32 list \<Rightarrow> u32 list" where
  "mul32_loop carry b32 (p # ps) =
    (let n = carry + ucast b32 * ucast p
     in ucast (n AND 0xffffffff) # mul32_loop (drop_bit 32 n) b32 ps)"
| "mul32_loop carry b32 [] = []"

definition base_uint_mul32 :: "base_uint \<Rightarrow> u32 \<Rightarrow> base_uint" where
  "base_uint_mul32 a b32 = mul32_loop 0 b32 a"

fun mul_inner :: "u64 \<Rightarrow> u32 \<Rightarrow> u32 list \<Rightarrow> u32 list \<Rightarrow> u32 list" where
  "mul_inner carry pj (a # as) (b # bs) =
    (let n = carry + ucast a + ucast pj * ucast b
     in ucast (n AND 0xffffffff) # mul_inner (drop_bit 32 n) pj as bs)"
| "mul_inner carry pj as bs = as"

definition mul_row :: "base_uint \<Rightarrow> base_uint \<Rightarrow> nat \<Rightarrow> base_uint \<Rightarrow> base_uint" where
  "mul_row pn b j a = take j a @ mul_inner 0 (pn ! j) (drop j a) b"

definition base_uint_mul :: "base_uint \<Rightarrow> base_uint \<Rightarrow> base_uint" where
  "base_uint_mul pn b = fold (mul_row pn b) [0..<length pn] (replicate (length pn) 0)"

subsection \<open>Shifts\<close>

definition or_at :: "nat \<Rightarrow> u32 \<Rightarrow> u32 list \<Rightarrow> u32 list" where
  "or_at i w pn = pn[i := pn ! i OR w]"

definition shl_step :: "base_uint \<Rightarrow> nat \<Rightarrow> nat \<Rightarrow> nat \<Rightarrow> base_uint \<Rightarrow> base_uint" where
  "shl_step a k shift i pn =
    (let pn1 = (if i + k + 1 < length a \<and> shift \<noteq> 0
                then or_at (i + k + 1) (drop_bit (32 - shift) (a ! i)) pn else pn)
     in if i + k < length a then or_at (i + k) (push_bit shift (a ! i)) pn1 else pn1)"

definition base_uint_shl :: "base_uint \<Rightarrow> nat \<Rightarrow> base_uint" where
  "base_uint_shl a shift =
    fold (shl_step a (shift div 32) (shift mod 32)) [0..<length a] (replicate (length a) 0)"

definition shr_step :: "base_uint \<Rightarrow> nat \<Rightarrow> nat \<Rightarrow> nat \<Rightarrow> base_uint \<Rightarrow> base_uint" where
  "shr_step a k shift i pn =
    (let pn1 = (if i \<ge> k + 1 \<and> shift \<noteq> 0
                then or_at (i - k - 1) (push_bit (32 - shift) (a ! i)) pn else pn)
     in if i \<ge> k then or_at (i - k) (drop_bit shift (a ! i)) pn1 else pn1)"

definition base_uint_shr :: "base_uint \<Rightarrow> nat \<Rightarrow> base_uint" where
  "base_uint_shr a shift =
    fold (shr_step a (shift div 32) (shift mod 32)) [0..<length a] (replicate (length a) 0)"

subsection \<open>Comparison and bit length\<close>

fun compare_down :: "u32 list \<Rightarrow> u32 list \<Rightarrow> int" where
  "compare_down (p # ps) (b # bs) =
    (if p < b then - 1 else if p > b then 1 else compare_down ps bs)"
| "compare_down _ _ = 0"

definition CompareTo :: "base_uint \<Rightarrow> base_uint \<Rightarrow> int" where
  "CompareTo a b = compare_down (rev a) (rev b)"

definition EqualTo :: "base_uint \<Rightarrow> u64 \<Rightarrow> bool" where
  "EqualTo pn b \<longleftrightarrow>
    list_all (\<lambda>p. p = 0) (drop 2 pn) \<and>
    ucast (pn ! 1) = drop_bit 32 b \<and>
    ucast (pn ! 0) = b AND 0xffffffff"

fun digit_bits :: "u32 \<Rightarrow> nat \<Rightarrow> nat" where
  "digit_bits p 0 = 1"
| "digit_bits p (Suc nbits) =
    (if p AND push_bit (Suc nbits) 1 \<noteq> 0 then Suc nbits + 1 else digit_bits p nbits)"

fun bits_loop :: "base_uint \<Rightarrow> nat \<Rightarrow> nat" where
  "bits_loop pn 0 = 0"
| "bits_loop pn (Suc pos) =
    (if pn ! pos \<noteq> 0 then 32 * pos + digit_bits (pn ! pos) 31 else bits_loop pn pos)"

definition base_uint_bits :: "base_uint \<Rightarrow> nat" where
  "base_uint_bits pn = bits_loop pn (length pn)"

subsection \<open>Division\<close>

fun div_loop :: "nat \<Rightarrow> base_uint \<Rightarrow> base_uint \<Rightarrow> base_uint \<Rightarrow> base_uint" where
  "div_loop 0 num d pn = pn"
| "div_loop (Suc shift) num d pn =
    (let (num1, pn1) =
       (if CompareTo num d \<ge> 0
        then (base_uint_sub num d, or_at (shift div 32) (push_bit (shift mod 32) 1) pn)
        else (num, pn))
     in div_loop shift num1 (base_uint_shr d 1) pn1)"

definition base_uint_div :: "base_uint \<Rightarrow> base_uint \<Rightarrow> base_uint cxx" where
  "base_uint_div a b =
    (let num_bits = base_uint_bits a; div_bits = base_uint_bits b in
     if div_bits = 0 then Inl Uint_Error
     else if div_bits > num_bits then Inr (replicate (length a) 0)
     else let shift = num_bits - div_bits
          in Inr (div_loop (Suc shift) a (base_uint_shl b shift) (replicate (length a) 0)))"

subsection \<open>Compact encoding and byte order\<close>

definition SetCompact :: "u32 \<Rightarrow> arith_uint256 \<times> bool \<times> bool" where
  "SetCompact nCompact =
    (let nSize = unat (drop_bit 24 nCompact);
         nWord0 = nCompact AND 0x007fffff;
         nWord = (if nSize \<le> 3 then drop_bit (8 * (3 - nSize)) nWord0 else nWord0);
         v = (if nSize \<le> 3 then base_uint_of_u64 (ucast nWord)
              else base_uint_shl (base_uint_of_u64 (ucast nWord)) (8 * (nSize - 3)));
         fNegative = (nWord \<noteq> 0 \<and> nCompact AND 0x00800000 \<noteq> 0);
         fOverflow = (nWord \<noteq> 0 \<and>
           (nSize > 34 \<or> (nWord > 0xff \<and> nSize > 33) \<or> (nWord > 0xffff \<and> nSize > 32)))
     in (v, fNegative, fOverflow))"

definition GetCompact :: "arith_uint256 \<Rightarrow> bool \<Rightarrow> u32 cxx" where
  "GetCompact a fNegative =
    (let nSize0 = (base_uint_bits a + 7) div 8;
         nCompact0 = (if nSize0 \<le> 3 then ucast (push_bit (8 * (3 - nSize0)) (GetLow64 a))
                      else ucast (GetLow64 (base_uint_shr a (8 * (nSize0 - 3))))) :: u32;
         carry = (nCompact0 AND 0x00800000 \<noteq> 0);
         nCompact1 = (if carry then drop_bit 8 nCompact0 else nCompact0);
         nSize = (if carry then nSize0 + 1 else nSize0)
     in bindE (cxx_assert (nCompact1 AND NOT 0x007fffff = 0)) (\<lambda>_.
        bindE (cxx_assert (nSize < 256)) (\<lambda>_.
        let nCompact2 = nCompact1 OR push_bit 24 (of_nat nSize)
        in Inr (nCompact2 OR
             (if fNegative \<and> nCompact2 AND 0x007fffff \<noteq> 0 then 0x00800000 else 0)))))"

definition ArithToUint256 :: "arith_uint256 \<Rightarrow> bytes" where
  "ArithToUint256 a = concat (map WriteLE32 a)"

definition UintToArith256 :: "bytes \<Rightarrow> arith_uint256" where
  "UintToArith256 a = map (\<lambda>x. ReadLE32 (drop (x * 4) a)) [0..<WIDTH]"

subsection \<open>Lengths\<close>

lemma WIDTH_8: "WIDTH = 8"
  by (simp add: WIDTH_def)

lemma length_add_loop [simp]: "length (add_loop c ps bs) = min (length ps) (length bs)"
  by (induction c ps bs rule: add_loop.induct) (simp_all add: Let_def)

lemma length_base_uint_inc [simp]: "length (base_uint_inc ps) = length ps"
  by (induction ps rule: base_uint_inc.induct) (simp_all add: Let_def)

lemma length_base_uint_dec [simp]: "length (base_uint_dec ps) = length ps"
  by (induction ps rule: base_uint_dec.induct) (simp_all add: Let_def)

lemma length_mul32_loop [simp]: "length (mul32_loop c b ps) = length ps"
  by (induction c b ps rule: mul32_loop.induct) (simp_all add: Let_def)

lemma length_mul_inner [simp]: "length (mul_inner c p as bs) = length as"
  by (induction c p as bs rule: mul_inner.induct) (simp_all add: Let_def)

lemma length_or_at [simp]: "length (or_at i w pn) = length pn"
  by (simp add: or_at_def)

lemma nth_or_at:
  "j < length pn \<Longrightarrow> or_at i w pn ! j = (if i = j then pn ! j OR w else pn ! j)"
  by (simp add: or_at_def nth_list_update)

lemma length_fold_same:
  "(\<And>i x. length (f i x) = length x) \<Longrightarrow> length (fold f is x) = length x"
  by (induction "is" arbitrary: x) simp_all

lemma length_shl_step [simp]: "length (shl_step a k s i pn) = length pn"
  by (simp add: shl_step_def Let_def)

lemma length_shr_step [simp]: "length (shr_step a k s i pn) = length pn"
  by (simp add: shr_step_def Let_def)

lemma length_mul_row [simp]: "length (mul_row pn b j a) = length a"
  by (simp add: mul_row_def)

lemma length_base_uint_shl [simp]: "length (base_uint_shl a s) = length a"
  by (simp add: base_uint_shl_def length_fold_same)

lemma length_base_uint_shr [simp]: "length (base_uint_shr a s) = length a"
  by (simp add: base_uint_shr_def length_fold_same)

lemma length_base_uint_mul [simp]: "length (base_uint_mul a b) = length a"
  by (simp add: base_uint_mul_def length_fold_same)

lemma length_base_uint_ops [simp]:
  "length base_uint_zero = WIDTH"
  "length (base_uint_of_u64 w) = WIDTH"
  "length (base_uint_not a) = length a"
  "length (base_uint_neg a) = length a"
  "length (base_uint_add a b) = min (length a) (length b)"
  "length (base_uint_sub a b) = min (length a) (length b)"
  "length (base_uint_mul32 a m) = length a"
  by (simp_all add: base_uint_zero_def base_uint_of_u64_def base_uint_not_def base_uint_neg_def
      base_uint_add_def base_uint_sub_def base_uint_mul32_def WIDTH_8)

lemma length_div_loop [simp]: "length (div_loop k num d pn) = length pn"
  by (induction k num d pn rule: div_loop.induct) (simp_all add: Let_def split: prod.split)

lemma length_base_uint_div: "base_uint_div a b = Inr q \<Longrightarrow> length q = length a"
  by (auto simp: base_uint_div_def Let_def simp del: div_loop.simps split: if_splits)

subsection \<open>Addition, negation and subtraction on numbers\<close>

lemma low_high_split:
  fixes n M :: nat
  shows "n mod 2 ^ 32 + 2 ^ 32 * ((n div 2 ^ 32 + r) mod 2 ^ k) = (n + 2 ^ 32 * r) mod 2 ^ (32 + k)"
proof -
  have "(n + 2 ^ 32 * r) mod (2 ^ 32 * 2 ^ k)
      = 2 ^ 32 * ((n + 2 ^ 32 * r) div 2 ^ 32 mod 2 ^ k) + (n + 2 ^ 32 * r) mod 2 ^ 32"
    by (rule mod_mult2_eq)
  then show ?thesis by (simp only: power_add) (simp add: add.commute)
qed

lemma nval_add_loop:
  "length ps = length bs \<Longrightarrow> unat c < 2 ^ 32 \<Longrightarrow>
   nval (add_loop c ps bs) = (unat c + nval ps + nval bs) mod 2 ^ (32 * length ps)"
proof (induction c ps bs rule: add_loop.induct)
  case (1 carry p ps b bs)
  let ?n = "carry + ucast p + ucast b :: u64"
  have n: "unat ?n = unat carry + unat p + unat b"
    using 1(3) unat_u32_less [of p] unat_u32_less [of b] by (subst unat_add64_3) simp_all
  then have "unat (drop_bit 32 ?n) < 2 ^ 32"
    using 1(3) unat_u32_less [of p] unat_u32_less [of b] by simp
  then have "nval (add_loop (drop_bit 32 ?n) ps bs)
      = (unat ?n div 2 ^ 32 + (nval ps + nval bs)) mod 2 ^ (32 * length ps)"
    using 1 by (simp add: add.assoc)
  then have "nval (add_loop carry (p # ps) (b # bs))
      = (unat ?n + 2 ^ 32 * (nval ps + nval bs)) mod 2 ^ (32 + 32 * length ps)"
    by (simp only: add_loop.simps Let_def nval.simps unat_low32 low_high_split)
  then show ?case unfolding n by (simp add: algebra_simps del: add_loop.simps)
qed simp_all

lemma nval_base_uint_add:
  "length a = length b \<Longrightarrow>
   nval (base_uint_add a b) = (nval a + nval b) mod 2 ^ (32 * length a)"
  by (simp add: base_uint_add_def nval_add_loop)

lemma nval_not: "nval (map NOT ps) + nval ps + 1 = 2 ^ (32 * length ps)"
proof (induction ps)
  case (Cons p ps)
  have "unat (NOT p) + unat p = 2 ^ 32 - 1"
    using unat_u32_less [of p] by (simp add: unat_NOT32)
  then show ?case using Cons.IH by (simp add: power_add algebra_simps)
qed simp

lemma nval_base_uint_inc:
  "nval (base_uint_inc ps) = (nval ps + 1) mod 2 ^ (32 * length ps)"
proof (induction ps)
  case (Cons p ps)
  show ?case
  proof (cases "p + 1 = 0")
    case True
    then have "p = - 1" by (simp add: eq_neg_iff_add_eq_0)
    then have p: "unat p = 2 ^ 32 - 1"
      by (simp add: unsigned_minus_1_eq_mask mask_eq_exp_minus_1)
    have "(nval (p # ps) + 1) mod 2 ^ (32 + 32 * length ps)
        = (2 ^ 32 * (nval ps + 1)) mod (2 ^ 32 * 2 ^ (32 * length ps))"
      by (simp add: p power_add)
    then show ?thesis using True Cons.IH by (simp add: Let_def mult_mod_right)
  next
    case False
    then have u: "unat (p + 1) = unat p + 1"
      using unatSuc [of p] by (simp add: add.commute)
    have "nval (p # ps) + 1 = nval ((p + 1) # ps)" by (simp add: u)
    then show ?thesis using False nval_less [of "(p + 1) # ps"] by (simp add: Let_def)
  qed
qed simp

lemma nval_base_uint_neg:
  "nval (base_uint_neg b) = (2 ^ (32 * length b) - nval b) mod 2 ^ (32 * length b)"
proof -
  have "nval (map NOT b) + 1 = 2 ^ (32 * length b) - nval b"
    using nval_not [of b] by linarith
  then show ?thesis by (simp only: base_uint_neg_def nval_base_uint_inc length_map)
qed

lemma mod_add_complement:
  fixes a b M :: nat
  assumes "b \<le> M" "a < M"
  shows "(a + (M - b) mod M) mod M = (if b \<le> a then a - b else M + a - b)"
proof (cases "b \<le> a")
  case True
  have "(a + (M - b) mod M) mod M = (a + (M - b)) mod M" by (simp add: mod_add_right_eq)
  also have "a + (M - b) = M + (a - b)" using True assms by simp
  also have "(M + (a - b)) mod M = a - b" using assms by (simp only: mod_add_self1) simp
  finally show ?thesis using True by simp
next
  case False
  have "(a + (M - b) mod M) mod M = (a + (M - b)) mod M" by (simp add: mod_add_right_eq)
  then show ?thesis using False assms by simp
qed

lemma nval_base_uint_sub:
  assumes "length a = length b"
  shows "nval (base_uint_sub a b) =
    (if nval b \<le> nval a then nval a - nval b else 2 ^ (32 * length a) + nval a - nval b)"
  using assms nval_less [of a] nval_less [of b]
  by (simp add: base_uint_sub_def nval_base_uint_add nval_base_uint_neg mod_add_complement)

lemma nval_base_uint_dec:
  "nval (base_uint_dec ps) = (nval ps + 2 ^ (32 * length ps) - 1) mod 2 ^ (32 * length ps)"
proof (induction ps)
  case (Cons p ps)
  show ?case
  proof (cases "p = 0")
    case True
    obtain m where m: "2 ^ (32 * length ps) = Suc m"
      by (metis not0_implies_Suc power_not_zero zero_neq_numeral)
    have "(- 1 :: u32) = 0xffffffff" by simp
    moreover have "nval (p # ps) + 2 ^ (32 * length (p # ps)) - 1
        = 2 ^ 32 - 1 + 2 ^ 32 * (nval ps + 2 ^ (32 * length ps) - 1)"
      using True by (simp add: power_add m)
    ultimately show ?thesis
      using True Cons.IH low_high_split [of "2 ^ 32 - 1" "nval ps + 2 ^ (32 * length ps) - 1"]
      by (simp add: Let_def unsigned_minus_1_eq_mask mask_eq_exp_minus_1)
  next
    case False
    then have u: "unat (p - 1) = unat p - 1" "0 < unat p"
      by (simp_all add: unat_minus_one unat_gt_0)
    have "p - 1 \<noteq> 0xffffffff"
    proof
      assume "p - 1 = 0xffffffff"
      then have "unat (p - 1) = unat (0xffffffff :: u32)" by (rule arg_cong)
      then have "unat p - 1 = 4294967295" unfolding u by simp
      then show False using unat_u32_less [of p] by simp
    qed
    moreover have "nval (p # ps) + 2 ^ (32 * length (p # ps)) - 1
        = nval ((p - 1) # ps) + 2 ^ (32 * length (p # ps))"
      using u by simp
    ultimately show ?thesis using nval_less [of "(p - 1) # ps"] by (simp add: Let_def)
  qed
qed simp

subsection \<open>Multiplication on numbers\<close>

lemma mul_step_bound:
  fixes c a p b :: nat
  assumes "c < 2 ^ 32" "a < 2 ^ 32" "p < 2 ^ 32" "b < 2 ^ 32"
  shows "c + a + p * b < 2 ^ 64"
proof -
  have "p * b \<le> (2 ^ 32 - 1) * (2 ^ 32 - 1)"
    using assms by (intro mult_le_mono) simp_all
  then show ?thesis using assms by simp
qed

lemma unat_mul_step:
  assumes "unat (c::u64) < 2 ^ 32"
  shows "unat (c + ucast (a::u32) + ucast (p::u32) * ucast (b::u32)) = unat c + unat a + unat p * unat b"
proof -
  have b: "unat c + unat a + unat p * unat b < 2 ^ 64"
    by (rule mul_step_bound [OF assms]) (rule unat_u32_less)+
  then have m: "unat (ucast p * ucast b :: u64) = unat p * unat b"
    by (subst unat_mult64) simp_all
  show ?thesis using b by (subst unat_add64_3) (simp_all add: m)
qed

lemma nval_mul_inner:
  "length as \<le> length bs \<Longrightarrow> unat c < 2 ^ 32 \<Longrightarrow>
   nval (mul_inner c p as bs) = (unat c + nval as + unat p * nval bs) mod 2 ^ (32 * length as)"
proof (induction c p as bs rule: mul_inner.induct)
  case (1 carry p a as b bs)
  let ?n = "carry + ucast a + ucast p * ucast b :: u64"
  have n: "unat ?n = unat carry + unat a + unat p * unat b"
    by (rule unat_mul_step [OF 1(3)])
  have "unat ?n < 2 ^ 64" by (rule unat_u64_less)
  then have "unat (drop_bit 32 ?n) < 2 ^ 32" by (simp only: unat_high32) simp
  then have "nval (mul_inner (drop_bit 32 ?n) p as bs)
      = (unat ?n div 2 ^ 32 + (nval as + unat p * nval bs)) mod 2 ^ (32 * length as)"
    using 1 by (simp add: add.assoc)
  then have "nval (mul_inner carry p (a # as) (b # bs))
      = (unat ?n + 2 ^ 32 * (nval as + unat p * nval bs)) mod 2 ^ (32 + 32 * length as)"
    by (simp only: mul_inner.simps Let_def nval.simps unat_low32 low_high_split)
  then show ?case unfolding n by (simp add: algebra_simps del: mul_inner.simps)
qed simp_all

lemma nval_mul32_loop:
  "unat c < 2 ^ 32 \<Longrightarrow>
   nval (mul32_loop c b ps) = (unat c + unat b * nval ps) mod 2 ^ (32 * length ps)"
proof (induction c b ps rule: mul32_loop.induct)
  case (1 carry b p ps)
  let ?n = "carry + ucast b * ucast p :: u64"
  have n: "unat ?n = unat carry + unat b * unat p"
    using unat_mul_step [OF 1(2), of 0 b p] by simp
  have "unat ?n < 2 ^ 64" by (rule unat_u64_less)
  then have "unat (drop_bit 32 ?n) < 2 ^ 32" by (simp only: unat_high32) simp
  then have "nval (mul32_loop (drop_bit 32 ?n) b ps)
      = (unat ?n div 2 ^ 32 + unat b * nval ps) mod 2 ^ (32 * length ps)"
    using 1 by simp
  then have "nval (mul32_loop carry b (p # ps))
      = (unat ?n + 2 ^ 32 * (unat b * nval ps)) mod 2 ^ (32 + 32 * length ps)"
    by (simp only: mul32_loop.simps Let_def nval.simps unat_low32 low_high_split)
  then show ?case unfolding n by (simp add: algebra_simps del: mul32_loop.simps)
qed simp

lemma nval_base_uint_mul32:
  "nval (base_uint_mul32 a m) = (nval a * unat m) mod 2 ^ (32 * length a)"
  by (simp add: base_uint_mul32_def nval_mul32_loop mult.commute)

lemma nval_take_Suc: "j < length xs \<Longrightarrow>
   nval (take (Suc j) xs) = nval (take j xs) + 2 ^ (32 * j) * unat (xs ! j)"
  by (simp add: take_Suc_conv_app_nth nval_append)

lemma mod_low_part: "(x::nat) < J \<Longrightarrow> (x + J * y) mod (J * R) = x + J * (y mod R)"
  by (simp add: mod_mult2_eq)

lemma nval_mul_row:
  assumes "length a = length b" "j < length a"
  shows "nval (mul_row pn b j a) = (nval a + 2 ^ (32 * j) * (unat (pn ! j) * nval b)) mod 2 ^ (32 * length a)"
proof -
  let ?J = "2 ^ (32 * j) :: nat" and ?R = "2 ^ (32 * (length a - j)) :: nat"
  have low: "nval (take j a) < ?J"
    using nval_less [of "take j a"] assms by simp
  have split: "nval a = nval (take j a) + ?J * nval (drop j a)"
    using nval_append [of "take j a" "drop j a"] assms by simp
  have M: "2 ^ (32 * length a) = ?J * ?R"
    using assms by (simp flip: power_add distrib_left)
  have "nval (mul_row pn b j a)
      = nval (take j a) + ?J * ((nval (drop j a) + unat (pn ! j) * nval b) mod ?R)"
    using assms by (simp add: mul_row_def nval_append nval_mul_inner)
  also have "\<dots> = (nval (take j a) + ?J * (nval (drop j a) + unat (pn ! j) * nval b)) mod (?J * ?R)"
    using low by (simp add: mod_low_part)
  finally show ?thesis unfolding M by (simp add: split algebra_simps)
qed

lemma nval_mul_rows:
  assumes "length pn = length b" "m \<le> length pn"
  shows "nval (fold (mul_row pn b) [0..<m] (replicate (length pn) 0))
    = (nval (take m pn) * nval b) mod 2 ^ (32 * length pn)"
  using assms(2)
proof (induction m)
  case (Suc m)
  let ?a = "fold (mul_row pn b) [0..<m] (replicate (length pn) 0)"
  have len: "length ?a = length pn" by (simp add: length_fold_same)
  have "nval (mul_row pn b m ?a)
      = (nval ?a + 2 ^ (32 * m) * (unat (pn ! m) * nval b)) mod 2 ^ (32 * length pn)"
    using nval_mul_row [of ?a b m pn] len assms Suc.prems by simp
  also have "\<dots> = (nval (take m pn) * nval b + 2 ^ (32 * m) * (unat (pn ! m) * nval b))
      mod 2 ^ (32 * length pn)"
    using Suc by (simp add: mod_add_left_eq)
  also have "nval (take m pn) * nval b + 2 ^ (32 * m) * (unat (pn ! m) * nval b)
      = nval (take (Suc m) pn) * nval b"
    using Suc.prems by (simp add: nval_take_Suc algebra_simps)
  finally show ?case by simp
qed simp

lemma nval_base_uint_mul:
  "length a = length b \<Longrightarrow> nval (base_uint_mul a b) = (nval a * nval b) mod 2 ^ (32 * length a)"
  using nval_mul_rows [of a b "length a"] by (simp add: base_uint_mul_def)

subsection \<open>Shifts on numbers\<close>

lemma shl_step_nth:
  assumes "j < length a" "length pn = length a"
  shows "shl_step a k s i pn ! j =
    (pn ! j OR (if i + k + 1 = j \<and> s \<noteq> 0 then drop_bit (32 - s) (a ! i) else 0))
            OR (if i + k = j then push_bit s (a ! i) else 0)"
  using assms by (auto simp: shl_step_def Let_def nth_or_at)

lemma shl_fold_digit:
  assumes "j < length a" "m \<le> length a"
  shows "fold (shl_step a k s) [0..<m] (replicate (length a) 0) ! j =
    (if k + 1 \<le> j \<and> j - k - 1 < m \<and> s \<noteq> 0 then drop_bit (32 - s) (a ! (j - k - 1)) else 0)
     OR (if k \<le> j \<and> j - k < m then push_bit s (a ! (j - k)) else 0)"
  using assms(2)
proof (induction m)
  case 0
  then show ?case using assms by simp
next
  case (Suc m)
  let ?x = "fold (shl_step a k s) [0..<m] (replicate (length a) 0)"
  have "length ?x = length a" by (simp add: length_fold_same)
  then have "shl_step a k s m ?x ! j =
    (?x ! j OR (if m + k + 1 = j \<and> s \<noteq> 0 then drop_bit (32 - s) (a ! m) else 0))
            OR (if m + k = j then push_bit s (a ! m) else 0)"
    using assms(1) by (intro shl_step_nth) simp_all
  moreover have "m < length a" using Suc.prems by simp
  moreover have "m + k + 1 = j \<longleftrightarrow> k + 1 \<le> j \<and> j - k - 1 = m" "m + k = j \<longleftrightarrow> k \<le> j \<and> j - k = m"
    by auto
  ultimately show ?case using Suc.IH
    by (auto simp: ac_simps less_Suc_eq)
qed

lemma bit_nval_digit: "r < 32 \<Longrightarrow> bit (nval a) (32 * j + r) \<longleftrightarrow> j < length a \<and> bit (a ! j) r"
  by (simp add: bit_nval)

lemma bit_base_uint_shl:
  assumes "i < 32 * length a"
  shows "bit (nval (base_uint_shl a sh)) i \<longleftrightarrow> sh \<le> i \<and> bit (nval a) (i - sh)"
proof -
  define k s j r where defs: "k = sh div 32" "s = sh mod 32" "j = i div 32" "r = i mod 32"
  have s: "s < 32" and r: "r < 32" and sh: "sh = 32 * k + s" and i: "i = 32 * j + r" and j: "j < length a"
    using assms by (simp_all add: defs)
  have d: "base_uint_shl a sh ! j =
    (if k + 1 \<le> j \<and> s \<noteq> 0 then drop_bit (32 - s) (a ! (j - k - 1)) else 0)
     OR (if k \<le> j then push_bit s (a ! (j - k)) else 0)"
    using j shl_fold_digit [of j a "length a" k s] by (auto simp: base_uint_shl_def defs)
  have "bit (nval (base_uint_shl a sh)) i \<longleftrightarrow> bit (base_uint_shl a sh ! j) r"
    using j by (simp add: bit_nval defs)
  also have "\<dots> \<longleftrightarrow> (k + 1 \<le> j \<and> r < s \<and> bit (a ! (j - k - 1)) (32 - s + r))
      \<or> (k \<le> j \<and> s \<le> r \<and> bit (a ! (j - k)) (r - s))"
    using r s by (auto simp: d bit_or_iff bit_drop_bit_eq bit_push_bit_iff dest: bit_imp_le_length)
  also have "\<dots> \<longleftrightarrow> sh \<le> i \<and> bit (nval a) (i - sh)"
  proof (cases "s \<le> r")
    case True
    then have "i - sh = 32 * (j - k) + (r - s)" if "k \<le> j"
      using that by (simp add: i sh diff_mult_distrib2)
    moreover have "sh \<le> i \<longleftrightarrow> k \<le> j" using True s r by (auto simp: i sh)
    moreover have "r - s < 32" using r by simp
    ultimately show ?thesis using True j bit_nval_digit [of "r - s" a "j - k"] by auto
  next
    case False
    then have "i - sh = 32 * (j - k - 1) + (32 - s + r)" if "k + 1 \<le> j"
      using that s by (simp add: i sh diff_mult_distrib2)
    moreover have "sh \<le> i \<longleftrightarrow> k + 1 \<le> j" using False s r by (auto simp: i sh)
    moreover have "32 - s + r < 32" using False s by simp
    ultimately show ?thesis using False j bit_nval_digit [of "32 - s + r" a "j - k - 1"] by auto
  qed
  finally show ?thesis .
qed

lemma nval_base_uint_shl: "nval (base_uint_shl a sh) = (nval a * 2 ^ sh) mod 2 ^ (32 * length a)"
proof -
  have "nval (base_uint_shl a sh) = take_bit (32 * length a) (push_bit sh (nval a))"
  proof (rule bit_eqI)
    fix i
    show "bit (nval (base_uint_shl a sh)) i \<longleftrightarrow> bit (take_bit (32 * length a) (push_bit sh (nval a))) i"
    proof (cases "i < 32 * length a")
      case True
      then show ?thesis by (simp add: bit_base_uint_shl bit_take_bit_iff bit_push_bit_iff)
    next
      case False
      then show ?thesis
        using nval_less [of "base_uint_shl a sh"] by (simp add: bit_take_bit_iff not_bit_if_less_exp)
    qed
  qed
  then show ?thesis by (simp add: take_bit_eq_mod push_bit_eq_mult)
qed

lemma shr_step_nth:
  assumes "j < length a" "length pn = length a"
  shows "shr_step a k s i pn ! j =
    (pn ! j OR (if i = j + k + 1 \<and> s \<noteq> 0 then push_bit (32 - s) (a ! i) else 0))
            OR (if i = j + k then drop_bit s (a ! i) else 0)"
  using assms by (auto simp: shr_step_def Let_def nth_or_at)

lemma shr_fold_digit:
  assumes "j < length a" "m \<le> length a"
  shows "fold (shr_step a k s) [0..<m] (replicate (length a) 0) ! j =
    (if j + k + 1 < m \<and> s \<noteq> 0 then push_bit (32 - s) (a ! (j + k + 1)) else 0)
     OR (if j + k < m then drop_bit s (a ! (j + k)) else 0)"
  using assms(2)
proof (induction m)
  case 0
  then show ?case using assms by simp
next
  case (Suc m)
  let ?x = "fold (shr_step a k s) [0..<m] (replicate (length a) 0)"
  have "length ?x = length a" by (simp add: length_fold_same)
  then have "shr_step a k s m ?x ! j =
    (?x ! j OR (if m = j + k + 1 \<and> s \<noteq> 0 then push_bit (32 - s) (a ! m) else 0))
            OR (if m = j + k then drop_bit s (a ! m) else 0)"
    using assms(1) by (intro shr_step_nth) simp_all
  then show ?case using Suc
    by (cases "m = j + k + 1"; cases "m = j + k") (auto simp: ac_simps less_Suc_eq)
qed

lemma nval_base_uint_shr: "nval (base_uint_shr a sh) = nval a div 2 ^ sh"
proof -
  have "nval (base_uint_shr a sh) = drop_bit sh (nval a)"
  proof (rule bit_eqI)
    fix i
    define k s j r :: nat where defs: "k = sh div 32" "s = sh mod 32" "j = i div 32" "r = i mod 32"
    have s: "s < 32" and r: "r < 32" and sh: "sh = 32 * k + s" and i: "i = 32 * j + r"
      by (simp_all add: defs)
    show "bit (nval (base_uint_shr a sh)) i \<longleftrightarrow> bit (drop_bit sh (nval a)) i"
    proof (cases "j < length a")
      case True
      have "base_uint_shr a sh ! j =
        (if j + k + 1 < length a \<and> s \<noteq> 0 then push_bit (32 - s) (a ! (j + k + 1)) else 0)
         OR (if j + k < length a then drop_bit s (a ! (j + k)) else 0)"
        using True shr_fold_digit [of j a "length a" k s] by (simp add: base_uint_shr_def defs)
      then have "bit (nval (base_uint_shr a sh)) i \<longleftrightarrow>
          (j + k + 1 < length a \<and> 32 \<le> s + r \<and> bit (a ! (j + k + 1)) (s + r - 32))
          \<or> (j + k < length a \<and> s + r < 32 \<and> bit (a ! (j + k)) (s + r))"
        using True r s
        by (auto simp: bit_nval bit_or_iff bit_drop_bit_eq bit_push_bit_iff ac_simps
            simp flip: defs dest: bit_imp_le_length)
      moreover have "bit (drop_bit sh (nval a)) i \<longleftrightarrow> bit (nval a) (32 * (j + k) + (s + r))"
        by (simp add: bit_drop_bit_eq i sh ac_simps)
      moreover have "bit (nval a) (32 * (j + k) + (s + r)) \<longleftrightarrow> j + k + 1 < length a \<and> bit (a ! (j + k + 1)) (s + r - 32)"
        if "32 \<le> s + r"
      proof -
        have "32 * (j + k) + (s + r) = 32 * (j + k + 1) + (s + r - 32)" using that by simp
        moreover have "s + r - 32 < 32" using r s by simp
        ultimately show ?thesis using bit_nval_digit [of "s + r - 32" a "j + k + 1"] by (simp only:)
      qed
      ultimately show ?thesis
        using bit_nval_digit [of "s + r" a "j + k"] by (cases "32 \<le> s + r") auto
    next
      case False
      then have "32 * length a \<le> i" "32 * length a \<le> sh + i" by (auto simp: i)
      then show ?thesis using nval_less [of a] nval_less [of "base_uint_shr a sh"]
        by (auto simp: bit_drop_bit_eq not_bit_if_less_exp)
    qed
  qed
  then show ?thesis by (simp add: drop_bit_eq_div)
qed

subsection \<open>Comparison and bit length on numbers\<close>

lemma nval_Cons_rev: "nval (rev (p # ps)) = nval (rev ps) + 2 ^ (32 * length ps) * unat p"
  by (simp add: nval_append)

lemma high_digit_less:
  fixes x y M :: nat
  assumes "p < q" "x < M"
  shows "x + M * p < y + M * q"
proof -
  have "x + M * p < M * Suc p" using assms by simp
  also have "\<dots> \<le> M * q" using assms by (intro mult_le_mono2) simp
  finally show ?thesis by simp
qed

lemma compare_down_nval:
  "length ps = length bs \<Longrightarrow>
   compare_down ps bs = (if nval (rev ps) < nval (rev bs) then - 1
     else if nval (rev ps) > nval (rev bs) then 1 else 0)"
proof (induction ps bs rule: compare_down.induct)
  case (1 p ps b bs)
  have len: "length ps = length bs" using 1 by simp
  have lt: "nval (rev xs) < 2 ^ (32 * length xs)" for xs
    using nval_less [of "rev xs"] by simp
  consider "p < b" | "b < p" | "p = b" by (rule linorder_cases)
  then show ?case
  proof cases
    case a: 1
    then have "nval (rev (p # ps)) < nval (rev (b # bs))"
      unfolding nval_Cons_rev len
      using lt [of ps] by (intro high_digit_less) (simp_all add: word_less_nat_alt len)
    then show ?thesis using a by (simp del: rev.simps)
  next
    case a: 2
    then have "nval (rev (b # bs)) < nval (rev (p # ps))"
      unfolding nval_Cons_rev len
      using lt [of bs] by (intro high_digit_less) (simp_all add: word_less_nat_alt)
    then show ?thesis using a by (simp del: rev.simps)
  next
    case 3
    then show ?thesis using 1 len by (simp only: nval_Cons_rev) simp
  qed
qed auto

lemma CompareTo_nval:
  "length a = length b \<Longrightarrow>
   CompareTo a b = (if nval a < nval b then - 1 else if nval a > nval b then 1 else 0)"
  by (simp add: CompareTo_def compare_down_nval)

fun nbits :: "nat \<Rightarrow> nat" where
  "nbits n = (if n = 0 then 0 else Suc (nbits (n div 2)))"

declare nbits.simps [simp del]

lemma nbits_0 [simp]: "nbits 0 = 0"
  by (simp add: nbits.simps)

lemma less_exp_nbits: "n < 2 ^ nbits n"
  by (induction n rule: nbits.induct) (subst nbits.simps, auto)

lemma exp_nbits_le: "0 < n \<Longrightarrow> 2 ^ (nbits n - 1) \<le> n"
proof (induction n rule: nbits.induct)
  case (1 n)
  show ?case
  proof (cases "n div 2 = 0")
    case True
    then show ?thesis using 1 by (simp add: nbits.simps [of n])
  next
    case False
    then have "2 ^ (nbits (n div 2) - 1) \<le> n div 2" using 1 by simp
    moreover have "nbits (n div 2) \<noteq> 0" using False by (simp add: nbits.simps [of "n div 2"])
    ultimately show ?thesis using 1 by (subst nbits.simps) (cases "nbits (n div 2)", auto)
  qed
qed

lemma nbits_eq_0_iff [simp]: "nbits n = 0 \<longleftrightarrow> n = 0"
  by (subst nbits.simps) simp

lemma nbits_eqI: "2 ^ k \<le> n \<Longrightarrow> n < 2 ^ Suc k \<Longrightarrow> nbits n = Suc k"
proof -
  assume k: "2 ^ k \<le> n" "n < 2 ^ Suc k"
  then have n: "0 < n" by (metis not_gr_zero not_less power_eq_0_iff zero_neq_numeral le_0_eq)
  have "2 ^ k < (2::nat) ^ nbits n" using k(1) less_exp_nbits [of n] by (rule le_less_trans)
  then have "k < nbits n" by simp
  moreover have "(2::nat) ^ (nbits n - 1) < 2 ^ Suc k" using exp_nbits_le [OF n] k(2) by (rule le_less_trans)
  then have "nbits n - 1 < Suc k" by (simp only: power_strict_increasing_iff)
  ultimately show "nbits n = Suc k" by simp
qed

lemma nbits_le_iff: "nbits n \<le> k \<longleftrightarrow> n < 2 ^ k"
proof
  assume "nbits n \<le> k"
  then have "(2::nat) ^ nbits n \<le> 2 ^ k" by simp
  then show "n < 2 ^ k" by (rule less_le_trans [OF less_exp_nbits])
next
  assume n: "n < 2 ^ k"
  show "nbits n \<le> k"
  proof (cases "n = 0")
    case False
    then have "(2::nat) ^ (nbits n - 1) < 2 ^ k" by (intro le_less_trans [OF exp_nbits_le n]) simp
    then have "nbits n - 1 < k" by (simp only: power_strict_increasing_iff)
    then show ?thesis by simp
  qed simp
qed

lemma nbits_mono: "m \<le> n \<Longrightarrow> nbits m \<le> nbits n"
  by (metis le_less_trans less_exp_nbits nbits_le_iff)

lemma nbits_shifted: "x < 2 ^ k \<Longrightarrow> 0 < y \<Longrightarrow> nbits (x + 2 ^ k * y) = k + nbits y"
proof -
  assume x: "x < 2 ^ k" and y: "0 < y"
  obtain m where m: "nbits y = Suc m" using y by (cases "nbits y") auto
  have "2 ^ m \<le> y" "y < 2 ^ Suc m" using exp_nbits_le [OF y] less_exp_nbits [of y] m by auto
  then have "2 ^ k * 2 ^ m \<le> x + 2 ^ k * y" "x + 2 ^ k * y < 0 + 2 ^ k * 2 ^ Suc m"
    using x by (intro trans_le_add2 mult_le_mono2 high_digit_less; simp)+
  then show ?thesis using nbits_eqI [of "k + m" "x + 2 ^ k * y"] by (simp add: power_add m)
qed

lemma and_exp_bit: "(p::u32) AND push_bit m 1 \<noteq> 0 \<longleftrightarrow> bit p m"
  by (simp add: push_bit_eq_mult and_exp_eq_0_iff_not_bit)

lemma digit_bits_nbits:
  "p \<noteq> 0 \<Longrightarrow> unat p < 2 ^ Suc n \<Longrightarrow> digit_bits p n = nbits (unat p)"
proof (induction n)
  case 0
  then have "unat p = 1" using unat_gt_0 [of p] by simp
  then show ?case by (simp add: nbits.simps)
next
  case (Suc n)
  show ?case
  proof (cases "bit p (Suc n)")
    case True
    then have "bit (unat p) (Suc n)" by (simp add: bit_unsigned_iff)
    then have "2 ^ Suc n \<le> unat p"
      using not_bit_if_less_exp [of "unat p" "Suc n" "Suc n"] by (meson le_refl not_le)
    then have "nbits (unat p) = Suc (Suc n)" using Suc.prems by (intro nbits_eqI)
    then show ?thesis using True and_exp_bit [of p "Suc n"] by simp
  next
    case False
    have "unat p < 2 ^ Suc n"
    proof (rule less_exp_if_no_bit)
      fix i assume "Suc n \<le> i"
      then show "\<not> bit (unat p) i"
        using False not_bit_if_less_exp [OF Suc.prems(2), of i]
        by (cases "i = Suc n") (auto simp: bit_unsigned_iff)
    qed
    then show ?thesis using False Suc and_exp_bit [of p "Suc n"] by simp
  qed
qed

lemma bits_loop_nbits: "m \<le> length pn \<Longrightarrow> bits_loop pn m = nbits (nval (take m pn))"
proof (induction m)
  case (Suc m)
  have d: "nval (take (Suc m) pn) = nval (take m pn) + 2 ^ (32 * m) * unat (pn ! m)"
    using Suc.prems by (simp add: nval_take_Suc)
  show ?case
  proof (cases "pn ! m = 0")
    case True
    then show ?thesis using Suc d by simp
  next
    case False
    moreover have "nval (take m pn) < 2 ^ (32 * m)"
      using nval_less [of "take m pn"] Suc.prems by simp
    moreover have "digit_bits (pn ! m) 31 = nbits (unat (pn ! m))"
      using False unat_u32_less [of "pn ! m"] by (intro digit_bits_nbits) simp_all
    ultimately show ?thesis using d by (simp add: nbits_shifted unat_gt_0)
  qed
qed simp

lemma base_uint_bits_nval: "base_uint_bits a = nbits (nval a)"
  by (simp add: base_uint_bits_def bits_loop_nbits)
subsection \<open>Division on numbers\<close>

lemma nval_set_bit:
  assumes s: "s < 32 * length pn" and nb: "\<not> bit (nval pn) s"
  shows "nval (or_at (s div 32) (push_bit (s mod 32) 1) pn) = nval pn + 2 ^ s"
proof -
  have len: "s div 32 < length pn" using s by simp
  have "nval (or_at (s div 32) (push_bit (s mod 32) 1) pn) = nval pn OR 2 ^ s"
  proof (rule bit_eqI)
    fix i
    have "i div 32 = s div 32 \<and> i mod 32 = s mod 32 \<longleftrightarrow> i = s"
      by (metis div_mult_mod_eq)
    then show "bit (nval (or_at (s div 32) (push_bit (s mod 32) 1) pn)) i \<longleftrightarrow> bit (nval pn OR 2 ^ s) i"
      using len
      by (auto simp: bit_nval nth_or_at bit_or_iff bit_push_bit_iff bit_1_iff bit_exp_iff
          split: if_splits)
  qed
  moreover have "nval pn AND 2 ^ s = 0" using nb by (simp add: and_exp_eq_0_iff_not_bit)
  ultimately show ?thesis by (simp add: disjunctive_add_eq_or)
qed

lemma nval_div_loop:
  assumes "0 < B"
  shows "length num = W \<Longrightarrow> length d = W \<Longrightarrow> length pn = W \<Longrightarrow> k \<le> 32 * W \<Longrightarrow>
    (0 < k \<longrightarrow> nval d = B * 2 ^ (k - 1)) \<Longrightarrow> nval num < B * 2 ^ k \<Longrightarrow> 2 ^ k dvd nval pn \<Longrightarrow>
    nval (div_loop k num d pn) = nval pn + nval num div B"
proof (induction k arbitrary: num d pn)
  case (Suc s)
  have d: "nval d = B * 2 ^ s" using Suc.prems by simp
  have d': "0 < s \<longrightarrow> nval (base_uint_shr d 1) = B * 2 ^ (s - 1)"
    by (cases s) (simp_all add: nval_base_uint_shr d)
  have dvd: "2 ^ s dvd nval pn"
    using Suc.prems(7) by (rule dvd_trans [rotated]) (simp add: le_imp_power_dvd)
  show ?case
  proof (cases "nval d \<le> nval num")
    case True
    let ?num = "base_uint_sub num d" and ?pn = "or_at (s div 32) (push_bit (s mod 32) 1) pn"
    have nb: "\<not> bit (nval pn) s" using Suc.prems(7) by (auto simp: bit_iff_odd elim!: dvdE)
    have pn: "nval ?pn = nval pn + 2 ^ s" using Suc.prems nb by (intro nval_set_bit) simp_all
    have num: "nval ?num = nval num - B * 2 ^ s"
      using True Suc.prems d by (simp add: nval_base_uint_sub)
    have "nval (div_loop s ?num (base_uint_shr d 1) ?pn) = nval ?pn + nval ?num div B"
      using Suc.prems True d dvd d' by (intro Suc.IH) (simp_all add: num pn del: push_bit_of_1)
    moreover have "nval num div B = 2 ^ s + nval ?num div B"
      using True assms d by (simp add: num div_add_self1 [symmetric] le_add_diff_inverse flip: div_mult_self3)
    moreover have "CompareTo num d \<ge> 0" using True Suc.prems by (simp add: CompareTo_nval)
    ultimately show ?thesis by (simp add: pn Let_def del: push_bit_of_1)
  next
    case False
    then have "CompareTo num d < 0" using Suc.prems by (simp add: CompareTo_nval)
    moreover have "nval (div_loop s num (base_uint_shr d 1) pn) = nval pn + nval num div B"
      using Suc.prems False d dvd d' by (intro Suc.IH) simp_all
    ultimately show ?thesis by (simp add: Let_def)
  qed
qed simp

theorem base_uint_div_correct:
  assumes "length a = length b" "nval b \<noteq> 0"
  shows "\<exists>q. base_uint_div a b = Inr q \<and> length q = length a \<and> nval q = nval a div nval b"
proof (cases "nbits (nval b) > nbits (nval a)")
  case True
  then have "nval a < nval b" by (metis nbits_mono not_le)
  then show ?thesis using True assms by (simp add: base_uint_div_def base_uint_bits_nval Let_def)
next
  case False
  define shift where "shift = nbits (nval a) - nbits (nval b)"
  have nb: "nbits (nval b) + shift = nbits (nval a)" using False by (simp add: shift_def)
  have na: "nbits (nval a) \<le> 32 * length a" by (simp add: nbits_le_iff nval_less)
  have sh: "Suc shift \<le> 32 * length a"
    using nb na assms(2) by (cases "nbits (nval b)") simp_all
  have "nval b * 2 ^ shift < 2 ^ nbits (nval b) * 2 ^ shift"
    using less_exp_nbits [of "nval b"] by simp
  also have "\<dots> = 2 ^ nbits (nval a)" by (simp flip: power_add nb)
  also have "\<dots> \<le> 2 ^ (32 * length a)" using na by simp
  finally have shl: "nval (base_uint_shl b shift) = nval b * 2 ^ shift"
    using assms by (simp add: nval_base_uint_shl)
  have "nval a < 2 ^ nbits (nval a)" by (rule less_exp_nbits)
  also have "\<dots> = 2 ^ (nbits (nval b) - 1) * 2 ^ Suc shift"
    using assms by (cases "nbits (nval b)") (simp_all add: power_add flip: nb)
  also have "\<dots> \<le> nval b * 2 ^ Suc shift"
    using assms exp_nbits_le [of "nval b"] by simp
  finally have "nval (div_loop (Suc shift) a (base_uint_shl b shift) (replicate (length a) 0))
      = nval (replicate (length a) 0) + nval a div nval b"
    using assms shl sh by (intro nval_div_loop [where W = "length a"]) auto
  then show ?thesis using False assms
    by (simp add: base_uint_div_def base_uint_bits_nval Let_def shift_def del: div_loop.simps)
qed

lemma base_uint_div_by_zero: "base_uint_div a b = Inl Uint_Error \<longleftrightarrow> nval b = 0"
  by (simp add: base_uint_div_def base_uint_bits_nval Let_def)

subsection \<open>Conversions to and from machine words\<close>

lemma nval_base_uint_of_u64: "nval (base_uint_of_u64 b) = unat b"
proof -
  have "unat b div 2 ^ 32 < 2 ^ 32"
    using unat_u64_less [of b] by (simp add: less_mult_imp_div_less)
  then have "unat (ucast (drop_bit 32 b) :: u32) = unat b div 2 ^ 32"
    by (simp only: unat_trunc32 unat_high32) simp
  then show ?thesis
    by (simp only: base_uint_of_u64_def nval.simps nval_replicate_0 unat_trunc32) simp
qed

lemma unat_or_disjoint_u64:
  fixes x y :: u64
  assumes "unat x < 2 ^ k" "unat y * 2 ^ k < 2 ^ 64"
  shows "unat (x OR push_bit k y) = unat x + unat y * 2 ^ k"
proof -
  have "x AND push_bit k y = 0"
  proof (rule bit_word_eqI)
    fix n
    show "bit (x AND push_bit k y) n \<longleftrightarrow> bit (0 :: u64) n"
      using not_bit_if_less_exp [OF assms(1), of n]
      by (auto simp: bit_and_iff bit_push_bit_iff bit_unsigned_iff)
  qed
  then have "x OR push_bit k y = x + push_bit k y" by (simp add: disjunctive_add_eq_or)
  moreover have p: "unat (push_bit k y) = unat y * 2 ^ k"
    unfolding unsigned_push_bit_eq using assms(2)
    by (simp add: push_bit_eq_mult take_bit_nat_eq_self)
  moreover have "unat x + unat y * 2 ^ k < 2 ^ 64"
  proof (cases "unat y = 0")
    case False
    then have "k < 64" using assms(2)
      by (metis Suc_leI le_less_trans mult_le_mono1 nat_mult_1 not_gr_zero power_strict_increasing_iff one_less_numeral_iff semiring_norm(76) One_nat_def)
    then obtain r where r: "(2::nat) ^ 64 = 2 ^ k * 2 ^ r" by (metis le_add_diff_inverse less_imp_le power_add)
    then have "unat y * 2 ^ k < 2 ^ r * 2 ^ k" using assms(2) by (simp only: mult.commute)
    then have "unat y < 2 ^ r" by simp
    then show ?thesis using high_digit_less [of "unat y" "2 ^ r" "unat x" "2 ^ k" 0] assms(1) r
      by (simp add: mult.commute)
  qed (simp add: unat_bounds)
  ultimately show ?thesis by (simp add: unat_add64)
qed

lemma unat_GetLow64:
  assumes "2 \<le> length a"
  shows "unat (GetLow64 a) = nval a mod 2 ^ 64"
proof -
  obtain x y r where a: "a = x # y # r"
    using assms by (metis Suc_1 Suc_le_length_iff numeral_2_eq_2)
  have "unat (GetLow64 a) = unat x + unat y * 2 ^ 32"
    using unat_u32_less [of x] unat_u32_less [of y]
    by (simp add: GetLow64_def a unat_or_disjoint_u64)
  moreover have "nval a = (unat x + 2 ^ 32 * unat y) + 2 ^ 64 * nval r" by (simp add: a)
  moreover have "unat x + 2 ^ 32 * unat y < 2 ^ 64"
    using unat_u32_less [of x] unat_u32_less [of y] by simp
  ultimately show ?thesis by (simp add: mult.commute)
qed

lemma low_digit_eq_iff: "(x::nat) < M \<Longrightarrow> x + M * u = z \<longleftrightarrow> x = z mod M \<and> u = z div M"
  by auto

lemma EqualTo_nval:
  assumes "2 \<le> length a"
  shows "EqualTo a b \<longleftrightarrow> nval a = unat b"
proof -
  obtain x y r where a: "a = x # y # r"
    using assms by (metis Suc_1 Suc_le_length_iff numeral_2_eq_2)
  have zero: "list_all (\<lambda>p. p = 0) r \<longleftrightarrow> nval r = 0"
    by (induction r) (auto simp: unat_eq_0)
  have hi: "ucast y = drop_bit 32 b \<longleftrightarrow> unat y = unat b div 2 ^ 32"
    unfolding word_unat_eq_iff by (simp only: unat_ucast_u32_u64 unat_high32)
  have lo: "ucast x = b AND 0xffffffff \<longleftrightarrow> unat x = unat b mod 2 ^ 32"
  proof -
    have "(0xffffffff :: u64) = mask 32" by (simp add: mask_eq_exp_minus_1)
    then have "b AND 0xffffffff = take_bit 32 b" by (simp only: take_bit_eq_mask)
    then have "unat (b AND 0xffffffff) = take_bit 32 (unat b)"
      by (simp only: unsigned_take_bit_eq)
    then have "unat (b AND 0xffffffff) = unat b mod 2 ^ 32"
      by (simp only: take_bit_eq_mod)
    then show ?thesis unfolding word_unat_eq_iff by (simp only: unat_ucast_u32_u64)
  qed
  have "unat b div 2 ^ 32 < 2 ^ 32" using unat_u64_less [of b] by (simp add: less_mult_imp_div_less)
  moreover have "nval a = unat b \<longleftrightarrow> unat x = unat b mod 2 ^ 32 \<and> unat y + 2 ^ 32 * nval r = unat b div 2 ^ 32"
    unfolding a nval.simps by (rule low_digit_eq_iff) (rule unat_u32_less)
  moreover have "unat y + 2 ^ 32 * nval r = unat b div 2 ^ 32 \<longleftrightarrow> unat y = unat b div 2 ^ 32 \<and> nval r = 0"
    using calculation(1) by (cases "nval r") auto
  ultimately show ?thesis using zero hi lo by (auto simp: EqualTo_def a)
qed

lemma UintToArith256_ArithToUint256:
  assumes "length a = WIDTH"
  shows "UintToArith256 (ArithToUint256 a) = a"
proof (rule nth_equalityI)
  show "length (UintToArith256 (ArithToUint256 a)) = length a"
    using assms by (simp add: UintToArith256_def)
  have drop: "x \<le> length b \<Longrightarrow> drop (x * 4) (concat (map WriteLE32 b)) = concat (map WriteLE32 (drop x b))" for x b
  proof (induction b arbitrary: x)
    case (Cons w b)
    then show ?case by (cases x) simp_all
  qed simp
  fix i assume "i < length (UintToArith256 (ArithToUint256 a))"
  then have i: "i < length a" "i < WIDTH" using assms by (simp_all add: UintToArith256_def)
  then have "drop i a = a ! i # drop (Suc i) a" by (simp add: Cons_nth_drop_Suc)
  then show "UintToArith256 (ArithToUint256 a) ! i = a ! i"
    using i by (simp add: UintToArith256_def ArithToUint256_def drop)
qed

lemma nval_UintToArith256:
  assumes "length bs = 32"
  shows "nval (UintToArith256 bs) = bval bs"
proof -
  have step: "nval (map (\<lambda>x. ReadLE32 (drop (x * 4) bs)) [0..<n]) = bval (take (n * 4) bs)"
    if "n * 4 \<le> length bs" for n and bs :: bytes
    using that
  proof (induction n arbitrary: bs)
    case (Suc n)
    have "take 4 bs @ take (n * 4) (drop 4 bs) = take (Suc n * 4) bs"
      by (simp add: take_add add.commute)
    then have "bval (take (Suc n * 4) bs) = bval (take 4 bs) + 2 ^ 32 * bval (take (n * 4) (drop 4 bs))"
      using Suc.prems bval_append [of "take 4 bs" "take (n * 4) (drop 4 bs)"] by simp
    moreover have "unat (ReadLE32 bs) = bval (take 4 bs)"
      using bval_less [of "take 4 bs"] Suc.prems
      by (simp add: ReadLE32_def unsigned_of_nat take_bit_nat_eq_self)
    moreover have "map (\<lambda>x. ReadLE32 (drop (x * 4) bs)) [0..<Suc n]
        = ReadLE32 bs # map (\<lambda>x. ReadLE32 (drop (x * 4) (drop 4 bs))) [0..<n]"
      by (simp add: upt_conv_Cons map_Suc_upt [symmetric] add.commute del: upt_Suc map_Suc_upt)
    ultimately show ?case using Suc.IH [of "drop 4 bs"] Suc.prems by (simp del: upt_Suc)
  qed simp
  show ?thesis using step [of 8 bs] assms by (simp add: UintToArith256_def WIDTH_8)
qed

subsection \<open>The compact encoding on numbers\<close>

text \<open>
  The number a compact encoding with exponent byte \<^verbatim>\<open>size\<close> and 23-bit mantissa \<^verbatim>\<open>m\<close> stands for, and
  the exponent and mantissa chosen for a number.
\<close>

definition compact_decode :: "nat \<Rightarrow> nat \<Rightarrow> nat" where
  "compact_decode sz m = (if sz \<le> 3 then m div 256 ^ (3 - sz) else m * 256 ^ (sz - 3))"

definition compact_value :: "u32 \<Rightarrow> nat" where
  "compact_value c = compact_decode (unat c div 2 ^ 24) (unat c mod 2 ^ 23)"

definition byte_size :: "nat \<Rightarrow> nat" where
  "byte_size v = (nbits v + 7) div 8"

definition top_bytes :: "nat \<Rightarrow> nat" where
  "top_bytes v = (if byte_size v \<le> 3 then v * 256 ^ (3 - byte_size v) else v div 256 ^ (byte_size v - 3))"

definition enc_size :: "nat \<Rightarrow> nat" where
  "enc_size v = (if 2 ^ 23 \<le> top_bytes v then byte_size v + 1 else byte_size v)"

definition enc_mant :: "nat \<Rightarrow> nat" where
  "enc_mant v = (if 2 ^ 23 \<le> top_bytes v then top_bytes v div 256 else top_bytes v)"

lemma pow256: "(256::nat) ^ k = 2 ^ (8 * k)"
  by (simp add: power_mult)

lemma pow256_split: "a \<le> b \<Longrightarrow> (256::nat) ^ b = 256 ^ a * 256 ^ (b - a)"
  by (simp flip: power_add)

lemma div_pow256_Suc: "(v::nat) div 256 ^ Suc n = v div 256 ^ n div 256"
  unfolding power_Suc2 by (rule div_mult2_eq)

lemma nbits_pos [simp]: "0 < nbits n \<longleftrightarrow> 0 < n"
  using nbits_eq_0_iff [of n] by linarith

lemma unat_and_mask32: "n \<le> 32 \<Longrightarrow> unat ((c::u32) AND mask n) = unat c mod 2 ^ n"
  unfolding take_bit_eq_mask [symmetric] unsigned_take_bit_eq by (rule take_bit_eq_mod)

lemma unat_drop_bit_u32: "unat (drop_bit n (c::u32)) = unat c div 2 ^ n"
  unfolding unat_drop_bit_eq by (rule drop_bit_eq_div)

lemma word_ne_0_unat: "(w :: 'a::len word) \<noteq> 0 \<longleftrightarrow> unat w \<noteq> 0"
  by (simp add: unat_eq_0)

lemma less_byte_size: "v < 256 ^ byte_size v"
proof -
  have "nbits v \<le> 8 * byte_size v" by (simp add: byte_size_def)
  then show ?thesis by (simp add: pow256 flip: nbits_le_iff)
qed

lemma byte_size_le: "0 < v \<Longrightarrow> 256 ^ (byte_size v - 1) \<le> v"
proof -
  assume v: "0 < v"
  have "8 * (byte_size v - 1) \<le> nbits v - 1" by (simp add: byte_size_def)
  then have "(2::nat) ^ (8 * (byte_size v - 1)) \<le> 2 ^ (nbits v - 1)" by (rule power_increasing) simp
  then show ?thesis unfolding pow256 by (rule order_trans) (rule exp_nbits_le [OF v])
qed

lemma top_bytes_less: "top_bytes v < 2 ^ 24"
proof (cases "byte_size v \<le> 3")
  case True
  have "v * 256 ^ (3 - byte_size v) < 256 ^ byte_size v * 256 ^ (3 - byte_size v)"
    using less_byte_size [of v] by simp
  also have "\<dots> = 256 ^ 3" using True by (simp flip: power_add)
  finally show ?thesis using True by (simp add: top_bytes_def)
next
  case False
  have "(256::nat) ^ byte_size v = 256 ^ 3 * 256 ^ (byte_size v - 3)"
    using False by (intro pow256_split) simp
  then have "v div 256 ^ (byte_size v - 3) < 256 ^ 3"
    using less_byte_size [of v] by (simp add: less_mult_imp_div_less)
  then show ?thesis using False by (simp add: top_bytes_def)
qed

lemma enc_mant_less: "enc_mant v < 2 ^ 23"
  using top_bytes_less [of v] by (simp add: enc_mant_def less_mult_imp_div_less)

lemma enc_size_le: "v < 2 ^ 256 \<Longrightarrow> enc_size v \<le> 33"
  using nbits_le_iff [of v 256] div_le_mono [of "nbits v + 7" 263 8]
  by (simp add: enc_size_def byte_size_def)

lemma top_bytes_ge: "0 < v \<Longrightarrow> 2 ^ 16 \<le> top_bytes v"
proof -
  assume v: "0 < v"
  have bs: "0 < byte_size v"
    using v by (simp add: byte_size_def div_greater_zero_iff Suc_le_eq)
  show ?thesis
  proof (cases "byte_size v \<le> 3")
    case True
    have "(256::nat) ^ 2 = 256 ^ (byte_size v - 1) * 256 ^ (2 - (byte_size v - 1))"
      using True by (intro pow256_split) simp
    also have "2 - (byte_size v - 1) = 3 - byte_size v" using bs by simp
    also have "256 ^ (byte_size v - 1) * 256 ^ (3 - byte_size v) \<le> v * 256 ^ (3 - byte_size v)" using byte_size_le [OF v] by simp
    finally show ?thesis using True by (simp add: top_bytes_def)
  next
    case False
    have "(256::nat) ^ (byte_size v - 1) = 256 ^ 2 * 256 ^ (byte_size v - 1 - 2)"
      using False by (intro pow256_split) simp
    also have "byte_size v - 1 - 2 = byte_size v - 3" by simp
    finally have "(256::nat) ^ (byte_size v - 1) = 256 ^ 2 * 256 ^ (byte_size v - 3)" .
    then have "256 ^ 2 \<le> v div 256 ^ (byte_size v - 3)"
      using byte_size_le [OF v] by (simp add: less_eq_div_iff_mult_less_eq)
    then show ?thesis using False by (simp add: top_bytes_def)
  qed
qed

lemma enc_mant_ge: "0 < v \<Longrightarrow> 2 ^ 15 \<le> enc_mant v"
  using top_bytes_ge [of v] by (auto simp: enc_mant_def less_eq_div_iff_mult_less_eq)

lemma compact_decode_enc:
  "compact_decode (enc_size v) (enc_mant v) = v div 256 ^ (enc_size v - 3) * 256 ^ (enc_size v - 3)"
proof (cases "byte_size v < 3")
  case True
  then consider "byte_size v = 0" | "byte_size v = 1" | "byte_size v = 2" by linarith
  then show ?thesis
    by cases (simp_all add: compact_decode_def enc_size_def enc_mant_def top_bytes_def)
next
  case False
  then have t: "top_bytes v = v div 256 ^ (byte_size v - 3)"
    by (cases "byte_size v = 3") (simp_all add: top_bytes_def)
  have "Suc (byte_size v - 3) = byte_size v - 2" using False by simp
  then have "v div 256 ^ (byte_size v - 3) div 256 = v div 256 ^ (byte_size v - 2)"
    by (simp flip: div_mult2_eq power_Suc2)
  then show ?thesis using False t
    by (cases "byte_size v = 3") (auto simp: compact_decode_def enc_size_def enc_mant_def)
qed
lemma enc_size_stable:
  assumes "w = v div 256 ^ (enc_size v - 3) * 256 ^ (enc_size v - 3)"
  shows "enc_size w = enc_size v" "enc_mant w = enc_mant v"
proof -
  define k where "k = enc_size v - 3"
  define q where "q = v div 256 ^ k"
  have "enc_size w = enc_size v \<and> enc_mant w = enc_mant v"
  proof (cases "k = 0")
    case True
    then show ?thesis using assms by (simp add: k_def)
  next
    case False
    have v: "v = v mod 256 ^ k + 256 ^ k * q" by (simp add: q_def)
    have w: "w = 256 ^ k * q" using assms by (simp add: k_def q_def mult.commute)
    have ge: "3 \<le> byte_size v" using False by (auto simp: k_def enc_size_def split: if_splits)
    have t: "top_bytes x = x div 256 ^ (byte_size v - 3)" if "byte_size x = byte_size v" for x
      using ge that by (cases "byte_size v = 3") (simp_all add: top_bytes_def)
    have "v \<noteq> 0" using ge by (cases "v = 0") (simp_all add: byte_size_def)
    then have "enc_mant v \<noteq> 0" using enc_mant_ge [of v] by auto
    moreover have carry: "k = byte_size v - 3 \<and> \<not> 2 ^ 23 \<le> top_bytes v
        \<or> k = Suc (byte_size v - 3) \<and> 2 ^ 23 \<le> top_bytes v"
      using ge by (auto simp: k_def enc_size_def)
    moreover have m: "enc_mant v = q"
      using carry by (auto simp: enc_mant_def t q_def div_pow256_Suc simp del: power_Suc)
    ultimately have q: "0 < q" by simp
    have "nbits w = nbits v"
      using nbits_shifted [of 0 "8 * k" q] nbits_shifted [of "v mod 256 ^ k" "8 * k" q] q v w
      by (simp add: pow256)
    then have bs: "byte_size w = byte_size v" by (simp add: byte_size_def)
    from carry show ?thesis
    proof
      assume c: "k = byte_size v - 3 \<and> \<not> 2 ^ 23 \<le> top_bytes v"
      then have "top_bytes w = q" using t [OF bs] w by simp
      moreover have "top_bytes v = q" using t [of v] c by (simp add: q_def)
      ultimately show ?thesis by (simp add: enc_size_def enc_mant_def bs)
    next
      assume c: "k = Suc (byte_size v - 3) \<and> 2 ^ 23 \<le> top_bytes v"
      then have w': "top_bytes w = q * 256" using t [OF bs] w by simp
      have "q = top_bytes v div 256" using t [of v] c by (simp add: q_def div_pow256_Suc del: power_Suc)
      then have "2 ^ 15 \<le> q" using c by (simp add: less_eq_div_iff_mult_less_eq)
      then show ?thesis using c w' m by (simp add: enc_size_def enc_mant_def bs)
    qed
  qed
  then show "enc_size w = enc_size v" "enc_mant w = enc_mant v" by simp_all
qed

lemma compact_overflow_iff:
  fixes m sz :: nat
  assumes "m < 2 ^ 23" "3 < sz"
  shows "m \<noteq> 0 \<and> (sz > 34 \<or> m > 0xff \<and> sz > 33 \<or> m > 0xffff \<and> sz > 32)
    \<longleftrightarrow> 2 ^ 256 \<le> m * 256 ^ (sz - 3)"
proof -
  have pow: "m * 256 ^ (sz - 3) = m * 2 ^ (8 * (sz - 3))" by (simp add: pow256)
  consider "m = 0" | "0 < m" "sz > 34" | "0 < m" "sz = 34" | "0 < m" "sz = 33" | "0 < m" "sz \<le> 32"
    by linarith
  then show ?thesis
  proof cases
    case 2
    then have "1 * (2::nat) ^ 256 \<le> m * 2 ^ (8 * (sz - 3))"
      by (intro mult_le_mono power_increasing) simp_all
    then show ?thesis using 2 unfolding pow by simp
  next
    case 5
    have "(2::nat) ^ (8 * (sz - 3)) \<le> 2 ^ 232" using 5 by (intro power_increasing) simp_all
    then have "m * 2 ^ (8 * (sz - 3)) < 2 ^ 23 * 2 ^ 232"
      using assms by (intro mult_less_le_imp_less) simp_all
    also have "\<dots> < 2 ^ 256" by simp
    finally show ?thesis using 5 unfolding pow by auto
  qed auto
qed

lemma SetCompact_nval:
  assumes "SetCompact c = (v, neg, ovf)"
  shows "length v = 8" "nval v = compact_value c mod 2 ^ 256"
    "ovf \<longleftrightarrow> 2 ^ 256 \<le> compact_value c"
    "neg \<longleftrightarrow> compact_decode (min 3 (unat c div 2 ^ 24)) (unat c mod 2 ^ 23) \<noteq> 0 \<and> bit c 23"
proof -
  define sz where "sz = unat (drop_bit 24 c)"
  define w0 where "w0 = c AND 0x007fffff"
  define w where "w = (if sz \<le> 3 then drop_bit (8 * (3 - sz)) w0 else w0)"
  have sz: "sz = unat c div 2 ^ 24" by (simp only: sz_def unat_drop_bit_u32)
  have m23: "(0x007fffff :: u32) = mask 23" by (simp add: mask_eq_exp_minus_1)
  have w0: "unat w0 = unat c mod 2 ^ 23" unfolding w0_def m23 by (rule unat_and_mask32) simp
  have w: "unat w = compact_decode (min 3 sz) (unat c mod 2 ^ 23)"
    by (simp add: w_def compact_decode_def unat_drop_bit_u32 w0 pow256 min_def)
  have uc: "unat (ucast w :: u64) = unat w" by (rule unat_ucast_u32_u64)
  have "unat w \<le> unat c mod 2 ^ 23" unfolding w by (simp add: compact_decode_def min_def)
  then have wl: "unat w < 2 ^ 23" by (rule le_less_trans) simp
  have def: "v = (if sz \<le> 3 then base_uint_of_u64 (ucast w) else base_uint_shl (base_uint_of_u64 (ucast w)) (8 * (sz - 3)))"
    "neg = (w \<noteq> 0 \<and> c AND 0x00800000 \<noteq> 0)"
    "ovf = (w \<noteq> 0 \<and> (sz > 34 \<or> (w > 0xff \<and> sz > 33) \<or> (w > 0xffff \<and> sz > 32)))"
    using assms unfolding SetCompact_def Let_def sz_def [symmetric] w0_def [symmetric] w_def [symmetric]
    by (auto simp only: prod.inject)
  show "length v = 8" by (simp add: def WIDTH_8)
  have cv: "compact_value c = (if sz \<le> 3 then unat w else unat w * 256 ^ (sz - 3))"
    unfolding w by (simp add: compact_value_def compact_decode_def sz min_def)
  show "nval v = compact_value c mod 2 ^ 256"
    using wl unfolding def cv
    by (simp add: nval_base_uint_shl nval_base_uint_of_u64 uc pow256 WIDTH_8)
  have gt: "w > 0xff \<longleftrightarrow> unat w > 0xff" "w > 0xffff \<longleftrightarrow> unat w > 0xffff"
    by (simp_all add: word_less_nat_alt)
  show "ovf \<longleftrightarrow> 2 ^ 256 \<le> compact_value c"
  proof (cases "sz \<le> 3")
    case True
    then show ?thesis using wl by (simp add: def cv)
  next
    case False
    then show ?thesis using compact_overflow_iff [OF wl, of sz]
      by (simp only: def cv gt word_ne_0_unat not_le) simp
  qed
  have "(0x00800000 :: u32) = push_bit 23 1" by (simp add: push_bit_eq_mult)
  then have "c AND 0x00800000 \<noteq> 0 \<longleftrightarrow> bit c 23" using and_exp_bit [of c 23] by simp
  then show "neg \<longleftrightarrow> compact_decode (min 3 (unat c div 2 ^ 24)) (unat c mod 2 ^ 23) \<noteq> 0 \<and> bit c 23"
    unfolding def word_ne_0_unat w sz by simp
qed
lemma GetCompact_nval:
  assumes len: "length a = 8"
  shows "\<exists>c. GetCompact a False = Inr c \<and> unat c = enc_mant (nval a) + 2 ^ 24 * enc_size (nval a)"
proof -
  define v where "v = nval a"
  define s0 where "s0 = (base_uint_bits a + 7) div 8"
  define c0 :: u32 where "c0 = (if s0 \<le> 3 then ucast (push_bit (8 * (3 - s0)) (GetLow64 a))
                      else ucast (GetLow64 (base_uint_shr a (8 * (s0 - 3)))))"
  define c1 where "c1 = (if c0 AND 0x00800000 \<noteq> 0 then drop_bit 8 c0 else c0)"
  define sz where "sz = (if c0 AND 0x00800000 \<noteq> 0 then s0 + 1 else s0)"
  have s0: "s0 = byte_size v" by (simp add: s0_def byte_size_def base_uint_bits_nval v_def)
  have c0: "unat c0 = top_bytes v"
  proof (cases "s0 \<le> 3")
    case True
    have tb: "v * 2 ^ (8 * (3 - s0)) = top_bytes v" using True by (simp add: top_bytes_def s0 pow256)
    have "v \<le> v * 2 ^ (8 * (3 - s0))" by simp
    then have "v < 2 ^ 24" using top_bytes_less [of v] unfolding tb by (rule le_less_trans)
    then have "unat (GetLow64 a) = v" using len by (simp add: unat_GetLow64 v_def)
    then have "unat (push_bit (8 * (3 - s0)) (GetLow64 a)) = take_bit 64 (top_bytes v)"
      unfolding unsigned_push_bit_eq by (simp add: push_bit_eq_mult tb)
    then show ?thesis using True top_bytes_less [of v]
      by (simp add: c0_def unsigned_ucast_eq take_bit_nat_eq_self)
  next
    case False
    then have "nval (base_uint_shr a (8 * (s0 - 3))) = top_bytes v"
      by (simp add: nval_base_uint_shr top_bytes_def s0 pow256 v_def)
    then show ?thesis using False top_bytes_less [of v] len
      by (simp add: c0_def unat_GetLow64)
  qed
  have "(0x00800000 :: u32) = push_bit 23 1" by (simp add: push_bit_eq_mult)
  then have "c0 AND 0x00800000 \<noteq> 0 \<longleftrightarrow> bit (unat c0) 23"
    using and_exp_bit [of c0 23] by (simp add: bit_unsigned_iff)
  moreover have "bit (unat c0) 23 \<longleftrightarrow> 2 ^ 23 \<le> top_bytes v"
  proof (cases "2 ^ 23 \<le> top_bytes v")
    case True
    then have "top_bytes v div 2 ^ 23 = 1"
      using top_bytes_less [of v] by (intro div_nat_eqI) simp_all
    then show ?thesis using True unfolding c0 by (simp add: bit_iff_odd)
  next
    case False
    then show ?thesis unfolding c0 by (simp add: bit_iff_odd)
  qed
  ultimately have carry: "c0 AND 0x00800000 \<noteq> 0 \<longleftrightarrow> 2 ^ 23 \<le> top_bytes v" by simp
  have c1: "unat c1 = enc_mant v"
    unfolding c1_def carry enc_mant_def by (simp add: unat_drop_bit_u32 c0)
  have sz: "sz = enc_size v" unfolding sz_def carry enc_size_def s0 ..
  have "c1 AND NOT 0x007fffff = 0"
  proof (rule bit_word_eqI)
    fix n
    have m23: "(0x007fffff :: u32) = mask 23" by (simp add: mask_eq_exp_minus_1)
    show "bit (c1 AND NOT 0x007fffff) n \<longleftrightarrow> bit (0 :: u32) n"
      using not_bit_if_less_exp [OF enc_mant_less [of v], of n] unfolding c1 [symmetric] m23
      by (cases "n < 23") (auto simp: bit_and_iff bit_not_iff bit_mask_iff bit_unsigned_iff)
  qed
  moreover have szl: "sz \<le> 33" using enc_size_le nval_less_256 [OF len] by (simp add: sz v_def)
  moreover have "unat (c1 OR push_bit 24 (of_nat sz)) = unat c1 + sz * 2 ^ 24"
  proof -
    have "unat (of_nat sz :: u32) = sz" using szl by (simp add: unsigned_of_nat take_bit_nat_eq_self)
    moreover have "unat c1 < 2 ^ 24" using enc_mant_less [of v] by (simp add: c1)
    ultimately show ?thesis using szl by (subst unat_or_disjoint) simp_all
  qed
  ultimately show ?thesis
    unfolding GetCompact_def Let_def s0_def [symmetric] c0_def [symmetric] c1_def [symmetric] sz_def [symmetric]
    by (simp add: c1 sz v_def)
qed
lemma compact_value_GetCompact:
  assumes "length a = 8" "GetCompact a False = Inr c"
  shows "unat c div 2 ^ 24 = enc_size (nval a)" "unat c mod 2 ^ 23 = enc_mant (nval a)" "\<not> bit c 23"
    "compact_value c = nval a div 256 ^ (enc_size (nval a) - 3) * 256 ^ (enc_size (nval a) - 3)"
proof -
  have c: "unat c = enc_mant (nval a) + 2 ^ 24 * enc_size (nval a)"
    using GetCompact_nval [OF assms(1)] assms(2) by auto
  have m: "enc_mant (nval a) < 2 ^ 23" by (rule enc_mant_less)
  then have m24: "enc_mant (nval a) < 2 ^ 24" by simp
  show sz: "unat c div 2 ^ 24 = enc_size (nval a)" unfolding c using m24 by simp
  have "enc_mant (nval a) + 2 ^ 24 * enc_size (nval a) = enc_mant (nval a) + 2 ^ 23 * (2 * enc_size (nval a))"
    by simp
  then show mt: "unat c mod 2 ^ 23 = enc_mant (nval a)" unfolding c using m by (simp only: mod_mult_self2 mod_less)
  have "bit (unat c) 23 \<longleftrightarrow> bit (enc_mant (nval a)) 23"
    unfolding c by (subst bit_add_shifted [OF m24]) simp
  then show "\<not> bit c 23" using not_bit_if_less_exp [OF m, of 23] by (simp add: bit_unsigned_iff)
  show "compact_value c = nval a div 256 ^ (enc_size (nval a) - 3) * 256 ^ (enc_size (nval a) - 3)"
    unfolding compact_value_def sz mt by (rule compact_decode_enc)
qed

text \<open>
  Decoding the compact form of a number: never negative, never overflowing, and the number
  rounded down to its leading bytes.
\<close>

lemma SetCompact_GetCompact:
  assumes len: "length a = 8" and c: "GetCompact a False = Inr c"
  shows "\<exists>v. SetCompact c = (v, False, False) \<and> length v = 8 \<and>
    nval v = nval a div 256 ^ (enc_size (nval a) - 3) * 256 ^ (enc_size (nval a) - 3)"
proof -
  obtain v neg ovf where sc: "SetCompact c = (v, neg, ovf)" by (cases "SetCompact c") auto
  note v = SetCompact_nval [OF sc] and cv = compact_value_GetCompact [OF len c]
  have "compact_value c \<le> nval a" unfolding cv by simp
  then have "compact_value c < 2 ^ 256" using nval_less_256 [OF len] by (rule le_less_trans)
  then show ?thesis using v cv sc by simp
qed

lemma SetCompact_GetCompact_bounds:
  assumes len: "length a = 8" and c: "GetCompact a False = Inr c" and v: "SetCompact c = (v, neg, ovf)"
  shows "\<not> neg" "\<not> ovf" "length v = 8" "nval v \<le> nval a" "nval v = 0 \<longleftrightarrow> nval a = 0"
    "nval a < nval v + 256 ^ (enc_size (nval a) - 3)"
proof -
  let ?P = "256 ^ (enc_size (nval a) - 3) :: nat"
  have s: "\<not> neg" "\<not> ovf" "length v = 8" and n: "nval v = nval a div ?P * ?P"
    using SetCompact_GetCompact [OF len c] v by auto
  show "\<not> neg" "\<not> ovf" "length v = 8" by (fact s)+
  show "nval v \<le> nval a" by (simp add: n)
  have "nval a = nval v + nval a mod ?P" by (simp only: n div_mult_mod_eq)
  moreover have "nval a mod ?P < ?P" by simp
  ultimately show "nval a < nval v + ?P" by linarith
  have "nval v \<noteq> 0" if "nval a \<noteq> 0"
  proof -
    have "2 ^ 15 \<le> enc_mant (nval a)" using that by (intro enc_mant_ge) simp
    then have m: "enc_mant (nval a) \<noteq> 0" by auto
    have d: "compact_decode (enc_size (nval a)) (enc_mant (nval a)) = nval v"
      using compact_decode_enc n by simp
    show ?thesis
    proof (cases "enc_size (nval a) \<le> 3")
      case True
      then show ?thesis using that by (simp add: n)
    next
      case False
      then have "nval v = enc_mant (nval a) * 256 ^ (enc_size (nval a) - 3)"
        using d by (simp add: compact_decode_def)
      then show ?thesis using m by simp
    qed
  qed
  then show "nval v = 0 \<longleftrightarrow> nval a = 0" using \<open>nval v \<le> nval a\<close> by (metis le_0_eq)
qed

lemma GetCompact_stable:
  assumes "length a = 8" "GetCompact a False = Inr c" "SetCompact c = (v, neg, ovf)"
  shows "GetCompact v False = Inr c"
proof -
  obtain v' where v': "SetCompact c = (v', False, False)" "length v' = 8"
    "nval v' = nval a div 256 ^ (enc_size (nval a) - 3) * 256 ^ (enc_size (nval a) - 3)"
    using SetCompact_GetCompact [OF assms(1,2)] by blast
  then have v: "length v = 8" "enc_size (nval v) = enc_size (nval a)" "enc_mant (nval v) = enc_mant (nval a)"
    using assms(3) enc_size_stable [of "nval v" "nval a"] by simp_all
  obtain c' where "GetCompact v False = Inr c'" "unat c' = enc_mant (nval v) + 2 ^ 24 * enc_size (nval v)"
    using GetCompact_nval [OF v(1)] by blast
  moreover have "unat c = enc_mant (nval a) + 2 ^ 24 * enc_size (nval a)"
    using GetCompact_nval [OF assms(1)] assms(2) by auto
  ultimately show ?thesis using v by (simp add: word_unat_eq_iff)
qed
subsection \<open>The arithmetic interface\<close>

text \<open>
  What the proof-of-work code relies on: a type of unsigned integers of some width, its operators
  exact below that width. The lemmas of the locale are the client's reasoning steps, among them
  that a product followed by a division can be computed from quotient and remainder without ever
  forming the full product.
\<close>

locale fixed_width =
  fixes ok :: "'a \<Rightarrow> bool" and val :: "'a \<Rightarrow> nat" and width :: nat
    and plus_op minus_op times_op :: "'a \<Rightarrow> 'a \<Rightarrow> 'a"
    and div_op :: "'a \<Rightarrow> 'a \<Rightarrow> 'a cxx" and cmp_op :: "'a \<Rightarrow> 'a \<Rightarrow> int"
  assumes val_less: "ok a \<Longrightarrow> val a < 2 ^ width"
    and plus_ok: "ok a \<Longrightarrow> ok b \<Longrightarrow> ok (plus_op a b) \<and> val (plus_op a b) = (val a + val b) mod 2 ^ width"
    and minus_ok: "ok a \<Longrightarrow> ok b \<Longrightarrow> ok (minus_op a b) \<and>
        val (minus_op a b) = (if val b \<le> val a then val a - val b else 2 ^ width + val a - val b)"
    and times_ok: "ok a \<Longrightarrow> ok b \<Longrightarrow> ok (times_op a b) \<and> val (times_op a b) = (val a * val b) mod 2 ^ width"
    and div_ok: "ok a \<Longrightarrow> ok b \<Longrightarrow> val b \<noteq> 0 \<Longrightarrow> \<exists>q. div_op a b = Inr q \<and> ok q \<and> val q = val a div val b"
    and cmp_ok: "ok a \<Longrightarrow> ok b \<Longrightarrow>
        cmp_op a b = (if val a < val b then - 1 else if val a > val b then 1 else 0)"
begin

lemma plus_exact: "ok a \<Longrightarrow> ok b \<Longrightarrow> val a + val b < 2 ^ width \<Longrightarrow> val (plus_op a b) = val a + val b"
  by (simp add: plus_ok)

lemma times_exact: "ok a \<Longrightarrow> ok b \<Longrightarrow> val a * val b < 2 ^ width \<Longrightarrow> val (times_op a b) = val a * val b"
  by (simp add: times_ok)

lemma minus_exact: "ok a \<Longrightarrow> ok b \<Longrightarrow> val b \<le> val a \<Longrightarrow> val (minus_op a b) = val a - val b"
  by (simp add: minus_ok)

lemma cmp_gt: "ok a \<Longrightarrow> ok b \<Longrightarrow> cmp_op a b > 0 \<longleftrightarrow> val b < val a"
  by (simp add: cmp_ok)

lemma cmp_le: "ok a \<Longrightarrow> ok b \<Longrightarrow> cmp_op a b \<le> 0 \<longleftrightarrow> val a \<le> val b"
  by (simp add: cmp_ok)

lemma quot_rem:
  assumes "ok x" "ok t" "val t \<noteq> 0"
  obtains q where "div_op x t = Inr q" "ok q" "val q = val x div val t"
    "ok (minus_op x (times_op q t))" "val (minus_op x (times_op q t)) = val x mod val t"
proof -
  obtain q where q: "div_op x t = Inr q" "ok q" "val q = val x div val t"
    using div_ok [OF assms] by blast
  have le: "val q * val t \<le> val x" unfolding q(3) by (simp add: mult.commute)
  then have t: "val (times_op q t) = val q * val t"
    using q assms by (intro times_exact le_less_trans [OF le val_less])
  have okt: "ok (times_op q t)" using times_ok q assms by blast
  have "val (minus_op x (times_op q t)) = val x - val q * val t"
    using le t okt assms by (simp add: minus_exact)
  also have "\<dots> = val x mod val t" unfolding q(3) by (simp add: minus_div_mult_eq_mod)
  finally show thesis using that q minus_ok [OF assms(1) okt] by blast
qed

lemma muldiv_split:
  fixes x y t :: nat
  shows "x * y div t = x div t * y + (x mod t) * y div t"
proof (cases "t = 0")
  case False
  have "x * y = t * (x div t * y) + (x mod t) * y"
    by (subst (1) mult_div_mod_eq [of t x, symmetric]) (simp only: distrib_right mult.assoc)
  then show ?thesis using False by simp
qed simp

end

interpretation u256: fixed_width "\<lambda>a. length a = 8" nval 256
  base_uint_add base_uint_sub base_uint_mul base_uint_div CompareTo
proof unfold_locales
  fix a b :: base_uint
  assume a: "length a = 8"
  then show "nval a < 2 ^ 256" by (rule nval_less_256)
  assume b: "length b = 8"
  then show "length (base_uint_add a b) = 8 \<and> nval (base_uint_add a b) = (nval a + nval b) mod 2 ^ 256"
    using a by (simp add: nval_base_uint_add)
  show "length (base_uint_sub a b) = 8 \<and>
      nval (base_uint_sub a b) = (if nval b \<le> nval a then nval a - nval b else 2 ^ 256 + nval a - nval b)"
    using a b by (simp add: nval_base_uint_sub)
  show "length (base_uint_mul a b) = 8 \<and> nval (base_uint_mul a b) = (nval a * nval b) mod 2 ^ 256"
    using a b by (simp add: nval_base_uint_mul)
  show "nval b \<noteq> 0 \<Longrightarrow> \<exists>q. base_uint_div a b = Inr q \<and> length q = 8 \<and> nval q = nval a div nval b"
    using base_uint_div_correct [of a b] a b by simp
  show "CompareTo a b = (if nval a < nval b then - 1 else if nval a > nval b then 1 else 0)"
    using a b by (simp add: CompareTo_nval)
qed

end
