(* ===== verification/Serialize.thy ===== *)
theory Serialize
  imports Qbit_Prelude
begin

text \<open>
  The wire format primitives of \<^verbatim>\<open>src/src/serialize.h\<close> over a byte stream: fixed-width integers,
  CompactSize, VarInt, byte vectors and vectors of serializable elements. A reader takes the bytes
  left in the stream and returns the value with the bytes left after it, or the failure that the
  source raises as \<^verbatim>\<open>std::ios_base::failure\<close>. The locale \<^verbatim>\<open>codec\<close> is the contract a serializable
  type offers, and \<^verbatim>\<open>canonical_codec\<close> adds that accepted bytes are exactly the bytes written.
\<close>

unbundle bit_operations_syntax

subsection \<open>Streams and integers\<close>

type_synonym 'a reader = "bytes \<Rightarrow> ('a \<times> bytes) cxx"

definition stream_read :: "nat \<Rightarrow> bytes reader" where
  "stream_read n s = (if length s < n then Inl Stream_Failure else Inr (take n s, drop n s))"

definition ser_writedata8 :: "byte \<Rightarrow> bytes" where
  "ser_writedata8 obj = [obj]"

definition ser_writedata16 :: "u16 \<Rightarrow> bytes" where
  "ser_writedata16 obj = WriteLE16 obj"

definition ser_writedata32 :: "u32 \<Rightarrow> bytes" where
  "ser_writedata32 obj = WriteLE32 obj"

definition ser_writedata64 :: "u64 \<Rightarrow> bytes" where
  "ser_writedata64 obj = WriteLE64 obj"

definition ser_readdata8 :: "byte reader" where
  "ser_readdata8 s = bindE (stream_read 1 s) (\<lambda>(b, r). Inr (hd b, r))"

definition ser_readdata16 :: "u16 reader" where
  "ser_readdata16 s = bindE (stream_read 2 s) (\<lambda>(b, r). Inr (ReadLE16 b, r))"

definition ser_readdata32 :: "u32 reader" where
  "ser_readdata32 s = bindE (stream_read 4 s) (\<lambda>(b, r). Inr (ReadLE32 b, r))"

definition ser_readdata64 :: "u64 reader" where
  "ser_readdata64 s = bindE (stream_read 8 s) (\<lambda>(b, r). Inr (ReadLE64 b, r))"

subsection \<open>CompactSize\<close>

definition MAX_SIZE :: nat where
  "MAX_SIZE = 0x02000000"

definition GetSizeOfCompactSize :: "u64 \<Rightarrow> nat" where
  "GetSizeOfCompactSize nSize =
    (if nSize < 253 then 1 else if nSize \<le> 0xffff then 1 + 2 else if nSize \<le> 0xffffffff then 1 + 4 else 1 + 8)"

definition WriteCompactSize :: "u64 \<Rightarrow> bytes" where
  "WriteCompactSize nSize =
    (if nSize < 253 then ser_writedata8 (ucast nSize)
     else if nSize \<le> 0xffff then ser_writedata8 253 @ ser_writedata16 (ucast nSize)
     else if nSize \<le> 0xffffffff then ser_writedata8 254 @ ser_writedata32 (ucast nSize)
     else ser_writedata8 255 @ ser_writedata64 nSize)"

definition ReadCompactSize :: "bool \<Rightarrow> u64 reader" where
  "ReadCompactSize range_check s =
    bindE (ser_readdata8 s) (\<lambda>(chSize, s1).
    bindE (if chSize < 253 then Inr (ucast chSize, s1)
           else if chSize = 253 then
             bindE (ser_readdata16 s1) (\<lambda>(v, s2).
               if (ucast v :: u64) < 253 then Inl Stream_Failure else Inr (ucast v, s2))
           else if chSize = 254 then
             bindE (ser_readdata32 s1) (\<lambda>(v, s2).
               if (ucast v :: u64) < 0x10000 then Inl Stream_Failure else Inr (ucast v, s2))
           else
             bindE (ser_readdata64 s1) (\<lambda>(v, s2).
               if v < 0x100000000 then Inl Stream_Failure else Inr (v, s2)))
      (\<lambda>(nSizeRet, s3).
        if range_check \<and> unat nSizeRet > MAX_SIZE then Inl Stream_Failure else Inr (nSizeRet, s3)))"

subsection \<open>VarInt\<close>

text \<open>
  An integer type is given by its largest value; \<^verbatim>\<open>tmp\<close> is the buffer the writer fills before it
  emits it backwards.
\<close>

lemma varint_next_less: "\<not> (n::nat) \<le> 0x7F \<Longrightarrow> drop_bit 7 n - Suc 0 < n"
proof -
  assume "\<not> n \<le> 0x7F"
  moreover have "drop_bit 7 n \<le> n" by (simp add: drop_bit_eq_div)
  ultimately show ?thesis by simp
qed

function varint_tmp :: "bool \<Rightarrow> nat \<Rightarrow> bytes" where
  "varint_tmp cont n =
    (of_nat (n AND 0x7F) OR (if cont then 0x80 else 0)) #
    (if n \<le> 0x7F then [] else varint_tmp True (drop_bit 7 n - 1))"
  by pat_completeness auto
termination
  by (relation "measure snd") (simp_all add: varint_next_less)

declare varint_tmp.simps [simp del]

definition WriteVarInt :: "nat \<Rightarrow> bytes" where
  "WriteVarInt n = rev (varint_tmp False n)"

function GetSizeOfVarInt :: "nat \<Rightarrow> nat" where
  "GetSizeOfVarInt n = (if n \<le> 0x7F then 1 else 1 + GetSizeOfVarInt (drop_bit 7 n - 1))"
  by pat_completeness auto
termination
  by (relation "measure id") (simp_all add: varint_next_less)

declare GetSizeOfVarInt.simps [simp del]

fun ReadVarInt_loop :: "nat \<Rightarrow> nat \<Rightarrow> nat reader" where
  "ReadVarInt_loop mx n [] = Inl Stream_Failure"
| "ReadVarInt_loop mx n (chData # s) =
    (if n > drop_bit 7 mx then Inl Stream_Failure
     else let n1 = push_bit 7 n OR unat (chData AND 0x7F) in
       if chData AND 0x80 \<noteq> 0
       then (if n1 = mx then Inl Stream_Failure else ReadVarInt_loop mx (n1 + 1) s)
       else Inr (n1, s))"

definition ReadVarInt :: "nat \<Rightarrow> nat reader" where
  "ReadVarInt mx s = ReadVarInt_loop mx 0 s"

subsection \<open>Byte vectors and vectors\<close>

definition MAX_VECTOR_ALLOCATE :: nat where
  "MAX_VECTOR_ALLOCATE = 5000000"

definition ser_bytes :: "bytes \<Rightarrow> bytes" where
  "ser_bytes v = WriteCompactSize (of_nat (length v)) @ v"

function read_blocks :: "nat \<Rightarrow> nat \<Rightarrow> bytes \<Rightarrow> bytes reader" where
  "read_blocks nSize i v s =
    (if i < nSize
     then let blk = min (nSize - i) (1 + 4999999)
          in bindE (stream_read blk s) (\<lambda>(b, r). read_blocks nSize (i + blk) (v @ b) r)
     else Inr (v, s))"
  by pat_completeness auto
termination
  by (relation "measure (\<lambda>(nSize, i, _, _). nSize - i)") auto

declare read_blocks.simps [simp del]

definition unser_bytes :: "bytes reader" where
  "unser_bytes s = bindE (ReadCompactSize True s) (\<lambda>(nSize, r). read_blocks (unat nSize) 0 [] r)"

definition ser_vector :: "('a \<Rightarrow> bytes) \<Rightarrow> 'a list \<Rightarrow> bytes" where
  "ser_vector ser v = WriteCompactSize (of_nat (length v)) @ concat (map ser v)"

text \<open>The inner loop: element reads until the vector has the given number of elements.\<close>

fun read_elems :: "'a reader \<Rightarrow> nat \<Rightarrow> 'a list reader" where
  "read_elems unser 0 s = Inr ([], s)"
| "read_elems unser (Suc n) s =
    bindE (unser s) (\<lambda>(x, r). bindE (read_elems unser n r) (\<lambda>(xs, r'). Inr (x # xs, r')))"

function read_batches :: "'a reader \<Rightarrow> nat \<Rightarrow> nat \<Rightarrow> nat \<Rightarrow> 'a list \<Rightarrow> 'a list reader" where
  "read_batches unser elem_size nelems allocated v s =
    (if allocated < nelems \<and> 0 < MAX_VECTOR_ALLOCATE div elem_size
     then let allocated1 = min nelems (allocated + MAX_VECTOR_ALLOCATE div elem_size)
          in bindE (read_elems unser (allocated1 - length v) s) (\<lambda>(xs, r).
             read_batches unser elem_size nelems allocated1 (v @ xs) r)
     else Inr (v, s))"
  by pat_completeness auto
termination
  by (relation "measure (\<lambda>(_, _, nelems, allocated, _, _). nelems - allocated)") auto

declare read_batches.simps [simp del]

definition unser_vector :: "'a reader \<Rightarrow> nat \<Rightarrow> 'a list reader" where
  "unser_vector unser elem_size s =
    bindE (ReadCompactSize True s) (\<lambda>(nSize, r). read_batches unser elem_size (unat nSize) 0 [] r)"

subsection \<open>Codecs\<close>

locale codec =
  fixes good :: "'a \<Rightarrow> bool" and ser :: "'a \<Rightarrow> bytes" and unser :: "'a reader"
  assumes unser_ser: "good x \<Longrightarrow> unser (ser x @ r) = Inr (x, r)"
begin

lemma prefix_free:
  assumes "good x" "good y" "ser x @ r = ser y @ r'"
  shows "x = y \<and> r = r'"
proof -
  have "(Inr (x, r) :: ('a \<times> bytes) cxx) = Inr (y, r')"
    using unser_ser [OF assms(1), of r] unser_ser [OF assms(2), of r'] by (simp only: assms(3))
  then show ?thesis by simp
qed

lemma ser_inj: "good x \<Longrightarrow> good y \<Longrightarrow> ser x = ser y \<longleftrightarrow> x = y"
  by (metis prefix_free)

lemma read_elems_concat:
  "list_all good xs \<Longrightarrow> read_elems unser (length xs) (concat (map ser xs) @ r) = Inr (xs, r)"
  by (induction xs) (simp_all add: unser_ser)

end

locale canonical_codec = codec +
  assumes ser_unser: "unser s = Inr (x, r) \<Longrightarrow> good x \<and> s = ser x @ r"
begin

lemma read_elems_canonical:
  "read_elems unser n s = Inr (xs, r) \<Longrightarrow>
    length xs = n \<and> list_all good xs \<and> s = concat (map ser xs) @ r"
proof (induction n arbitrary: s xs)
  case (Suc n)
  then obtain x r1 ys where u: "unser s = Inr (x, r1)" "read_elems unser n r1 = Inr (ys, r)" "xs = x # ys"
    by (auto simp: bindE_Inr_iff)
  show ?case using ser_unser [OF u(1)] Suc.IH [OF u(2)] u(3) by simp
qed simp

lemma accepts_only_written: "(\<exists>x r. unser s = Inr (x, r)) \<longleftrightarrow> (\<exists>x r. good x \<and> s = ser x @ r)"
proof
  assume "\<exists>x r. unser s = Inr (x, r)"
  then obtain x r where "unser s = Inr (x, r)" by auto
  then show "\<exists>x r. good x \<and> s = ser x @ r" using ser_unser by blast
next
  assume "\<exists>x r. good x \<and> s = ser x @ r"
  then obtain x r where "good x" "s = ser x @ r" by auto
  then show "\<exists>x r. unser s = Inr (x, r)" using unser_ser by simp
qed

end

lemma stream_read_append [simp]: "length a = n \<Longrightarrow> stream_read n (a @ r) = Inr (a, r)"
  by (auto simp: stream_read_def)

lemma stream_read_Inr_iff: "stream_read n s = Inr (a, r) \<longleftrightarrow> length a = n \<and> s = a @ r"
proof
  assume "stream_read n s = Inr (a, r)"
  then have "n \<le> length s" "a = take n s" "r = drop n s"
    by (simp_all add: stream_read_def split: if_splits)
  then show "length a = n \<and> s = a @ r" by simp
qed auto

interpretation byte8: canonical_codec "\<lambda>_. True" ser_writedata8 ser_readdata8
proof unfold_locales
  show "ser_readdata8 (ser_writedata8 x @ r) = Inr (x, r)" for x r
    by (simp add: ser_readdata8_def ser_writedata8_def stream_read_def)
  show "True \<and> s = ser_writedata8 x @ r" if "ser_readdata8 s = Inr (x, r)" for s x r
    using that by (auto simp: ser_readdata8_def ser_writedata8_def bindE_Inr_iff stream_read_Inr_iff length_Suc_conv)
qed

lemma le_word_codec:
  fixes w :: "'a::len word"
  assumes "LENGTH('a) = 8 * k"
  shows "of_nat (bval (le_bytes k (unat w))) = w"
    and "length a = k \<Longrightarrow> le_bytes k (unat (of_nat (bval a) :: 'a word)) = a"
proof -
  have "unat w < 2 ^ (8 * k)" using unsigned_less [of w, where 'a = nat] assms by simp
  then show "of_nat (bval (le_bytes k (unat w))) = w" by (simp add: bval_le_bytes)
  assume a: "length a = k"
  then have "bval a < 2 ^ LENGTH('a)" using bval_less [of a] assms by simp
  then have "unat (of_nat (bval a) :: 'a word) = bval a"
    by (simp add: unsigned_of_nat take_bit_nat_eq_self)
  then show "le_bytes k (unat (of_nat (bval a) :: 'a word)) = a" using le_bytes_bval [of a] a by simp
qed

lemma word_codec:
  fixes wr :: "'a::len word \<Rightarrow> bytes"
  assumes len: "LENGTH('a) = 8 * k"
    and wr: "\<And>w. wr w = le_bytes k (unat w)"
    and rd: "\<And>s. rd s = bindE (stream_read k s) (\<lambda>(b, r). Inr (of_nat (bval (take k b)), r))"
  shows "canonical_codec (\<lambda>_. True) wr rd"
proof unfold_locales
  fix x :: "'a word" and r s
  show "rd (wr x @ r) = Inr (x, r)"
    unfolding wr rd using le_word_codec(1) [OF len, of x] by simp
  assume "rd s = Inr (x, r)"
  then obtain p where p: "stream_read k s = Inr p"
    "(\<lambda>(b, r). Inr (of_nat (bval (take k b)), r)) p = (Inr (x, r) :: ('a word \<times> bytes) cxx)"
    unfolding rd by (cases "stream_read k s") simp_all
  moreover obtain a r' where "p = (a, r')" by (cases p)
  ultimately have a: "stream_read k s = Inr (a, r')" "of_nat (bval (take k a)) = x" "r' = r" by simp_all
  then have "length a = k" "s = a @ r" "x = of_nat (bval a)"
    using stream_read_Inr_iff [of k s a r'] by simp_all
  then show "True \<and> s = wr x @ r"
    unfolding wr using le_word_codec(2) [OF len, of a] by simp
qed

interpretation word16: canonical_codec "\<lambda>_. True" ser_writedata16 ser_readdata16
  by (rule word_codec [where k = 2], simp, simp only: ser_writedata16_def WriteLE16_def)
    (simp only: ser_readdata16_def ReadLE16_def)

interpretation word32: canonical_codec "\<lambda>_. True" ser_writedata32 ser_readdata32
  by (rule word_codec [where k = 4], simp, simp only: ser_writedata32_def WriteLE32_def)
    (simp only: ser_readdata32_def ReadLE32_def)

interpretation word64: canonical_codec "\<lambda>_. True" ser_writedata64 ser_readdata64
  by (rule word_codec [where k = 8], simp, simp only: ser_writedata64_def WriteLE64_def)
    (simp only: ser_readdata64_def ReadLE64_def)

subsection \<open>CompactSize round trip\<close>

lemma ucast_ucast_small:
  fixes n :: u64
  assumes "unat n < 2 ^ LENGTH('b::len)"
  shows "ucast (ucast n :: 'b word) = n"
  using assms
  by (simp add: word_unat_eq_iff unsigned_ucast_eq unsigned_take_bit_eq take_bit_nat_eq_self)

lemma ucast_up_down: "LENGTH('b::len) \<le> 64 \<Longrightarrow> ucast (ucast (v :: 'b word) :: u64) = v"
  by (rule bit_word_eqI) (auto simp: bit_ucast_iff)

lemma unat_ucast_small:
  fixes n :: u64
  assumes "unat n < 2 ^ LENGTH('b::len)"
  shows "unat (ucast n :: 'b word) = unat n"
  using assms by (simp add: unsigned_ucast_eq take_bit_nat_eq_self)

lemmas u64_nat_alt = word_less_nat_alt word_le_nat_alt

lemma ReadCompactSize_Write:
  assumes "rc \<longrightarrow> unat n \<le> MAX_SIZE"
  shows "ReadCompactSize rc (WriteCompactSize n @ r) = Inr (n, r)"
proof -
  have nr: "\<not> (rc \<and> MAX_SIZE < unat n)" using assms by auto
  consider (a) "unat n < 253" | (b) "253 \<le> unat n" "unat n \<le> 0xffff"
    | (c) "0x10000 \<le> unat n" "unat n \<le> 0xffffffff" | (d) "0x100000000 \<le> unat n" by linarith
  then show ?thesis
  proof cases
    case a
    then have "ucast (ucast n :: byte) = n" "unat (ucast n :: byte) < 253"
      by (simp_all add: ucast_ucast_small unat_ucast_small)
    then show ?thesis using a nr
      by (simp add: ReadCompactSize_def WriteCompactSize_def byte8.unser_ser u64_nat_alt)
  next
    case b
    then have "ucast (ucast n :: u16) = n" by (simp add: ucast_ucast_small)
    then show ?thesis using b nr
      by (simp add: ReadCompactSize_def WriteCompactSize_def byte8.unser_ser word16.unser_ser u64_nat_alt)
  next
    case c
    then have "ucast (ucast n :: u32) = n" by (simp add: ucast_ucast_small)
    then show ?thesis using c nr
      by (simp add: ReadCompactSize_def WriteCompactSize_def byte8.unser_ser word32.unser_ser u64_nat_alt)
  next
    case d
    then show ?thesis using nr
      by (simp add: ReadCompactSize_def WriteCompactSize_def byte8.unser_ser word64.unser_ser u64_nat_alt)
  qed
qed

lemma WriteCompactSize_cases:
  "unat n < 253 \<Longrightarrow> WriteCompactSize n = [ucast n]"
  "253 \<le> unat n \<Longrightarrow> unat n \<le> 0xffff \<Longrightarrow> WriteCompactSize n = 253 # ser_writedata16 (ucast n)"
  "0x10000 \<le> unat n \<Longrightarrow> unat n \<le> 0xffffffff \<Longrightarrow> WriteCompactSize n = 254 # ser_writedata32 (ucast n)"
  "0x100000000 \<le> unat n \<Longrightarrow> WriteCompactSize n = 255 # ser_writedata64 n"
  by (simp_all add: WriteCompactSize_def ser_writedata8_def u64_nat_alt)

lemma unat_ucast_up8: "unat (ucast (b::byte) :: u64) = unat b"
  by (simp add: unsigned_ucast_eq take_bit_nat_eq_self unat_bounds less_trans [OF unat_byte_less])

lemma unat_ucast_up16: "unat (ucast (b::u16) :: u64) = unat b"
  by (simp add: unsigned_ucast_eq take_bit_nat_eq_self unat_bounds less_trans [OF unat_u16_less])

lemma ReadCompactSize_canonical:
  assumes "ReadCompactSize rc s = Inr (n, r)"
  shows "(rc \<longrightarrow> unat n \<le> MAX_SIZE) \<and> s = WriteCompactSize n @ r"
proof -
  obtain ch s1 where ch: "ser_readdata8 s = Inr (ch, s1)"
    using assms by (auto simp: ReadCompactSize_def bindE_Inr_iff)
  have s: "s = ch # s1" using byte8.ser_unser [OF ch] by (simp add: ser_writedata8_def)
  have rc: "rc \<longrightarrow> unat n \<le> MAX_SIZE"
    using assms ch by (auto simp: ReadCompactSize_def bindE_Inr_iff split: if_splits)
  consider (a) "unat ch < 253" | (b) "ch = 253" | (c) "ch = 254" | (d) "ch = 255"
  proof -
    have "unat ch < 256" by (simp add: unat_bounds)
    then have "unat ch < 253 \<or> unat ch = 253 \<or> unat ch = 254 \<or> unat ch = 255" by linarith
    then show thesis using that by (auto simp: word_unat_eq_iff)
  qed
  then show ?thesis
  proof cases
    case a
    then have n: "n = ucast ch" "r = s1"
      using assms ch by (auto simp: ReadCompactSize_def u64_nat_alt split: if_splits)
    have "ucast n = ch" by (simp add: n ucast_up_down)
    moreover have "unat n < 253" using a by (simp add: n unat_ucast_up8)
    ultimately show ?thesis using rc s n by (simp add: WriteCompactSize_cases)
  next
    case b
    then obtain v where v: "ser_readdata16 s1 = Inr (v, r)" "n = ucast v" "253 \<le> unat v"
      using assms ch
      by (auto simp: ReadCompactSize_def bindE_Inr_iff u64_nat_alt unat_ucast_up16 split: if_splits)
    have "s1 = ser_writedata16 v @ r" using word16.ser_unser [OF v(1)] by simp
    moreover have "ucast n = v" by (simp add: v ucast_up_down)
    moreover have "253 \<le> unat n" "unat n \<le> 0xffff"
      using v unat_u16_less [of v] by (simp_all add: unat_ucast_up16)
    ultimately show ?thesis using rc s b by (simp add: WriteCompactSize_cases)
  next
    case c
    then obtain v where v: "ser_readdata32 s1 = Inr (v, r)" "n = ucast v" "0x10000 \<le> unat v"
      using assms ch
      by (auto simp: ReadCompactSize_def bindE_Inr_iff u64_nat_alt split: if_splits)
    have "s1 = ser_writedata32 v @ r" using word32.ser_unser [OF v(1)] by simp
    moreover have "ucast n = v" by (simp add: v ucast_up_down)
    moreover have "0x10000 \<le> unat n" "unat n \<le> 0xffffffff"
      using v unat_u32_less [of v] by simp_all
    ultimately show ?thesis using rc s c by (simp add: WriteCompactSize_cases)
  next
    case d
    then have v: "ser_readdata64 s1 = Inr (n, r)" "0x100000000 \<le> unat n"
      using assms ch
      by (auto simp: ReadCompactSize_def bindE_Inr_iff u64_nat_alt split: if_splits)
    have "s1 = ser_writedata64 n @ r" using word64.ser_unser [OF v(1)] by simp
    then show ?thesis using rc s d v by (simp add: WriteCompactSize_cases)
  qed
qed

interpretation compact: canonical_codec "\<lambda>n. rc \<longrightarrow> unat n \<le> MAX_SIZE" WriteCompactSize "ReadCompactSize rc"
  for rc
  by unfold_locales (rule ReadCompactSize_Write ReadCompactSize_canonical; assumption)+

lemma GetSizeOfCompactSize_correct: "length (WriteCompactSize n) = GetSizeOfCompactSize n"
  by (simp add: WriteCompactSize_def GetSizeOfCompactSize_def ser_writedata8_def ser_writedata16_def
      ser_writedata32_def ser_writedata64_def)

subsection \<open>VarInt round trip\<close>

lemma byte_and_7F: "unat ((b::byte) AND 0x7F) = unat b mod 128"
proof -
  have "(0x7F :: byte) = mask 7" by (simp add: mask_eq_exp_minus_1)
  then have "unat (b AND 0x7F) = take_bit 7 (unat b)"
    by (simp only: take_bit_eq_mask [symmetric] unsigned_take_bit_eq)
  then show ?thesis by (simp add: take_bit_eq_mod)
qed

lemma byte_and_80: "(b::byte) AND 0x80 \<noteq> 0 \<longleftrightarrow> 128 \<le> unat b"
proof -
  have "(0x80 :: byte) = 2 ^ 7" by simp
  then have "b AND 0x80 \<noteq> 0 \<longleftrightarrow> bit (unat b) 7"
    by (simp only: and_exp_eq_0_iff_not_bit not_not) (simp add: bit_unsigned_iff)
  also have "\<dots> \<longleftrightarrow> odd (unat b div 128)" by (simp add: bit_iff_odd)
  also have "\<dots> \<longleftrightarrow> 128 \<le> unat b"
  proof (cases "128 \<le> unat b")
    case True
    then have "unat b div 128 = 1" using unat_byte_less [of b] by (intro div_nat_eqI) simp_all
    then show ?thesis using True by simp
  qed simp
  finally show ?thesis .
qed

lemma varint_digit:
  "unat (of_nat (n AND 0x7F) OR (if c then 0x80 else 0) :: byte) = n mod 128 + (if c then 128 else 0)"
proof -
  have "n AND 0x7F = n mod 128"
    using take_bit_eq_mask [of 7 n] by (simp add: take_bit_eq_mod mask_eq_exp_minus_1)
  moreover have u: "unat (of_nat (n mod 128) :: byte) = n mod 128"
    by (simp add: unsigned_of_nat take_bit_nat_eq_self less_trans [of _ 128])
  moreover have "(0x80 :: byte) = push_bit 7 1" by (simp add: push_bit_eq_mult)
  ultimately show ?thesis
    using unat_or_disjoint [of "of_nat (n mod 128) :: byte" 7 1] by auto
qed

lemma push_bit_or_nat: "push_bit 7 n OR (d mod 128) = 128 * n + d mod (128::nat)"
proof -
  have "push_bit 7 n AND (d mod 128) = 0"
    by (rule bit_eqI)
      (auto simp: bit_and_iff bit_push_bit_iff dest!: not_bit_if_less_exp [of "d mod 128" 7, rotated])
  then have "push_bit 7 n OR (d mod 128) = push_bit 7 n + d mod 128" by (simp add: disjunctive_add_eq_or)
  then show ?thesis by (simp add: push_bit_eq_mult)
qed
lemma ReadVarInt_loop_step:
  "n \<le> mx div 128 \<Longrightarrow> ReadVarInt_loop mx n (c # s) =
    (if 128 \<le> unat c
     then (if 128 * n + unat c mod 128 = mx then Inl Stream_Failure
           else ReadVarInt_loop mx (128 * n + unat c mod 128 + 1) s)
     else Inr (128 * n + unat c mod 128, s))"
  by (simp add: byte_and_80 byte_and_7F push_bit_or_nat drop_bit_eq_div Let_def)

lemma varint_continue:
  "m < mx \<Longrightarrow> ReadVarInt_loop mx 0 (rev (varint_tmp True m) @ s) = ReadVarInt_loop mx (m + 1) s"
proof (induction m arbitrary: s rule: less_induct)
  case (less m)
  let ?d = "of_nat (m AND 0x7F) OR 0x80 :: byte"
  have d: "unat ?d = m mod 128 + 128" using varint_digit [of m True] by simp
  then have dm: "unat ?d mod 128 = m mod 128" by simp
  show ?case
  proof (cases "m \<le> 0x7F")
    case True
    then show ?thesis using less.prems d dm
      by (subst varint_tmp.simps) (simp add: ReadVarInt_loop_step del: ReadVarInt_loop.simps)
  next
    case False
    let ?q = "drop_bit 7 m - 1"
    have q: "?q < m" "?q + 1 = m div 128" using False varint_next_less [of m]
      by (simp_all add: drop_bit_eq_div div_greater_zero_iff)
    have le: "m div 128 \<le> mx div 128" using less.prems by (simp add: div_le_mono)
    have "ReadVarInt_loop mx 0 (rev (varint_tmp True m) @ s)
        = ReadVarInt_loop mx 0 (rev (varint_tmp True ?q) @ ?d # s)"
      using False by (subst varint_tmp.simps) simp
    also have "\<dots> = ReadVarInt_loop mx (m div 128) (?d # s)"
      using less.IH [OF q(1), of "?d # s"] q less.prems by simp
    also have "\<dots> = ReadVarInt_loop mx (m + 1) s"
      using less.prems d dm le by (simp add: ReadVarInt_loop_step del: ReadVarInt_loop.simps)
    finally show ?thesis .
  qed
qed

lemma ReadVarInt_Write: "n \<le> mx \<Longrightarrow> ReadVarInt mx (WriteVarInt n @ r) = Inr (n, r)"
proof -
  assume n: "n \<le> mx"
  let ?d = "of_nat (n AND 0x7F) :: byte"
  have d: "unat ?d = n mod 128" using varint_digit [of n False] by simp
  have lt: "\<not> 128 \<le> n mod 128" by (simp add: not_le)
  show ?thesis
  proof (cases "n \<le> 0x7F")
    case True
    then show ?thesis using d
      by (simp add: ReadVarInt_def WriteVarInt_def varint_tmp.simps ReadVarInt_loop_step
          del: ReadVarInt_loop.simps)
  next
    case False
    let ?q = "drop_bit 7 n - 1"
    have q: "?q < n" "?q + 1 = n div 128" using False varint_next_less [of n]
      by (simp_all add: drop_bit_eq_div div_greater_zero_iff)
    have le: "n div 128 \<le> mx div 128" using n by (simp add: div_le_mono)
    have "ReadVarInt mx (WriteVarInt n @ r) = ReadVarInt_loop mx 0 (rev (varint_tmp True ?q) @ ?d # r)"
      using False unfolding ReadVarInt_def WriteVarInt_def by (subst varint_tmp.simps) simp
    also have "\<dots> = ReadVarInt_loop mx (n div 128) (?d # r)"
      using varint_continue [of ?q mx "?d # r"] q n by simp
    also have "\<dots> = Inr (n, r)"
      using d le lt by (simp add: ReadVarInt_loop_step del: ReadVarInt_loop.simps)
    finally show ?thesis .
  qed
qed

definition varint_prefix :: "nat \<Rightarrow> bytes" where
  "varint_prefix k = (if k = 0 then [] else rev (varint_tmp True (k - 1)))"

lemma varint_tmp_extend:
  assumes "unat c = n mod 128 + (if cont then 128 else 0)"
  shows "rev (varint_tmp cont n) = varint_prefix (n div 128) @ [c]"
proof -
  have c: "of_nat (n AND 0x7F) OR (if cont then 0x80 else 0) = c"
    using assms varint_digit [of n cont] by (simp add: word_unat_eq_iff)
  show ?thesis
  proof (cases "n \<le> 0x7F")
    case True
    then show ?thesis using c by (subst varint_tmp.simps) (simp add: varint_prefix_def)
  next
    case False
    then have "n div 128 \<noteq> 0" by (simp add: div_eq_0_iff)
    then show ?thesis using c False
      by (subst varint_tmp.simps) (simp add: varint_prefix_def drop_bit_eq_div)
  qed
qed

lemma ReadVarInt_loop_canonical:
  assumes mx: "mx mod 128 = 127"
  shows "ReadVarInt_loop mx k s = Inr (n, r) \<Longrightarrow> varint_prefix k @ s = WriteVarInt n @ r \<and> n \<le> mx"
proof (induction s arbitrary: k)
  case (Cons c s)
  have k: "k \<le> mx div 128" using Cons.prems by (auto simp: drop_bit_eq_div split: if_splits)
  note st = Cons.prems [unfolded ReadVarInt_loop_step [OF k]]
  let ?n = "128 * k + unat c mod 128"
  have "?n < 128 * (k + 1)" by simp
  also have "\<dots> \<le> 128 * (mx div 128 + 1)" using k by simp
  also have "\<dots> = 128 * (mx div 128) + 127 + 1" by simp
  also have "128 * (mx div 128) + 127 = mx" by (metis mult_div_mod_eq mx)
  finally have le: "?n \<le> mx" by simp
  show ?case
  proof (cases "128 \<le> unat c")
    case True
    have "unat c mod 128 = unat c - 128"
      using True unat_byte_less [of c] by (simp add: le_mod_geq)
    moreover have "?n mod 128 = unat c mod 128" by simp
    ultimately have "unat c = ?n mod 128 + 128" using True by linarith
    then have "rev (varint_tmp True ?n) = varint_prefix k @ [c]"
      using varint_tmp_extend [of c ?n True] by simp
    then have "varint_prefix (?n + 1) = varint_prefix k @ [c]" by (simp add: varint_prefix_def)
    then show ?thesis using True st Cons.IH [of "?n + 1"] by (auto split: if_splits)
  next
    case False
    then have "unat c = ?n mod 128" by simp
    then have "WriteVarInt ?n = varint_prefix k @ [c]"
      using varint_tmp_extend [of c ?n False] by (simp add: WriteVarInt_def)
    then show ?thesis using False st le by auto
  qed
qed simp
interpretation varint: codec "\<lambda>n. n \<le> mx" WriteVarInt "ReadVarInt mx" for mx
  by unfold_locales (rule ReadVarInt_Write)

lemma ReadVarInt_canonical:
  "mx mod 128 = 127 \<Longrightarrow> ReadVarInt mx s = Inr (n, r) \<Longrightarrow> n \<le> mx \<and> s = WriteVarInt n @ r"
  using ReadVarInt_loop_canonical [of mx 0 s n r] by (simp add: ReadVarInt_def varint_prefix_def)

lemma length_WriteVarInt: "length (WriteVarInt n) = GetSizeOfVarInt n"
proof -
  have "length (varint_tmp c n) = GetSizeOfVarInt n" for c
  proof (induction n arbitrary: c rule: less_induct)
    case (less n)
    then show ?case
      by (subst varint_tmp.simps, subst GetSizeOfVarInt.simps) (simp add: varint_next_less)
  qed
  then show ?thesis by (simp add: WriteVarInt_def)
qed

text \<open>The writer's buffer of \<^verbatim>\<open>(sizeof(n)*8+6)/7\<close> bytes is large enough.\<close>

lemma varint_fits: "n < 2 ^ (7 * k) \<Longrightarrow> 0 < k \<Longrightarrow> GetSizeOfVarInt n \<le> k"
proof (induction k arbitrary: n)
  case (Suc k)
  show ?case
  proof (cases "n \<le> 0x7F")
    case True
    then show ?thesis by (simp add: GetSizeOfVarInt.simps)
  next
    case False
    have k: "0 < k" using False Suc.prems by (cases k) simp_all
    have "drop_bit 7 n < 2 ^ (7 * k)"
      using Suc.prems(1) by (simp add: drop_bit_eq_div power_add less_mult_imp_div_less mult.commute)
    then have "GetSizeOfVarInt (drop_bit 7 n - 1) \<le> k" using k by (intro Suc.IH) simp_all
    then show ?thesis using False by (subst GetSizeOfVarInt.simps) simp
  qed
qed simp

subsection \<open>Vectors round trip\<close>

lemma take_drop_block: "b \<le> m \<Longrightarrow> take b s @ take (m - b) (drop b s) = take m s"
  using take_add [of b "m - b" s] by simp

lemma read_blocks_eq:
  "i \<le> nSize \<Longrightarrow> read_blocks nSize i v s =
    (if nSize - i \<le> length s then Inr (v @ take (nSize - i) s, drop (nSize - i) s)
     else Inl Stream_Failure)"
proof (induction nSize i v s rule: read_blocks.induct)
  case (1 nSize i v s)
  let ?blk = "min (nSize - i) (1 + 4999999)"
  show ?case
  proof (cases "i < nSize")
    case True
    show ?thesis
    proof (cases "?blk \<le> length s")
      case blk: True
      have "stream_read ?blk s = Inr (take ?blk s, drop ?blk s)"
        using blk unfolding stream_read_def not_less [symmetric] by (simp only: if_False)
      then have "read_blocks nSize i v s = read_blocks nSize (i + ?blk) (v @ take ?blk s) (drop ?blk s)"
        using True by (subst read_blocks.simps) (simp add: Let_def)
      also have "\<dots> = (if nSize - (i + ?blk) \<le> length (drop ?blk s)
          then Inr ((v @ take ?blk s) @ take (nSize - (i + ?blk)) (drop ?blk s), drop (nSize - (i + ?blk)) (drop ?blk s))
          else Inl Stream_Failure)"
        using True by (intro 1(1)) simp_all
      finally have r: "read_blocks nSize i v s = \<dots>" .
      have b: "nSize - (i + ?blk) = (nSize - i) - ?blk" "?blk \<le> nSize - i" by simp_all
      show ?thesis unfolding r b(1) using blk b(2)
        by (simp only: length_drop drop_drop append_assoc take_drop_block le_diff_iff le_add_diff_inverse2)
    next
      case False
      then have f: "stream_read ?blk s = Inl Stream_Failure" "\<not> nSize - i \<le> length s"
        by (simp_all add: stream_read_def not_le)
      show ?thesis unfolding read_blocks.simps [of nSize i v s] Let_def f(1) using True f(2) by simp
    qed
  next
    case False
    then show ?thesis using 1(2) by (subst read_blocks.simps) simp
  qed
qed
lemma unat_of_nat_size: "k \<le> MAX_SIZE \<Longrightarrow> unat (of_nat k :: u64) = k"
  by (simp add: MAX_SIZE_def unsigned_of_nat take_bit_nat_eq_self)

interpretation byte_vector: canonical_codec "\<lambda>v. length v \<le> MAX_SIZE" ser_bytes unser_bytes
proof unfold_locales
  fix v r s :: bytes
  show "unser_bytes (ser_bytes v @ r) = Inr (v, r)" if "length v \<le> MAX_SIZE"
    using that by (simp add: unser_bytes_def ser_bytes_def compact.unser_ser unat_of_nat_size read_blocks_eq)
  show "length v \<le> MAX_SIZE \<and> s = ser_bytes v @ r" if u: "unser_bytes s = Inr (v, r)"
  proof -
    from u obtain n s1 where n: "ReadCompactSize True s = Inr (n, s1)" "read_blocks (unat n) 0 [] s1 = Inr (v, r)"
      by (auto simp: unser_bytes_def bindE_Inr_iff)
    have c: "unat n \<le> MAX_SIZE" "s = WriteCompactSize n @ s1" using compact.ser_unser [OF n(1)] by simp_all
    have v: "unat n \<le> length s1" "v = take (unat n) s1" "r = drop (unat n) s1"
      using n(2) by (simp_all add: read_blocks_eq split: if_splits)
    then have "length v = unat n" by simp
    then show ?thesis using c v by (simp add: ser_bytes_def)
  qed
qed

lemma length_read_elems: "read_elems u n s = Inr (xs, r) \<Longrightarrow> length xs = n"
  by (induction n arbitrary: s xs) (auto simp: bindE_Inr_iff)

lemma read_elems_add:
  "read_elems u (m + k) s = bindE (read_elems u m s) (\<lambda>(xs, r).
     bindE (read_elems u k r) (\<lambda>(ys, r'). Inr (xs @ ys, r')))"
proof (induction m arbitrary: s)
  case 0
  show ?case by (cases "read_elems u k s") auto
next
  case (Suc m)
  show ?case
  proof (cases "u s")
    case (Inr p)
    obtain x r where "p = (x, r)" by (cases p)
    then show ?thesis using Inr Suc.IH [of r]
      by (cases "read_elems u m r") (auto simp: bindE_assoc split_beta)
  qed simp
qed

lemma read_batches_eq:
  "0 < MAX_VECTOR_ALLOCATE div es \<Longrightarrow> length v = a \<Longrightarrow> a \<le> n \<Longrightarrow>
    read_batches u es n a v s = bindE (read_elems u (n - a) s) (\<lambda>(xs, r). Inr (v @ xs, r))"
proof (induction u es n a v s rule: read_batches.induct)
  case (1 u es n a v s)
  note pos = 1(2)
  show ?case
  proof (cases "a < n")
    case True
    let ?a = "min n (a + MAX_VECTOR_ALLOCATE div es)"
    have split: "n - a = (?a - a) + (n - ?a)" using True by simp
    have IH: "read_batches u es n ?a (v @ xs) r = bindE (read_elems u (n - ?a) r) (\<lambda>(ys, r'). Inr ((v @ xs) @ ys, r'))"
      if "read_elems u (?a - length v) s = Inr (xs, r)" for xs r
      using True pos that 1(3) length_read_elems [OF that] by (intro 1(1)) auto
    show ?thesis
    proof (cases "read_elems u (?a - length v) s")
      case (Inl e)
      then show ?thesis using True pos 1(3) unfolding split read_elems_add
        by (subst read_batches.simps) (simp add: Let_def)
    next
      case (Inr p)
      obtain xs r where p: "p = (xs, r)" by (cases p)
      have "read_batches u es n a v s = read_batches u es n ?a (v @ xs) r"
        using True pos Inr p by (subst read_batches.simps) (simp add: Let_def)
      also have "\<dots> = bindE (read_elems u (n - ?a) r) (\<lambda>(ys, r'). Inr ((v @ xs) @ ys, r'))"
        using IH Inr p by simp
      also have "\<dots> = bindE (read_elems u (n - a) s) (\<lambda>(xs, r). Inr (v @ xs, r))"
        unfolding split read_elems_add using Inr p 1(3)
        by (cases "read_elems u (n - ?a) r") auto
      finally show ?thesis .
    qed
  next
    case False
    then show ?thesis using 1(3,4) by (subst read_batches.simps) simp
  qed
qed

lemma unser_vector_eq:
  "0 < es \<Longrightarrow> es \<le> MAX_VECTOR_ALLOCATE \<Longrightarrow>
   unser_vector u es s = bindE (ReadCompactSize True s) (\<lambda>(n, r). read_elems u (unat n) r)"
proof -
  assume es: "0 < es" "es \<le> MAX_VECTOR_ALLOCATE"
  then have "0 < MAX_VECTOR_ALLOCATE div es" by (simp add: div_greater_zero_iff)
  then have "read_batches u es (unat n) 0 [] r = read_elems u (unat n) r" for n :: u64 and r
    by (subst read_batches_eq) (simp_all, cases "read_elems u (unat n) r", auto)
  then show ?thesis by (simp add: unser_vector_def)
qed

context canonical_codec
begin

lemma vector_codec:
  assumes es: "0 < es" "es \<le> MAX_VECTOR_ALLOCATE"
  shows "canonical_codec (\<lambda>v. list_all good v \<and> length v \<le> MAX_SIZE) (ser_vector ser) (unser_vector unser es)"
proof
  fix v r s
  show "unser_vector unser es (ser_vector ser v @ r) = Inr (v, r)"
    if "list_all good v \<and> length v \<le> MAX_SIZE"
    using that by (simp add: unser_vector_eq [OF es] ser_vector_def compact.unser_ser unat_of_nat_size
        read_elems_concat)
  show "(list_all good v \<and> length v \<le> MAX_SIZE) \<and> s = ser_vector ser v @ r"
    if u: "unser_vector unser es s = Inr (v, r)"
  proof -
    from u obtain n s1 where n: "ReadCompactSize True s = Inr (n, s1)" "read_elems unser (unat n) s1 = Inr (v, r)"
      by (auto simp: unser_vector_eq [OF es] bindE_Inr_iff)
    have c: "unat n \<le> MAX_SIZE" "s = WriteCompactSize n @ s1" using compact.ser_unser [OF n(1)] by simp_all
    then show ?thesis using read_elems_canonical [OF n(2)] by (auto simp: ser_vector_def)
  qed
qed

end

end
