(* ===== verification/Primitives.thy ===== *)
theory Primitives
  imports Serialize
begin

text \<open>
  The data that travels between nodes: outpoints, inputs, outputs and transactions of
  \<^verbatim>\<open>src/src/primitives/transaction.h\<close>, block headers with qbit's version layout of
  \<^verbatim>\<open>src/src/primitives/pureheader.h\<close>, merged-mining payloads of \<^verbatim>\<open>src/src/auxpow.h\<close> and blocks of
  \<^verbatim>\<open>src/src/primitives/block.h\<close>, with their serialization. The theory shows that every type is a
  canonical codec (decoding inverts encoding and accepts only encodings) and that the fields of a
  block version can be packed and extracted without loss.
\<close>

unbundle bit_operations_syntax

subsection \<open>Transactions\<close>

type_synonym uint256 = bytes
type_synonym CAmount = int
type_synonym CScript = bytes

record COutPoint =
  op_hash :: uint256
  op_n :: u32

record CTxIn =
  txin_prevout :: COutPoint
  txin_scriptSig :: CScript
  txin_nSequence :: u32
  txin_witness :: "bytes list"

record CTxOut =
  txout_nValue :: CAmount
  txout_scriptPubKey :: CScript

record CTransaction =
  tx_vin :: "CTxIn list"
  tx_vout :: "CTxOut list"
  tx_version :: u32
  tx_nLockTime :: u32

definition uint256_null :: uint256 where
  "uint256_null = replicate 32 0"

definition uint256_IsNull :: "uint256 \<Rightarrow> bool" where
  "uint256_IsNull h \<longleftrightarrow> list_all (\<lambda>b. b = 0) h"

definition NULL_INDEX :: u32 where
  "NULL_INDEX = 0xffffffff"

definition COutPoint_IsNull :: "COutPoint \<Rightarrow> bool" where
  "COutPoint_IsNull p \<longleftrightarrow> uint256_IsNull (op_hash p) \<and> op_n p = NULL_INDEX"

definition CTransaction_IsNull :: "CTransaction \<Rightarrow> bool" where
  "CTransaction_IsNull tx \<longleftrightarrow> tx_vin tx = [] \<and> tx_vout tx = []"

definition IsCoinBase :: "CTransaction \<Rightarrow> bool" where
  "IsCoinBase tx \<longleftrightarrow> length (tx_vin tx) = 1 \<and> COutPoint_IsNull (txin_prevout (tx_vin tx ! 0))"

definition HasWitness :: "CTransaction \<Rightarrow> bool" where
  "HasWitness tx \<longleftrightarrow> list_ex (\<lambda>i. txin_witness i \<noteq> []) (tx_vin tx)"

subsection \<open>Transaction serialization\<close>

definition ser_uint256 :: "uint256 \<Rightarrow> bytes" where
  "ser_uint256 h = h"

definition unser_uint256 :: "uint256 reader" where
  "unser_uint256 s = stream_read 32 s"

definition ser_i64 :: "int \<Rightarrow> bytes" where
  "ser_i64 v = ser_writedata64 (of_int v)"

definition unser_i64 :: "int reader" where
  "unser_i64 s = bindE (ser_readdata64 s) (\<lambda>(w, r). Inr (sint w, r))"

definition ser_i32 :: "int \<Rightarrow> bytes" where
  "ser_i32 v = ser_writedata32 (of_int v)"

definition unser_i32 :: "int reader" where
  "unser_i32 s = bindE (ser_readdata32 s) (\<lambda>(w, r). Inr (sint w, r))"

definition ser_COutPoint :: "COutPoint \<Rightarrow> bytes" where
  "ser_COutPoint p = ser_uint256 (op_hash p) @ ser_writedata32 (op_n p)"

definition unser_COutPoint :: "COutPoint reader" where
  "unser_COutPoint s =
    bindE (unser_uint256 s) (\<lambda>(h, s). bindE (ser_readdata32 s) (\<lambda>(n, s).
      Inr (\<lparr>op_hash = h, op_n = n\<rparr>, s)))"

definition ser_CTxIn :: "CTxIn \<Rightarrow> bytes" where
  "ser_CTxIn i = ser_COutPoint (txin_prevout i) @ ser_bytes (txin_scriptSig i) @ ser_writedata32 (txin_nSequence i)"

definition unser_CTxIn :: "CTxIn reader" where
  "unser_CTxIn s =
    bindE (unser_COutPoint s) (\<lambda>(p, s). bindE (unser_bytes s) (\<lambda>(c, s). bindE (ser_readdata32 s) (\<lambda>(n, s).
      Inr (\<lparr>txin_prevout = p, txin_scriptSig = c, txin_nSequence = n, txin_witness = []\<rparr>, s))))"

definition ser_CTxOut :: "CTxOut \<Rightarrow> bytes" where
  "ser_CTxOut t = ser_i64 (txout_nValue t) @ ser_bytes (txout_scriptPubKey t)"

definition unser_CTxOut :: "CTxOut reader" where
  "unser_CTxOut s =
    bindE (unser_i64 s) (\<lambda>(v, s). bindE (unser_bytes s) (\<lambda>(c, s).
      Inr (\<lparr>txout_nValue = v, txout_scriptPubKey = c\<rparr>, s)))"

text \<open>Object sizes on a 64-bit platform; they only set how many elements a batch reserves.\<close>

definition sizeof_CTxIn :: nat where "sizeof_CTxIn = 104"
definition sizeof_CTxOut :: nat where "sizeof_CTxOut = 48"
definition sizeof_uint256 :: nat where "sizeof_uint256 = 32"
definition sizeof_vector :: nat where "sizeof_vector = 24"
definition sizeof_shared_ptr :: nat where "sizeof_shared_ptr = 16"

fun unser_witnesses :: "CTxIn list \<Rightarrow> CTxIn list reader" where
  "unser_witnesses [] s = Inr ([], s)"
| "unser_witnesses (i # is) s =
    bindE (unser_vector unser_bytes sizeof_vector s) (\<lambda>(w, s).
    bindE (unser_witnesses is s) (\<lambda>(is', s). Inr (i\<lparr>txin_witness := w\<rparr> # is', s)))"

definition UnserializeTransaction :: "bool \<Rightarrow> CTransaction reader" where
  "UnserializeTransaction fAllowWitness s =
    bindE (ser_readdata32 s) (\<lambda>(version, s).
    bindE (unser_vector unser_CTxIn sizeof_CTxIn s) (\<lambda>(vin0, s).
    bindE (if vin0 = [] \<and> fAllowWitness then
             bindE (ser_readdata8 s) (\<lambda>(flags, s).
               if flags \<noteq> 0 then
                 bindE (unser_vector unser_CTxIn sizeof_CTxIn s) (\<lambda>(vin, s).
                 bindE (unser_vector unser_CTxOut sizeof_CTxOut s) (\<lambda>(vout, s). Inr (vin, vout, flags, s)))
               else Inr ([], [], flags, s))
           else bindE (unser_vector unser_CTxOut sizeof_CTxOut s) (\<lambda>(vout, s). Inr (vin0, vout, 0, s)))
      (\<lambda>(vin, vout, flags, s).
    bindE (if flags AND 1 \<noteq> 0 \<and> fAllowWitness then
             bindE (unser_witnesses vin s) (\<lambda>(vin', s).
               if list_ex (\<lambda>i. txin_witness i \<noteq> []) vin' then Inr (vin', flags XOR 1, s)
               else Inl Stream_Failure)
           else Inr (vin, flags, s)) (\<lambda>(vin, flags, s).
    if flags \<noteq> 0 then Inl Stream_Failure
    else bindE (ser_readdata32 s) (\<lambda>(lock, s).
      Inr (\<lparr>tx_vin = vin, tx_vout = vout, tx_version = version, tx_nLockTime = lock\<rparr>, s))))))"

definition SerializeTransaction :: "bool \<Rightarrow> CTransaction \<Rightarrow> bytes" where
  "SerializeTransaction fAllowWitness tx =
    (let flags = (if fAllowWitness \<and> HasWitness tx then 1 else 0 :: byte) in
     ser_writedata32 (tx_version tx) @
     (if flags \<noteq> 0 then ser_vector ser_CTxIn [] @ ser_writedata8 flags else []) @
     ser_vector ser_CTxIn (tx_vin tx) @ ser_vector ser_CTxOut (tx_vout tx) @
     (if flags AND 1 \<noteq> 0 then concat (map (\<lambda>i. ser_vector ser_bytes (txin_witness i)) (tx_vin tx)) else []) @
     ser_writedata32 (tx_nLockTime tx))"

text \<open>Hashes: the double SHA-256 of \<^verbatim>\<open>HashWriter\<close> is the parameter \<^verbatim>\<open>H\<close>.\<close>

definition tx_GetHash :: "(bytes \<Rightarrow> uint256) \<Rightarrow> CTransaction \<Rightarrow> uint256" where
  "tx_GetHash H tx = H (SerializeTransaction False tx)"

definition tx_GetWitnessHash :: "(bytes \<Rightarrow> uint256) \<Rightarrow> CTransaction \<Rightarrow> uint256" where
  "tx_GetWitnessHash H tx =
    (if \<not> HasWitness tx then tx_GetHash H tx else H (SerializeTransaction True tx))"

definition GetTotalSize :: "CTransaction \<Rightarrow> nat" where
  "GetTotalSize tx = length (SerializeTransaction True tx)"

subsection \<open>Block versions\<close>

definition BLOCK_VERSION_TOP_BITS :: u32 where "BLOCK_VERSION_TOP_BITS = 0x20000000"
definition BLOCK_VERSION_TOP_MASK :: u32 where "BLOCK_VERSION_TOP_MASK = 0xE0000000"
definition BLOCK_VERSION_CHAIN_ID_MASK :: u32 where "BLOCK_VERSION_CHAIN_ID_MASK = 0x1FFFE000"
definition BLOCK_VERSION_RESERVED_MASK :: u32 where "BLOCK_VERSION_RESERVED_MASK = 0x00001E00"
definition BLOCK_VERSION_AUXPOW :: u32 where "BLOCK_VERSION_AUXPOW = 0x00000100"
definition BLOCK_VERSION_SIGNAL_MASK :: u32 where "BLOCK_VERSION_SIGNAL_MASK = 0x000000FF"

definition BLOCK_VERSION_LAYOUT_MASK :: u32 where
  "BLOCK_VERSION_LAYOUT_MASK = BLOCK_VERSION_TOP_MASK OR BLOCK_VERSION_CHAIN_ID_MASK OR
    BLOCK_VERSION_RESERVED_MASK OR BLOCK_VERSION_AUXPOW"

lemmas block_version_masks = BLOCK_VERSION_TOP_BITS_def BLOCK_VERSION_TOP_MASK_def
  BLOCK_VERSION_CHAIN_ID_MASK_def BLOCK_VERSION_RESERVED_MASK_def BLOCK_VERSION_AUXPOW_def
  BLOCK_VERSION_SIGNAL_MASK_def BLOCK_VERSION_LAYOUT_MASK_def

definition HasBIP9TopBitsShape :: "u32 \<Rightarrow> bool" where
  "HasBIP9TopBitsShape version \<longleftrightarrow> version AND BLOCK_VERSION_TOP_MASK = BLOCK_VERSION_TOP_BITS"

definition HasCanonicalVersionLayout :: "u32 \<Rightarrow> bool" where
  "HasCanonicalVersionLayout version \<longleftrightarrow>
    version AND BLOCK_VERSION_LAYOUT_MASK = 0 \<or> HasBIP9TopBitsShape version"

definition ExtractChainId :: "u32 \<Rightarrow> u16" where
  "ExtractChainId version = ucast (drop_bit 13 (version AND BLOCK_VERSION_CHAIN_ID_MASK))"

definition ExtractVersionBits :: "u32 \<Rightarrow> byte" where
  "ExtractVersionBits version = ucast (version AND BLOCK_VERSION_SIGNAL_MASK)"

definition IsAuxpowVersion :: "u32 \<Rightarrow> bool" where
  "IsAuxpowVersion version \<longleftrightarrow> HasBIP9TopBitsShape version \<and> version AND BLOCK_VERSION_AUXPOW \<noteq> 0"

definition GetPermissionlessVersionRollingMask :: "u32 \<Rightarrow> u32" where
  "GetPermissionlessVersionRollingMask version =
    (if HasBIP9TopBitsShape version \<and> \<not> IsAuxpowVersion version then BLOCK_VERSION_CHAIN_ID_MASK else 0)"

definition ReservedBits :: "u32 \<Rightarrow> byte" where
  "ReservedBits version = ucast (drop_bit 9 (version AND BLOCK_VERSION_RESERVED_MASK))"

definition MakeVersion :: "u16 \<Rightarrow> bool \<Rightarrow> byte \<Rightarrow> u32" where
  "MakeVersion chain_id auxpow version_bits =
    BLOCK_VERSION_TOP_BITS OR push_bit 13 (ucast chain_id) OR
    (if auxpow then BLOCK_VERSION_AUXPOW else 0) OR ucast version_bits"

subsection \<open>Headers, merged-mining payloads and blocks\<close>

record CPureBlockHeader =
  hdr_nVersion :: u32
  hdr_hashPrevBlock :: uint256
  hdr_hashMerkleRoot :: uint256
  hdr_nTime :: u32
  hdr_nBits :: u32
  hdr_nNonce :: u32

record CAuxPow =
  ap_coinbase_tx :: CTransaction
  ap_coinbase_merkle_branch :: "uint256 list"
  ap_coinbase_branch_index :: int
  ap_chain_merkle_branch :: "uint256 list"
  ap_chain_index :: int
  ap_parent_block :: CPureBlockHeader

record CBlockHeader = CPureBlockHeader +
  hdr_auxpow :: "CAuxPow option"

record CBlock = CBlockHeader +
  blk_vtx :: "CTransaction list"

definition header_IsNull :: "'a CPureBlockHeader_scheme \<Rightarrow> bool" where
  "header_IsNull h \<longleftrightarrow> hdr_nBits h = 0"

definition HasVersionTopBits :: "'a CPureBlockHeader_scheme \<Rightarrow> bool" where
  "HasVersionTopBits h \<longleftrightarrow> hdr_nVersion h AND BLOCK_VERSION_TOP_MASK \<noteq> 0"

definition SignalsAuxpow :: "'a CPureBlockHeader_scheme \<Rightarrow> bool" where
  "SignalsAuxpow h \<longleftrightarrow> IsAuxpowVersion (hdr_nVersion h)"

definition HasReservedVersionBits :: "'a CPureBlockHeader_scheme \<Rightarrow> bool" where
  "HasReservedVersionBits h \<longleftrightarrow> ReservedBits (hdr_nVersion h) \<noteq> 0"

definition GetChainId :: "'a CPureBlockHeader_scheme \<Rightarrow> u16" where
  "GetChainId h = ExtractChainId (hdr_nVersion h)"

definition GetVersionBits :: "'a CPureBlockHeader_scheme \<Rightarrow> byte" where
  "GetVersionBits h = ExtractVersionBits (hdr_nVersion h)"

definition header_GetBlockTime :: "'a CPureBlockHeader_scheme \<Rightarrow> int" where
  "header_GetBlockTime h = uint (hdr_nTime h)"

definition HasAuxpow :: "'a CBlockHeader_scheme \<Rightarrow> bool" where
  "HasAuxpow h \<longleftrightarrow> hdr_auxpow h \<noteq> None"

definition ser_CPureBlockHeader :: "'a CPureBlockHeader_scheme \<Rightarrow> bytes" where
  "ser_CPureBlockHeader h =
    ser_writedata32 (hdr_nVersion h) @ ser_uint256 (hdr_hashPrevBlock h) @ ser_uint256 (hdr_hashMerkleRoot h) @
    ser_writedata32 (hdr_nTime h) @ ser_writedata32 (hdr_nBits h) @ ser_writedata32 (hdr_nNonce h)"

definition unser_CPureBlockHeader :: "CPureBlockHeader reader" where
  "unser_CPureBlockHeader s =
    bindE (ser_readdata32 s) (\<lambda>(v, s). bindE (unser_uint256 s) (\<lambda>(p, s). bindE (unser_uint256 s) (\<lambda>(m, s).
    bindE (ser_readdata32 s) (\<lambda>(t, s). bindE (ser_readdata32 s) (\<lambda>(b, s). bindE (ser_readdata32 s) (\<lambda>(n, s).
      Inr (\<lparr>hdr_nVersion = v, hdr_hashPrevBlock = p, hdr_hashMerkleRoot = m, hdr_nTime = t,
            hdr_nBits = b, hdr_nNonce = n\<rparr>, s)))))))"

definition header_GetHash :: "(bytes \<Rightarrow> uint256) \<Rightarrow> 'a CPureBlockHeader_scheme \<Rightarrow> uint256" where
  "header_GetHash H h = H (ser_CPureBlockHeader h)"

definition ser_CAuxPow :: "CAuxPow \<Rightarrow> bytes" where
  "ser_CAuxPow a =
    SerializeTransaction False (ap_coinbase_tx a) @ ser_vector ser_uint256 (ap_coinbase_merkle_branch a) @
    ser_i32 (ap_coinbase_branch_index a) @ ser_vector ser_uint256 (ap_chain_merkle_branch a) @
    ser_i32 (ap_chain_index a) @ ser_CPureBlockHeader (ap_parent_block a)"

definition unser_CAuxPow :: "CAuxPow reader" where
  "unser_CAuxPow s =
    bindE (UnserializeTransaction False s) (\<lambda>(tx, s).
    bindE (unser_vector unser_uint256 sizeof_uint256 s) (\<lambda>(cb, s).
    bindE (unser_i32 s) (\<lambda>(ci, s).
    bindE (unser_vector unser_uint256 sizeof_uint256 s) (\<lambda>(hb, s).
    bindE (unser_i32 s) (\<lambda>(hi, s).
    bindE (unser_CPureBlockHeader s) (\<lambda>(p, s).
      Inr (\<lparr>ap_coinbase_tx = tx, ap_coinbase_merkle_branch = cb, ap_coinbase_branch_index = ci,
            ap_chain_merkle_branch = hb, ap_chain_index = hi, ap_parent_block = p\<rparr>, s)))))))"

definition ser_CBlockHeader :: "'a CBlockHeader_scheme \<Rightarrow> bytes cxx" where
  "ser_CBlockHeader h =
    (if SignalsAuxpow h then
       (case hdr_auxpow h of None \<Rightarrow> Inl Stream_Failure
        | Some a \<Rightarrow> Inr (ser_CPureBlockHeader h @ ser_CAuxPow a))
     else Inr (ser_CPureBlockHeader h))"

definition unser_CBlockHeader :: "CBlockHeader reader" where
  "unser_CBlockHeader s =
    bindE (unser_CPureBlockHeader s) (\<lambda>(h, s).
      if SignalsAuxpow h then
        bindE (unser_CAuxPow s) (\<lambda>(a, s). Inr (CPureBlockHeader.extend h \<lparr>hdr_auxpow = Some a\<rparr>, s))
      else Inr (CPureBlockHeader.extend h \<lparr>hdr_auxpow = None\<rparr>, s))"

definition ser_CBlock :: "CBlock \<Rightarrow> bytes cxx" where
  "ser_CBlock b = bindE (ser_CBlockHeader b) (\<lambda>h. Inr (h @ ser_vector (SerializeTransaction True) (blk_vtx b)))"

definition unser_CBlock :: "CBlock reader" where
  "unser_CBlock s =
    bindE (unser_CBlockHeader s) (\<lambda>(h, s).
    bindE (unser_vector (UnserializeTransaction True) sizeof_shared_ptr s) (\<lambda>(vtx, s).
      Inr (CBlockHeader.extend h \<lparr>blk_vtx = vtx\<rparr>, s)))"

subsection \<open>Codecs of the transaction parts\<close>

definition good_outpoint :: "COutPoint \<Rightarrow> bool" where
  "good_outpoint p \<longleftrightarrow> length (op_hash p) = 32"

definition good_txin :: "CTxIn \<Rightarrow> bool" where
  "good_txin i \<longleftrightarrow> good_outpoint (txin_prevout i) \<and> length (txin_scriptSig i) \<le> MAX_SIZE \<and> txin_witness i = []"

definition good_txout :: "CTxOut \<Rightarrow> bool" where
  "good_txout t \<longleftrightarrow> i64_range (txout_nValue t) \<and> length (txout_scriptPubKey t) \<le> MAX_SIZE"

definition good_witness :: "bytes list \<Rightarrow> bool" where
  "good_witness w \<longleftrightarrow> list_all (\<lambda>v. length v \<le> MAX_SIZE) w \<and> length w \<le> MAX_SIZE"

definition strip_witness :: "CTransaction \<Rightarrow> CTransaction" where
  "strip_witness tx = tx\<lparr>tx_vin := map (\<lambda>i. i\<lparr>txin_witness := []\<rparr>) (tx_vin tx)\<rparr>"

definition good_tx_base :: "CTransaction \<Rightarrow> bool" where
  "good_tx_base tx \<longleftrightarrow>
    list_all (\<lambda>i. good_txin (i\<lparr>txin_witness := []\<rparr>)) (tx_vin tx) \<and> length (tx_vin tx) \<le> MAX_SIZE \<and>
    list_all good_txout (tx_vout tx) \<and> length (tx_vout tx) \<le> MAX_SIZE"

definition good_tx :: "CTransaction \<Rightarrow> bool" where
  "good_tx tx \<longleftrightarrow> good_tx_base tx \<and> list_all (\<lambda>i. good_witness (txin_witness i)) (tx_vin tx) \<and>
    (tx_vin tx = [] \<longrightarrow> tx_vout tx = [])"

lemma bindE_split_Inr_iff:
  "bindE m (\<lambda>(x, s). f x s) = Inr b \<longleftrightarrow> (\<exists>x s. m = Inr (x, s) \<and> f x s = Inr b)"
  by (cases m) auto

interpretation hash256: canonical_codec "\<lambda>h. length h = 32" ser_uint256 unser_uint256
  by unfold_locales (simp_all add: ser_uint256_def unser_uint256_def stream_read_Inr_iff)

interpretation amount: canonical_codec i64_range ser_i64 unser_i64
proof unfold_locales
  fix v :: int and s r :: bytes
  show "unser_i64 (ser_i64 v @ r) = Inr (v, r)" if "i64_range v"
    using that by (simp add: unser_i64_def ser_i64_def word64.unser_ser i64_range_def sint_signed_drop_bit_eq signed_of_int signed_take_bit_int_eq_self)
  show "i64_range v \<and> s = ser_i64 v @ r" if u: "unser_i64 s = Inr (v, r)"
  proof -
    obtain w where w: "ser_readdata64 s = Inr (w, r)" "v = sint w"
      using u by (auto simp: unser_i64_def bindE_split_Inr_iff)
    have "- (2 ^ 63) \<le> sint w" "sint w < 2 ^ 63"
      using sint_greater_eq [of w] sint_less [of w] by simp_all
    then show ?thesis using word64.ser_unser [OF w(1)] w(2) by (simp add: i64_range_def ser_i64_def)
  qed
qed

interpretation int32: canonical_codec i32_range ser_i32 unser_i32
proof unfold_locales
  fix v :: int and s r :: bytes
  show "unser_i32 (ser_i32 v @ r) = Inr (v, r)" if "i32_range v"
    using that by (simp add: unser_i32_def ser_i32_def word32.unser_ser i32_range_def signed_of_int signed_take_bit_int_eq_self)
  show "i32_range v \<and> s = ser_i32 v @ r" if u: "unser_i32 s = Inr (v, r)"
  proof -
    obtain w where w: "ser_readdata32 s = Inr (w, r)" "v = sint w"
      using u by (auto simp: unser_i32_def bindE_split_Inr_iff)
    have "- (2 ^ 31) \<le> sint w" "sint w < 2 ^ 31"
      using sint_greater_eq [of w] sint_less [of w] by simp_all
    then show ?thesis using word32.ser_unser [OF w(1)] w(2) by (simp add: i32_range_def ser_i32_def)
  qed
qed

interpretation outpoint: canonical_codec good_outpoint ser_COutPoint unser_COutPoint
proof unfold_locales
  fix p :: COutPoint and s r :: bytes
  show "unser_COutPoint (ser_COutPoint p @ r) = Inr (p, r)" if "good_outpoint p"
    using that by (simp add: unser_COutPoint_def ser_COutPoint_def good_outpoint_def hash256.unser_ser word32.unser_ser)
  show "good_outpoint p \<and> s = ser_COutPoint p @ r" if "unser_COutPoint s = Inr (p, r)"
    using that by (auto simp: unser_COutPoint_def ser_COutPoint_def good_outpoint_def bindE_split_Inr_iff
        dest!: hash256.ser_unser word32.ser_unser)
qed

interpretation txin: canonical_codec good_txin ser_CTxIn unser_CTxIn
proof unfold_locales
  fix p :: CTxIn and s r :: bytes
  show "unser_CTxIn (ser_CTxIn p @ r) = Inr (p, r)" if "good_txin p"
    using that by (simp add: unser_CTxIn_def ser_CTxIn_def good_txin_def outpoint.unser_ser
        byte_vector.unser_ser word32.unser_ser)
  show "good_txin p \<and> s = ser_CTxIn p @ r" if "unser_CTxIn s = Inr (p, r)"
    using that by (auto simp: unser_CTxIn_def ser_CTxIn_def good_txin_def bindE_split_Inr_iff
        dest!: outpoint.ser_unser byte_vector.ser_unser word32.ser_unser)
qed

interpretation txout: canonical_codec good_txout ser_CTxOut unser_CTxOut
proof unfold_locales
  fix p :: CTxOut and s r :: bytes
  show "unser_CTxOut (ser_CTxOut p @ r) = Inr (p, r)" if "good_txout p"
    using that by (simp add: unser_CTxOut_def ser_CTxOut_def good_txout_def amount.unser_ser byte_vector.unser_ser)
  show "good_txout p \<and> s = ser_CTxOut p @ r" if "unser_CTxOut s = Inr (p, r)"
    using that by (auto simp: unser_CTxOut_def ser_CTxOut_def good_txout_def bindE_split_Inr_iff
        dest!: amount.ser_unser byte_vector.ser_unser)
qed

lemmas sizeof_defs = sizeof_CTxIn_def sizeof_CTxOut_def sizeof_uint256_def sizeof_vector_def
  sizeof_shared_ptr_def MAX_VECTOR_ALLOCATE_def

interpretation vin: canonical_codec "\<lambda>v. list_all good_txin v \<and> length v \<le> MAX_SIZE"
  "ser_vector ser_CTxIn" "unser_vector unser_CTxIn sizeof_CTxIn"
  by (rule txin.vector_codec) (simp_all add: sizeof_defs)

interpretation vout: canonical_codec "\<lambda>v. list_all good_txout v \<and> length v \<le> MAX_SIZE"
  "ser_vector ser_CTxOut" "unser_vector unser_CTxOut sizeof_CTxOut"
  by (rule txout.vector_codec) (simp_all add: sizeof_defs)

interpretation witness: canonical_codec good_witness "ser_vector ser_bytes" "unser_vector unser_bytes sizeof_vector"
  unfolding good_witness_def [abs_def] by (rule byte_vector.vector_codec) (simp_all add: sizeof_defs)

interpretation branch: canonical_codec "\<lambda>v. list_all (\<lambda>h. length h = 32) v \<and> length v \<le> MAX_SIZE"
  "ser_vector ser_uint256" "unser_vector unser_uint256 sizeof_uint256"
  by (rule hash256.vector_codec) (simp_all add: sizeof_defs)

subsection \<open>Codecs of whole transactions\<close>

lemma unser_witnesses_concat:
  "list_all (\<lambda>i. good_witness (txin_witness i)) is \<Longrightarrow>
   unser_witnesses (map (\<lambda>i. i\<lparr>txin_witness := []\<rparr>) is)
     (concat (map (\<lambda>i. ser_vector ser_bytes (txin_witness i)) is) @ r) = Inr (is, r)"
  by (induction "is") (simp_all add: witness.unser_ser)

lemma unser_witnesses_canonical:
  "unser_witnesses is s = Inr (is', r) \<Longrightarrow> list_all (\<lambda>i. txin_witness i = []) is \<Longrightarrow>
   map (\<lambda>i. i\<lparr>txin_witness := []\<rparr>) is' = is \<and> list_all (\<lambda>i. good_witness (txin_witness i)) is' \<and>
   s = concat (map (\<lambda>i. ser_vector ser_bytes (txin_witness i)) is') @ r"
proof (induction "is" arbitrary: s is')
  case (Cons i "is")
  then obtain w s1 js where w: "unser_vector unser_bytes sizeof_vector s = Inr (w, s1)"
    "unser_witnesses is s1 = Inr (js, r)" "is' = i\<lparr>txin_witness := w\<rparr> # js"
    by (auto simp: bindE_split_Inr_iff)
  have "i\<lparr>txin_witness := []\<rparr> = i" using Cons.prems by (cases i) simp
  then show ?case using w Cons.IH [OF w(2)] Cons.prems witness.ser_unser [OF w(1)] by simp
qed simp

lemma ser_CTxIn_strip: "ser_CTxIn (i\<lparr>txin_witness := w\<rparr>) = ser_CTxIn i"
  by (simp add: ser_CTxIn_def)

lemma ser_vin_strip: "ser_vector ser_CTxIn (map (\<lambda>i. i\<lparr>txin_witness := []\<rparr>) v) = ser_vector ser_CTxIn v"
  by (simp add: ser_vector_def o_def ser_CTxIn_strip)

lemma vin_unser_strip:
  assumes "list_all (\<lambda>i. good_txin (i\<lparr>txin_witness := []\<rparr>)) v" "length v \<le> MAX_SIZE"
  shows "unser_vector unser_CTxIn sizeof_CTxIn (ser_vector ser_CTxIn v @ r) =
    Inr (map (\<lambda>i. i\<lparr>txin_witness := []\<rparr>) v, r)"
  using vin.unser_ser [of "map (\<lambda>i. i\<lparr>txin_witness := []\<rparr>) v" r] assms
  by (simp add: ser_vin_strip list_all_iff)

lemma no_witness_strip: "\<not> HasWitness tx \<Longrightarrow> strip_witness tx = tx"
proof -
  assume "\<not> HasWitness tx"
  then have "\<forall>i\<in>set (tx_vin tx). txin_witness i = []" by (simp add: HasWitness_def list_ex_iff)
  then have "map (\<lambda>i. i\<lparr>txin_witness := []\<rparr>) (tx_vin tx) = tx_vin tx" by (intro map_idI) auto
  then show ?thesis by (simp add: strip_witness_def)
qed
lemma tx_without_witness_roundtrip:
  "good_tx_base tx \<Longrightarrow>
   UnserializeTransaction False (SerializeTransaction False tx @ r) = Inr (strip_witness tx, r)"
  by (simp add: UnserializeTransaction_def SerializeTransaction_def good_tx_base_def Let_def
      word32.unser_ser vin_unser_strip vout.unser_ser strip_witness_def)

lemma empty_vector_byte: "ser_vector f [] = [0]"
  by (simp add: ser_vector_def WriteCompactSize_cases)

lemma tx_with_witness_roundtrip:
  assumes "good_tx tx"
  shows "UnserializeTransaction True (SerializeTransaction True tx @ r) = Inr (tx, r)"
proof (cases "HasWitness tx")
  case True
  have "unser_vector unser_CTxIn sizeof_CTxIn (ser_vector ser_CTxIn [] @ s) = Inr ([], s)" for s
    using vin.unser_ser [of "[]"] by simp
  moreover have "list_ex (\<lambda>i. txin_witness i \<noteq> []) (tx_vin tx)" using True by (simp add: HasWitness_def)
  ultimately show ?thesis using True assms
    by (simp add: UnserializeTransaction_def SerializeTransaction_def good_tx_def good_tx_base_def Let_def
        word32.unser_ser byte8.unser_ser vin_unser_strip vout.unser_ser unser_witnesses_concat)
next
  case False
  have strip: "map (\<lambda>i. i\<lparr>txin_witness := []\<rparr>) (tx_vin tx) = tx_vin tx"
    using no_witness_strip [OF False] by (cases tx) (simp add: strip_witness_def)
  show ?thesis
  proof (cases "tx_vin tx = []")
    case True
    then have "tx_vout tx = []" using assms by (simp add: good_tx_def)
    moreover have "ser_readdata8 (0 # s) = Inr (0, s)" for s
      using byte8.unser_ser [of 0 s] by (simp add: ser_writedata8_def)
    moreover have "unser_vector unser_CTxIn sizeof_CTxIn (0 # s) = Inr ([], s)" for s
      using vin.unser_ser [of "[]" s] by (simp add: empty_vector_byte)
    ultimately show ?thesis using True False
      by (simp add: UnserializeTransaction_def SerializeTransaction_def Let_def
          word32.unser_ser empty_vector_byte)
  next
    case ne: False
    then show ?thesis using False assms
      by (simp add: UnserializeTransaction_def SerializeTransaction_def good_tx_def good_tx_base_def Let_def
          word32.unser_ser vin_unser_strip vout.unser_ser strip)
  qed
qed

lemma tx_canonical:
  assumes u: "UnserializeTransaction True s = Inr (tx, r)"
  shows "good_tx tx \<and> s = SerializeTransaction True tx @ r"
proof -
  obtain ver s1 vin0 s2 where h: "ser_readdata32 s = Inr (ver, s1)"
    "unser_vector unser_CTxIn sizeof_CTxIn s1 = Inr (vin0, s2)"
    using u by (auto simp: UnserializeTransaction_def bindE_split_Inr_iff)
  have s: "s = ser_writedata32 ver @ ser_vector ser_CTxIn vin0 @ s2"
    and g: "list_all good_txin vin0" "length vin0 \<le> MAX_SIZE"
    using word32.ser_unser [OF h(1)] vin.ser_unser [OF h(2)] by auto
  have nowit: "list_all (\<lambda>i. txin_witness i = []) v" "map (\<lambda>i. i\<lparr>txin_witness := []\<rparr>) v = v"
    if "list_all good_txin v" for v
  proof -
    show a: "list_all (\<lambda>i. txin_witness i = []) v" using that by (auto simp: list_all_iff good_txin_def)
    then show "map (\<lambda>i. i\<lparr>txin_witness := []\<rparr>) v = v" by (intro map_idI) (auto simp: list_all_iff)
  qed
  show ?thesis
  proof (cases "vin0 = []")
    case False
    from u h False obtain vout s3 lock where v: "unser_vector unser_CTxOut sizeof_CTxOut s2 = Inr (vout, s3)"
      "ser_readdata32 s3 = Inr (lock, r)"
      "tx = \<lparr>tx_vin = vin0, tx_vout = vout, tx_version = ver, tx_nLockTime = lock\<rparr>"
      by (auto simp: UnserializeTransaction_def bindE_split_Inr_iff)
    have "\<not> HasWitness tx" using nowit(1) [OF g(1)] v by (auto simp: HasWitness_def list_all_iff list_ex_iff)
    moreover have "list_all (\<lambda>i. good_witness (txin_witness i)) vin0"
      using nowit(1) [OF g(1)] by (auto simp: list_all_iff good_witness_def)
    moreover have "list_all (\<lambda>i. good_txin (i\<lparr>txin_witness := []\<rparr>)) vin0"
      using nowit(2) [OF g(1)] g(1) by (metis (no_types, lifting) list.pred_map o_def list.pred_mono_strong)
    ultimately show ?thesis
      using s g v False word32.ser_unser [OF v(2)] vout.ser_unser [OF v(1)]
      by (simp add: SerializeTransaction_def good_tx_def good_tx_base_def)
  next
    case True
    from u h True obtain flags s3 where f: "ser_readdata8 s2 = Inr (flags, s3)"
      by (auto simp: UnserializeTransaction_def bindE_split_Inr_iff)
    have s2: "s2 = flags # s3" using byte8.ser_unser [OF f] by (simp add: ser_writedata8_def)
    show ?thesis
    proof (cases "flags = 0")
      case True
      from u h \<open>vin0 = []\<close> f True obtain lock where v: "ser_readdata32 s3 = Inr (lock, r)"
        "tx = \<lparr>tx_vin = [], tx_vout = [], tx_version = ver, tx_nLockTime = lock\<rparr>"
        by (auto simp: UnserializeTransaction_def bindE_split_Inr_iff)
      show ?thesis
        using s s2 True \<open>vin0 = []\<close> v word32.ser_unser [OF v(1)]
        by (simp add: SerializeTransaction_def good_tx_def good_tx_base_def HasWitness_def empty_vector_byte)
    next
      case False
      from u h \<open>vin0 = []\<close> f False obtain vin s4 vout s5 vin' fl s6 lock where v:
        "unser_vector unser_CTxIn sizeof_CTxIn s3 = Inr (vin, s4)"
        "unser_vector unser_CTxOut sizeof_CTxOut s4 = Inr (vout, s5)"
        "(if flags AND 1 \<noteq> 0 then bindE (unser_witnesses vin s5) (\<lambda>(vin', s).
               if list_ex (\<lambda>i. txin_witness i \<noteq> []) vin' then Inr (vin', flags XOR 1, s)
               else Inl Stream_Failure) else Inr (vin, flags, s5)) = Inr (vin', fl, s6)" "fl = 0"
        "ser_readdata32 s6 = Inr (lock, r)"
        "tx = \<lparr>tx_vin = vin', tx_vout = vout, tx_version = ver, tx_nLockTime = lock\<rparr>"
        by (auto simp: UnserializeTransaction_def bindE_split_Inr_iff split: if_splits)
      have w: "unser_witnesses vin s5 = Inr (vin', s6)" "list_ex (\<lambda>i. txin_witness i \<noteq> []) vin'" "flags XOR 1 = 0"
        using v(3,4) False by (auto simp: bindE_split_Inr_iff split: if_splits)
      have fl: "flags = 1" using w(3) by (metis xor_self_eq bit.xor_left_self xor.right_neutral)
      have gv: "list_all good_txin vin" "length vin \<le> MAX_SIZE" "s3 = ser_vector ser_CTxIn vin @ s4"
        using vin.ser_unser [OF v(1)] by auto
      have c: "map (\<lambda>i. i\<lparr>txin_witness := []\<rparr>) vin' = vin"
        "list_all (\<lambda>i. good_witness (txin_witness i)) vin'"
        "s5 = concat (map (\<lambda>i. ser_vector ser_bytes (txin_witness i)) vin') @ s6"
        using unser_witnesses_canonical [OF w(1) nowit(1) [OF gv(1)]] by auto
      have "length vin' = length vin" using c(1) by (metis length_map)
      moreover have "list_all (\<lambda>i. good_txin (i\<lparr>txin_witness := []\<rparr>)) vin'"
        using gv(1) unfolding c(1) [symmetric] by (simp add: list.pred_map o_def)
      moreover have "ser_vector ser_CTxIn vin = ser_vector ser_CTxIn vin'"
        unfolding c(1) [symmetric] by (rule ser_vin_strip)
      moreover have "HasWitness tx" using w(2) v by (simp add: HasWitness_def)
      moreover have "vin' \<noteq> []" using w(2) by auto
      ultimately show ?thesis
        using s s2 fl gv c v \<open>vin0 = []\<close> word32.ser_unser [OF v(5)] vout.ser_unser [OF v(2)]
        by (simp add: SerializeTransaction_def good_tx_def good_tx_base_def Let_def ser_writedata8_def)
    qed
  qed
qed

interpretation transaction: canonical_codec good_tx "SerializeTransaction True" "UnserializeTransaction True"
  by unfold_locales (rule tx_with_witness_roundtrip tx_canonical; assumption)+

subsection \<open>Codecs of headers and payloads\<close>

definition good_header :: "'a CPureBlockHeader_scheme \<Rightarrow> bool" where
  "good_header h \<longleftrightarrow> length (hdr_hashPrevBlock h) = 32 \<and> length (hdr_hashMerkleRoot h) = 32"

definition good_auxpow :: "CAuxPow \<Rightarrow> bool" where
  "good_auxpow a \<longleftrightarrow>
    good_tx_base (ap_coinbase_tx a) \<and> \<not> HasWitness (ap_coinbase_tx a) \<and>
    (list_all (\<lambda>h. length h = 32) (ap_coinbase_merkle_branch a) \<and> length (ap_coinbase_merkle_branch a) \<le> MAX_SIZE) \<and>
    i32_range (ap_coinbase_branch_index a) \<and>
    (list_all (\<lambda>h. length h = 32) (ap_chain_merkle_branch a) \<and> length (ap_chain_merkle_branch a) \<le> MAX_SIZE) \<and>
    i32_range (ap_chain_index a) \<and> good_header (ap_parent_block a)"

interpretation pure_header: canonical_codec good_header ser_CPureBlockHeader unser_CPureBlockHeader
proof unfold_locales
  fix h :: CPureBlockHeader and s r :: bytes
  show "unser_CPureBlockHeader (ser_CPureBlockHeader h @ r) = Inr (h, r)" if "good_header h"
    using that by (simp add: unser_CPureBlockHeader_def ser_CPureBlockHeader_def good_header_def
        word32.unser_ser hash256.unser_ser)
  show "good_header h \<and> s = ser_CPureBlockHeader h @ r" if "unser_CPureBlockHeader s = Inr (h, r)"
    using that by (auto simp: unser_CPureBlockHeader_def ser_CPureBlockHeader_def good_header_def
        bindE_split_Inr_iff dest!: word32.ser_unser hash256.ser_unser)
qed

lemma tx_without_witness_canonical:
  assumes u: "UnserializeTransaction False s = Inr (tx, r)"
  shows "good_tx_base tx \<and> \<not> HasWitness tx \<and> s = SerializeTransaction False tx @ r"
proof -
  obtain ver s1 vin s2 vout s3 lock where h: "ser_readdata32 s = Inr (ver, s1)"
    "unser_vector unser_CTxIn sizeof_CTxIn s1 = Inr (vin, s2)"
    "unser_vector unser_CTxOut sizeof_CTxOut s2 = Inr (vout, s3)" "ser_readdata32 s3 = Inr (lock, r)"
    "tx = \<lparr>tx_vin = vin, tx_vout = vout, tx_version = ver, tx_nLockTime = lock\<rparr>"
    using u by (auto simp: UnserializeTransaction_def bindE_split_Inr_iff)
  have g: "list_all good_txin vin" using vin.ser_unser [OF h(2)] by simp
  have w: "list_all (\<lambda>i. txin_witness i = []) vin" using g by (auto simp: list_all_iff good_txin_def)
  have "list_all (\<lambda>i. good_txin (i\<lparr>txin_witness := []\<rparr>)) vin"
    using g by (auto simp: list_all_iff good_txin_def)
  moreover have "\<not> HasWitness tx" using w h(5) by (auto simp: HasWitness_def list_all_iff list_ex_iff)
  ultimately show ?thesis
    using word32.ser_unser [OF h(1)] vin.ser_unser [OF h(2)] vout.ser_unser [OF h(3)]
      word32.ser_unser [OF h(4)] h(5)
    by (simp add: SerializeTransaction_def good_tx_base_def)
qed

interpretation auxpow_payload: canonical_codec good_auxpow ser_CAuxPow unser_CAuxPow
proof unfold_locales
  fix a :: CAuxPow and s r :: bytes
  show "unser_CAuxPow (ser_CAuxPow a @ r) = Inr (a, r)" if "good_auxpow a"
    using that no_witness_strip [of "ap_coinbase_tx a"]
    by (simp add: unser_CAuxPow_def ser_CAuxPow_def good_auxpow_def tx_without_witness_roundtrip
        branch.unser_ser int32.unser_ser pure_header.unser_ser)
  show "good_auxpow a \<and> s = ser_CAuxPow a @ r" if "unser_CAuxPow s = Inr (a, r)"
    using that by (auto simp: unser_CAuxPow_def ser_CAuxPow_def good_auxpow_def bindE_split_Inr_iff
        dest!: tx_without_witness_canonical branch.ser_unser int32.ser_unser pure_header.ser_unser)
qed

text \<open>
  A block header is encodable when it carries a payload exactly if its version signals one.
\<close>

definition good_block_header :: "'a CBlockHeader_scheme \<Rightarrow> bool" where
  "good_block_header h \<longleftrightarrow> good_header h \<and>
    (if SignalsAuxpow h then (case hdr_auxpow h of None \<Rightarrow> False | Some a \<Rightarrow> good_auxpow a)
     else hdr_auxpow h = None)"

lemma ser_pure_of_extension:
  "ser_CPureBlockHeader (CPureBlockHeader.extend h m) = ser_CPureBlockHeader h"
  "SignalsAuxpow (CPureBlockHeader.extend h m) = SignalsAuxpow h"
  "good_header (CPureBlockHeader.extend h m) = good_header h"
  by (simp_all add: ser_CPureBlockHeader_def SignalsAuxpow_def good_header_def CPureBlockHeader.defs)

lemma block_header_roundtrip:
  assumes "good_block_header h"
  shows "\<exists>bs. ser_CBlockHeader h = Inr bs \<and> unser_CBlockHeader (bs @ r) = Inr (CBlockHeader.truncate h, r)"
proof -
  define p where "p = CPureBlockHeader.truncate h"
  have p: "ser_CPureBlockHeader h = ser_CPureBlockHeader p" "SignalsAuxpow h = SignalsAuxpow p"
    "good_header h = good_header p"
    by (simp_all add: p_def ser_CPureBlockHeader_def SignalsAuxpow_def good_header_def CPureBlockHeader.defs)
  have ext: "CPureBlockHeader.extend p \<lparr>hdr_auxpow = hdr_auxpow h\<rparr> = CBlockHeader.truncate h"
    by (simp add: p_def CPureBlockHeader.defs CBlockHeader.defs)
  show ?thesis
  proof (cases "SignalsAuxpow h")
    case True
    then obtain a where a: "hdr_auxpow h = Some a" "good_auxpow a" "good_header p"
      using assms p by (auto simp: good_block_header_def split: option.splits)
    then show ?thesis using True p ext
      by (simp add: ser_CBlockHeader_def unser_CBlockHeader_def pure_header.unser_ser auxpow_payload.unser_ser)
  next
    case False
    then show ?thesis using assms p ext
      by (simp add: ser_CBlockHeader_def unser_CBlockHeader_def good_block_header_def pure_header.unser_ser)
  qed
qed

lemma block_header_canonical:
  assumes "unser_CBlockHeader s = Inr (h, r)"
  shows "good_block_header h \<and> (\<exists>bs. ser_CBlockHeader h = Inr bs \<and> s = bs @ r)"
proof -
  obtain p s1 where p: "unser_CPureBlockHeader s = Inr (p, s1)"
    using assms by (auto simp: unser_CBlockHeader_def bindE_split_Inr_iff)
  note ps = pure_header.ser_unser [OF p]
  show ?thesis
  proof (cases "SignalsAuxpow p")
    case True
    then obtain a where a: "unser_CAuxPow s1 = Inr (a, r)" "h = CPureBlockHeader.extend p \<lparr>hdr_auxpow = Some a\<rparr>"
      using assms p by (auto simp: unser_CBlockHeader_def bindE_split_Inr_iff)
    then have "hdr_auxpow h = Some a" by (simp add: CPureBlockHeader.defs)
    then show ?thesis using a True ps auxpow_payload.ser_unser [OF a(1)]
      by (simp add: good_block_header_def ser_CBlockHeader_def ser_pure_of_extension)
  next
    case False
    then have a: "s1 = r" "h = CPureBlockHeader.extend p \<lparr>hdr_auxpow = None\<rparr>"
      using assms p by (auto simp: unser_CBlockHeader_def)
    then have "hdr_auxpow h = None" by (simp add: CPureBlockHeader.defs)
    then show ?thesis using a False ps
      by (simp add: good_block_header_def ser_CBlockHeader_def ser_pure_of_extension)
  qed
qed

interpretation vtx: canonical_codec "\<lambda>v. list_all good_tx v \<and> length v \<le> MAX_SIZE"
  "ser_vector (SerializeTransaction True)" "unser_vector (UnserializeTransaction True) sizeof_shared_ptr"
  by (rule transaction.vector_codec) (simp_all add: sizeof_defs)

lemma block_roundtrip:
  assumes "good_block_header b" "list_all good_tx (blk_vtx b)" "length (blk_vtx b) \<le> MAX_SIZE"
  shows "\<exists>bs. ser_CBlock b = Inr bs \<and> unser_CBlock (bs @ r) = Inr (b, r)"
proof -
  let ?v = "ser_vector (SerializeTransaction True) (blk_vtx b)"
  obtain hs where "ser_CBlockHeader b = Inr hs"
    "unser_CBlockHeader (hs @ ?v @ r) = Inr (CBlockHeader.truncate b, ?v @ r)"
    using block_header_roundtrip [OF assms(1)] by blast
  moreover have "CBlockHeader.extend (CBlockHeader.truncate b) \<lparr>blk_vtx = blk_vtx b\<rparr> = b"
    by (simp add: CBlockHeader.defs)
  ultimately show ?thesis using assms
    by (simp add: ser_CBlock_def unser_CBlock_def vtx.unser_ser)
qed

subsection \<open>The version layout\<close>

lemma version_mask_bits:
  "(0xE0000000 :: u32) = push_bit 29 (mask 3)" "(0x20000000 :: u32) = push_bit 29 1"
  "(0x1FFFE000 :: u32) = push_bit 13 (mask 16)" "(0x1E00 :: u32) = push_bit 9 (mask 4)"
  "(0x100 :: u32) = push_bit 8 1" "(0xFF :: u32) = mask 8"
  by (simp_all add: push_bit_eq_mult mask_eq_exp_minus_1)

lemma version_mask_bit_iff:
  "bit (0xE0000000 :: u32) n \<longleftrightarrow> 29 \<le> n \<and> n < 32" "bit (0x20000000 :: u32) n \<longleftrightarrow> n = 29"
  "bit (0x1FFFE000 :: u32) n \<longleftrightarrow> 13 \<le> n \<and> n < 29" "bit (0x1E00 :: u32) n \<longleftrightarrow> 9 \<le> n \<and> n < 13"
  "bit (0x100 :: u32) n \<longleftrightarrow> n = 8" "bit (0xFF :: u32) n \<longleftrightarrow> n < 8"
  unfolding version_mask_bits
  by (simp_all only: bit_push_bit_iff bit_1_iff bit_mask_iff) auto

lemma u32_eq_iff: "(x::u32) = y \<longleftrightarrow> (\<forall>n<32. bit x n = bit y n)"
  by (auto intro: bit_word_eqI)

lemmas version_bits = bit_and_iff bit_or_iff bit_push_bit_iff bit_drop_bit_eq bit_ucast_iff o_apply
  version_mask_bit_iff

lemma AUXPOW_bit: "v AND BLOCK_VERSION_AUXPOW \<noteq> 0 \<longleftrightarrow> bit v 8"
proof -
  have "(0x100 :: u32) = 2 ^ 8" by simp
  then show ?thesis unfolding BLOCK_VERSION_AUXPOW_def by (simp only: and_exp_eq_0_iff_not_bit not_not)
qed

lemma top_bits_shape: "HasBIP9TopBitsShape v \<longleftrightarrow> bit v 29 \<and> \<not> bit v 30 \<and> \<not> bit v 31"
proof -
  have "HasBIP9TopBitsShape v \<longleftrightarrow> (\<forall>n<32. 29 \<le> n \<and> bit v n \<longleftrightarrow> n = 29)"
    unfolding HasBIP9TopBitsShape_def BLOCK_VERSION_TOP_MASK_def BLOCK_VERSION_TOP_BITS_def
      u32_eq_iff
    by (simp only: version_bits) auto
  also have "\<dots> \<longleftrightarrow> bit v 29 \<and> \<not> bit v 30 \<and> \<not> bit v 31"
  proof
    assume a: "bit v 29 \<and> \<not> bit v 30 \<and> \<not> bit v 31"
    show "\<forall>n<32. 29 \<le> n \<and> bit v n \<longleftrightarrow> n = 29"
    proof (intro allI impI)
      fix n :: nat assume "n < 32"
      then have "n < 29 \<or> n = 29 \<or> n = 30 \<or> n = 31" by linarith
      then show "29 \<le> n \<and> bit v n \<longleftrightarrow> n = 29" using a by auto
    qed
  next
    assume a: "\<forall>n<32. 29 \<le> n \<and> bit v n \<longleftrightarrow> n = 29"
    show "bit v 29 \<and> \<not> bit v 30 \<and> \<not> bit v 31"
      using a [rule_format, of 29] a [rule_format, of 30] a [rule_format, of 31] by simp
  qed
  finally show ?thesis .
qed

lemma bit_if: "bit (if c then x else y) n \<longleftrightarrow> (if c then bit x n else bit y n)"
  by simp

lemma bit_MakeVersion:
  "bit (MakeVersion c a b) n \<longleftrightarrow>
    n = 29 \<or> (13 \<le> n \<and> n < 29 \<and> bit c (n - 13)) \<or> (n = 8 \<and> a) \<or> (n < 8 \<and> bit b n)"
  unfolding MakeVersion_def BLOCK_VERSION_TOP_BITS_def BLOCK_VERSION_AUXPOW_def
  by (simp only: version_bits bit_if) (auto dest: bit_imp_le_length)

lemma bit_ExtractChainId: "bit (ExtractChainId v) n \<longleftrightarrow> n < 16 \<and> bit v (n + 13)"
  unfolding ExtractChainId_def BLOCK_VERSION_CHAIN_ID_MASK_def
  by (simp only: version_bits) (auto simp: add.commute dest: bit_imp_le_length)

lemma bit_ExtractVersionBits: "bit (ExtractVersionBits v) n \<longleftrightarrow> n < 8 \<and> bit v n"
  unfolding ExtractVersionBits_def BLOCK_VERSION_SIGNAL_MASK_def
  by (simp only: version_bits bit_if) (auto dest: bit_imp_le_length)

lemma bit_ReservedBits: "bit (ReservedBits v) n \<longleftrightarrow> n < 4 \<and> bit v (n + 9)"
  unfolding ReservedBits_def BLOCK_VERSION_RESERVED_MASK_def
  by (simp only: version_bits) (auto simp: add.commute dest: bit_imp_le_length)

lemma IsAuxpowVersion_bits:
  "IsAuxpowVersion v \<longleftrightarrow> bit v 29 \<and> \<not> bit v 30 \<and> \<not> bit v 31 \<and> bit v 8"
  by (auto simp: IsAuxpowVersion_def top_bits_shape AUXPOW_bit)

lemma MakeVersion_fields:
  "ExtractChainId (MakeVersion c a b) = c"
  "ExtractVersionBits (MakeVersion c a b) = b"
  "IsAuxpowVersion (MakeVersion c a b) = a"
  "ReservedBits (MakeVersion c a b) = 0"
  "HasBIP9TopBitsShape (MakeVersion c a b)"
proof -
  show "ExtractChainId (MakeVersion c a b) = c"
    by (rule bit_word_eqI) (auto simp: bit_ExtractChainId bit_MakeVersion)
  show "ExtractVersionBits (MakeVersion c a b) = b"
    by (rule bit_word_eqI) (auto simp: bit_ExtractVersionBits bit_MakeVersion)
  show "ReservedBits (MakeVersion c a b) = 0"
    by (rule bit_word_eqI) (auto simp: bit_ReservedBits bit_MakeVersion)
qed (auto simp: IsAuxpowVersion_bits top_bits_shape bit_MakeVersion)

lemma MakeVersion_complete:
  assumes "HasBIP9TopBitsShape v" "ReservedBits v = 0"
  shows "MakeVersion (ExtractChainId v) (IsAuxpowVersion v) (ExtractVersionBits v) = v"
proof (rule bit_word_eqI)
  fix n assume n: "n < LENGTH(32)"
  have r: "\<not> bit v (m + 9)" if "m < 4" for m
    using assms(2) that bit_ReservedBits [of v m] by simp
  have r': "\<not> bit v n" if "9 \<le> n" "n < 13" using r [of "n - 9"] that by simp
  have t: "bit v 29" "\<not> bit v 30" "\<not> bit v 31" using assms(1) by (auto simp: top_bits_shape)
  have "n < 8 \<or> n = 8 \<or> (9 \<le> n \<and> n < 13) \<or> (13 \<le> n \<and> n < 29) \<or> n = 29 \<or> n = 30 \<or> n = 31"
    using n by simp linarith
  then show "bit (MakeVersion (ExtractChainId v) (IsAuxpowVersion v) (ExtractVersionBits v)) n = bit v n"
    using r' t
    by (auto simp: bit_MakeVersion bit_ExtractChainId bit_ExtractVersionBits IsAuxpowVersion_bits)
qed

text \<open>
  A miner that changes only the bits of the rolling mask leaves lane, signals and reserved bits as
  they were.
\<close>

lemma rolling_keeps_fields:
  assumes "v' XOR v = (v' XOR v) AND GetPermissionlessVersionRollingMask v"
  shows "IsAuxpowVersion v' = IsAuxpowVersion v" "ExtractVersionBits v' = ExtractVersionBits v"
    "ReservedBits v' = ReservedBits v" "HasBIP9TopBitsShape v' = HasBIP9TopBitsShape v"
proof -
  have same: "bit v' n = bit v n" if "n < 13 \<or> 29 \<le> n" for n
  proof -
    have "bit (v' XOR v) n \<longleftrightarrow> bit (v' XOR v) n \<and> bit (GetPermissionlessVersionRollingMask v) n"
      using assms by (metis bit_and_iff)
    moreover have "\<not> bit (GetPermissionlessVersionRollingMask v) n"
      unfolding GetPermissionlessVersionRollingMask_def BLOCK_VERSION_CHAIN_ID_MASK_def bit_if
      using that by (simp only: version_bits) auto
    ultimately show ?thesis by (simp add: bit_xor_iff)
  qed
  show "IsAuxpowVersion v' = IsAuxpowVersion v" "HasBIP9TopBitsShape v' = HasBIP9TopBitsShape v"
    by (simp_all add: IsAuxpowVersion_bits top_bits_shape same)
  show "ExtractVersionBits v' = ExtractVersionBits v"
    by (rule bit_word_eqI) (auto simp: bit_ExtractVersionBits same)
  show "ReservedBits v' = ReservedBits v"
    by (rule bit_word_eqI) (auto simp: bit_ReservedBits same)
qed

end
