(* ===== verification/Consensus_Params.thy ===== *)
theory Consensus_Params
  imports Primitives
begin

text \<open>
  The consensus parameters of \<^verbatim>\<open>src/src/consensus/params.h\<close> and the activation predicates derived
  from them.
\<close>

record BIP9Deployment =
  dep_bit :: int
  dep_nStartTime :: int
  dep_nTimeout :: int
  dep_min_activation_height :: int
  dep_period :: u32
  dep_threshold :: u32

definition NO_TIMEOUT :: int where "NO_TIMEOUT = 2 ^ 63 - 1"
definition ALWAYS_ACTIVE :: int where "ALWAYS_ACTIVE = - 1"
definition NEVER_ACTIVE :: int where "NEVER_ACTIVE = - 2"

datatype BuriedDeployment =
  DEPLOYMENT_HEIGHTINCB | DEPLOYMENT_CLTV | DEPLOYMENT_DERSIG | DEPLOYMENT_CSV | DEPLOYMENT_SEGWIT

datatype DeploymentPos = DEPLOYMENT_TESTDUMMY | DEPLOYMENT_TAPROOT

record ASERTAnchor =
  an_nHeight :: int
  an_nBits :: u32
  an_nBitsLegacy :: u32
  an_nBitsAuxPow :: u32
  an_nAuxPow :: u64
  an_nBlockTime :: int

record Params =
  cp_hashGenesisBlock :: uint256
  cp_nSubsidyInitial :: CAmount
  cp_nSubsidyStepInterval :: int
  cp_nSubsidyStepdownNumerator :: int
  cp_nSubsidyStepdownDenominator :: int
  cp_script_flag_exceptions :: "uint256 \<Rightarrow> u32 option"
  cp_BIP34Height :: int
  cp_BIP34Hash :: uint256
  cp_BIP65Height :: int
  cp_BIP66Height :: int
  cp_CSVHeight :: int
  cp_SegwitHeight :: int
  cp_P2MRHeight :: int
  cp_nP2MRValidationWeightV2Height :: int
  cp_nFutureBlockTimeV2Height :: int
  cp_nOuterReservedWitnessHeight :: int
  cp_MinBIP9WarningHeight :: int
  cp_vDeployments :: "DeploymentPos \<Rightarrow> BIP9Deployment"
  cp_powLimit :: uint256
  cp_fPowAllowMinDifficultyBlocks :: bool
  cp_enforce_BIP94 :: bool
  cp_fPowNoRetargeting :: bool
  cp_fRestrictedOutputMode :: bool
  cp_fPowUseASERT :: bool
  cp_nCadenceActivationHeight :: int
  cp_nAuxpowDisplayCommitmentHeight :: int
  cp_nPowTargetSpacing :: int
  cp_nPowTargetSpacingLegacy :: int
  cp_nPowTargetSpacingAuxPow :: int
  cp_nPowTargetTimespan :: int
  cp_nAuxpowChainId :: int
  cp_nASERTHalfLife :: int
  cp_asertAnchorParams :: ASERTAnchor
  cp_nMinimumChainWork :: uint256
  cp_defaultAssumeValid :: uint256
  cp_signet_blocks :: bool
  cp_signet_challenge :: bytes

definition CadenceActiveAtHeight :: "Params \<Rightarrow> int \<Rightarrow> bool" where
  "CadenceActiveAtHeight params height \<longleftrightarrow> height \<ge> cp_nCadenceActivationHeight params"

definition AuxpowDisplayCommitmentActiveAtHeight :: "Params \<Rightarrow> int \<Rightarrow> bool" where
  "AuxpowDisplayCommitmentActiveAtHeight params height \<longleftrightarrow> height \<ge> cp_nAuxpowDisplayCommitmentHeight params"

definition OuterReservedWitnessActiveAtHeight :: "Params \<Rightarrow> int \<Rightarrow> bool" where
  "OuterReservedWitnessActiveAtHeight params height \<longleftrightarrow> height \<ge> cp_nOuterReservedWitnessHeight params"

definition P2MRValidationWeightV2ActiveAtHeight :: "Params \<Rightarrow> int \<Rightarrow> bool" where
  "P2MRValidationWeightV2ActiveAtHeight params height \<longleftrightarrow> height \<ge> cp_nP2MRValidationWeightV2Height params"

definition FutureBlockTimeV2ActiveAtHeight :: "Params \<Rightarrow> int \<Rightarrow> bool" where
  "FutureBlockTimeV2ActiveAtHeight params height \<longleftrightarrow> height \<ge> cp_nFutureBlockTimeV2Height params"

definition DifficultyAdjustmentInterval :: "Params \<Rightarrow> int cxx" where
  "DifficultyAdjustmentInterval params = sdivE (cp_nPowTargetTimespan params) (cp_nPowTargetSpacing params)"

fun DeploymentHeight :: "Params \<Rightarrow> BuriedDeployment \<Rightarrow> int" where
  "DeploymentHeight params DEPLOYMENT_HEIGHTINCB = cp_BIP34Height params"
| "DeploymentHeight params DEPLOYMENT_CLTV = cp_BIP65Height params"
| "DeploymentHeight params DEPLOYMENT_DERSIG = cp_BIP66Height params"
| "DeploymentHeight params DEPLOYMENT_CSV = cp_CSVHeight params"
| "DeploymentHeight params DEPLOYMENT_SEGWIT = cp_SegwitHeight params"

end
