(* ===== verification/Chain_Index.thy ===== *)
theory Chain_Index
  imports Arith256 Consensus_Params
begin

text \<open>
  The block index of \<^verbatim>\<open>src/src/chain.h\<close> and \<^verbatim>\<open>src/src/chain.cpp\<close> and its growth by
  \<^verbatim>\<open>BlockManager::AddToBlockIndex\<close> in \<^verbatim>\<open>src/src/node/blockstorage.cpp\<close>. The index is an explicit
  store from block hashes to entries; a \<^verbatim>\<open>CBlockIndex*\<close> is the hash under which its entry is kept.
  The theory shows that the skip list finds the same ancestor as following \<^verbatim>\<open>pprev\<close>, that the lane
  links name the nearest ancestor of each lane, that adding a block keeps the index well formed, and
  what the chain operations built on top return.
\<close>

unbundle bit_operations_syntax

subsection \<open>Entries\<close>

type_synonym bptr = uint256

record CBlockIndex =
  bi_phashBlock :: "uint256 option"
  bi_pprev :: "bptr option"
  bi_pskip :: "bptr option"
  bi_pprev_permissionless :: "bptr option"
  bi_pprev_auxpow :: "bptr option"
  bi_nHeight :: int
  bi_nFile :: int
  bi_nDataPos :: u32
  bi_nUndoPos :: u32
  bi_nChainWork :: arith_uint256
  bi_nTx :: u32
  bi_m_chain_tx_count :: u64
  bi_nAuxPow :: u64
  bi_nStatus :: u32
  bi_nVersion :: u32
  bi_hashMerkleRoot :: uint256
  bi_nTime :: u32
  bi_nBits :: u32
  bi_nNonce :: u32
  bi_auxpow :: "CAuxPow option"
  bi_nSequenceId :: int
  bi_nTimeMax :: u32

type_synonym BlockMap = "uint256 \<Rightarrow> CBlockIndex option"

definition new_CBlockIndex :: "'a CBlockHeader_scheme \<Rightarrow> CBlockIndex" where
  "new_CBlockIndex block =
    \<lparr>bi_phashBlock = None, bi_pprev = None, bi_pskip = None, bi_pprev_permissionless = None,
     bi_pprev_auxpow = None, bi_nHeight = 0, bi_nFile = 0, bi_nDataPos = 0, bi_nUndoPos = 0,
     bi_nChainWork = base_uint_zero, bi_nTx = 0, bi_m_chain_tx_count = 0, bi_nAuxPow = 0, bi_nStatus = 0,
     bi_nVersion = hdr_nVersion block, bi_hashMerkleRoot = hdr_hashMerkleRoot block,
     bi_nTime = hdr_nTime block, bi_nBits = hdr_nBits block, bi_nNonce = hdr_nNonce block,
     bi_auxpow = hdr_auxpow block, bi_nSequenceId = 0, bi_nTimeMax = 0\<rparr>"

definition bi_SignalsAuxpow :: "CBlockIndex \<Rightarrow> bool" where
  "bi_SignalsAuxpow b \<longleftrightarrow> IsAuxpowVersion (bi_nVersion b)"

definition bi_GetBlockTime :: "CBlockIndex \<Rightarrow> int" where
  "bi_GetBlockTime b = uint (bi_nTime b)"

definition GetBlockTimeMax :: "CBlockIndex \<Rightarrow> int" where
  "GetBlockTimeMax b = uint (bi_nTimeMax b)"

definition bi_GetBlockHash :: "CBlockIndex \<Rightarrow> uint256 cxx" where
  "bi_GetBlockHash b = bindE (cxx_assert (bi_phashBlock b \<noteq> None)) (\<lambda>_. deref (bi_phashBlock b))"

definition bi_GetBlockHeader :: "BlockMap \<Rightarrow> CBlockIndex \<Rightarrow> CBlockHeader cxx" where
  "bi_GetBlockHeader st b =
    bindE (case bi_pprev b of None \<Rightarrow> Inr uint256_null
           | Some q \<Rightarrow> bindE (deref (st q)) bi_GetBlockHash) (\<lambda>prev.
      Inr \<lparr>hdr_nVersion = bi_nVersion b, hdr_hashPrevBlock = prev, hdr_hashMerkleRoot = bi_hashMerkleRoot b,
           hdr_nTime = bi_nTime b, hdr_nBits = bi_nBits b, hdr_nNonce = bi_nNonce b, hdr_auxpow = bi_auxpow b\<rparr>)"

subsection \<open>Validity levels\<close>

definition BLOCK_VALID_TREE :: u32 where "BLOCK_VALID_TREE = 2"
definition BLOCK_VALID_MASK :: u32 where "BLOCK_VALID_MASK = 1 OR 2 OR 3 OR 4 OR 5"
definition BLOCK_FAILED_MASK :: u32 where "BLOCK_FAILED_MASK = 32 OR 64"

definition IsValid :: "CBlockIndex \<Rightarrow> u32 \<Rightarrow> bool cxx" where
  "IsValid b nUpTo =
    bindE (cxx_assert (nUpTo AND NOT BLOCK_VALID_MASK = 0)) (\<lambda>_.
      Inr (if bi_nStatus b AND BLOCK_FAILED_MASK \<noteq> 0 then False
           else bi_nStatus b AND BLOCK_VALID_MASK \<ge> nUpTo))"

definition RaiseValidity :: "u32 \<Rightarrow> CBlockIndex \<Rightarrow> (bool \<times> CBlockIndex) cxx" where
  "RaiseValidity nUpTo b =
    bindE (cxx_assert (nUpTo AND NOT BLOCK_VALID_MASK = 0)) (\<lambda>_.
      Inr (if bi_nStatus b AND BLOCK_FAILED_MASK \<noteq> 0 then (False, b)
           else if bi_nStatus b AND BLOCK_VALID_MASK < nUpTo
           then (True, b\<lparr>bi_nStatus := (bi_nStatus b AND NOT BLOCK_VALID_MASK) OR nUpTo\<rparr>)
           else (False, b)))"

subsection \<open>Skip list\<close>

definition InvertLowestOne :: "int \<Rightarrow> int" where
  "InvertLowestOne n = n AND (n - 1)"

definition GetSkipHeight :: "int \<Rightarrow> int" where
  "GetSkipHeight height =
    (if height < 2 then 0
     else if height AND 1 \<noteq> 0 then InvertLowestOne (InvertLowestOne (height - 1)) + 1
     else InvertLowestOne height)"

lemma InvertLowestOne_bounds: "0 \<le> n \<Longrightarrow> 0 \<le> InvertLowestOne n \<and> InvertLowestOne n \<le> n"
  by (simp add: InvertLowestOne_def)

lemma InvertLowestOne_less: "0 < n \<Longrightarrow> InvertLowestOne n < n"
  using AND_upper2 [of "n - 1" n] by (simp add: InvertLowestOne_def)

lemma GetSkipHeight_nonneg: "0 \<le> GetSkipHeight h"
  using InvertLowestOne_bounds [of "h - 1"] InvertLowestOne_bounds [of "InvertLowestOne (h - 1)"]
    InvertLowestOne_bounds [of h]
  by (auto simp: GetSkipHeight_def)

lemma GetSkipHeight_less: "0 < h \<Longrightarrow> GetSkipHeight h < h"
  using InvertLowestOne_less [of "h - 1"] InvertLowestOne_bounds [of "h - 1"]
    InvertLowestOne_bounds [of "InvertLowestOne (h - 1)"] InvertLowestOne_less [of h]
  by (auto simp: GetSkipHeight_def)

function ancestor_loop :: "BlockMap \<Rightarrow> int \<Rightarrow> bptr \<Rightarrow> int \<Rightarrow> bptr cxx" where
  "ancestor_loop st height pindexWalk heightWalk =
    (if heightWalk > height \<and> height \<ge> 0 then
       bindE (deref (st pindexWalk)) (\<lambda>w.
       let heightSkip = GetSkipHeight heightWalk;
           heightSkipPrev = GetSkipHeight (heightWalk - 1) in
       if bi_pskip w \<noteq> None \<and>
          (heightSkip = height \<or>
           (heightSkip > height \<and> \<not> (heightSkipPrev < heightSkip - 2 \<and> heightSkipPrev \<ge> height)))
       then ancestor_loop st height (the (bi_pskip w)) heightSkip
       else bindE (cxx_assert (bi_pprev w \<noteq> None)) (\<lambda>_.
            ancestor_loop st height (the (bi_pprev w)) (heightWalk - 1)))
     else Inr pindexWalk)"
  by pat_completeness auto
termination
  by (relation "measure (\<lambda>(st, h, p, w). nat w)") (auto simp: GetSkipHeight_less)

declare ancestor_loop.simps [simp del]

definition GetAncestor :: "BlockMap \<Rightarrow> bptr \<Rightarrow> int \<Rightarrow> bptr option cxx" where
  "GetAncestor st this height =
    bindE (deref (st this)) (\<lambda>b.
      if height > bi_nHeight b \<or> height < 0 then Inr None
      else bindE (ancestor_loop st height this (bi_nHeight b)) (\<lambda>p. Inr (Some p)))"

definition BuildSkip :: "BlockMap \<Rightarrow> CBlockIndex \<Rightarrow> CBlockIndex cxx" where
  "BuildSkip st b =
    (case bi_pprev b of None \<Rightarrow> Inr b
     | Some q \<Rightarrow> bindE (GetAncestor st q (GetSkipHeight (bi_nHeight b))) (\<lambda>a. Inr (b\<lparr>bi_pskip := a\<rparr>)))"

subsection \<open>Lane links\<close>

definition BuildCadenceLaneLinks :: "BlockMap \<Rightarrow> CBlockIndex \<Rightarrow> CBlockIndex cxx" where
  "BuildCadenceLaneLinks st b =
    (let b0 = b\<lparr>bi_pprev_permissionless := None, bi_pprev_auxpow := None\<rparr> in
     case bi_pprev b of None \<Rightarrow> Inr b0
     | Some q \<Rightarrow> bindE (deref (st q)) (\<lambda>c.
         Inr (if bi_SignalsAuxpow c
              then b0\<lparr>bi_pprev_auxpow := Some q, bi_pprev_permissionless := bi_pprev_permissionless c\<rparr>
              else b0\<lparr>bi_pprev_permissionless := Some q, bi_pprev_auxpow := bi_pprev_auxpow c\<rparr>)))"

definition GetPreviousBlockForLane :: "BlockMap \<Rightarrow> bptr \<Rightarrow> bool \<Rightarrow> int \<Rightarrow> bptr option cxx" where
  "GetPreviousBlockForLane st this auxpow min_height =
    bindE (deref (st this)) (\<lambda>b.
      if bi_SignalsAuxpow b = auxpow then Inr (Some this)
      else case (if auxpow then bi_pprev_auxpow b else bi_pprev_permissionless b) of
             None \<Rightarrow> Inr None
           | Some c \<Rightarrow> bindE (deref (st c)) (\<lambda>cb. Inr (if bi_nHeight cb \<ge> min_height then Some c else None)))"

subsection \<open>Work\<close>

definition GetBlockProof :: "CBlockIndex \<Rightarrow> arith_uint256 cxx" where
  "GetBlockProof b =
    (case SetCompact (bi_nBits b) of (bnTarget, fNegative, fOverflow) \<Rightarrow>
      if fNegative \<or> fOverflow \<or> EqualTo bnTarget 0 then Inr base_uint_zero
      else bindE (base_uint_div (base_uint_not bnTarget) (base_uint_add bnTarget (base_uint_of_u64 1))) (\<lambda>q.
           Inr (base_uint_add q (base_uint_of_u64 1))))"

definition GetRecentChainWork :: "BlockMap \<Rightarrow> bptr \<Rightarrow> int \<Rightarrow> arith_uint256 cxx" where
  "GetRecentChainWork st tip block_count =
    bindE (cxx_assert (block_count > 0)) (\<lambda>_.
    bindE (deref (st tip)) (\<lambda>t.
      if bi_nHeight t < block_count then Inr (bi_nChainWork t)
      else bindE (GetAncestor st tip (bi_nHeight t - block_count)) (\<lambda>a.
           bindE (cxx_assert (a \<noteq> None)) (\<lambda>_.
           bindE (deref (st (the a))) (\<lambda>anc.
           bindE (cxx_assert (CompareTo (bi_nChainWork anc) (bi_nChainWork t) \<le> 0)) (\<lambda>_.
             Inr (base_uint_sub (bi_nChainWork t) (bi_nChainWork anc))))))))"

definition GetBlockProofEquivalentTime ::
  "CBlockIndex \<Rightarrow> CBlockIndex \<Rightarrow> CBlockIndex \<Rightarrow> Params \<Rightarrow> int cxx" where
  "GetBlockProofEquivalentTime to from tip params =
    (let (r0, sgn) = (if CompareTo (bi_nChainWork to) (bi_nChainWork from) > 0
                      then (base_uint_sub (bi_nChainWork to) (bi_nChainWork from), 1 :: int)
                      else (base_uint_sub (bi_nChainWork from) (bi_nChainWork to), - 1)) in
     bindE (GetBlockProof tip) (\<lambda>proof.
     bindE (base_uint_div (base_uint_mul r0 (base_uint_of_u64 (of_int (cp_nPowTargetSpacing params)))) proof) (\<lambda>r.
       Inr (if base_uint_bits r > 63 then sgn * (2 ^ 63 - 1) else sgn * uint (GetLow64 r)))))"

subsection \<open>Growing the index\<close>

record BlockManager =
  bm_block_index :: BlockMap
  bm_best_header :: "bptr option"
  bm_dirty_blockindex :: "bptr list"

text \<open>Parent, height, skip pointer and lane links of a new entry (the first lookups of the source).\<close>

definition link_entry :: "BlockMap \<Rightarrow> bptr \<Rightarrow> bptr \<Rightarrow> CBlockIndex \<Rightarrow> CBlockIndex cxx" where
  "link_entry st h prev b =
    bindE (case st prev of
             None \<Rightarrow> Inr b
           | Some pv \<Rightarrow> bindE (i32 (bi_nHeight pv + 1)) (\<lambda>ht.
               BuildSkip st (b\<lparr>bi_pprev := Some prev, bi_nHeight := ht\<rparr>))) (\<lambda>b1.
    BuildCadenceLaneLinks (st(h \<mapsto> b1)) b1)"

definition accumulate :: "CBlockIndex option \<Rightarrow> arith_uint256 \<Rightarrow> CBlockIndex \<Rightarrow> CBlockIndex" where
  "accumulate prev work b = b\<lparr>
     bi_nTimeMax := (case prev of Some c \<Rightarrow> max (bi_nTimeMax c) (bi_nTime b) | None \<Rightarrow> bi_nTime b),
     bi_nAuxPow := (case prev of Some c \<Rightarrow> bi_nAuxPow c | None \<Rightarrow> 0) + (if bi_SignalsAuxpow b then 1 else 0),
     bi_nChainWork := base_uint_add (case prev of Some c \<Rightarrow> bi_nChainWork c | None \<Rightarrow> base_uint_zero) work\<rparr>"

definition AddToBlockIndex ::
  "(bytes \<Rightarrow> uint256) \<Rightarrow> 'a CBlockHeader_scheme \<Rightarrow> BlockManager \<Rightarrow> (bptr \<times> BlockManager) cxx" where
  "AddToBlockIndex H block bm =
    (let h = header_GetHash H block in
     case bm_block_index bm h of
       Some _ \<Rightarrow> Inr (h, bm)
     | None \<Rightarrow>
       let b0 = (new_CBlockIndex block)\<lparr>bi_nSequenceId := 0, bi_phashBlock := Some h\<rparr>;
           st0 = (bm_block_index bm)(h \<mapsto> b0) in
       bindE (link_entry st0 h (hdr_hashPrevBlock block) b0) (\<lambda>b2.
       bindE (case bi_pprev b2 of None \<Rightarrow> Inr None
              | Some q \<Rightarrow> bindE (deref ((st0(h \<mapsto> b2)) q)) (\<lambda>c. Inr (Some c))) (\<lambda>prev.
       bindE (GetBlockProof b2) (\<lambda>work.
       bindE (RaiseValidity BLOCK_VALID_TREE (accumulate prev work b2)) (\<lambda>(_, b).
       bindE (case bm_best_header bm of None \<Rightarrow> Inr (Some h)
              | Some bh \<Rightarrow> bindE (deref ((st0(h \<mapsto> b)) bh)) (\<lambda>bb.
                  Inr (if CompareTo (bi_nChainWork bb) (bi_nChainWork b) < 0 then Some h else Some bh))) (\<lambda>best.
       Inr (h, bm\<lparr>bm_block_index := st0(h \<mapsto> b), bm_best_header := best,
                  bm_dirty_blockindex := List.insert h (bm_dirty_blockindex bm)\<rparr>)))))))"

subsection \<open>Following the parent pointers\<close>

definition bprev :: "BlockMap \<Rightarrow> bptr \<Rightarrow> bptr option" where
  "bprev st p = (case st p of None \<Rightarrow> None | Some b \<Rightarrow> bi_pprev b)"

fun walk :: "BlockMap \<Rightarrow> nat \<Rightarrow> bptr \<Rightarrow> bptr option" where
  "walk st 0 p = Some p"
| "walk st (Suc n) p = (case bprev st p of None \<Rightarrow> None | Some q \<Rightarrow> walk st n q)"

text \<open>The nearest of the first \<open>n\<close> strict ancestors that is in the given lane.\<close>

fun nearest_lane :: "BlockMap \<Rightarrow> bool \<Rightarrow> nat \<Rightarrow> bptr \<Rightarrow> bptr option" where
  "nearest_lane st auxpow 0 p = None"
| "nearest_lane st auxpow (Suc n) p =
    (case bprev st p of None \<Rightarrow> None
     | Some q \<Rightarrow> (case st q of None \<Rightarrow> None
        | Some c \<Rightarrow> if bi_SignalsAuxpow c = auxpow then Some q else nearest_lane st auxpow n q))"

text \<open>
  Well-formed entries: heights count the ancestors, the skip pointer is the ancestor at the skip
  height, the lane links and accumulated fields follow from the parent's.
\<close>

definition wf_entry :: "BlockMap \<Rightarrow> bptr \<Rightarrow> CBlockIndex \<Rightarrow> bool" where
  "wf_entry st p b \<longleftrightarrow>
    bi_phashBlock b = Some p \<and> length (bi_nChainWork b) = 8 \<and>
    (case bi_pprev b of
       None \<Rightarrow> bi_nHeight b = 0 \<and> bi_pskip b = None \<and> bi_pprev_auxpow b = None \<and> bi_pprev_permissionless b = None \<and>
         bi_nTimeMax b = bi_nTime b \<and> bi_nAuxPow b = (if bi_SignalsAuxpow b then 1 else 0)
     | Some q \<Rightarrow> (case st q of None \<Rightarrow> False
        | Some c \<Rightarrow> 0 \<le> bi_nHeight c \<and> bi_nHeight b = bi_nHeight c + 1 \<and>
            bi_pskip b = walk st (nat (bi_nHeight c - GetSkipHeight (bi_nHeight b))) q \<and>
            bi_pprev_auxpow b = (if bi_SignalsAuxpow c then Some q else bi_pprev_auxpow c) \<and>
            bi_pprev_permissionless b = (if bi_SignalsAuxpow c then bi_pprev_permissionless c else Some q) \<and>
            bi_nTimeMax b = max (bi_nTimeMax c) (bi_nTime b) \<and>
            bi_nAuxPow b = bi_nAuxPow c + (if bi_SignalsAuxpow b then 1 else 0)))"

definition wf_index :: "BlockMap \<Rightarrow> bool" where
  "wf_index st \<longleftrightarrow> (\<forall>p b. st p = Some b \<longrightarrow> wf_entry st p b)"

lemma wf_indexD: "wf_index st \<Longrightarrow> st p = Some b \<Longrightarrow> wf_entry st p b"
  by (simp add: wf_index_def)

lemma wf_prev:
  assumes "wf_index st" "st p = Some b" "bi_pprev b = Some q"
  obtains c where "st q = Some c" "0 \<le> bi_nHeight c" "bi_nHeight b = bi_nHeight c + 1"
    "bi_pskip b = walk st (nat (bi_nHeight c - GetSkipHeight (bi_nHeight b))) q"
    "bi_pprev_auxpow b = (if bi_SignalsAuxpow c then Some q else bi_pprev_auxpow c)"
    "bi_pprev_permissionless b = (if bi_SignalsAuxpow c then bi_pprev_permissionless c else Some q)"
    "bi_nTimeMax b = max (bi_nTimeMax c) (bi_nTime b)"
    "bi_nAuxPow b = bi_nAuxPow c + (if bi_SignalsAuxpow b then 1 else 0)"
  using wf_indexD [OF assms(1,2)] assms(3) by (auto simp: wf_entry_def split: option.splits)

lemma wf_root:
  assumes "wf_index st" "st p = Some b" "bi_pprev b = None"
  shows "bi_nHeight b = 0" "bi_pskip b = None" "bi_pprev_auxpow b = None" "bi_pprev_permissionless b = None"
    "bi_nTimeMax b = bi_nTime b"
  using wf_indexD [OF assms(1,2)] assms(3) by (auto simp: wf_entry_def)

lemma wf_height_nonneg: "wf_index st \<Longrightarrow> st p = Some b \<Longrightarrow> 0 \<le> bi_nHeight b"
  using wf_indexD [of st p b] by (auto simp: wf_entry_def split: option.splits)

lemma walk_total:
  assumes "wf_index st" "st p = Some b" "int n \<le> bi_nHeight b"
  shows "\<exists>q c. walk st n p = Some q \<and> st q = Some c \<and> bi_nHeight c = bi_nHeight b - int n"
  using assms(2,3)
proof (induction n arbitrary: p b)
  case (Suc n)
  then have "bi_pprev b \<noteq> None" using wf_root(1) [OF assms(1) Suc.prems(1)] by auto
  then obtain q where q: "bi_pprev b = Some q" by auto
  with assms(1) Suc.prems(1) obtain c where c: "st q = Some c" "bi_nHeight b = bi_nHeight c + 1"
    by (auto elim: wf_prev)
  then show ?case using Suc.IH [OF c(1)] Suc.prems q by (simp add: bprev_def)
qed simp

lemma walk_add: "walk st (m + n) p = (case walk st m p of None \<Rightarrow> None | Some q \<Rightarrow> walk st n q)"
  by (induction m arbitrary: p) (simp_all split: option.split)

lemma ancestor_loop_walk:
  assumes wf: "wf_index st" and "0 \<le> height"
  shows "st p = Some b \<Longrightarrow> bi_nHeight b = w \<Longrightarrow> height \<le> w \<Longrightarrow>
    \<exists>q. ancestor_loop st height p w = Inr q \<and> walk st (nat (w - height)) p = Some q"
proof (induction "nat w" arbitrary: p b w rule: less_induct)
  case less
  show ?case
  proof (cases "w = height")
    case True
    then show ?thesis by (simp add: ancestor_loop.simps)
  next
    case False
    then have gt: "height < w" using less.prems by simp
    then have "bi_pprev b \<noteq> None" using wf_root(1) [OF wf less.prems(1)] less.prems(2) assms(2) by auto
    then obtain q where q: "bi_pprev b = Some q" by auto
    with wf less.prems(1) obtain c where c: "st q = Some c" "0 \<le> bi_nHeight c" "bi_nHeight b = bi_nHeight c + 1"
      "bi_pskip b = walk st (nat (bi_nHeight c - GetSkipHeight (bi_nHeight b))) q" by (auto elim: wf_prev)
    let ?sk = "GetSkipHeight w"
    let ?follow = "bi_pskip b \<noteq> None \<and> (?sk = height \<or> (?sk > height \<and>
      \<not> (GetSkipHeight (w - 1) < ?sk - 2 \<and> GetSkipHeight (w - 1) \<ge> height)))"
    have sk: "0 \<le> ?sk" "?sk < w" using GetSkipHeight_less [of w] GetSkipHeight_nonneg [of w] gt assms(2) by simp_all
    have unroll: "ancestor_loop st height p w = (if ?follow then ancestor_loop st height (the (bi_pskip b)) ?sk
        else ancestor_loop st height q (w - 1))"
      using gt assms(2) less.prems(1) q by (subst ancestor_loop.simps) (auto simp: Let_def)
    show ?thesis
    proof (cases ?follow)
      case True
      let ?n = "nat (bi_nHeight c - ?sk)"
      have "int ?n \<le> bi_nHeight c" using sk c(2) less.prems(2) c(3) by simp
      then obtain r d where r: "walk st ?n q = Some r" "st r = Some d" "bi_nHeight d = bi_nHeight c - int ?n"
        using walk_total [OF wf c(1)] by blast
      have d: "bi_nHeight d = ?sk" using r(3) sk c(3) less.prems(2) by simp
      have "\<exists>s. ancestor_loop st height r ?sk = Inr s \<and> walk st (nat (?sk - height)) r = Some s"
        using sk True gt assms(2) by (intro less.hyps [OF _ r(2) d]) auto
      moreover have "nat (w - height) = Suc (?n + nat (?sk - height))"
        using True sk c(3) less.prems(2) by auto
      ultimately show ?thesis
        using True r q less.prems(1,2) c(4) unroll by (auto simp: walk_add bprev_def)
    next
      case False
      have "\<exists>s. ancestor_loop st height q (w - 1) = Inr s \<and> walk st (nat (w - 1 - height)) q = Some s"
        using gt assms(2) c less.prems(2) by (intro less.hyps [OF _ c(1)]) auto
      moreover have "nat (w - height) = Suc (nat (w - 1 - height))" using gt by simp
      ultimately show ?thesis using False unroll q less.prems(1) by (auto simp: bprev_def)
    qed
  qed
qed

text \<open>The skip list search returns what following the parent pointers returns.\<close>

lemma GetAncestor_walk:
  assumes "wf_index st" "st p = Some b"
  shows "GetAncestor st p height =
    Inr (if 0 \<le> height \<and> height \<le> bi_nHeight b then walk st (nat (bi_nHeight b - height)) p else None)"
proof (cases "0 \<le> height \<and> height \<le> bi_nHeight b")
  case True
  then obtain q where "ancestor_loop st height p (bi_nHeight b) = Inr q"
    "walk st (nat (bi_nHeight b - height)) p = Some q"
    using ancestor_loop_walk [OF assms(1) _ assms(2) refl] by blast
  then show ?thesis using True assms(2) by (simp add: GetAncestor_def)
qed (auto simp: GetAncestor_def assms(2))

subsection \<open>Lane links name the nearest ancestor of a lane\<close>

lemma lane_links_nearest:
  assumes wf: "wf_index st"
  shows "st p = Some b \<Longrightarrow> nat (bi_nHeight b) = n \<Longrightarrow>
    bi_pprev_auxpow b = nearest_lane st True n p \<and> bi_pprev_permissionless b = nearest_lane st False n p"
proof (induction n arbitrary: p b)
  case 0
  have "bi_pprev b = None"
  proof (rule ccontr)
    assume "bi_pprev b \<noteq> None"
    then obtain q where "bi_pprev b = Some q" by auto
    with wf 0(1) obtain c where "st q = Some c" "0 \<le> bi_nHeight c" "bi_nHeight b = bi_nHeight c + 1"
      by (auto elim: wf_prev)
    then show False using 0(2) by simp
  qed
  then show ?case using wf_root [OF wf 0(1)] by simp
next
  case (Suc n)
  have "bi_pprev b \<noteq> None" using wf_root(1) [OF wf Suc.prems(1)] Suc.prems(2) by (cases "bi_pprev b") auto
  then obtain q where q: "bi_pprev b = Some q" by auto
  with wf Suc.prems(1) obtain c where c: "st q = Some c" "0 \<le> bi_nHeight c" "bi_nHeight b = bi_nHeight c + 1"
    "bi_pprev_auxpow b = (if bi_SignalsAuxpow c then Some q else bi_pprev_auxpow c)"
    "bi_pprev_permissionless b = (if bi_SignalsAuxpow c then bi_pprev_permissionless c else Some q)"
    by (auto elim: wf_prev)
  have "nat (bi_nHeight c) = n" using Suc.prems(2) c(2,3) by simp
  then show ?case using Suc.IH [OF c(1)] c q Suc.prems(1) by (simp add: bprev_def)
qed

definition lane_spec :: "BlockMap \<Rightarrow> bptr \<Rightarrow> bool \<Rightarrow> int \<Rightarrow> bptr option" where
  "lane_spec st p auxpow min_height =
    (case st p of None \<Rightarrow> None
     | Some b \<Rightarrow> if bi_SignalsAuxpow b = auxpow then Some p
        else (case nearest_lane st auxpow (nat (bi_nHeight b)) p of None \<Rightarrow> None
              | Some c \<Rightarrow> (case st c of None \<Rightarrow> None
                  | Some cb \<Rightarrow> if bi_nHeight cb \<ge> min_height then Some c else None)))"

lemma nearest_lane_in_store: "nearest_lane st l n p = Some q \<Longrightarrow> \<exists>c. st q = Some c \<and> bi_SignalsAuxpow c = l"
  by (induction n arbitrary: p) (auto split: option.splits if_splits)

lemma GetPreviousBlockForLane_spec:
  assumes wf: "wf_index st" and b: "st p = Some b"
  shows "GetPreviousBlockForLane st p auxpow min_height = Inr (lane_spec st p auxpow min_height)"
proof -
  have "(if auxpow then bi_pprev_auxpow b else bi_pprev_permissionless b) = nearest_lane st auxpow (nat (bi_nHeight b)) p"
    using lane_links_nearest [OF wf b refl] by simp
  then show ?thesis using b
    by (auto simp: GetPreviousBlockForLane_def lane_spec_def split: option.splits dest: nearest_lane_in_store)
qed

subsection \<open>Work of a block\<close>

lemma GetBlockProof_correct:
  "\<exists>w. GetBlockProof b = Inr w \<and> length w = 8 \<and>
    nval w = (case SetCompact (bi_nBits b) of (t, neg, ovf) \<Rightarrow>
      if neg \<or> ovf \<or> nval t = 0 then 0 else 2 ^ 256 div (nval t + 1))"
proof -
  obtain t neg ovf where sc: "SetCompact (bi_nBits b) = (t, neg, ovf)" by (cases "SetCompact (bi_nBits b)") auto
  have len: "length t = 8" using SetCompact_nval(1) [OF sc] .
  show ?thesis
  proof (cases "neg \<or> ovf \<or> nval t = 0")
    case True
    then show ?thesis using sc len by (auto simp: GetBlockProof_def EqualTo_nval base_uint_zero_def WIDTH_8)
  next
    case False
    let ?one = "base_uint_of_u64 1" and ?M = "2 ^ 256 :: nat"
    have t: "nval t < ?M" by (rule nval_less_256 [OF len])
    have one: "length ?one = 8" "nval ?one = 1" by (simp_all add: WIDTH_8 nval_base_uint_of_u64)
    have nt: "nval (base_uint_not t) = ?M - 1 - nval t" "length (base_uint_not t) = 8"
      using nval_not [of t] len by (simp_all add: base_uint_not_def)
    show ?thesis
    proof (cases "nval t + 1 = ?M")
      case max: True
      have "nval t \<le> 2 ^ 256 - 2 ^ 8"
      proof -
        have cv: "nval t = compact_value (bi_nBits b)"
          using SetCompact_nval(2,3) [OF sc] False by simp
        have "256 dvd compact_value (bi_nBits b) \<or> compact_value (bi_nBits b) < 2 ^ 23"
        proof (cases "unat (bi_nBits b) div 2 ^ 24 \<le> 3")
          case True
          have "compact_value (bi_nBits b) \<le> unat (bi_nBits b) mod 2 ^ 23"
            using True by (simp add: compact_value_def compact_decode_def)
          then show ?thesis by (meson le_less_trans mod_less_divisor zero_less_numeral zero_less_power)
        next
          case gt: False
          then obtain k where "unat (bi_nBits b) div 2 ^ 24 - 3 = Suc k" by (metis diff_is_0_eq not0_implies_Suc)
          then show ?thesis using gt by (simp add: compact_value_def compact_decode_def)
        qed
        moreover have "\<not> 256 dvd (2 ^ 256 - 1 :: nat)" by simp
        ultimately show ?thesis using max cv by auto
      qed
      then show ?thesis using max by simp
    next
      case ne: False
      then have lt: "nval t + 1 < ?M" using t by simp
      have a: "nval (base_uint_add t ?one) = nval t + 1" "length (base_uint_add t ?one) = 8"
        using lt len one by (simp_all add: nval_base_uint_add WIDTH_8)
      then obtain q where q: "base_uint_div (base_uint_not t) (base_uint_add t ?one) = Inr q" "length q = 8"
        "nval q = (?M - 1 - nval t) div (nval t + 1)"
        using u256.div_ok [OF nt(2) a(2)] nt(1) by auto
      have "?M = (?M - 1 - nval t) + (nval t + 1)" using t by simp
      then have qq: "nval q + 1 = ?M div (nval t + 1)"
        unfolding q(3) by (metis add_gr_0 div_add_self2 less_numeral_extra(3) zero_less_one)
      moreover have "?M div (nval t + 1) \<le> ?M div 2" using False by (intro div_le_mono2) simp_all
      ultimately have "nval (base_uint_add q ?one) = ?M div (nval t + 1)"
        using q(2) one by (simp add: nval_base_uint_add WIDTH_8)
      then show ?thesis using sc False len q one by (simp add: GetBlockProof_def EqualTo_nval WIDTH_8)
    qed
  qed
qed
subsection \<open>Adding a block keeps the index well formed\<close>

lemma wf_closed: "wf_index st \<Longrightarrow> st p = Some b \<Longrightarrow> bi_pprev b = Some q \<Longrightarrow> q \<in> dom st"
  by (auto elim: wf_prev)

lemma walk_frame:
  assumes "wf_index st" "st h = None"
  shows "p \<in> dom st \<Longrightarrow> walk (st(h \<mapsto> x)) n p = walk st n p"
proof (induction n arbitrary: p)
  case (Suc n)
  then have p: "(st(h \<mapsto> x)) p = st p" using assms(2) by auto
  show ?case
  proof (cases "bprev st p")
    case None
    then show ?thesis using p by (simp add: bprev_def)
  next
    case (Some q)
    then have "q \<in> dom st" using wf_closed [OF assms(1)] by (auto simp: bprev_def split: option.splits)
    then show ?thesis using Some p Suc.IH [of q] by (simp add: bprev_def)
  qed
qed simp

lemma wf_index_insert:
  assumes wf: "wf_index st" and new: "st h = None" and e: "wf_entry (st(h \<mapsto> b)) h b"
  shows "wf_index (st(h \<mapsto> b))"
  unfolding wf_index_def
proof (intro allI impI)
  fix p c assume c: "(st(h \<mapsto> b)) p = Some c"
  show "wf_entry (st(h \<mapsto> b)) p c"
  proof (cases "p = h")
    case True
    then show ?thesis using c e by simp
  next
    case False
    then have pc: "st p = Some c" using c by simp
    show ?thesis
    proof (cases "bi_pprev c")
      case None
      then show ?thesis using wf_indexD [OF wf pc] by (simp add: wf_entry_def)
    next
      case (Some q)
      then have q: "q \<in> dom st" using wf_closed [OF wf pc] by simp
      then have "(st(h \<mapsto> b)) q = st q" using new by auto
      then show ?thesis using wf_indexD [OF wf pc] Some walk_frame [OF wf new q]
        by (simp add: wf_entry_def split: option.splits)
    qed
  qed
qed

text \<open>The entry \<^verbatim>\<open>AddToBlockIndex\<close> stores for a block whose parent is known or not.\<close>

definition entry_spec :: "BlockMap \<Rightarrow> bptr \<Rightarrow> 'a CBlockHeader_scheme \<Rightarrow> CBlockIndex \<Rightarrow> bool" where
  "entry_spec st h block b \<longleftrightarrow>
    bi_nVersion b = hdr_nVersion block \<and> bi_nTime b = hdr_nTime block \<and> bi_nBits b = hdr_nBits block \<and>
    bi_hashMerkleRoot b = hdr_hashMerkleRoot block \<and> bi_nNonce b = hdr_nNonce block \<and>
    bi_auxpow b = hdr_auxpow block \<and>
    bi_pprev b = (if hdr_hashPrevBlock block \<in> dom st then Some (hdr_hashPrevBlock block) else None)"

lemma RaiseValidity_TREE_new:
  "bi_nStatus b = 0 \<Longrightarrow> RaiseValidity BLOCK_VALID_TREE b = Inr (True, b\<lparr>bi_nStatus := 2\<rparr>)"
  by (simp add: RaiseValidity_def BLOCK_VALID_TREE_def BLOCK_VALID_MASK_def)

lemma ancestor_loop_frame:
  assumes wf: "wf_index st" and new: "st h = None" and q: "st q = Some c" "0 \<le> k" "k \<le> bi_nHeight c"
  shows "GetAncestor (st(h \<mapsto> x)) q k = Inr (walk st (nat (bi_nHeight c - k)) q)"
proof -
  have *: "p \<in> dom st \<Longrightarrow> ancestor_loop (st(h \<mapsto> x)) k p w = ancestor_loop st k p w" for p w
  proof (induction "nat w" arbitrary: p w rule: less_induct)
    case less
    then obtain b where b: "st p = Some b" by auto
    then have p: "(st(h \<mapsto> x)) p = Some b" using new by auto
    have skip: "r \<in> dom st" if "bi_pskip b = Some r" for r
    proof (cases "bi_pprev b")
      case None
      then show ?thesis using that wf_root(2) [OF wf b] by simp
    next
      case (Some q')
      with wf b obtain c' where c': "st q' = Some c'" "0 \<le> bi_nHeight c'" "bi_nHeight b = bi_nHeight c' + 1"
        "bi_pskip b = walk st (nat (bi_nHeight c' - GetSkipHeight (bi_nHeight b))) q'" by (auto elim: wf_prev)
      have "int (nat (bi_nHeight c' - GetSkipHeight (bi_nHeight b))) \<le> bi_nHeight c'"
        using GetSkipHeight_nonneg [of "bi_nHeight b"] c'(2) by simp
      from walk_total [OF wf c'(1) this] show ?thesis using that c'(4) by auto
    qed
    show ?case
      using b p skip wf_closed [OF wf b] less.hyps GetSkipHeight_less [of w]
      by (subst (1 2) ancestor_loop.simps) (auto simp: Let_def bindE_def cxx_assert_def)
  qed
  have qd: "q \<in> dom st" "(st(h \<mapsto> x)) q = Some c" using q(1) new by auto
  show ?thesis
    using GetAncestor_walk [OF wf q(1), of k] * [OF qd(1)] q qd(2) by (simp add: GetAncestor_def)
qed
definition wf_manager :: "BlockManager \<Rightarrow> bool" where
  "wf_manager bm \<longleftrightarrow> wf_index (bm_block_index bm) \<and>
    set_option (bm_best_header bm) \<subseteq> dom (bm_block_index bm)"

lemma link_entry_root:
  assumes "st q = None" "q \<noteq> h" "bi_pprev b = None" "bi_pprev_permissionless b = None" "bi_pprev_auxpow b = None"
  shows "link_entry (st(h \<mapsto> x)) h q b = Inr b"
proof -
  have "b\<lparr>bi_pprev_permissionless := None, bi_pprev_auxpow := None\<rparr> = b" using assms(4,5) by (cases b) simp
  then show ?thesis using assms by (simp add: link_entry_def BuildCadenceLaneLinks_def Let_def)
qed

lemma link_entry_child:
  assumes wf: "wf_index st" and new: "st h = None" and c: "st q = Some c" and ne: "q \<noteq> h"
    and bound: "bi_nHeight c < 2 ^ 31 - 1"
  shows "link_entry (st(h \<mapsto> x)) h q b = Inr (b\<lparr>bi_pprev := Some q, bi_nHeight := bi_nHeight c + 1,
    bi_pskip := walk st (nat (bi_nHeight c - GetSkipHeight (bi_nHeight c + 1))) q,
    bi_pprev_auxpow := (if bi_SignalsAuxpow c then Some q else bi_pprev_auxpow c),
    bi_pprev_permissionless := (if bi_SignalsAuxpow c then bi_pprev_permissionless c else Some q)\<rparr>)"
proof -
  let ?ht = "bi_nHeight c + 1"
  have q': "(st(h \<mapsto> x)) q = Some c" for x using c ne by simp
  have hc: "0 \<le> bi_nHeight c" by (rule wf_height_nonneg [OF wf c])
  have sk: "0 \<le> GetSkipHeight ?ht" "GetSkipHeight ?ht \<le> bi_nHeight c"
    using GetSkipHeight_nonneg GetSkipHeight_less [of ?ht] hc by simp_all
  have "i32 ?ht = Inr ?ht" using hc bound by (simp add: i32_range_def)
  moreover have "BuildSkip (st(h \<mapsto> x)) (b\<lparr>bi_pprev := Some q, bi_nHeight := ?ht\<rparr>) =
    Inr (b\<lparr>bi_pprev := Some q, bi_nHeight := ?ht, bi_pskip := walk st (nat (bi_nHeight c - GetSkipHeight ?ht)) q\<rparr>)"
    using ancestor_loop_frame [OF wf new c sk] by (simp add: BuildSkip_def)
  ultimately show ?thesis
    using q' by (simp add: link_entry_def BuildCadenceLaneLinks_def Let_def)
qed

definition linked_entry :: "BlockMap \<Rightarrow> bptr \<Rightarrow> 'a CBlockHeader_scheme \<Rightarrow> arith_uint256 \<Rightarrow> CBlockIndex" where
  "linked_entry st h block work =
    (let b0 = (new_CBlockIndex block)\<lparr>bi_nSequenceId := 0, bi_phashBlock := Some h\<rparr>; q = hdr_hashPrevBlock block in
     (accumulate (st q) work (case st q of None \<Rightarrow> b0
       | Some c \<Rightarrow> b0\<lparr>bi_pprev := Some q, bi_nHeight := bi_nHeight c + 1,
           bi_pskip := walk st (nat (bi_nHeight c - GetSkipHeight (bi_nHeight c + 1))) q,
           bi_pprev_auxpow := (if bi_SignalsAuxpow c then Some q else bi_pprev_auxpow c),
           bi_pprev_permissionless := (if bi_SignalsAuxpow c then bi_pprev_permissionless c else Some q)\<rparr>))
       \<lparr>bi_nStatus := 2\<rparr>)"

lemma wf_linked_entry:
  assumes wf: "wf_index st" and new: "st h = None" and ne: "hdr_hashPrevBlock block \<noteq> h" and w: "length work = 8"
  shows "wf_entry (st(h \<mapsto> linked_entry st h block work)) h (linked_entry st h block work)"
proof (cases "st (hdr_hashPrevBlock block)")
  case None
  then show ?thesis using w
    by (simp add: linked_entry_def accumulate_def wf_entry_def new_CBlockIndex_def Let_def bi_SignalsAuxpow_def WIDTH_8)
next
  case (Some c)
  have "length (bi_nChainWork c) = 8" using wf_indexD [OF wf Some] by (simp add: wf_entry_def)
  moreover have "walk (st(h \<mapsto> x)) n (hdr_hashPrevBlock block) = walk st n (hdr_hashPrevBlock block)" for x n
    using walk_frame [OF wf new, of "hdr_hashPrevBlock block"] Some by auto
  ultimately show ?thesis using w Some ne wf_height_nonneg [OF wf Some]
    by (simp add: linked_entry_def accumulate_def wf_entry_def new_CBlockIndex_def Let_def bi_SignalsAuxpow_def)
qed

lemma GetBlockProof_bits: "bi_nBits b = bi_nBits c \<Longrightarrow> GetBlockProof b = GetBlockProof c"
  by (simp add: GetBlockProof_def)

lemma AddToBlockIndex_new:
  fixes block :: "'a CBlockHeader_scheme" and H :: "bytes \<Rightarrow> uint256"
  defines "h \<equiv> header_GetHash H block" and "q \<equiv> hdr_hashPrevBlock block"
  assumes wf: "wf_manager bm" and new: "bm_block_index bm h = None" and ne: "q \<noteq> h"
    and bound: "\<And>c. bm_block_index bm q = Some c \<Longrightarrow> bi_nHeight c < 2 ^ 31 - 1"
  shows "\<exists>work bm'. AddToBlockIndex H block bm = Inr (h, bm') \<and> length work = 8 \<and>
    bm_block_index bm' = (bm_block_index bm)(h \<mapsto> linked_entry (bm_block_index bm) h block work) \<and>
    wf_manager bm'"
proof -
  let ?st = "bm_block_index bm"
  define b0 where "b0 = (new_CBlockIndex block)\<lparr>bi_nSequenceId := 0, bi_phashBlock := Some h\<rparr>"
  have wfi: "wf_index ?st" using wf by (simp add: wf_manager_def)
  obtain work where work: "GetBlockProof b0 = Inr work" "length work = 8"
    using GetBlockProof_correct [of b0] by blast
  let ?e = "linked_entry ?st h block work"
  have wfe: "wf_index (?st(h \<mapsto> ?e))"
    using ne by (intro wf_index_insert [OF wfi new] wf_linked_entry [OF wfi new _ work(2)]) (simp add: q_def)
  have bh: "\<exists>bb. (?st(h \<mapsto> x)) bh = Some bb" if "bm_best_header bm = Some bh" for bh x
    using wf that by (auto simp: wf_manager_def)
  have "\<exists>b2 prev. link_entry (?st(h \<mapsto> b0)) h q b0 = Inr b2 \<and> prev = ?st q \<and>
      (case bi_pprev b2 of None \<Rightarrow> Inr None
       | Some r \<Rightarrow> bindE (deref ((?st(h \<mapsto> b0, h \<mapsto> b2)) r)) (\<lambda>c. Inr (Some c))) = Inr prev \<and>
      GetBlockProof b2 = Inr work \<and>
      RaiseValidity BLOCK_VALID_TREE (accumulate prev work b2) = Inr (True, ?e)"
  proof (cases "?st q")
    case None
    then have "link_entry (?st(h \<mapsto> b0)) h q b0 = Inr b0"
      using ne by (intro link_entry_root) (simp_all add: b0_def new_CBlockIndex_def)
    then show ?thesis using None work(1)
      by (intro exI [of _ b0] exI [of _ None])
        (simp add: RaiseValidity_TREE_new linked_entry_def Let_def q_def accumulate_def b0_def new_CBlockIndex_def)
  next
    case (Some c)
    let ?b = "b0\<lparr>bi_pprev := Some q, bi_nHeight := bi_nHeight c + 1,
      bi_pskip := walk ?st (nat (bi_nHeight c - GetSkipHeight (bi_nHeight c + 1))) q,
      bi_pprev_auxpow := (if bi_SignalsAuxpow c then Some q else bi_pprev_auxpow c),
      bi_pprev_permissionless := (if bi_SignalsAuxpow c then bi_pprev_permissionless c else Some q)\<rparr>"
    have "link_entry (?st(h \<mapsto> b0)) h q b0 = Inr ?b"
      using Some bound by (intro link_entry_child [OF wfi new _ ne]) simp_all
    moreover have "GetBlockProof ?b = Inr work" using work(1) GetBlockProof_bits [of ?b b0] by simp
    ultimately show ?thesis using Some ne
      by (intro exI [of _ ?b] exI [of _ "Some c"])
        (simp add: RaiseValidity_TREE_new linked_entry_def Let_def q_def accumulate_def b0_def new_CBlockIndex_def)
  qed
  then obtain b2 where b2: "link_entry (?st(h \<mapsto> b0)) h q b0 = Inr b2"
    "(case bi_pprev b2 of None \<Rightarrow> Inr None
       | Some r \<Rightarrow> bindE (deref ((?st(h \<mapsto> b0, h \<mapsto> b2)) r)) (\<lambda>c. Inr (Some c))) = Inr (?st q)"
    "GetBlockProof b2 = Inr work" "RaiseValidity BLOCK_VALID_TREE (accumulate (?st q) work b2) = Inr (True, ?e)"
    by blast
  have best: "\<exists>best. (case bm_best_header bm of None \<Rightarrow> Inr (Some h)
      | Some bh \<Rightarrow> bindE (deref ((?st(h \<mapsto> b0, h \<mapsto> ?e)) bh)) (\<lambda>bb.
          Inr (if CompareTo (bi_nChainWork bb) (bi_nChainWork ?e) < 0 then Some h else Some bh))) = Inr best \<and>
      set_option best \<subseteq> dom (?st(h \<mapsto> ?e))"
    using bh wf by (cases "bm_best_header bm") (auto simp: wf_manager_def)
  then obtain best where best: "(case bm_best_header bm of None \<Rightarrow> Inr (Some h)
      | Some bh \<Rightarrow> bindE (deref ((?st(h \<mapsto> b0, h \<mapsto> ?e)) bh)) (\<lambda>bb.
          Inr (if CompareTo (bi_nChainWork bb) (bi_nChainWork ?e) < 0 then Some h else Some bh))) = Inr best"
      "set_option best \<subseteq> dom (?st(h \<mapsto> ?e))" by blast
  show ?thesis
    using b2 best work(2) wfe new
    by (intro exI [of _ work] exI [of _ "bm\<lparr>bm_block_index := ?st(h \<mapsto> b0, h \<mapsto> ?e), bm_best_header := best,
          bm_dirty_blockindex := List.insert h (bm_dirty_blockindex bm)\<rparr>"])
      (simp add: AddToBlockIndex_def Let_def h_def [symmetric] q_def [symmetric] b0_def [symmetric] wf_manager_def)
qed
text \<open>
  The indexes a node can reach from an empty one. A header is added when it does not name itself as
  its parent, which for a hash function would be a fixed point, and heights stay below the limit of \<^verbatim>\<open>int\<close>.
\<close>

inductive reachable_index :: "(bytes \<Rightarrow> uint256) \<Rightarrow> BlockManager \<Rightarrow> bool" for H where
  start: "reachable_index H \<lparr>bm_block_index = Map.empty, bm_best_header = None, bm_dirty_blockindex = []\<rparr>"
| add: "reachable_index H bm \<Longrightarrow> hdr_hashPrevBlock block \<noteq> header_GetHash H block \<Longrightarrow>
    \<forall>c. bm_block_index bm (hdr_hashPrevBlock block) = Some c \<longrightarrow> bi_nHeight c < 2 ^ 31 - 1 \<Longrightarrow>
    AddToBlockIndex H (block :: CBlockHeader) bm = Inr (p, bm') \<Longrightarrow> reachable_index H bm'"

inductive_cases reachable_indexE: "reachable_index H bm"

lemma AddToBlockIndex_known:
  "bm_block_index bm (header_GetHash H block) = Some b \<Longrightarrow> AddToBlockIndex H block bm = Inr (header_GetHash H block, bm)"
  by (simp add: AddToBlockIndex_def Let_def)

lemma reachable_index_wf: "reachable_index H bm \<Longrightarrow> wf_manager bm"
proof (induction rule: reachable_index.induct)
  case start
  then show ?case by (simp add: wf_manager_def wf_index_def)
next
  case (add bm block p bm')
  show ?case
  proof (cases "bm_block_index bm (header_GetHash H block)")
    case None
    then show ?thesis using AddToBlockIndex_new [OF add.IH None] add.hyps by auto
  next
    case (Some b)
    then show ?thesis using AddToBlockIndex_known [OF Some] add by simp
  qed
qed

text \<open>
  The index of a network, as a node fills it: the genesis block first (\<^verbatim>\<open>LoadGenesisBlock\<close>), then
  headers whose parent is in the index, since \<^verbatim>\<open>AcceptBlockHeader\<close> rejects the others with
  \<^verbatim>\<open>prev-blk-not-found\<close> before it calls \<^verbatim>\<open>AddToBlockIndex\<close>.
\<close>

inductive network_index :: "(bytes \<Rightarrow> uint256) \<Rightarrow> CBlock \<Rightarrow> BlockManager \<Rightarrow> bool" for H genesis where
  load: "hdr_hashPrevBlock genesis \<noteq> header_GetHash H genesis \<Longrightarrow>
    AddToBlockIndex H genesis \<lparr>bm_block_index = Map.empty, bm_best_header = None, bm_dirty_blockindex = []\<rparr> = Inr (p, bm) \<Longrightarrow>
    network_index H genesis bm"
| accept: "network_index H genesis bm \<Longrightarrow> bm_block_index bm (hdr_hashPrevBlock block) = Some c \<Longrightarrow> bi_nHeight c < 2 ^ 31 - 1 \<Longrightarrow>
    hdr_hashPrevBlock block \<noteq> header_GetHash H block \<Longrightarrow>
    AddToBlockIndex H (block :: CBlockHeader) bm = Inr (p, bm') \<Longrightarrow> network_index H genesis bm'"

lemma linked_entry_root:
  assumes "st (hdr_hashPrevBlock g) = None" "\<not> SignalsAuxpow g"
  shows "bi_nHeight (linked_entry st h g work) = 0" "bi_nAuxPow (linked_entry st h g work) = 0"
  using assms by (simp_all add: linked_entry_def accumulate_def new_CBlockIndex_def Let_def
      bi_SignalsAuxpow_def SignalsAuxpow_def)

lemma linked_entry_child: "st (hdr_hashPrevBlock g) = Some c \<Longrightarrow> bi_nHeight (linked_entry st h g work) = bi_nHeight c + 1"
  by (simp add: linked_entry_def accumulate_def new_CBlockIndex_def Let_def)

lemma network_index_ok:
  assumes "\<not> SignalsAuxpow genesis"
  shows "network_index H genesis bm \<Longrightarrow> wf_manager bm \<and>
    (\<forall>a c. bm_block_index bm a = Some c \<longrightarrow> bi_nHeight c = 0 \<longrightarrow> bi_nAuxPow c = 0)"
proof (induction rule: network_index.induct)
  case (load p bm)
  let ?e = "\<lparr>bm_block_index = Map.empty, bm_best_header = None, bm_dirty_blockindex = []\<rparr>"
  have "wf_manager ?e" by (simp add: wf_manager_def wf_index_def)
  then show ?case
    using AddToBlockIndex_new [of ?e H genesis] load linked_entry_root [OF _ assms, of Map.empty] by (auto split: if_splits)
next
  case (accept bm block c p bm')
  show ?case
  proof (cases "bm_block_index bm (header_GetHash H block)")
    case None
    obtain work where w: "bm_block_index bm' = (bm_block_index bm)(header_GetHash H block \<mapsto>
        linked_entry (bm_block_index bm) (header_GetHash H block) block work)" "wf_manager bm'"
      using AddToBlockIndex_new [OF _ None] accept by auto
    have "0 \<le> bi_nHeight c" using wf_height_nonneg [of "bm_block_index bm" "hdr_hashPrevBlock block" c] accept by (simp add: wf_manager_def)
    then show ?thesis using w accept.IH accept.hyps(2) by (auto simp: linked_entry_child)
  next
    case (Some b)
    then show ?thesis using AddToBlockIndex_known [OF Some] accept by simp
  qed
qed

end
