(* ===== verification/Pow.thy ===== *)
theory Pow
  imports Chain_Index
begin

text \<open>
  Difficulty adjustment and proof-of-work checks of \<^verbatim>\<open>src/src/pow.cpp\<close>: the retargeting rule of the
  legacy schedule, the ASERT rule with its nine-digit intermediate target, qbit's two-lane cadence,
  and the header-only transition check. The theory shows that each computation returns the exact
  rational formula rounded down and clamped to the limit, that no assertion or signed overflow is
  reached for consistent parameters, and that every required target is accepted by the decoder.
\<close>

unbundle bit_operations_syntax

subsection \<open>Retargeting\<close>

definition CalculateRetargetedTarget ::
  "arith_uint256 \<Rightarrow> int \<Rightarrow> int \<Rightarrow> arith_uint256 \<Rightarrow> arith_uint256 cxx" where
  "CalculateRetargetedTarget old_target actual_timespan target_timespan pow_limit =
    (let actual = base_uint_of_u64 (of_int actual_timespan);
         target = base_uint_of_u64 (of_int target_timespan) in
     if EqualTo actual 0 then Inr (base_uint_of_u64 0)
     else bindE (base_uint_div old_target target) (\<lambda>quotient.
       let remainder = base_uint_sub old_target (base_uint_mul quotient target) in
       bindE (base_uint_div pow_limit actual) (\<lambda>cap.
         if CompareTo quotient cap > 0 then Inr pow_limit
         else let retarget = base_uint_mul quotient actual in
           bindE (base_uint_div (base_uint_mul remainder actual) target) (\<lambda>remainder_term.
             if CompareTo retarget (base_uint_sub pow_limit remainder_term) > 0 then Inr pow_limit
             else Inr (base_uint_add retarget remainder_term)))))"

subsection \<open>Wide targets\<close>

type_synonym WideTarget = "u32 list"

definition WIDE_TARGET_WIDTH :: nat where "WIDE_TARGET_WIDTH = 9"
definition WIDE_TARGET_BITS :: nat where "WIDE_TARGET_BITS = WIDE_TARGET_WIDTH * 32"

definition WideTargetAnySet :: "WideTarget \<Rightarrow> bool" where
  "WideTargetAnySet v \<longleftrightarrow> v \<noteq> replicate WIDE_TARGET_WIDTH 0"

definition ShiftRightWideTarget :: "WideTarget \<Rightarrow> nat \<Rightarrow> WideTarget" where
  "ShiftRightWideTarget v shift =
    (if shift \<ge> WIDE_TARGET_BITS then replicate WIDE_TARGET_WIDTH 0
     else let k = shift div 32; r = shift mod 32 in
       map (\<lambda>i. if i + k < WIDE_TARGET_WIDTH
         then let n = drop_bit r (ucast (v ! (i + k))) :: u64 in
              ucast (if r \<noteq> 0 \<and> i + k + 1 < WIDE_TARGET_WIDTH
                     then n OR push_bit (32 - r) (ucast (v ! (i + k + 1))) else n)
         else 0) [0..<WIDE_TARGET_WIDTH])"

definition ShiftLeftWideTarget :: "WideTarget \<Rightarrow> nat \<Rightarrow> WideTarget" where
  "ShiftLeftWideTarget v shift =
    (if shift \<ge> WIDE_TARGET_BITS then replicate WIDE_TARGET_WIDTH 0
     else let k = shift div 32; r = shift mod 32 in
       map (\<lambda>i. if i \<ge> k
         then let n = push_bit r (ucast (v ! (i - k))) :: u64 in
              ucast (if r \<noteq> 0 \<and> i > k
                     then n OR drop_bit (32 - r) (ucast (v ! (i - k - 1))) else n)
         else 0) [0..<WIDE_TARGET_WIDTH])"

definition LeftShiftWideTargetOverflows :: "WideTarget \<Rightarrow> WideTarget \<Rightarrow> nat \<Rightarrow> bool" where
  "LeftShiftWideTargetOverflows original shifted shift =
    (if shift \<ge> WIDE_TARGET_BITS then WideTargetAnySet original
     else ShiftRightWideTarget shifted shift \<noteq> original)"

fun mul_wide_loop :: "u64 \<Rightarrow> u32 \<Rightarrow> u32 list \<Rightarrow> u32 list" where
  "mul_wide_loop carry factor [] = [ucast carry]"
| "mul_wide_loop carry factor (d # ds) =
    (let n = carry + ucast d * ucast factor in ucast n # mul_wide_loop (drop_bit 32 n) factor ds)"

definition MultiplyToWideTarget :: "arith_uint256 \<Rightarrow> u32 \<Rightarrow> WideTarget" where
  "MultiplyToWideTarget v factor =
    (let compact = ArithToUint256 v in
     mul_wide_loop 0 factor (map (\<lambda>i. ReadLE32 (drop (i * 4) compact)) [0..<8]))"

definition WideTargetToArith :: "WideTarget \<Rightarrow> arith_uint256" where
  "WideTargetToArith v = UintToArith256 (concat (map (\<lambda>i. WriteLE32 (v ! i)) [0..<8]))"

subsection \<open>ASERT\<close>

definition asert_poly :: "u16 \<Rightarrow> u64" where
  "asert_poly frac =
    (let f = ucast frac :: u64 in
     195766423245049 * f + 971821376 * f * f + 5127 * f * f * f + push_bit 47 1)"

definition asert_factor :: "u16 \<Rightarrow> u32" where
  "asert_factor frac = ucast (65536 + drop_bit 48 (asert_poly frac))"

text \<open>The end of \<^verbatim>\<open>CalculateASERT\<close>: shifting the product back and clamping it.\<close>

definition asert_finish :: "WideTarget \<Rightarrow> int \<Rightarrow> arith_uint256 \<Rightarrow> arith_uint256" where
  "asert_finish initial_target shifts powLimit =
    (let shifted_target = (if shifts \<le> 0 then ShiftRightWideTarget initial_target (nat (- shifts))
                           else ShiftLeftWideTarget initial_target (nat shifts));
         overflow = (if shifts \<le> 0 then False
                     else LeftShiftWideTargetOverflows initial_target shifted_target (nat shifts));
         nextTarget = (if overflow \<or> shifted_target ! 8 \<noteq> 0 then powLimit else WideTargetToArith shifted_target) in
     if EqualTo nextTarget 0 then base_uint_of_u64 1
     else if CompareTo nextTarget powLimit > 0 then powLimit
     else nextTarget)"

definition CalculateASERT ::
  "arith_uint256 \<Rightarrow> int \<Rightarrow> int \<Rightarrow> int \<Rightarrow> arith_uint256 \<Rightarrow> int \<Rightarrow> arith_uint256 cxx" where
  "CalculateASERT refTarget nPowTargetSpacing nTimeDiff nHeightDiff powLimit nHalfLife =
    bindE (cxx_assert (CompareTo refTarget (base_uint_of_u64 0) > 0 \<and> CompareTo refTarget powLimit \<le> 0)) (\<lambda>_.
    bindE (cxx_assert (nHeightDiff \<ge> 0)) (\<lambda>_.
    bindE (cxx_assert (nHalfLife > 0)) (\<lambda>_.
    bindE (i64 (nPowTargetSpacing * nHeightDiff)) (\<lambda>ideal.
    bindE (i64 (nTimeDiff - ideal)) (\<lambda>drift.
    bindE (i64 \<bar>drift\<bar>) (\<lambda>a.
    bindE (cxx_assert (a < 2 ^ (63 - 16))) (\<lambda>_.
    bindE (i64 (drift * 65536)) (\<lambda>num.
    let exponent = num sdiv nHalfLife;
        shifts = drop_bit 16 exponent;
        frac = of_int exponent :: u16 in
    bindE (cxx_assert (exponent = shifts * 65536 + uint frac)) (\<lambda>_.
    Inr (asert_finish (MultiplyToWideTarget refTarget (asert_factor frac)) (shifts - 16) powLimit))))))))))"

subsection \<open>Lanes\<close>

definition IsCadenceActiveAfter :: "CBlockIndex option \<Rightarrow> Params \<Rightarrow> bool cxx" where
  "IsCadenceActiveAfter pindexPrev params =
    bindE (case pindexPrev of None \<Rightarrow> Inr 0 | Some b \<Rightarrow> i32 (bi_nHeight b + 1)) (\<lambda>next_height.
      Inr (CadenceActiveAtHeight params next_height))"

definition IsAuxpowBlock :: "u32 option \<Rightarrow> bool" where
  "IsAuxpowBlock nVersion = (case nVersion of None \<Rightarrow> False | Some v \<Rightarrow> IsAuxpowVersion v)"

definition GetNextBlockIsAuxpow :: "CBlockIndex option \<Rightarrow> 'a CPureBlockHeader_scheme option \<Rightarrow> bool" where
  "GetNextBlockIsAuxpow pindexLast pblock =
    (if pblock \<noteq> None then IsAuxpowBlock (map_option hdr_nVersion pblock)
     else IsAuxpowBlock (map_option bi_nVersion pindexLast))"

definition GetASERTAnchorBits :: "Params \<Rightarrow> bool \<Rightarrow> u32" where
  "GetASERTAnchorBits params auxpow =
    (let anchor = cp_asertAnchorParams params in
     if auxpow \<and> an_nBitsAuxPow anchor \<noteq> 0 then an_nBitsAuxPow anchor
     else if \<not> auxpow \<and> an_nBitsLegacy anchor \<noteq> 0 then an_nBitsLegacy anchor
     else an_nBits anchor)"

definition GetCadenceTargetSpacing :: "Params \<Rightarrow> bool \<Rightarrow> int" where
  "GetCadenceTargetSpacing params auxpow =
    (if auxpow \<and> cp_nPowTargetSpacingAuxPow params > 0 then cp_nPowTargetSpacingAuxPow params
     else if \<not> auxpow \<and> cp_nPowTargetSpacingLegacy params > 0 then cp_nPowTargetSpacingLegacy params
     else cp_nPowTargetSpacing params)"

record ASERTHeaderState =
  as_nHeight :: int
  as_nTime :: int
  as_nAuxPow :: u64

definition GetASERTHeaderState :: "CBlockIndex \<Rightarrow> ASERTHeaderState" where
  "GetASERTHeaderState b = \<lparr>as_nHeight = bi_nHeight b, as_nTime = bi_GetBlockTime b, as_nAuxPow = bi_nAuxPow b\<rparr>"

definition GetASERTHeightDiff :: "ASERTHeaderState \<Rightarrow> bool \<Rightarrow> Params \<Rightarrow> int cxx" where
  "GetASERTHeightDiff prev auxpow params =
    (let anchor = cp_asertAnchorParams params in
     bindE (cxx_assert (as_nHeight prev \<ge> an_nHeight anchor)) (\<lambda>_.
     bindE (cxx_assert (as_nAuxPow prev \<ge> an_nAuxPow anchor)) (\<lambda>_.
     let nAuxPowDiff = as_nAuxPow prev - an_nAuxPow anchor in
     bindE (cxx_assert (uint nAuxPowDiff \<le> 2 ^ 63 - 1)) (\<lambda>_.
     let d = uint nAuxPowDiff in
     if auxpow then Inr d
     else bindE (i64 (as_nHeight prev - an_nHeight anchor)) (\<lambda>hd. i64 (hd - d))))))"

text \<open>The three overloads of \<^verbatim>\<open>GetNextASERTWorkRequired\<close>: single lane, header state, index entry.\<close>

definition GetNextASERTWorkRequired_single :: "CBlockIndex \<Rightarrow> Params \<Rightarrow> u32 cxx" where
  "GetNextASERTWorkRequired_single prev params =
    (let anchor = cp_asertAnchorParams params in
     bindE (cxx_assert (an_nBits anchor > 0)) (\<lambda>_.
     bindE (cxx_assert (cp_nASERTHalfLife params > 0)) (\<lambda>_.
     if bi_nHeight prev < an_nHeight anchor then Inr (an_nBits anchor)
     else bindE (i64 (bi_GetBlockTime prev - an_nBlockTime anchor)) (\<lambda>nTimeDiff.
       bindE (i32 (bi_nHeight prev - an_nHeight anchor)) (\<lambda>nHeightDiff.
       bindE (CalculateASERT (fst (SetCompact (an_nBits anchor))) (cp_nPowTargetSpacing params) nTimeDiff
                nHeightDiff (UintToArith256 (cp_powLimit params))
                (cp_nASERTHalfLife params)) (\<lambda>t. GetCompact t False))))))"

definition GetNextASERTWorkRequired :: "ASERTHeaderState option \<Rightarrow> bool \<Rightarrow> Params \<Rightarrow> u32 cxx" where
  "GetNextASERTWorkRequired prev next_block_is_auxpow params =
    (let anchor = cp_asertAnchorParams params;
         anchor_bits = GetASERTAnchorBits params next_block_is_auxpow;
         target_spacing = GetCadenceTargetSpacing params next_block_is_auxpow in
     bindE (cxx_assert (anchor_bits > 0)) (\<lambda>_.
     bindE (cxx_assert (target_spacing > 0)) (\<lambda>_.
     bindE (cxx_assert (cp_nASERTHalfLife params > 0)) (\<lambda>_.
     case prev of None \<Rightarrow> Inr anchor_bits
     | Some p \<Rightarrow>
       if as_nHeight p < an_nHeight anchor then Inr anchor_bits
       else bindE (i64 (as_nTime p - an_nBlockTime anchor)) (\<lambda>nTimeDiff.
         bindE (GetASERTHeightDiff p next_block_is_auxpow params) (\<lambda>nHeightDiff.
         bindE (CalculateASERT (fst (SetCompact anchor_bits)) target_spacing nTimeDiff nHeightDiff
                  (UintToArith256 (cp_powLimit params)) (cp_nASERTHalfLife params)) (\<lambda>t.
           GetCompact t False)))))))"

definition GetNextASERTWorkRequired_lane :: "BlockMap \<Rightarrow> bptr option \<Rightarrow> bool \<Rightarrow> Params \<Rightarrow> u32 cxx" where
  "GetNextASERTWorkRequired_lane st prev next_block_is_auxpow params =
    (case prev of None \<Rightarrow> GetNextASERTWorkRequired None next_block_is_auxpow params
     | Some p \<Rightarrow> bindE (deref (st p)) (\<lambda>b.
         GetNextASERTWorkRequired (Some (GetASERTHeaderState b)) next_block_is_auxpow params))"

subsection \<open>The legacy schedule\<close>

text \<open>
  \<^verbatim>\<open>CalculateNextWorkRequiredLegacy\<close>: the observed timespan is clamped to a factor of four either way.
\<close>

definition clamp_timespan :: "int \<Rightarrow> Params \<Rightarrow> int cxx" where
  "clamp_timespan nActualTimespan params =
    bindE (sdivE (cp_nPowTargetTimespan params) 4) (\<lambda>lo.
    let t = (if nActualTimespan < lo then lo else nActualTimespan) in
    bindE (i64 (cp_nPowTargetTimespan params * 4)) (\<lambda>hi.
      Inr (if t > hi then hi else t)))"

definition CalculateNextWorkRequiredLegacy :: "BlockMap \<Rightarrow> bptr \<Rightarrow> int \<Rightarrow> Params \<Rightarrow> u32 cxx" where
  "CalculateNextWorkRequiredLegacy st pindexLast nFirstBlockTime params =
    bindE (deref (st pindexLast)) (\<lambda>b.
    bindE (i64 (bi_GetBlockTime b - nFirstBlockTime)) (\<lambda>actual.
    bindE (clamp_timespan actual params) (\<lambda>nActualTimespan.
    let bnPowLimit = UintToArith256 (cp_powLimit params) in
    bindE (if cp_enforce_BIP94 params then
             bindE (DifficultyAdjustmentInterval params) (\<lambda>interval.
             bindE (GetAncestor st pindexLast (to_int32 (bi_nHeight b - (interval - 1)))) (\<lambda>a.
             bindE (deref (case a of None \<Rightarrow> None | Some p \<Rightarrow> st p)) (\<lambda>f. Inr (bi_nBits f))))
           else Inr (bi_nBits b)) (\<lambda>nBits.
    bindE (CalculateRetargetedTarget (fst (SetCompact nBits)) nActualTimespan (cp_nPowTargetTimespan params) bnPowLimit)
      (\<lambda>bnNew. GetCompact bnNew False)))))"

text \<open>
  The search for the last block that was not mined under the minimum-difficulty rule; the source's
  loop follows \<^verbatim>\<open>pprev\<close>, so the height bounds the number of rounds.
\<close>

fun last_real_bits :: "nat \<Rightarrow> BlockMap \<Rightarrow> int \<Rightarrow> u32 \<Rightarrow> bptr \<Rightarrow> u32 cxx" where
  "last_real_bits 0 st interval limit p = Inl Out_Of_Fuel"
| "last_real_bits (Suc n) st interval limit p =
    bindE (deref (st p)) (\<lambda>b.
      case bi_pprev b of None \<Rightarrow> Inr (bi_nBits b)
      | Some q \<Rightarrow> bindE (smodE (bi_nHeight b) interval) (\<lambda>r.
          if r \<noteq> 0 \<and> bi_nBits b = limit then last_real_bits n st interval limit q
          else Inr (bi_nBits b)))"

definition GetNextWorkRequiredLegacy ::
  "BlockMap \<Rightarrow> bptr \<Rightarrow> 'a CPureBlockHeader_scheme option \<Rightarrow> Params \<Rightarrow> u32 cxx" where
  "GetNextWorkRequiredLegacy st pindexLast pblock params =
    bindE (GetCompact (UintToArith256 (cp_powLimit params)) False) (\<lambda>nProofOfWorkLimit.
    bindE (deref (st pindexLast)) (\<lambda>b.
    bindE (IsCadenceActiveAfter (Some b) params) (\<lambda>cadence_active.
    bindE (DifficultyAdjustmentInterval params) (\<lambda>interval.
    bindE (smodE (bi_nHeight b + 1) interval) (\<lambda>r.
    if r \<noteq> 0 then
      if cp_fPowAllowMinDifficultyBlocks params then
        let next_block_is_auxpow = (cadence_active \<and>
              IsAuxpowVersion (case pblock of Some h \<Rightarrow> hdr_nVersion h | None \<Rightarrow> bi_nVersion b));
            target_spacing = (if cadence_active then GetCadenceTargetSpacing params next_block_is_auxpow
                              else cp_nPowTargetSpacing params) in
        bindE (case pblock of None \<Rightarrow> Inr False
               | Some h \<Rightarrow> bindE (i64 (target_spacing * 2)) (\<lambda>d. bindE (i64 (bi_GetBlockTime b + d)) (\<lambda>t.
                   Inr (uint (hdr_nTime h) > t)))) (\<lambda>late.
        if late then Inr nProofOfWorkLimit
        else last_real_bits (Suc (nat (bi_nHeight b))) st interval nProofOfWorkLimit pindexLast)
      else Inr (bi_nBits b)
    else
      let nHeightFirst = to_int32 (bi_nHeight b - (interval - 1)) in
      bindE (cxx_assert (nHeightFirst \<ge> 0)) (\<lambda>_.
      bindE (GetAncestor st pindexLast nHeightFirst) (\<lambda>a.
      bindE (cxx_assert (a \<noteq> None)) (\<lambda>_.
      bindE (deref (st (the a))) (\<lambda>f.
        CalculateNextWorkRequiredLegacy st pindexLast (bi_GetBlockTime f) params)))))))))"

subsection \<open>The required target of the next block\<close>

definition GetNextWorkRequired ::
  "BlockMap \<Rightarrow> bptr option \<Rightarrow> 'a CPureBlockHeader_scheme option \<Rightarrow> Params \<Rightarrow> u32 cxx" where
  "GetNextWorkRequired st pindexLast pblock params =
    bindE (cxx_assert (pindexLast \<noteq> None)) (\<lambda>_.
    bindE (deref (st (the pindexLast))) (\<lambda>b.
    if cp_fPowNoRetargeting params then Inr (bi_nBits b)
    else bindE (IsCadenceActiveAfter (Some b) params) (\<lambda>cadence_active.
      let next_block_is_auxpow = (cadence_active \<and> GetNextBlockIsAuxpow (Some b) pblock);
          target_spacing = (if cadence_active then GetCadenceTargetSpacing params next_block_is_auxpow
                            else cp_nPowTargetSpacing params) in
      bindE (GetCompact (UintToArith256 (cp_powLimit params)) False) (\<lambda>nProofOfWorkLimit.
      bindE (if cp_fPowUseASERT params \<and> pblock \<noteq> None \<and> cp_fPowAllowMinDifficultyBlocks params
             then bindE (i64 (target_spacing * 2)) (\<lambda>d. bindE (i64 (bi_GetBlockTime b + d)) (\<lambda>t.
                    Inr (uint (hdr_nTime (the pblock)) > t)))
             else Inr False) (\<lambda>late.
      if late then Inr nProofOfWorkLimit
      else if \<not> cp_fPowUseASERT params then GetNextWorkRequiredLegacy st (the pindexLast) pblock params
      else if \<not> cadence_active then GetNextASERTWorkRequired_single b params
      else bindE (GetPreviousBlockForLane st (the pindexLast) next_block_is_auxpow
                    (an_nHeight (cp_asertAnchorParams params))) (\<lambda>pindexPrevSameType.
             GetNextASERTWorkRequired_lane st pindexPrevSameType next_block_is_auxpow params))))))"

subsection \<open>Checking a claimed target\<close>

definition DeriveTarget :: "u32 \<Rightarrow> uint256 \<Rightarrow> arith_uint256 option" where
  "DeriveTarget nBits pow_limit =
    (case SetCompact nBits of (bnTarget, fNegative, fOverflow) \<Rightarrow>
      if fNegative \<or> EqualTo bnTarget 0 \<or> fOverflow \<or> CompareTo bnTarget (UintToArith256 pow_limit) > 0
      then None else Some bnTarget)"

definition CheckProofOfWorkImpl :: "uint256 \<Rightarrow> u32 \<Rightarrow> Params \<Rightarrow> bool" where
  "CheckProofOfWorkImpl hash nBits params =
    (case DeriveTarget nBits (cp_powLimit params) of
       None \<Rightarrow> False
     | Some bnTarget \<Rightarrow> \<not> CompareTo (UintToArith256 hash) bnTarget > 0)"

definition CheckProofOfWork :: "bool \<Rightarrow> uint256 \<Rightarrow> u32 \<Rightarrow> Params \<Rightarrow> bool" where
  "CheckProofOfWork EnableFuzzDeterminism hash nBits params =
    (if EnableFuzzDeterminism then hash ! 31 AND 0x80 = 0
     else CheckProofOfWorkImpl hash nBits params)"

text \<open>
  \<^verbatim>\<open>PermittedDifficultyTransition\<close>, its ASERT branch with both block times known, and its legacy
  branch at a retarget height.
\<close>

definition permitted_asert_exact :: "Params \<Rightarrow> int \<Rightarrow> u32 \<Rightarrow> int \<Rightarrow> int \<Rightarrow> bool cxx" where
  "permitted_asert_exact params height new_nbits old_block_time new_block_time =
    (let prev_height = height - 1 in
     bindE (GetCompact (UintToArith256 (cp_powLimit params)) False) (\<lambda>pow_limit_nbits.
     bindE (if cp_fPowAllowMinDifficultyBlocks params
            then bindE (i64 (cp_nPowTargetSpacing params * 2)) (\<lambda>d. bindE (i64 (old_block_time + d)) (\<lambda>t.
                   Inr (new_block_time > t)))
            else Inr False) (\<lambda>late.
     if late then Inr (new_nbits = pow_limit_nbits)
     else
       let anchor = cp_asertAnchorParams params in
       bindE (if prev_height \<ge> an_nHeight anchor then
                bindE (i64 (old_block_time - an_nBlockTime anchor)) (\<lambda>n_time_diff.
                bindE (i64 (prev_height - an_nHeight anchor)) (\<lambda>n_height_diff.
                bindE (CalculateASERT (fst (SetCompact (an_nBits anchor))) (cp_nPowTargetSpacing params)
                         n_time_diff n_height_diff (UintToArith256 (cp_powLimit params))
                         (cp_nASERTHalfLife params)) (\<lambda>t. GetCompact t False)))
              else Inr (an_nBits anchor)) (\<lambda>expected_nbits.
       Inr (new_nbits = expected_nbits)))))"

definition permitted_retarget :: "Params \<Rightarrow> u32 \<Rightarrow> u32 \<Rightarrow> bool cxx" where
  "permitted_retarget params old_nbits new_nbits =
    bindE (sdivE (cp_nPowTargetTimespan params) 4) (\<lambda>smallest_timespan.
    bindE (i64 (cp_nPowTargetTimespan params * 4)) (\<lambda>largest_timespan.
    let pow_limit = UintToArith256 (cp_powLimit params);
        observed_new_target = fst (SetCompact new_nbits);
        old_target = fst (SetCompact old_nbits) in
    bindE (CalculateRetargetedTarget old_target largest_timespan (cp_nPowTargetTimespan params) pow_limit) (\<lambda>largest.
    bindE (GetCompact largest False) (\<lambda>c.
    if CompareTo (fst (SetCompact c)) observed_new_target < 0 then Inr False
    else bindE (CalculateRetargetedTarget old_target smallest_timespan (cp_nPowTargetTimespan params) pow_limit) (\<lambda>smallest.
      bindE (GetCompact smallest False) (\<lambda>c'.
      Inr (\<not> CompareTo (fst (SetCompact c')) observed_new_target > 0)))))))"

definition PermittedDifficultyTransition ::
  "Params \<Rightarrow> int \<Rightarrow> u32 \<Rightarrow> u32 \<Rightarrow> int option \<Rightarrow> int option \<Rightarrow> bool cxx" where
  "PermittedDifficultyTransition params height old_nbits new_nbits old_block_time new_block_time =
    (if cp_fPowNoRetargeting params then Inr True
     else if cp_fPowUseASERT params then
       let cadence_active = CadenceActiveAtHeight params (to_int32 height) in
       case (DeriveTarget old_nbits (cp_powLimit params), DeriveTarget new_nbits (cp_powLimit params)) of
         (Some old_target, Some new_target) \<Rightarrow>
           (if \<not> cadence_active \<and> old_block_time \<noteq> None \<and> new_block_time \<noteq> None \<and> height > 0
            then permitted_asert_exact params height new_nbits (the old_block_time) (the new_block_time)
            else if cadence_active then Inr True
            else bindE (GetCompact (UintToArith256 (cp_powLimit params)) False) (\<lambda>pow_limit_nbits.
              if cp_fPowAllowMinDifficultyBlocks params \<and> old_nbits = pow_limit_nbits then Inr True
              else Inr (CompareTo new_target (base_uint_shr old_target 1) \<ge> 0)))
       | _ \<Rightarrow> Inr False
     else if cp_fPowAllowMinDifficultyBlocks params then Inr True
     else bindE (DifficultyAdjustmentInterval params) (\<lambda>interval.
       bindE (smodE height interval) (\<lambda>r.
       if r = 0 then permitted_retarget params old_nbits new_nbits
       else Inr (old_nbits = new_nbits))))"

subsection \<open>Retargeting is the rounded-down product, clamped\<close>

lemma nval_of_int:
  "0 \<le> x \<Longrightarrow> x < 2 ^ 64 \<Longrightarrow> nval (base_uint_of_u64 (of_int x)) = nat x"
  by (simp add: nval_base_uint_of_u64 unsigned_of_int take_bit_int_eq_self)

declare WIDTH_8 [simp]

lemma remainder_term_less:
  fixes x a t :: nat
  assumes "0 < t" "0 < a"
  shows "(x mod t) * a div t < a"
  using assms by (simp add: less_mult_imp_div_less mult.commute)

lemma small_product: "(x::nat) < 2 ^ 64 \<Longrightarrow> y < 2 ^ 64 \<Longrightarrow> x * y < 2 ^ 256"
  using mult_strict_mono' [of x "2 ^ 64" y "2 ^ 64"] by simp

text \<open>
  The clamp in three steps of the source: the quotient against the limit, the sum of both terms
  against the limit, the sum itself.
\<close>

lemma clamp_cases:
  fixes q a lim r :: nat
  assumes "0 < a" "r \<le> lim"
  shows "lim div a < q \<Longrightarrow> min lim (q * a + r) = lim"
    and "q \<le> lim div a \<Longrightarrow> q * a \<le> lim"
    and "q \<le> lim div a \<Longrightarrow> lim - r < q * a \<Longrightarrow> min lim (q * a + r) = lim"
    and "\<not> lim - r < q * a \<Longrightarrow> min lim (q * a + r) = q * a + r"
  using assms by (auto simp: div_less_iff_less_mult less_eq_div_iff_mult_less_eq)

lemma CalculateRetargetedTarget_nval:
  assumes len: "length old_target = 8" "length pow_limit = 8"
    and tt: "0 < target_timespan" "target_timespan < 2 ^ 63"
    and at: "0 \<le> actual_timespan" "actual_timespan < 2 ^ 63" "nat actual_timespan \<le> nval pow_limit"
  shows "\<exists>r. CalculateRetargetedTarget old_target actual_timespan target_timespan pow_limit = Inr r \<and> length r = 8 \<and>
    nval r = min (nval pow_limit) (nval old_target * nat actual_timespan div nat target_timespan)"
proof (cases "actual_timespan = 0")
  case True
  then show ?thesis
    by (simp add: CalculateRetargetedTarget_def EqualTo_nval nval_base_uint_of_u64 Let_def)
next
  case False
  define A where "A = base_uint_of_u64 (of_int actual_timespan)"
  define T where "T = base_uint_of_u64 (of_int target_timespan)"
  have A: "length A = 8" "nval A = nat actual_timespan" "0 < nval A" "nval A < 2 ^ 64"
    and T: "length T = 8" "nval T = nat target_timespan" "0 < nval T" "nval T < 2 ^ 64"
    using at tt False by (auto simp: A_def T_def nval_of_int)
  obtain q where q: "base_uint_div old_target T = Inr q" "length q = 8" "nval q = nval old_target div nval T"
    and rem: "length (base_uint_sub old_target (base_uint_mul q T)) = 8"
      "nval (base_uint_sub old_target (base_uint_mul q T)) = nval old_target mod nval T"
    using u256.quot_rem [OF len(1) T(1)] T(3) by auto
  obtain cap where cap: "base_uint_div pow_limit A = Inr cap" "length cap = 8" "nval cap = nval pow_limit div nval A"
    using u256.div_ok [OF len(2) A(1)] A(3) by auto
  define R where "R = base_uint_sub old_target (base_uint_mul q T)"
  have "nval R < 2 ^ 64" using rem(2) T(3,4) mod_less_divisor [OF T(3), of "nval old_target"] by (simp add: R_def)
  then have RA: "length (base_uint_mul R A) = 8" "nval (base_uint_mul R A) = nval R * nval A"
    using u256.times_exact [of R A] rem(1) A(1,4) small_product by (simp_all add: R_def)
  obtain rt where rt: "base_uint_div (base_uint_mul R A) T = Inr rt" "length rt = 8"
      "nval rt = (nval old_target mod nval T) * nval A div nval T"
    using u256.div_ok [OF RA(1) T(1)] T(3) RA(2) rem(2) by (auto simp: R_def)
  have small: "nval rt \<le> nval pow_limit"
    using remainder_term_less [OF T(3) A(3), of "nval old_target"] rt(3) at(3) A(2) by simp
  have split: "nval old_target * nval A div nval T = nval q * nval A + nval rt"
    unfolding q(3) rt(3) by (rule u256.muldiv_split)
  have calc: "CalculateRetargetedTarget old_target actual_timespan target_timespan pow_limit =
    Inr (if nval cap < nval q \<or> nval pow_limit - nval rt < nval (base_uint_mul q A) then pow_limit
         else base_uint_add (base_uint_mul q A) rt)"
    unfolding CalculateRetargetedTarget_def Let_def A_def [symmetric] T_def [symmetric]
    using A(1,3) T(1) q(1,2) cap(1,2) rt(1,2) len u256.minus_exact [OF len(2) rt(2) small]
    by (simp add: EqualTo_nval u256.cmp_gt flip: R_def)
  note clamp = clamp_cases [OF A(3) small, of "nval q"]
  show ?thesis
  proof (cases "nval cap < nval q")
    case True
    then show ?thesis unfolding calc using len(2) clamp(1) cap(3) split A(2) T(2) by simp
  next
    case False
    then have le: "nval q \<le> nval pow_limit div nval A" using cap(3) by simp
    then have qA: "nval (base_uint_mul q A) = nval q * nval A"
      using u256.times_exact [OF q(2) A(1)] clamp(2) nval_less_256 [OF len(2)] by simp
    moreover have "nval (base_uint_add (base_uint_mul q A) rt) = nval q * nval A + nval rt"
      if "\<not> nval pow_limit - nval rt < nval q * nval A"
      using u256.plus_exact [of "base_uint_mul q A" rt] clamp(4) [OF that] qA q(2) rt(2) nval_less_256 [OF len(2)]
      by simp
    ultimately show ?thesis unfolding calc
      using False len(2) q(2) rt(2) clamp(3) [OF le] clamp(4) split A(2) T(2) by auto
  qed
qed

corollary CalculateRetargetedTarget_correct:
  assumes "length old_target = 8" "length pow_limit = 8"
    "0 < target_timespan" "target_timespan < 2 ^ 63" "0 \<le> actual_timespan" "actual_timespan < 2 ^ 63"
    "nat actual_timespan \<le> nval pow_limit"
  shows "CalculateRetargetedTarget old_target actual_timespan target_timespan pow_limit =
    Inr (limbs_of 8 (min (nval pow_limit) (nval old_target * nat actual_timespan div nat target_timespan)))"
  using CalculateRetargetedTarget_nval [OF assms] limbs_of_nval [of _ 8] by metis

subsection \<open>Nine-digit arithmetic\<close>

lemma ucast_shift_or:
  fixes x y :: u32
  shows "(ucast (drop_bit r (ucast x :: u64) OR push_bit k (ucast y)) :: u32) = drop_bit r x OR push_bit k y"
    and "(ucast (push_bit k (ucast x :: u64) OR drop_bit r (ucast y)) :: u32) = push_bit k x OR drop_bit r y"
    and "(ucast (drop_bit r (ucast x :: u64)) :: u32) = drop_bit r x"
    and "(ucast (push_bit k (ucast x :: u64)) :: u32) = push_bit k x"
  by (rule bit_word_eqI, auto simp: bit_simps dest: bit_imp_le_length)+

lemma nth_base_uint_shr: "j < length a \<Longrightarrow> base_uint_shr a s ! j =
   (if j + s div 32 + 1 < length a \<and> s mod 32 \<noteq> 0 then push_bit (32 - s mod 32) (a ! (j + s div 32 + 1)) else 0)
    OR (if j + s div 32 < length a then drop_bit (s mod 32) (a ! (j + s div 32)) else 0)"
  by (simp add: base_uint_shr_def shr_fold_digit)

lemma nth_base_uint_shl: "j < length a \<Longrightarrow> base_uint_shl a s ! j =
   (if s div 32 + 1 \<le> j \<and> s mod 32 \<noteq> 0 then drop_bit (32 - s mod 32) (a ! (j - s div 32 - 1)) else 0)
    OR (if s div 32 \<le> j then push_bit (s mod 32) (a ! (j - s div 32)) else 0)"
  by (auto simp: base_uint_shl_def shl_fold_digit)

lemma ShiftRightWideTarget_shr:
  assumes "length v = 9" "s < 288"
  shows "ShiftRightWideTarget v s = base_uint_shr v s"
  using assms
  by (intro nth_equalityI)
    (auto simp: ShiftRightWideTarget_def WIDE_TARGET_BITS_def WIDE_TARGET_WIDTH_def
      nth_base_uint_shr Let_def ucast_shift_or or.commute)

lemma ShiftLeftWideTarget_shl:
  assumes "length v = 9" "s < 288"
  shows "ShiftLeftWideTarget v s = base_uint_shl v s"
  using assms
  by (intro nth_equalityI)
    (auto simp: ShiftLeftWideTarget_def WIDE_TARGET_BITS_def WIDE_TARGET_WIDTH_def
      nth_base_uint_shl Let_def ucast_shift_or or.commute)

lemma nval_less_wide: "length v = 9 \<Longrightarrow> nval v < 2 ^ 288"
  using nval_less [of v] by simp

lemma nval_ShiftRightWideTarget:
  assumes "length v = 9"
  shows "length (ShiftRightWideTarget v s) = 9" "nval (ShiftRightWideTarget v s) = nval v div 2 ^ s"
proof -
  have "nval v div 2 ^ s = 0" if "\<not> s < 288"
    using nval_less_wide [OF assms] power_increasing [of 288 s "2::nat"] that
    by (intro div_less) (simp del: power_increasing_iff)
  then show "length (ShiftRightWideTarget v s) = 9" "nval (ShiftRightWideTarget v s) = nval v div 2 ^ s"
    using ShiftRightWideTarget_shr [OF assms, of s] assms
    by (cases "s < 288"; simp add: nval_base_uint_shr;
      simp add: ShiftRightWideTarget_def WIDE_TARGET_BITS_def WIDE_TARGET_WIDTH_def)+
qed

lemma nval_ShiftLeftWideTarget:
  assumes "length v = 9"
  shows "length (ShiftLeftWideTarget v s) = 9" "nval (ShiftLeftWideTarget v s) = nval v * 2 ^ s mod 2 ^ 288"
proof -
  have "nval v * 2 ^ s mod 2 ^ 288 = 0" if "\<not> s < 288"
    using that by (intro dvd_imp_mod_0 dvd_mult le_imp_power_dvd) simp
  then show "length (ShiftLeftWideTarget v s) = 9" "nval (ShiftLeftWideTarget v s) = nval v * 2 ^ s mod 2 ^ 288"
    using ShiftLeftWideTarget_shl [OF assms, of s] assms
    by (cases "s < 288"; simp add: nval_base_uint_shl;
      simp add: ShiftLeftWideTarget_def WIDE_TARGET_BITS_def WIDE_TARGET_WIDTH_def)+
qed

lemma WideTargetAnySet_nval: "length v = 9 \<Longrightarrow> WideTargetAnySet v \<longleftrightarrow> nval v \<noteq> 0"
  using nval_inj [of v "replicate 9 0"] by (simp add: WideTargetAnySet_def WIDE_TARGET_WIDTH_def)

lemma shift_back_iff:
  fixes n :: nat
  assumes "s < 288"
  shows "n * 2 ^ s mod 2 ^ 288 div 2 ^ s = n \<longleftrightarrow> n * 2 ^ s < 2 ^ 288"
proof -
  have split: "(2::nat) ^ 288 = 2 ^ (288 - s) * 2 ^ s"
    unfolding power_add [symmetric] using assms by simp
  have "n * 2 ^ s mod 2 ^ 288 div 2 ^ s = n mod 2 ^ (288 - s)"
    unfolding split mult_mod_left [symmetric] by simp
  moreover have "n mod 2 ^ (288 - s) = n \<longleftrightarrow> n < 2 ^ (288 - s)"
    by (metis mod_less mod_less_divisor zero_less_numeral zero_less_power)
  ultimately show ?thesis unfolding split by simp
qed

lemma LeftShiftWideTargetOverflows_iff:
  assumes "length v = 9"
  shows "LeftShiftWideTargetOverflows v (ShiftLeftWideTarget v s) s \<longleftrightarrow> 2 ^ 288 \<le> nval v * 2 ^ s"
proof (cases "s < 288")
  case True
  have "ShiftRightWideTarget (ShiftLeftWideTarget v s) s = v \<longleftrightarrow> nval v * 2 ^ s mod 2 ^ 288 div 2 ^ s = nval v"
    using nval_inj [of "ShiftRightWideTarget (ShiftLeftWideTarget v s) s" v] assms
    by (simp add: nval_ShiftRightWideTarget nval_ShiftLeftWideTarget)
  then show ?thesis using True shift_back_iff [OF True, of "nval v"]
    by (simp add: LeftShiftWideTargetOverflows_def WIDE_TARGET_BITS_def WIDE_TARGET_WIDTH_def not_less)
next
  case False
  then have "(2::nat) ^ 288 \<le> 2 ^ s" by (intro power_increasing) auto
  then have "2 ^ 288 \<le> nval v * 2 ^ s" if "nval v \<noteq> 0"
    using that by (metis One_nat_def Suc_leI le_trans mult_le_mono1 nat_mult_1 neq0_conv)
  then show ?thesis using False assms
    by (cases "nval v = 0")
      (simp_all add: LeftShiftWideTargetOverflows_def WIDE_TARGET_BITS_def WIDE_TARGET_WIDTH_def WideTargetAnySet_nval)
qed

lemma nval_mul_wide_loop:
  "unat c < 2 ^ 32 \<Longrightarrow> length (mul_wide_loop c f ds) = Suc (length ds) \<and>
     nval (mul_wide_loop c f ds) = unat c + nval ds * unat f"
proof (induction ds arbitrary: c)
  case (Cons d ds)
  define n where "n = c + ucast d * ucast f"
  have n: "unat n = unat c + unat d * unat f"
    using unat_mul_step [OF Cons.prems, of 0 d f] by (simp add: n_def)
  have "unat (drop_bit 32 n) < 2 ^ 32" using unat_u64_less [of n] by (simp add: less_mult_imp_div_less)
  note IH = Cons.IH [OF this]
  have "unat n mod 2 ^ 32 + 2 ^ 32 * (unat n div 2 ^ 32) = unat n" by simp
  then show ?case using IH n by (simp add: n_def [symmetric] Let_def algebra_simps)
qed simp

lemma MultiplyToWideTarget_nval:
  assumes "length v = 8"
  shows "length (MultiplyToWideTarget v f) = 9" "nval (MultiplyToWideTarget v f) = nval v * unat f"
proof -
  have "map (\<lambda>i. ReadLE32 (drop (i * 4) (ArithToUint256 v))) [0..<8] = v"
    using UintToArith256_ArithToUint256 [of v] assms unfolding UintToArith256_def WIDTH_8 by blast
  then have "MultiplyToWideTarget v f = mul_wide_loop 0 f v"
    unfolding MultiplyToWideTarget_def Let_def by (rule arg_cong)
  then show "length (MultiplyToWideTarget v f) = 9" "nval (MultiplyToWideTarget v f) = nval v * unat f"
    using nval_mul_wide_loop [of 0 f v] assms by simp_all
qed

lemma wide_top_digit:
  assumes "length v = 9"
  shows "v ! 8 = 0 \<longleftrightarrow> nval v < 2 ^ 256" "v ! 8 = 0 \<Longrightarrow> nval (take 8 v) = nval v"
proof -
  have "nval v = nval (take 8 v) + 2 ^ 256 * unat (v ! 8)"
    using nval_take_Suc [of 8 v] assms by simp
  moreover have "nval (take 8 v) < 2 ^ 256" using nval_less_256 [of "take 8 v"] assms by simp
  moreover have "v ! 8 \<noteq> 0 \<Longrightarrow> 1 \<le> unat (v ! 8)" by (simp add: unat_gt_0 Suc_le_eq)
  moreover have "v ! 8 = 0 \<Longrightarrow> unat (v ! 8) = 0" by simp
  ultimately show "v ! 8 = 0 \<longleftrightarrow> nval v < 2 ^ 256" "v ! 8 = 0 \<Longrightarrow> nval (take 8 v) = nval v"
    by (cases "v ! 8 = 0"; simp)+
qed

lemma WideTargetToArith_take:
  assumes "length v = 9"
  shows "WideTargetToArith v = take 8 v"
proof -
  have "map (\<lambda>i. WriteLE32 (v ! i)) [0..<8] = map WriteLE32 (take 8 v)"
    using assms by (intro nth_equalityI) auto
  then have "WideTargetToArith v = UintToArith256 (ArithToUint256 (take 8 v))"
    unfolding WideTargetToArith_def ArithToUint256_def by (rule arg_cong)
  then show ?thesis using UintToArith256_ArithToUint256 [of "take 8 v"] assms by simp
qed

subsection \<open>ASERT is the exponential formula, rounded down and clamped\<close>

text \<open>
  The formula in exact arithmetic: the cubic approximation \<open>asert_cubic f\<close> of \<open>65536 * (2 powr (f / 65536) - 1)\<close>
  scaled by \<open>2 ^ 48\<close>, and the scaled target \<open>asert_value\<close>.
\<close>

definition asert_cubic :: "nat \<Rightarrow> nat" where
  "asert_cubic f = 195766423245049 * f + 971821376 * f * f + 5127 * f * f * f + 2 ^ 47"

definition asert_scale :: "nat \<Rightarrow> nat" where
  "asert_scale f = 65536 + asert_cubic f div 2 ^ 48"

definition asert_exponent :: "int \<Rightarrow> int \<Rightarrow> int" where
  "asert_exponent drift half_life = (drift * 65536) sdiv half_life"

definition asert_value :: "nat \<Rightarrow> int \<Rightarrow> nat" where
  "asert_value ref e =
    (let num = ref * asert_scale (nat (e mod 65536)); s = e div 65536 - 16 in
     if s \<le> 0 then num div 2 ^ nat (- s) else num * 2 ^ nat s)"

lemma asert_cubic_mono: "f \<le> g \<Longrightarrow> asert_cubic f \<le> asert_cubic g"
  unfolding asert_cubic_def by (intro add_mono mult_mono order_refl) simp_all

lemma asert_cubic_less: "f < 65536 \<Longrightarrow> asert_cubic f < 2 ^ 64"
  using asert_cubic_mono [of f 65535] by (simp add: asert_cubic_def)

lemma asert_scale_mono: "f \<le> g \<Longrightarrow> asert_scale f \<le> asert_scale g"
  by (simp add: asert_scale_def div_le_mono asert_cubic_mono)

lemma asert_scale_bounds: "65536 \<le> asert_scale f" "f < 65536 \<Longrightarrow> asert_scale f < 131072"
  using asert_cubic_less [of f] by (simp_all add: asert_scale_def less_mult_imp_div_less)

lemma unat_asert_poly: "unat (asert_poly frac) = asert_cubic (unat frac)"
proof -
  have "asert_poly frac = of_nat (asert_cubic (unat frac))"
    by (simp add: asert_poly_def asert_cubic_def Let_def push_bit_eq_mult)
  then show ?thesis using asert_cubic_less [of "unat frac"] unat_u16_less [of frac]
    by (simp add: unat_of_nat)
qed

lemma unat_asert_factor: "unat (asert_factor frac) = asert_scale (unat frac)"
proof -
  have d: "unat (drop_bit 48 (asert_poly frac)) = asert_cubic (unat frac) div 2 ^ 48"
    by (subst unat_drop_bit_eq) (simp add: unat_asert_poly drop_bit_eq_div)
  have s: "asert_scale (unat frac) < 131072"
    using asert_scale_bounds(2) [of "unat frac"] unat_u16_less [of frac] by simp
  have "unat (65536 + drop_bit 48 (asert_poly frac)) = asert_scale (unat frac)"
    using s by (subst unat_add64) (simp_all add: d asert_scale_def)
  then show ?thesis using s by (simp add: asert_factor_def)
qed

lemma exponent_parts:
  "drop_bit 16 (e::int) = e div 65536" "uint (of_int e :: u16) = e mod 65536"
  by (simp_all add: drop_bit_eq_div unsigned_of_int take_bit_eq_mod)

lemma unat_frac: "unat (of_int e :: u16) = nat (e mod 65536)"
  by (simp add: unat_eq_nat_uint exponent_parts)

text \<open>The arithmetic between the wide product and the returned target.\<close>

definition asert_clamped :: "nat \<Rightarrow> nat \<Rightarrow> nat" where
  "asert_clamped lim v = max 1 (min lim v)"

definition asert_shifted :: "WideTarget \<Rightarrow> int \<Rightarrow> WideTarget" where
  "asert_shifted w s = (if s \<le> 0 then ShiftRightWideTarget w (nat (- s)) else ShiftLeftWideTarget w (nat s))"

lemma asert_shifted_nval:
  fixes s :: int and w :: WideTarget
  assumes "length w = 9"
  defines "v \<equiv> if s \<le> 0 then nval w div 2 ^ nat (- s) else nval w * 2 ^ nat s"
    and "ovf \<equiv> \<not> s \<le> 0 \<and> LeftShiftWideTargetOverflows w (asert_shifted w s) (nat s)"
  shows "length (asert_shifted w s) = 9" "ovf \<longleftrightarrow> 2 ^ 288 \<le> v" "\<not> ovf \<Longrightarrow> nval (asert_shifted w s) = v"
proof -
  show "length (asert_shifted w s) = 9"
    using assms(1) by (simp add: asert_shifted_def nval_ShiftRightWideTarget nval_ShiftLeftWideTarget)
  have "nval w div 2 ^ nat (- s) < 2 ^ 288"
    using nval_less_wide [OF assms(1)] by (rule le_less_trans [OF div_le_dividend])
  then show iff: "ovf \<longleftrightarrow> 2 ^ 288 \<le> v"
    using LeftShiftWideTargetOverflows_iff [OF assms(1), of "nat s"]
    by (auto simp: ovf_def v_def asert_shifted_def simp del: power_numeral)
  then show "nval (asert_shifted w s) = v" if "\<not> ovf"
    using that assms(1) by (auto simp: v_def asert_shifted_def nval_ShiftRightWideTarget nval_ShiftLeftWideTarget)
qed

lemma asert_finish_nval:
  fixes s :: int and w :: WideTarget
  assumes "length w = 9" "length powLimit = 8" "0 < nval powLimit"
  defines "v \<equiv> if s \<le> 0 then nval w div 2 ^ nat (- s) else nval w * 2 ^ nat s"
  shows "asert_finish w s powLimit = limbs_of 8 (asert_clamped (nval powLimit) v)"
proof -
  define nt where "nt = (if (\<not> s \<le> 0 \<and> LeftShiftWideTargetOverflows w (asert_shifted w s) (nat s)) \<or>
    asert_shifted w s ! 8 \<noteq> 0 then powLimit else WideTargetToArith (asert_shifted w s))"
  note shifted = asert_shifted_nval [OF assms(1), of s, folded v_def]
  have big: "nt = powLimit" if "2 ^ 256 \<le> v"
    using shifted that wide_top_digit(1) [OF shifted(1)] by (auto simp: nt_def not_less)
  have small: "nt = take 8 (asert_shifted w s)" "nval nt = v" if "v < 2 ^ 256"
    using shifted that wide_top_digit [OF shifted(1)] WideTargetToArith_take [OF shifted(1)]
    by (auto simp: nt_def not_less)
  have nt: "length nt = 8" using big small shifted(1) assms(2) by (cases "v < 2 ^ 256") auto
  have nv: "nval nt = (if v < 2 ^ 256 then v else nval powLimit)" using big small by auto
  define r where "r = (if EqualTo nt 0 then base_uint_of_u64 1 else if CompareTo nt powLimit > 0 then powLimit else nt)"
  have r: "r = (if nval nt = 0 then base_uint_of_u64 1 else if nval powLimit < nval nt then powLimit else nt)"
    using nt assms(2) by (simp add: EqualTo_nval u256.cmp_gt r_def)
  have "length r = 8" using nt assms(2) by (simp add: r_def)
  moreover have "nval r = asert_clamped (nval powLimit) v"
    unfolding r asert_clamped_def
    using nv assms(3) nval_less_256 [OF assms(2)] nval_base_uint_of_u64 [of 1]
    by (cases "v < 2 ^ 256") (simp_all add: min_def max_def)
  moreover have "asert_finish w s powLimit = r"
    unfolding asert_finish_def Let_def r_def nt_def asert_shifted_def
    by (cases "s \<le> 0") (simp_all only: if_True if_False simp_thms)
  ultimately show ?thesis using limbs_of_nval [of r 8] by simp
qed

lemma CalculateASERT_correct:
  assumes len: "length refTarget = 8" "length powLimit = 8"
    and ref: "0 < nval refTarget" "nval refTarget \<le> nval powLimit"
    and h: "0 \<le> nHeightDiff" "0 < nHalfLife"
    and range: "i64_range (nPowTargetSpacing * nHeightDiff)"
      "\<bar>nTimeDiff - nPowTargetSpacing * nHeightDiff\<bar> < 2 ^ 47"
  shows "CalculateASERT refTarget nPowTargetSpacing nTimeDiff nHeightDiff powLimit nHalfLife =
    Inr (limbs_of 8 (asert_clamped (nval powLimit)
      (asert_value (nval refTarget) (asert_exponent (nTimeDiff - nPowTargetSpacing * nHeightDiff) nHalfLife))))"
proof -
  define drift where "drift = nTimeDiff - nPowTargetSpacing * nHeightDiff"
  define e where "e = asert_exponent drift nHalfLife"
  define w where "w = MultiplyToWideTarget refTarget (asert_factor (of_int e))"
  have w: "length w = 9" "nval w = nval refTarget * asert_scale (nat (e mod 65536))"
    using MultiplyToWideTarget_nval [OF len(1), of "asert_factor (of_int e)"]
    by (simp_all add: w_def unat_asert_factor unat_frac)
  have guards: "CompareTo refTarget (base_uint_of_u64 0) > 0" "CompareTo refTarget powLimit \<le> 0"
    using len ref by (simp_all add: u256.cmp_gt u256.cmp_le nval_base_uint_of_u64)
  have rng: "i64_range drift" "i64_range \<bar>drift\<bar>" "\<bar>drift\<bar> < 2 ^ 47" "i64_range (drift * 65536)"
    using range(2) by (auto simp: drift_def [symmetric] i64_range_def)
  have e: "(drift * 65536) sdiv nHalfLife = e" by (simp add: e_def asert_exponent_def)
  have "CalculateASERT refTarget nPowTargetSpacing nTimeDiff nHeightDiff powLimit nHalfLife =
      Inr (asert_finish w (e div 65536 - 16) powLimit)"
    using guards h range(1) rng
    by (simp add: CalculateASERT_def drift_def [symmetric] e exponent_parts w_def [symmetric] Let_def)
  also have "asert_finish w (e div 65536 - 16) powLimit =
      limbs_of 8 (asert_clamped (nval powLimit) (asert_value (nval refTarget) e))"
    using asert_finish_nval [OF w(1) len(2), of "e div 65536 - 16"] ref
    by (simp add: asert_value_def w(2) Let_def)
  finally show ?thesis by (simp add: e_def drift_def)
qed

subsection \<open>Later blocks never raise the required work\<close>

lemma asert_value_scaled:
  assumes "0 \<le> K" "- K \<le> e div 65536 - 16"
  shows "asert_value ref e =
    ref * asert_scale (nat (e mod 65536)) * 2 ^ nat (K + (e div 65536 - 16)) div 2 ^ nat K"
proof -
  define s where "s = e div 65536 - 16"
  define n where "n = ref * asert_scale (nat (e mod 65536))"
  show ?thesis
  proof (cases "s \<le> 0")
    case True
    then have "nat K = nat (K + s) + nat (- s)" using assms by (simp add: s_def)
    then have "n * 2 ^ nat (K + s) div 2 ^ nat K = n div 2 ^ nat (- s)"
      by (simp add: power_add div_mult2_eq)
    then show ?thesis using True by (simp add: asert_value_def Let_def n_def s_def)
  next
    case False
    then have "nat (K + s) = nat s + nat K" using assms by simp
    then have "n * 2 ^ nat (K + s) div 2 ^ nat K = n * 2 ^ nat s"
      by (simp add: power_add)
    then show ?thesis using False by (simp add: asert_value_def Let_def n_def s_def)
  qed
qed

lemma asert_value_mono:
  assumes "e \<le> e'"
  shows "asert_value ref e \<le> asert_value ref e'"
proof -
  define s s' where "s = e div 65536 - 16" and "s' = e' div 65536 - 16"
  define f f' where "f = asert_scale (nat (e mod 65536))" and "f' = asert_scale (nat (e' mod 65536))"
  define K where "K = max 0 (max (- s) (- s'))"
  have ss: "s \<le> s'" using assms by (simp add: s_def s'_def zdiv_mono1)
  have K: "0 \<le> K" "- K \<le> s" "- K \<le> s'" by (auto simp: K_def)
  have "f * 2 ^ nat (K + s) \<le> f' * 2 ^ nat (K + s')"
  proof (cases "s = s'")
    case True
    then have "e mod 65536 \<le> e' mod 65536"
      using assms unfolding s_def s'_def by (smt (verit) mult_div_mod_eq)
    then show ?thesis using True asert_scale_mono by (simp add: f_def f'_def nat_mono)
  next
    case False
    define d where "d = nat (s' - s) - 1"
    have d: "nat (K + s') = nat (K + s) + Suc d" using False ss K unfolding d_def by simp
    have "nat (e mod 65536) < 65536" by (simp add: nat_less_iff)
    then have "f \<le> 2 * f'" using asert_scale_bounds(1) [of "nat (e' mod 65536)"]
        asert_scale_bounds(2) [of "nat (e mod 65536)"] by (simp add: f_def f'_def)
    then have "f * 2 ^ nat (K + s) \<le> (2 * f') * 2 ^ nat (K + s)" by (rule mult_le_mono1)
    also have "\<dots> \<le> (2 * f') * 2 ^ nat (K + s) * 2 ^ d" by simp
    finally show ?thesis by (simp add: d power_add algebra_simps)
  qed
  then have "ref * f * 2 ^ nat (K + s) \<le> ref * f' * 2 ^ nat (K + s')" by (simp add: mult.assoc)
  then show ?thesis
    using K asert_value_scaled [of K e ref] asert_value_scaled [of K e' ref]
    by (simp add: s_def s'_def f_def f'_def div_le_mono)
qed

lemma sdiv_mono_int:
  fixes a b k :: int
  assumes "a \<le> b" "0 < k"
  shows "a sdiv k \<le> b sdiv k"
proof -
  have "(- b) div k \<le> (- a) div k" using assms by (simp add: zdiv_mono1)
  moreover have "0 \<le> (- a) div k" if "a < 0" using that assms(2) by (simp add: pos_imp_zdiv_nonneg_iff)
  moreover have "0 \<le> b div k" if "0 \<le> b" using that assms(2) by (simp add: pos_imp_zdiv_nonneg_iff)
  ultimately show ?thesis using assms zdiv_mono1 [of a b k]
    by (auto simp: signed_divide_int_def sgn_if)
qed

lemma asert_exponent_mono: "d \<le> d' \<Longrightarrow> 0 < hl \<Longrightarrow> asert_exponent d hl \<le> asert_exponent d' hl"
  by (simp add: asert_exponent_def sdiv_mono_int)

lemma asert_half_lives:
  assumes "0 < hl"
  shows "asert_exponent (k * hl) hl = k * 65536"
  using assms by (auto simp: asert_exponent_def signed_divide_int_def sgn_mult abs_mult sgn_if zero_less_mult_iff)

lemma asert_scale_0: "asert_scale 0 = 2 ^ 16"
  by (simp add: asert_scale_def asert_cubic_def)

lemma asert_value_half_lives:
  "asert_value ref (int n * 65536) = ref * 2 ^ n" "asert_value ref (- int n * 65536) = ref div 2 ^ n"
proof -
  show "asert_value ref (int n * 65536) = ref * 2 ^ n"
    using asert_value_scaled [of 16 "int n * 65536" ref] by (simp add: asert_scale_0)
  have "nat (16 + int n) = 16 + n" by simp
  then show "asert_value ref (- int n * 65536) = ref div 2 ^ n"
    using asert_value_scaled [of "16 + int n" "- int n * 65536" ref]
    by (simp add: asert_scale_0 power_add div_mult2_eq)
qed

subsection \<open>Accepted targets\<close>

lemma length_UintToArith256 [simp]: "length (UintToArith256 bs) = 8"
  by (simp add: UintToArith256_def)

lemma negative_iff: "0 < compact_value c \<Longrightarrow>
   compact_decode (min 3 (unat c div 2 ^ 24)) (unat c mod 2 ^ 23) \<noteq> 0"
  by (cases "unat c div 2 ^ 24 \<le> 3") (auto simp: compact_value_def compact_decode_def min_def)

lemma DeriveTarget_spec:
  assumes "length pow_limit = 32"
  shows "DeriveTarget nBits pow_limit =
    (if 0 < compact_value nBits \<and> \<not> bit nBits 23 \<and> compact_value nBits \<le> bval pow_limit
     then Some (limbs_of 8 (compact_value nBits)) else None)"
proof -
  obtain v neg ovf where c: "SetCompact nBits = (v, neg, ovf)" by (cases "SetCompact nBits") auto
  note v = SetCompact_nval [OF c]
  have lim: "length (UintToArith256 pow_limit) = 8" "nval (UintToArith256 pow_limit) = bval pow_limit"
    using assms by (simp_all add: nval_UintToArith256)
  have small: "bval pow_limit < 2 ^ 256" using bval_less [of pow_limit] assms by simp
  have "DeriveTarget nBits pow_limit = (if neg \<or> nval v = 0 \<or> ovf \<or> bval pow_limit < nval v then None else Some v)"
    using v(1) lim by (simp add: DeriveTarget_def c EqualTo_nval u256.cmp_gt)
  moreover have "compact_value nBits < 2 ^ 256 \<Longrightarrow> limbs_of 8 (compact_value nBits) = v"
    using v(1,2) limbs_of_nval [of v 8] by simp
  ultimately show ?thesis
    using v negative_iff [of nBits] small by (cases "compact_value nBits < 2 ^ 256") (auto simp: not_less)
qed

lemma CheckProofOfWorkImpl_spec:
  assumes "length (cp_powLimit params) = 32" "length hash = 32"
  shows "CheckProofOfWorkImpl hash nBits params \<longleftrightarrow>
    \<not> bit nBits 23 \<and> 0 < compact_value nBits \<and> compact_value nBits \<le> bval (cp_powLimit params) \<and>
    bval hash \<le> compact_value nBits"
proof -
  have "bval (cp_powLimit params) < 2 ^ 256" using bval_less [of "cp_powLimit params"] assms(1) by simp
  then have "compact_value nBits \<le> bval (cp_powLimit params) \<Longrightarrow> nval (limbs_of 8 (compact_value nBits)) = compact_value nBits"
    by (simp add: nval_limbs_of)
  moreover have "length (UintToArith256 hash) = 8" "nval (UintToArith256 hash) = bval hash"
    using assms(2) by (simp_all add: nval_UintToArith256)
  ultimately show ?thesis
    using assms(1) by (simp add: CheckProofOfWorkImpl_def DeriveTarget_spec u256.cmp_gt) auto
qed

lemma DeriveTarget_GetCompact:
  assumes "length t = 8" "0 < nval t" "nval t \<le> bval pow_limit" "length pow_limit = 32"
    and c: "GetCompact t False = Inr c"
  shows "\<exists>v. DeriveTarget c pow_limit = Some v \<and> nval v \<le> nval t \<and> nval t < nval v + 256 ^ (enc_size (nval t) - 3)
    \<and> GetCompact v False = Inr c"
proof -
  obtain v neg ovf where s: "SetCompact c = (v, neg, ovf)" by (cases "SetCompact c") auto
  note b = SetCompact_GetCompact_bounds [OF assms(1) c s]
  have lim: "length (UintToArith256 pow_limit) = 8" "nval (UintToArith256 pow_limit) = bval pow_limit"
    using assms by (simp_all add: nval_UintToArith256)
  have "DeriveTarget c pow_limit = Some v"
    using b assms(2,3) lim by (simp add: DeriveTarget_def s EqualTo_nval u256.cmp_gt)
  then show ?thesis using b GetCompact_stable [OF assms(1) c s] by auto
qed

subsection \<open>The required target of the next block exists and is accepted\<close>

text \<open>
  Consistent ASERT parameters: every anchor target decodes to a positive target within the limit,
  spacings are positive and below nine hours, the anchor time is a block time. The bound on the
  spacings keeps the drift of a chain with 32-bit heights and times below \<open>2 ^ 47\<close> seconds.
\<close>

definition bits_ok :: "uint256 \<Rightarrow> u32 \<Rightarrow> bool" where
  "bits_ok pow_limit bits \<longleftrightarrow>
    0 < compact_value bits \<and> \<not> bit bits 23 \<and> compact_value bits \<le> bval pow_limit"

definition asert_params_ok :: "Params \<Rightarrow> bool" where
  "asert_params_ok params \<longleftrightarrow>
    (let a = cp_asertAnchorParams params; ok = bits_ok (cp_powLimit params) in
     length (cp_powLimit params) = 32 \<and> ok (an_nBits a) \<and>
     (an_nBitsLegacy a \<noteq> 0 \<longrightarrow> ok (an_nBitsLegacy a)) \<and> (an_nBitsAuxPow a \<noteq> 0 \<longrightarrow> ok (an_nBitsAuxPow a)) \<and>
     0 \<le> an_nHeight a \<and> 0 \<le> an_nBlockTime a \<and> an_nBlockTime a < 2 ^ 32 \<and>
     0 < cp_nPowTargetSpacing params \<and> cp_nPowTargetSpacing params \<le> 2 ^ 15 \<and>
     cp_nPowTargetSpacingLegacy params \<le> 2 ^ 15 \<and> cp_nPowTargetSpacingAuxPow params \<le> 2 ^ 15 \<and>
     0 < cp_nASERTHalfLife params)"

lemma bits_ok_nonzero: "bits_ok pl b \<Longrightarrow> 0 < b"
  by (auto simp: bits_ok_def compact_value_def compact_decode_def word_neq_0_conv [symmetric])

lemma bits_ok_target:
  assumes "bits_ok pl b" "length pl = 32"
  shows "length (fst (SetCompact b)) = 8" "nval (fst (SetCompact b)) = compact_value b"
proof -
  obtain v neg ovf where c: "SetCompact b = (v, neg, ovf)" by (cases "SetCompact b") auto
  have "compact_value b < 2 ^ 256"
    using bval_less [of pl] assms by (auto simp: bits_ok_def intro: le_less_trans)
  then show "length (fst (SetCompact b)) = 8" "nval (fst (SetCompact b)) = compact_value b"
    using SetCompact_nval(1,2) [OF c] c by simp_all
qed

lemma bits_ok_DeriveTarget: "bits_ok pl b \<Longrightarrow> length pl = 32 \<Longrightarrow> DeriveTarget b pl = Some (limbs_of 8 (compact_value b))"
  by (simp add: bits_ok_def DeriveTarget_spec)

lemma DeriveTarget_bits_ok: "DeriveTarget b pl = Some v \<Longrightarrow> length pl = 32 \<Longrightarrow> bits_ok pl b"
  by (simp add: bits_ok_def DeriveTarget_spec split: if_splits)

lemma GetCompact_bits_ok:
  assumes "0 < n" "n \<le> bval pl" "length pl = 32"
  obtains c where "GetCompact (limbs_of 8 n) False = Inr c" "bits_ok pl c"
proof -
  have n: "nval (limbs_of 8 n) = n"
    using bval_less [of pl] assms by (simp add: nval_limbs_of)
  obtain c where c: "GetCompact (limbs_of 8 n) False = Inr c"
    using GetCompact_nval [of "limbs_of 8 n"] by auto
  show thesis
    using that [OF c] DeriveTarget_GetCompact [OF _ _ _ assms(3) c] n assms DeriveTarget_bits_ok by auto
qed

lemma pow_limit_compact:
  assumes "length pl = 32" "0 < bval pl"
  obtains c where "GetCompact (UintToArith256 pl) False = Inr c" "bits_ok pl c"
  using GetCompact_bits_ok [of "bval pl" pl] assms nval_UintToArith256 [of pl]
    limbs_of_nval [of "UintToArith256 pl" 8] by auto

lemma asert_params_okD:
  assumes "asert_params_ok params"
  shows "length (cp_powLimit params) = 32" "0 < bval (cp_powLimit params)"
    "bits_ok (cp_powLimit params) (GetASERTAnchorBits params aux)"
    "bits_ok (cp_powLimit params) (an_nBits (cp_asertAnchorParams params))"
    "0 < GetCadenceTargetSpacing params aux" "GetCadenceTargetSpacing params aux \<le> 2 ^ 15"
    "0 < cp_nPowTargetSpacing params" "cp_nPowTargetSpacing params \<le> 2 ^ 15" "0 < cp_nASERTHalfLife params"
    "0 \<le> an_nHeight (cp_asertAnchorParams params)"
    "0 \<le> an_nBlockTime (cp_asertAnchorParams params)" "an_nBlockTime (cp_asertAnchorParams params) < 2 ^ 32"
  using assms by (auto simp: asert_params_ok_def Let_def GetASERTAnchorBits_def GetCadenceTargetSpacing_def bits_ok_def)

text \<open>The target ASERT requires after a given time and height difference, in exact arithmetic.\<close>

definition asert_target :: "Params \<Rightarrow> u32 \<Rightarrow> int \<Rightarrow> int \<Rightarrow> int \<Rightarrow> nat" where
  "asert_target params bits spacing time_diff height_diff =
    asert_clamped (bval (cp_powLimit params))
      (asert_value (compact_value bits)
        (asert_exponent (time_diff - spacing * height_diff) (cp_nASERTHalfLife params)))"

lemma asert_target_bounds:
  "0 < bval (cp_powLimit params) \<Longrightarrow> 0 < asert_target params bits sp t h \<and> asert_target params bits sp t h \<le> bval (cp_powLimit params)"
  by (auto simp: asert_target_def asert_clamped_def)

lemma CalculateASERT_params:
  assumes ok: "asert_params_ok params" "bits_ok (cp_powLimit params) bits"
    and sp: "0 < sp" "sp \<le> 2 ^ 15" and h: "0 \<le> h" "h < 2 ^ 31" and t: "\<bar>t\<bar> < 2 ^ 33"
  shows "CalculateASERT (fst (SetCompact bits)) sp t h (UintToArith256 (cp_powLimit params)) (cp_nASERTHalfLife params) =
    Inr (limbs_of 8 (asert_target params bits sp t h))"
proof -
  note p = asert_params_okD [OF ok(1)]
  have "0 \<le> sp * h" "sp * h \<le> 2 ^ 15 * 2 ^ 31" using sp h mult_mono [of sp "2 ^ 15" h "2 ^ 31"] by simp_all
  then have "i64_range (sp * h)" "\<bar>t - sp * h\<bar> < 2 ^ 47" using t by (auto simp: i64_range_def)
  then show ?thesis
    using CalculateASERT_correct [of "fst (SetCompact bits)" "UintToArith256 (cp_powLimit params)" h
        "cp_nASERTHalfLife params" sp t] bits_ok_target [OF ok(2) p(1)] ok(2) h p
    by (simp add: bits_ok_def nval_UintToArith256 asert_target_def)
qed

text \<open>
  The number of merge-mined blocks between an entry and one of its ancestors lies between zero and
  their distance, so the lane heights below never go negative.
\<close>

lemma aux_count_bound:
  assumes wf: "wf_index st"
  shows "st p = Some b \<Longrightarrow> bi_nHeight b < 2 ^ 31 \<Longrightarrow> unat (bi_nAuxPow b) \<le> nat (bi_nHeight b) + 1"
proof (induction "nat (bi_nHeight b)" arbitrary: p b rule: less_induct)
  case less
  show ?case
  proof (cases "bi_pprev b")
    case None
    then show ?thesis using wf_indexD [OF wf less.prems(1)] by (auto simp: wf_entry_def)
  next
    case (Some q)
    with wf less.prems(1) obtain c where c: "st q = Some c" "0 \<le> bi_nHeight c" "bi_nHeight b = bi_nHeight c + 1"
      "bi_nAuxPow b = bi_nAuxPow c + (if bi_SignalsAuxpow b then 1 else 0)" by (auto elim: wf_prev)
    have "unat (bi_nAuxPow c) \<le> nat (bi_nHeight c) + 1" using less.hyps [OF _ c(1)] c less.prems(2) by simp
    then show ?thesis using c less.prems(2) unat_add64 [of "bi_nAuxPow c" 1] by auto
  qed
qed

lemma aux_count_between:
  assumes wf: "wf_index st"
  shows "walk st n p = Some a \<Longrightarrow> st p = Some b \<Longrightarrow> st a = Some c \<Longrightarrow> bi_nHeight b < 2 ^ 31 \<Longrightarrow>
    unat (bi_nAuxPow c) \<le> unat (bi_nAuxPow b) \<and> unat (bi_nAuxPow b) \<le> unat (bi_nAuxPow c) + n"
proof (induction n arbitrary: p b)
  case (Suc n)
  then obtain q where q: "bi_pprev b = Some q" "walk st n q = Some a"
    by (auto simp: bprev_def split: option.splits)
  with wf Suc.prems(2) obtain d where d: "st q = Some d" "0 \<le> bi_nHeight d" "bi_nHeight b = bi_nHeight d + 1"
    "bi_nAuxPow b = bi_nAuxPow d + (if bi_SignalsAuxpow b then 1 else 0)" by (auto elim: wf_prev)
  have "unat (bi_nAuxPow d) \<le> nat (bi_nHeight d) + 1" "bi_nHeight d < 2 ^ 31"
    using aux_count_bound [OF wf d(1)] d Suc.prems(4) by auto
  then show ?case
    using Suc.IH [OF q(2) d(1) Suc.prems(3)] d(4) unat_add64 [of "bi_nAuxPow d" 1] by auto
qed auto

text \<open>The anchor's count of merge-mined blocks is the one of the ancestor at the anchor height.\<close>

definition anchored :: "BlockMap \<Rightarrow> Params \<Rightarrow> bool" where
  "anchored st params \<longleftrightarrow> (\<forall>a c. st a = Some c \<longrightarrow> bi_nHeight c = an_nHeight (cp_asertAnchorParams params) \<longrightarrow>
     bi_nAuxPow c = an_nAuxPow (cp_asertAnchorParams params))"

lemma GetASERTHeightDiff_ok:
  assumes wf: "wf_index st" and b: "st p = Some b" "bi_nHeight b < 2 ^ 31" and anch: "anchored st params"
    and h: "0 \<le> an_nHeight (cp_asertAnchorParams params)" "an_nHeight (cp_asertAnchorParams params) \<le> bi_nHeight b"
  obtains d where "GetASERTHeightDiff (GetASERTHeaderState b) aux params = Inr d" "0 \<le> d" "d < 2 ^ 31"
proof -
  define A where "A = cp_asertAnchorParams params"
  define n where "n = nat (bi_nHeight b - an_nHeight A)"
  obtain a c where a: "walk st n p = Some a" "st a = Some c" "bi_nHeight c = an_nHeight A"
    using walk_total [OF wf b(1), of n] h by (auto simp: n_def A_def)
  have cnt: "bi_nAuxPow c = an_nAuxPow A" using anch a(2,3) by (auto simp: anchored_def A_def)
  note bet = aux_count_between [OF wf a(1) b(1) a(2) b(2), unfolded cnt]
  have n: "int n = bi_nHeight b - an_nHeight A" "n < 2 ^ 31" using h b(2) by (auto simp: n_def A_def)
  have le: "an_nAuxPow A \<le> bi_nAuxPow b" using bet by (simp add: word_le_nat_alt)
  have d: "uint (bi_nAuxPow b - an_nAuxPow A) = int (unat (bi_nAuxPow b) - unat (an_nAuxPow A))"
    using arg_cong [OF unat_sub [OF le], of int] by simp
  define u where "u = uint (bi_nAuxPow b - an_nAuxPow A)"
  have u: "0 \<le> u" "u \<le> int n" unfolding u_def by simp (unfold d of_nat_le_iff, use bet in linarith)
  then have "i64_range (bi_nHeight b - an_nHeight A)" "i64_range (bi_nHeight b - an_nHeight A - u)" "u \<le> 2 ^ 63 - 1"
    using n h b(2) by (auto simp: i64_range_def A_def)
  then have "GetASERTHeightDiff (GetASERTHeaderState b) aux params = Inr (if aux then u else int n - u)"
    using le h n(1) by (simp add: GetASERTHeightDiff_def GetASERTHeaderState_def Let_def flip: A_def u_def)
  then show thesis using that u n(2) by (cases aux) auto
qed

lemma block_time_bounds: "0 \<le> bi_GetBlockTime b" "bi_GetBlockTime b < 2 ^ 32"
  using uint_bounded [of "bi_nTime b"] by (simp_all add: bi_GetBlockTime_def)

lemma asert_lane_required:
  assumes wf: "wf_index st" and ok: "asert_params_ok params" and anch: "anchored st params"
    and prev: "\<And>p. prev = Some p \<Longrightarrow> \<exists>b. st p = Some b \<and> bi_nHeight b < 2 ^ 31"
  obtains c where "GetNextASERTWorkRequired_lane st prev aux params = Inr c" "bits_ok (cp_powLimit params) c"
proof -
  note p = asert_params_okD(1,2) [OF ok] asert_params_okD(3) [OF ok, of aux] asert_params_okD(4) [OF ok]
    asert_params_okD(5,6) [OF ok, of aux] asert_params_okD(7-12) [OF ok]
  have pos: "0 < GetASERTAnchorBits params aux" using bits_ok_nonzero [OF p(3)] .
  note start = GetNextASERTWorkRequired_lane_def GetNextASERTWorkRequired_def Let_def
  consider "prev = None" | q b where "prev = Some q" "st q = Some b" "bi_nHeight b < 2 ^ 31"
    using prev by (cases prev) auto
  then show thesis
  proof cases
    case 1
    then show thesis using that [OF _ p(3)] pos p(5,9) by (simp add: start)
  next
    case (2 q b)
    show thesis
    proof (cases "bi_nHeight b < an_nHeight (cp_asertAnchorParams params)")
      case True
      then show thesis using that [OF _ p(3)] pos p(5,9) 2 by (simp add: start GetASERTHeaderState_def)
    next
      case False
      obtain d where d: "GetASERTHeightDiff (GetASERTHeaderState b) aux params = Inr d" "0 \<le> d" "d < 2 ^ 31"
        using GetASERTHeightDiff_ok [OF wf 2(2,3) anch p(10), of aux] False by auto
      define t where "t = bi_GetBlockTime b - an_nBlockTime (cp_asertAnchorParams params)"
      have t: "\<bar>t\<bar> < 2 ^ 33" "i64_range t"
        using block_time_bounds [of b] p(11,12) by (auto simp: t_def i64_range_def)
      obtain c where c: "GetCompact (limbs_of 8 (asert_target params (GetASERTAnchorBits params aux)
          (GetCadenceTargetSpacing params aux) t d)) False = Inr c" "bits_ok (cp_powLimit params) c"
        using GetCompact_bits_ok asert_target_bounds [OF p(2)] p(1) by metis
      have "GetNextASERTWorkRequired_lane st prev aux params = Inr c"
        using False 2 pos p(5,9) d(1) t(2) c(1) CalculateASERT_params [OF ok p(3,5,6) d(2,3) t(1)]
        by (simp add: start GetASERTHeaderState_def flip: t_def)
      then show thesis using that c(2) by blast
    qed
  qed
qed

lemma asert_single_required:
  assumes ok: "asert_params_ok params" and h: "0 \<le> bi_nHeight b" "bi_nHeight b < 2 ^ 31"
  obtains c where "GetNextASERTWorkRequired_single b params = Inr c" "bits_ok (cp_powLimit params) c"
proof -
  note p = asert_params_okD(1,2) [OF ok] asert_params_okD(4) [OF ok] asert_params_okD(7-12) [OF ok]
  have pos: "0 < an_nBits (cp_asertAnchorParams params)" using bits_ok_nonzero [OF p(3)] .
  show thesis
  proof (cases "bi_nHeight b < an_nHeight (cp_asertAnchorParams params)")
    case True
    then show thesis using that [OF _ p(3)] pos p(6) by (simp add: GetNextASERTWorkRequired_single_def Let_def)
  next
    case False
    define t where "t = bi_GetBlockTime b - an_nBlockTime (cp_asertAnchorParams params)"
    define d where "d = bi_nHeight b - an_nHeight (cp_asertAnchorParams params)"
    have t: "\<bar>t\<bar> < 2 ^ 33" "i64_range t"
      using block_time_bounds [of b] p(8,9) by (auto simp: t_def i64_range_def)
    have d: "0 \<le> d" "d < 2 ^ 31" "i32_range d" using False h p(7) by (auto simp: d_def i32_range_def)
    obtain c where c: "GetCompact (limbs_of 8 (asert_target params (an_nBits (cp_asertAnchorParams params))
        (cp_nPowTargetSpacing params) t d)) False = Inr c" "bits_ok (cp_powLimit params) c"
      using GetCompact_bits_ok asert_target_bounds [OF p(2)] p(1) by metis
    have "GetNextASERTWorkRequired_single b params = Inr c"
      using False pos p(6) d(3) t(2) c(1) CalculateASERT_params [OF ok p(3,4,5) d(1,2) t(1)]
      by (simp add: GetNextASERTWorkRequired_single_def Let_def flip: t_def d_def)
    then show thesis using that c(2) by blast
  qed
qed

lemma nearest_lane_height:
  assumes wf: "wf_index st"
  shows "st p = Some b \<Longrightarrow> nearest_lane st l n p = Some q \<Longrightarrow> \<exists>c. st q = Some c \<and> bi_nHeight c < bi_nHeight b"
proof (induction n arbitrary: p b)
  case (Suc n)
  from Suc.prems(2) obtain r where r: "bprev st p = Some r" by (auto split: option.splits)
  then have "bi_pprev b = Some r" using Suc.prems(1) by (simp add: bprev_def)
  with wf Suc.prems(1) obtain c where c: "st r = Some c" "bi_nHeight b = bi_nHeight c + 1" by (auto elim: wf_prev)
  show ?case
  proof (cases "bi_SignalsAuxpow c = l")
    case True
    then show ?thesis using Suc.prems(2) r c by simp
  next
    case False
    then show ?thesis using Suc.IH [OF c(1)] Suc.prems(2) r c by fastforce
  qed
qed simp

lemma lane_spec_height:
  assumes "wf_index st" "st p = Some b" "lane_spec st p aux m = Some q"
  shows "\<exists>c. st q = Some c \<and> bi_nHeight c \<le> bi_nHeight b"
  using assms nearest_lane_height [OF assms(1,2), of aux "nat (bi_nHeight b)" q]
  by (auto simp: lane_spec_def split: if_splits option.splits)

lemma GetNextWorkRequired_accepted:
  assumes wf: "wf_index st" and b: "st p = Some b" "bi_nHeight b < 2 ^ 31 - 1"
    and ok: "asert_params_ok params" and anch: "anchored st params"
    and flags: "cp_fPowUseASERT params" "\<not> cp_fPowNoRetargeting params"
  obtains c where "GetNextWorkRequired st (Some p) pblock params = Inr c" "bits_ok (cp_powLimit params) c"
proof -
  note p = asert_params_okD(1,2) [OF ok] asert_params_okD(7-8) [OF ok] asert_params_okD(5,6) [OF ok]
  note h = wf_height_nonneg [OF wf b(1)]
  define cad where "cad = CadenceActiveAtHeight params (bi_nHeight b + 1)"
  define aux where "aux = (cad \<and> GetNextBlockIsAuxpow (Some b) pblock)"
  define sp where "sp = (if cad then GetCadenceTargetSpacing params aux else cp_nPowTargetSpacing params)"
  obtain l where l: "GetCompact (UintToArith256 (cp_powLimit params)) False = Inr l" "bits_ok (cp_powLimit params) l"
    using pow_limit_compact [OF p(1,2)] .
  have sp: "0 < sp" "sp \<le> 2 ^ 15" using p(3-6) by (simp_all add: sp_def)
  have rng: "i64_range (sp * 2)" "i64_range (bi_GetBlockTime b + sp * 2)" "i32_range (bi_nHeight b + 1)"
    using sp block_time_bounds [of b] h b(2) by (auto simp: i64_range_def i32_range_def)
  obtain s where s: "GetNextASERTWorkRequired_single b params = Inr s" "bits_ok (cp_powLimit params) s"
    using asert_single_required [OF ok h] b(2) by auto
  define q where "q = lane_spec st p aux (an_nHeight (cp_asertAnchorParams params))"
  have "\<exists>c. st r = Some c \<and> bi_nHeight c < 2 ^ 31" if "q = Some r" for r
    using lane_spec_height [OF wf b(1) that [unfolded q_def]] b(2) by fastforce
  then obtain a where a: "GetNextASERTWorkRequired_lane st q aux params = Inr a" "bits_ok (cp_powLimit params) a"
    using asert_lane_required [OF wf ok anch] by metis
  have "GetNextWorkRequired st (Some p) pblock params = Inr
    (if pblock \<noteq> None \<and> cp_fPowAllowMinDifficultyBlocks params \<and> uint (hdr_nTime (the pblock)) > bi_GetBlockTime b + sp * 2
     then l else if \<not> cad then s else a)"
  proof (cases cad)
    case True
    then have "GetCadenceTargetSpacing params aux = sp" "GetNextBlockIsAuxpow (Some b) pblock = aux"
      by (simp_all add: sp_def aux_def)
    then show ?thesis
      using True b(1) flags rng l(1) a(1) GetPreviousBlockForLane_spec [OF wf b(1)]
      by (cases pblock) (simp_all add: GetNextWorkRequired_def IsCadenceActiveAfter_def Let_def flip: cad_def q_def)
  next
    case False
    then have "cp_nPowTargetSpacing params = sp" by (simp add: sp_def)
    then show ?thesis using False b(1) flags rng l(1) s(1)
      by (cases pblock) (simp_all add: GetNextWorkRequired_def IsCadenceActiveAfter_def Let_def flip: cad_def)
  qed
  then show thesis using that l(2) s(2) a(2) by (auto split: if_splits)
qed

text \<open>
  Before the cadence rules, the header-only transition check and the contextual rule agree: with both
  block times known it accepts exactly the required target.
\<close>

lemma to_int32_id: "i32_range x \<Longrightarrow> to_int32 x = x"
  by (simp add: to_int32_def i32_range_def sint_uint signed_take_bit_int_eq_self_iff unsigned_of_int
      signed_take_bit_take_bit)

lemma PermittedDifficultyTransition_exact:
  assumes b: "st p = Some b" "0 \<le> bi_nHeight b" "bi_nHeight b < 2 ^ 31 - 1"
    and ok: "asert_params_ok params"
    and flags: "cp_fPowUseASERT params" "\<not> cp_fPowNoRetargeting params"
      "\<not> CadenceActiveAtHeight params (bi_nHeight b + 1)"
    and bits: "bits_ok (cp_powLimit params) (bi_nBits b)" "bits_ok (cp_powLimit params) new_nbits"
  shows "PermittedDifficultyTransition params (bi_nHeight b + 1) (bi_nBits b) new_nbits
      (Some (bi_GetBlockTime b)) (Some (uint (hdr_nTime blk))) =
    bindE (GetNextWorkRequired st (Some p) (Some blk) params) (\<lambda>c. Inr (new_nbits = c))"
proof -
  note p = asert_params_okD(1,2) [OF ok] asert_params_okD(4) [OF ok] asert_params_okD(7-12) [OF ok]
  have pos: "0 < an_nBits (cp_asertAnchorParams params)" using bits_ok_nonzero [OF p(3)] .
  obtain l where l: "GetCompact (UintToArith256 (cp_powLimit params)) False = Inr l"
    using pow_limit_compact [OF p(1,2)] by blast
  have rng: "i64_range (cp_nPowTargetSpacing params * 2)"
    "i64_range (bi_GetBlockTime b + cp_nPowTargetSpacing params * 2)" "i32_range (bi_nHeight b + 1)"
    using p(4,5) block_time_bounds [of b] b by (auto simp: i64_range_def i32_range_def)
  have "i64_range (bi_nHeight b - an_nHeight (cp_asertAnchorParams params))"
    "i32_range (bi_nHeight b - an_nHeight (cp_asertAnchorParams params))"
    if "an_nHeight (cp_asertAnchorParams params) \<le> bi_nHeight b"
    using that b p(7) by (auto simp: i64_range_def i32_range_def)
  then have "permitted_asert_exact params (bi_nHeight b + 1) new_nbits (bi_GetBlockTime b) (uint (hdr_nTime blk)) =
    bindE (GetNextWorkRequired st (Some p) (Some blk) params) (\<lambda>c. Inr (new_nbits = c))"
    using b(1) flags rng l pos p(6)
    by (simp add: permitted_asert_exact_def GetNextWorkRequired_def IsCadenceActiveAfter_def
      GetNextASERTWorkRequired_single_def Let_def bindE_assoc)
  then show ?thesis
    using flags bits p(1) b(2) rng(3)
    by (simp add: PermittedDifficultyTransition_def to_int32_id bits_ok_DeriveTarget)
qed

subsection \<open>Legacy retargets pass the header-only check\<close>

text \<open>Rounding a target to its compact encoding keeps the order of targets.\<close>

definition compact_round :: "nat \<Rightarrow> nat" where
  "compact_round v = v div 256 ^ (enc_size v - 3) * 256 ^ (enc_size v - 3)"

lemma compact_round_le: "compact_round v \<le> v"
  by (simp add: compact_round_def)

lemma compact_upper: "v < 2 ^ 23 * 256 ^ (enc_size v - 3)"
proof -
  let ?P = "256 ^ (enc_size v - 3) :: nat"
  have "v div ?P * ?P < 2 ^ 23 * ?P"
  proof (cases "enc_size v \<le> 3")
    case True
    then have "v div ?P * ?P = enc_mant v div 256 ^ (3 - enc_size v)"
      using compact_decode_enc [of v] by (simp add: compact_decode_def)
    also have "\<dots> < 2 ^ 23" using enc_mant_less [of v] by (rule le_less_trans [OF div_le_dividend])
    finally show ?thesis using True by simp
  next
    case False
    then show ?thesis using compact_decode_enc [of v] enc_mant_less [of v] by (simp add: compact_decode_def)
  qed
  then have "v div ?P < 2 ^ 23" by simp
  then show ?thesis by (simp add: div_less_iff_less_mult)
qed

lemma compact_lower: "3 < enc_size v \<Longrightarrow> 2 ^ 15 * 256 ^ (enc_size v - 3) \<le> compact_round v"
proof -
  assume big: "3 < enc_size v"
  then have "0 < v" by (cases "v = 0") (auto simp: enc_size_def byte_size_def top_bytes_def)
  then show ?thesis
    using big enc_mant_ge [of v] compact_decode_enc [of v] by (simp add: compact_decode_def compact_round_def)
qed

lemma shifted_bounds:
  assumes "(a::nat) < b"
  shows "(2::nat) ^ 23 * 256 ^ a \<le> 2 ^ 15 * 256 ^ b"
proof -
  have "(256::nat) ^ Suc a \<le> 256 ^ b" using assms by (intro power_increasing) auto
  then show ?thesis by simp
qed

lemma compact_round_mono:
  assumes "v \<le> w"
  shows "compact_round v \<le> compact_round w"
proof -
  let ?e = "\<lambda>x. enc_size x - 3"
  consider "?e v = ?e w" | "?e v < ?e w" | "?e w < ?e v" by linarith
  then show ?thesis
  proof cases
    case 1
    then show ?thesis using assms by (simp add: compact_round_def div_le_mono)
  next
    case 2
    then have "v \<le> compact_round w"
      using compact_upper [of v] shifted_bounds [OF 2] compact_lower [of w] by linarith
    then show ?thesis using compact_round_le [of v] by simp
  next
    case 3
    then have "w < compact_round v"
      using compact_upper [of w] shifted_bounds [OF 3] compact_lower [of v] by linarith
    then show ?thesis using compact_round_le [of v] assms by simp
  qed
qed

lemma GetCompact_round:
  assumes "length a = 8"
  obtains c v where "GetCompact a False = Inr c" "fst (SetCompact c) = v" "length v = 8" "nval v = compact_round (nval a)"
proof -
  obtain c where c: "GetCompact a False = Inr c" using GetCompact_nval [OF assms] by auto
  then show thesis using that SetCompact_GetCompact [OF assms c] by (force simp: compact_round_def)
qed

lemma clamp_timespan_ok:
  assumes "0 < cp_nPowTargetTimespan params" "cp_nPowTargetTimespan params < 2 ^ 60"
  obtains t where "clamp_timespan actual params = Inr t"
    "cp_nPowTargetTimespan params sdiv 4 \<le> t" "t \<le> cp_nPowTargetTimespan params * 4" "0 \<le> t"
proof -
  define T where "T = cp_nPowTargetTimespan params"
  have q: "T sdiv 4 = T div 4" using assms by (simp add: signed_divide_int_def T_def)
  have r: "i64_range (T * 4)" "i64_range (T div 4)" "0 \<le> T div 4" "T div 4 \<le> T * 4"
    using assms by (auto simp: i64_range_def T_def)
  define t where "t = min (max actual (T div 4)) (T * 4)"
  have "clamp_timespan actual params = Inr t"
    using r q by (auto simp: clamp_timespan_def sdivE_def Let_def t_def simp flip: T_def)
  moreover have "T sdiv 4 \<le> t" "t \<le> T * 4" "0 \<le> t" using r by (auto simp: t_def q)
  ultimately show thesis using that by (simp add: T_def)
qed

definition retarget_params_ok :: "Params \<Rightarrow> bool" where
  "retarget_params_ok params \<longleftrightarrow> length (cp_powLimit params) = 32 \<and>
    0 < cp_nPowTargetTimespan params \<and> cp_nPowTargetTimespan params < 2 ^ 60 \<and>
    nat (cp_nPowTargetTimespan params * 4) \<le> bval (cp_powLimit params)"

lemma length_SetCompact [simp]: "length (fst (SetCompact c)) = 8"
  using SetCompact_nval(1) [of c "fst (SetCompact c)" "fst (snd (SetCompact c))" "snd (snd (SetCompact c))"] by simp

lemma retarget_round:
  assumes ok: "retarget_params_ok params" and t: "0 \<le> t" "t \<le> cp_nPowTargetTimespan params * 4"
  obtains r c v where "CalculateRetargetedTarget (fst (SetCompact bits)) t (cp_nPowTargetTimespan params)
        (UintToArith256 (cp_powLimit params)) = Inr r" "GetCompact r False = Inr c" "fst (SetCompact c) = v" "length v = 8"
    "nval v = compact_round (min (bval (cp_powLimit params))
       (nval (fst (SetCompact bits)) * nat t div nat (cp_nPowTargetTimespan params)))"
proof -
  have len: "length (cp_powLimit params) = 32" using ok by (simp add: retarget_params_ok_def)
  have "nat t \<le> bval (cp_powLimit params)" using nat_mono [OF t(2)] ok by (simp add: retarget_params_ok_def)
  then obtain r where r: "CalculateRetargetedTarget (fst (SetCompact bits)) t (cp_nPowTargetTimespan params)
        (UintToArith256 (cp_powLimit params)) = Inr r" "length r = 8"
      "nval r = min (bval (cp_powLimit params)) (nval (fst (SetCompact bits)) * nat t div nat (cp_nPowTargetTimespan params))"
    using CalculateRetargetedTarget_nval [of "fst (SetCompact bits)" "UintToArith256 (cp_powLimit params)"
        "cp_nPowTargetTimespan params" t] ok t nval_UintToArith256 [OF len]
    by (auto simp: retarget_params_ok_def)
  show thesis using GetCompact_round [OF r(2)] that r(1,3) by metis
qed

lemma retarget_permitted:
  assumes ok: "retarget_params_ok params" and b: "st p = Some b" and first: "0 \<le> first" "first < 2 ^ 32"
    and base: "(if cp_enforce_BIP94 params then
        bindE (DifficultyAdjustmentInterval params) (\<lambda>interval.
        bindE (GetAncestor st p (to_int32 (bi_nHeight b - (interval - 1)))) (\<lambda>a.
        bindE (deref (case a of None \<Rightarrow> None | Some p \<Rightarrow> st p)) (\<lambda>f. Inr (bi_nBits f))))
      else Inr (bi_nBits b)) = Inr bits"
  obtains c where "CalculateNextWorkRequiredLegacy st p first params = Inr c" "permitted_retarget params bits c = Inr True"
proof -
  define T where "T = cp_nPowTargetTimespan params"
  have T: "0 < T" "T < 2 ^ 60" using ok by (simp_all add: retarget_params_ok_def T_def)
  have q: "0 \<le> T sdiv 4" "i64_range (T sdiv 4)" "i64_range (T * 4)" "T sdiv 4 \<le> T * 4"
    using T by (auto simp: signed_divide_int_def i64_range_def)
  obtain t where t: "clamp_timespan (bi_GetBlockTime b - first) params = Inr t" "T sdiv 4 \<le> t" "t \<le> T * 4" "0 \<le> t"
    using clamp_timespan_ok [of params "bi_GetBlockTime b - first"] T by (auto simp: T_def)
  note rr = retarget_round [OF ok, folded T_def, of _ bits]
  obtain r c v where r: "CalculateRetargetedTarget (fst (SetCompact bits)) t T (UintToArith256 (cp_powLimit params)) = Inr r"
      "GetCompact r False = Inr c" "fst (SetCompact c) = v" "length v = 8"
      "nval v = compact_round (min (bval (cp_powLimit params)) (nval (fst (SetCompact bits)) * nat t div nat T))"
    using rr [OF t(4,3)] .
  obtain r1 c1 v1 where r1: "CalculateRetargetedTarget (fst (SetCompact bits)) (T * 4) T (UintToArith256 (cp_powLimit params)) = Inr r1"
      "GetCompact r1 False = Inr c1" "fst (SetCompact c1) = v1" "length v1 = 8"
      "nval v1 = compact_round (min (bval (cp_powLimit params)) (nval (fst (SetCompact bits)) * nat (T * 4) div nat T))"
    using rr [of "T * 4"] T by auto
  obtain r2 c2 v2 where r2: "CalculateRetargetedTarget (fst (SetCompact bits)) (T sdiv 4) T (UintToArith256 (cp_powLimit params)) = Inr r2"
      "GetCompact r2 False = Inr c2" "fst (SetCompact c2) = v2" "length v2 = 8"
      "nval v2 = compact_round (min (bval (cp_powLimit params)) (nval (fst (SetCompact bits)) * nat (T sdiv 4) div nat T))"
    using rr [OF q(1,4)] .
  have mono: "compact_round (min L (x * nat a div nat T)) \<le> compact_round (min L (x * nat a' div nat T))" if "a \<le> a'" for a a' x L
    using that by (intro compact_round_mono min.mono order_refl div_le_mono mult_le_mono2 nat_mono)
  have "nval v \<le> nval v1" "nval v2 \<le> nval v"
    using mono [OF t(3)] mono [OF t(2)] r(5) r1(5) r2(5) by simp_all
  then have "permitted_retarget params bits c = Inr True"
    using q r1(1-4) r2(1-4) r(3,4) u256.cmp_ok [of v1 v] u256.cmp_gt [of v2 v]
    by (simp add: permitted_retarget_def sdivE_def Let_def flip: T_def)
  moreover have "i64_range (bi_GetBlockTime b - first)"
    using first block_time_bounds [of b] by (auto simp: i64_range_def)
  then have "CalculateNextWorkRequiredLegacy st p first params = Inr c"
    using b base t(1) r(1,2) by (cases "cp_enforce_BIP94 params") (simp_all add: CalculateNextWorkRequiredLegacy_def Let_def flip: T_def)
  ultimately show thesis using that by blast
qed

text \<open>
  The block a retarget starts from: the last one, or under BIP94 the first one of its period. When a
  whole period lies behind the last block, the legacy rule returns a target.
\<close>

lemma legacy_retarget:
  assumes ok: "retarget_params_ok params" and wf: "wf_index st" and b: "st p = Some b" "bi_nHeight b < 2 ^ 31 - 1"
    and n: "DifficultyAdjustmentInterval params = Inr n" "0 < n" "(bi_nHeight b + 1) mod n = 0"
  obtains q base c where "walk st (if cp_enforce_BIP94 params then nat (n - 1) else 0) p = Some q" "st q = Some base"
    "GetNextWorkRequiredLegacy st p pblock params = Inr c" "permitted_retarget params (bi_nBits base) c = Inr True"
    "smodE (bi_nHeight b + 1) n = Inr 0"
proof -
  have h: "0 \<le> bi_nHeight b" using wf_height_nonneg [OF wf b(1)] .
  have le: "n \<le> bi_nHeight b + 1" using n(2,3) h by (intro zdvd_imp_le) auto
  have i: "to_int32 (bi_nHeight b - (n - 1)) = bi_nHeight b - (n - 1)"
    using le n(2) h b(2) by (intro to_int32_id) (simp add: i32_range_def)
  obtain f c0 where f: "walk st (nat (n - 1)) p = Some f" "st f = Some c0"
    using walk_total [OF wf b(1), of "nat (n - 1)"] le n(2) by auto
  have anc: "GetAncestor st p (bi_nHeight b - (n - 1)) = Inr (Some f)"
    using GetAncestor_walk [OF wf b(1)] f(1) le n(2) by simp
  define q base where "q = (if cp_enforce_BIP94 params then f else p)" and "base = (if cp_enforce_BIP94 params then c0 else b)"
  have bits: "(if cp_enforce_BIP94 params then
        bindE (DifficultyAdjustmentInterval params) (\<lambda>interval.
        bindE (GetAncestor st p (to_int32 (bi_nHeight b - (interval - 1)))) (\<lambda>a.
        bindE (deref (case a of None \<Rightarrow> None | Some p \<Rightarrow> st p)) (\<lambda>f. Inr (bi_nBits f))))
      else Inr (bi_nBits b)) = Inr (bi_nBits base)"
    by (simp add: n(1) i anc f(2) base_def)
  obtain c where c: "CalculateNextWorkRequiredLegacy st p (bi_GetBlockTime c0) params = Inr c"
      "permitted_retarget params (bi_nBits base) c = Inr True"
    using retarget_permitted [OF ok b(1) block_time_bounds bits] .
  obtain l where l: "GetCompact (UintToArith256 (cp_powLimit params)) False = Inr l"
    using GetCompact_round [of "UintToArith256 (cp_powLimit params)"] ok by (auto simp: retarget_params_ok_def)
  have "0 \<le> (bi_nHeight b + 1) div n" "(bi_nHeight b + 1) div n \<le> bi_nHeight b + 1"
    using n(2) h by (simp_all add: pos_imp_zdiv_nonneg_iff int_div_le_self)
  then have m: "smodE (bi_nHeight b + 1) n = Inr 0"
    using n(2,3) h b(2) by (simp add: smodE_def sdivE_def signed_modulo_int_def signed_divide_int_def sgn_if i64_range_def)
  then have "GetNextWorkRequiredLegacy st p pblock params = Inr c"
    using l n(1,2) b h i anc f(2) le c(1)
    by (simp add: GetNextWorkRequiredLegacy_def IsCadenceActiveAfter_def i32_range_def Let_def)
  then show thesis using that [of q base c] f b(1) c(2) m by (simp add: q_def base_def)
qed

text \<open>The search for the last real difficulty ends within the height of the chain.\<close>

lemma last_real_bits_returns:
  assumes wf: "wf_index st" and i: "0 < interval" "interval < 2 ^ 63"
  shows "st p = Some b \<Longrightarrow> bi_nHeight b < 2 ^ 31 \<Longrightarrow> nat (bi_nHeight b) < n \<Longrightarrow>
    \<exists>c. last_real_bits n st interval limit p = Inr c"
proof (induction n arbitrary: p b)
  case (Suc n)
  show ?case
  proof (cases "bi_pprev b")
    case None
    then show ?thesis using Suc.prems by simp
  next
    case (Some q)
    with wf Suc.prems(1) obtain c where c: "st q = Some c" "0 \<le> bi_nHeight c" "bi_nHeight b = bi_nHeight c + 1"
      by (auto elim: wf_prev)
    have "bi_nHeight b sdiv interval = bi_nHeight b div interval"
      using i c by (simp add: signed_divide_int_def)
    moreover have "0 \<le> bi_nHeight b div interval" "bi_nHeight b div interval \<le> bi_nHeight b"
      using i c zdiv_mono2 [of "bi_nHeight b" 1 interval] by (auto simp: pos_imp_zdiv_nonneg_iff)
    ultimately have "smodE (bi_nHeight b) interval = Inr (bi_nHeight b smod interval)"
      using i Suc.prems(2) by (simp add: smodE_def sdivE_def i64_range_def)
    then show ?thesis using Suc.IH [OF c(1)] c Suc.prems Some by simp
  qed
qed simp

end
