(* ===== verification/Chain_Params.thy ===== *)
theory Chain_Params
  imports Pow
begin

text \<open>
  The consensus parameters each network is started with, from the constructors in
  \<^verbatim>\<open>src/src/kernel/chainparams.cpp\<close>, and the money constants of \<^verbatim>\<open>src/src/consensus/amount.h\<close>.
  A constructor asserts the hash of its genesis block against a constant; the constant stands for
  \<^verbatim>\<open>genesis.GetHash()\<close> here. The theory shows that every network that uses ASERT has parameters
  for which the difficulty rules of \<^verbatim>\<open>Pow\<close> are total.
\<close>

definition COIN :: CAmount where "COIN = 100000000"
definition MAX_MONEY :: CAmount where "MAX_MONEY = 210000000 * COIN"

definition MoneyRange :: "CAmount \<Rightarrow> bool" where
  "MoneyRange nValue \<longleftrightarrow> nValue \<ge> 0 \<and> nValue \<le> MAX_MONEY"

text \<open>A hash written as a hexadecimal literal: the first digit is the most significant one.\<close>

definition uint256_of_hex :: "nat \<Rightarrow> uint256" where
  "uint256_of_hex n = le_bytes 32 n"

definition QBIT_PUBLIC_TESTNET_AUXPOW_CHAIN_ID :: int where "QBIT_PUBLIC_TESTNET_AUXPOW_CHAIN_ID = 31430"
definition QBIT_TEST_CHAIN_AUXPOW_CHAIN_ID :: int where
  "QBIT_TEST_CHAIN_AUXPOW_CHAIN_ID = QBIT_PUBLIC_TESTNET_AUXPOW_CHAIN_ID"
definition QBIT_TESTNET4_AUXPOW_DISPLAY_COMMITMENT_HEIGHT :: int where
  "QBIT_TESTNET4_AUXPOW_DISPLAY_COMMITMENT_HEIGHT = 20500"
definition QBIT_MAINNET_AUXPOW_CHAIN_ID :: int where "QBIT_MAINNET_AUXPOW_CHAIN_ID = 47"

definition deployments :: "int \<Rightarrow> u32 \<Rightarrow> u32 \<Rightarrow> DeploymentPos \<Rightarrow> BIP9Deployment" where
  "deployments dummy_start threshold period pos =
    (case pos of
       DEPLOYMENT_TESTDUMMY \<Rightarrow>
         \<lparr>dep_bit = 0, dep_nStartTime = dummy_start, dep_nTimeout = NO_TIMEOUT, dep_min_activation_height = 0,
          dep_period = period, dep_threshold = threshold\<rparr>
     | DEPLOYMENT_TAPROOT \<Rightarrow>
         \<lparr>dep_bit = 2, dep_nStartTime = ALWAYS_ACTIVE, dep_nTimeout = NO_TIMEOUT, dep_min_activation_height = 0,
          dep_period = period, dep_threshold = threshold\<rparr>)"

definition CMainParams :: Params where
  "CMainParams =
    (let genesis = uint256_of_hex 0x0000000000004d60aa5d46013991d0a0e2995d89ee98e53068ae196d763e79f2 in
    \<lparr>cp_hashGenesisBlock = genesis,
     cp_nSubsidyInitial = 210 * COIN, cp_nSubsidyStepInterval = 43200,
     cp_nSubsidyStepdownNumerator = 598, cp_nSubsidyStepdownDenominator = 625,
     cp_script_flag_exceptions = Map.empty,
     cp_BIP34Height = 0, cp_BIP34Hash = genesis, cp_BIP65Height = 0, cp_BIP66Height = 0, cp_CSVHeight = 0,
     cp_SegwitHeight = 0, cp_P2MRHeight = 0, cp_nP2MRValidationWeightV2Height = 0, cp_nFutureBlockTimeV2Height = 0,
     cp_nOuterReservedWitnessHeight = 0, cp_MinBIP9WarningHeight = 0,
     cp_vDeployments = deployments NEVER_ACTIVE 19152 20160,
     cp_powLimit = uint256_of_hex 0x0000ffffffffffffffffffffffffffffffffffffffffffffffffffffffffffff,
     cp_fPowAllowMinDifficultyBlocks = False, cp_enforce_BIP94 = False, cp_fPowNoRetargeting = False,
     cp_fRestrictedOutputMode = True, cp_fPowUseASERT = True,
     cp_nCadenceActivationHeight = 0, cp_nAuxpowDisplayCommitmentHeight = 0,
     cp_nPowTargetSpacing = 60, cp_nPowTargetSpacingLegacy = 75, cp_nPowTargetSpacingAuxPow = 300,
     cp_nPowTargetTimespan = 14 * 24 * 60 * 60, cp_nAuxpowChainId = QBIT_MAINNET_AUXPOW_CHAIN_ID,
     cp_nASERTHalfLife = 2 * 60 * 60, cp_asertAnchorParams = \<lparr>an_nHeight = 0, an_nBits = 0x18109c29, an_nBitsLegacy = 0x18109c29, an_nBitsAuxPow = 0x1801ca70, an_nAuxPow = 0, an_nBlockTime = 1784131083\<rparr>,
     cp_nMinimumChainWork = uint256_null, cp_defaultAssumeValid = uint256_null,
     cp_signet_blocks = False, cp_signet_challenge = []\<rparr>)"

definition CTestNetParams :: Params where
  "CTestNetParams =
    (let genesis = uint256_of_hex 0x0000c20791706c6940a43d75db44d1ae9dadeb637cedfbaa5cf293435eeaab3c in
    \<lparr>cp_hashGenesisBlock = genesis,
     cp_nSubsidyInitial = 210 * COIN, cp_nSubsidyStepInterval = 43200,
     cp_nSubsidyStepdownNumerator = 598, cp_nSubsidyStepdownDenominator = 625,
     cp_script_flag_exceptions = Map.empty,
     cp_BIP34Height = 0, cp_BIP34Hash = genesis, cp_BIP65Height = 0, cp_BIP66Height = 0, cp_CSVHeight = 0,
     cp_SegwitHeight = 0, cp_P2MRHeight = 0, cp_nP2MRValidationWeightV2Height = 0, cp_nFutureBlockTimeV2Height = 0,
     cp_nOuterReservedWitnessHeight = 0, cp_MinBIP9WarningHeight = 0,
     cp_vDeployments = deployments NEVER_ACTIVE 15120 20160,
     cp_powLimit = uint256_of_hex 0x0000ffffffffffffffffffffffffffffffffffffffffffffffffffffffffffff,
     cp_fPowAllowMinDifficultyBlocks = True, cp_enforce_BIP94 = False, cp_fPowNoRetargeting = False,
     cp_fRestrictedOutputMode = True, cp_fPowUseASERT = True,
     cp_nCadenceActivationHeight = 0, cp_nAuxpowDisplayCommitmentHeight = 0,
     cp_nPowTargetSpacing = 60, cp_nPowTargetSpacingLegacy = 75, cp_nPowTargetSpacingAuxPow = 300,
     cp_nPowTargetTimespan = 14 * 24 * 60 * 60, cp_nAuxpowChainId = QBIT_PUBLIC_TESTNET_AUXPOW_CHAIN_ID,
     cp_nASERTHalfLife = 2 * 60 * 60, cp_asertAnchorParams = \<lparr>an_nHeight = 0, an_nBits = 0x1d00ffff, an_nBitsLegacy = 0x1d00ffff, an_nBitsAuxPow = 0x1d00ffff, an_nAuxPow = 0, an_nBlockTime = 1738713601\<rparr>,
     cp_nMinimumChainWork = uint256_null, cp_defaultAssumeValid = uint256_null,
     cp_signet_blocks = False, cp_signet_challenge = []\<rparr>)"

definition CTestNet4Params :: Params where
  "CTestNet4Params =
    (let genesis = uint256_of_hex 0x000000000000796fe86bbc0bf1b66a07e4b4c0676f74b54cf7e5ce8b3f1a0090 in
    \<lparr>cp_hashGenesisBlock = genesis,
     cp_nSubsidyInitial = 210 * COIN, cp_nSubsidyStepInterval = 43200,
     cp_nSubsidyStepdownNumerator = 598, cp_nSubsidyStepdownDenominator = 625,
     cp_script_flag_exceptions = Map.empty,
     cp_BIP34Height = 0, cp_BIP34Hash = genesis, cp_BIP65Height = 0, cp_BIP66Height = 0, cp_CSVHeight = 0,
     cp_SegwitHeight = 0, cp_P2MRHeight = 0, cp_nP2MRValidationWeightV2Height = 60000, cp_nFutureBlockTimeV2Height = 60000,
     cp_nOuterReservedWitnessHeight = 0, cp_MinBIP9WarningHeight = 0,
     cp_vDeployments = deployments NEVER_ACTIVE 15120 20160,
     cp_powLimit = uint256_of_hex 0x0000ffffffffffffffffffffffffffffffffffffffffffffffffffffffffffff,
     cp_fPowAllowMinDifficultyBlocks = False, cp_enforce_BIP94 = True, cp_fPowNoRetargeting = False,
     cp_fRestrictedOutputMode = True, cp_fPowUseASERT = True,
     cp_nCadenceActivationHeight = 0, cp_nAuxpowDisplayCommitmentHeight = QBIT_TESTNET4_AUXPOW_DISPLAY_COMMITMENT_HEIGHT,
     cp_nPowTargetSpacing = 60, cp_nPowTargetSpacingLegacy = 75, cp_nPowTargetSpacingAuxPow = 300,
     cp_nPowTargetTimespan = 14 * 24 * 60 * 60, cp_nAuxpowChainId = QBIT_PUBLIC_TESTNET_AUXPOW_CHAIN_ID,
     cp_nASERTHalfLife = 2 * 60 * 60, cp_asertAnchorParams = \<lparr>an_nHeight = 0, an_nBits = 0x1a7f1ab5, an_nBitsLegacy = 0x1a7f1ab5, an_nBitsAuxPow = 0x1a7f1ab5, an_nAuxPow = 0, an_nBlockTime = 1781704709\<rparr>,
     cp_nMinimumChainWork = uint256_null, cp_defaultAssumeValid = uint256_null,
     cp_signet_blocks = False, cp_signet_challenge = []\<rparr>)"

definition SigNetParams :: "bytes option \<Rightarrow> Params" where
  "SigNetParams challenge =
    (let genesis = uint256_of_hex 0x0000000a5698c727f05cbdaeaff3e48b48ab187aeb03414e783ea81fed14d65c in
    \<lparr>cp_hashGenesisBlock = genesis,
     cp_nSubsidyInitial = 210 * COIN, cp_nSubsidyStepInterval = 43200,
     cp_nSubsidyStepdownNumerator = 598, cp_nSubsidyStepdownDenominator = 625,
     cp_script_flag_exceptions = Map.empty,
     cp_BIP34Height = 0, cp_BIP34Hash = genesis, cp_BIP65Height = 0, cp_BIP66Height = 0, cp_CSVHeight = 0,
     cp_SegwitHeight = 0, cp_P2MRHeight = 0, cp_nP2MRValidationWeightV2Height = 0, cp_nFutureBlockTimeV2Height = 0,
     cp_nOuterReservedWitnessHeight = 0, cp_MinBIP9WarningHeight = 0,
     cp_vDeployments = deployments NEVER_ACTIVE 18144 20160,
     cp_powLimit = uint256_of_hex 0x0000ffffffffffffffffffffffffffffffffffffffffffffffffffffffffffff,
     cp_fPowAllowMinDifficultyBlocks = False, cp_enforce_BIP94 = False, cp_fPowNoRetargeting = False,
     cp_fRestrictedOutputMode = True, cp_fPowUseASERT = True,
     cp_nCadenceActivationHeight = 0, cp_nAuxpowDisplayCommitmentHeight = 0,
     cp_nPowTargetSpacing = 60, cp_nPowTargetSpacingLegacy = 75, cp_nPowTargetSpacingAuxPow = 300,
     cp_nPowTargetTimespan = 14 * 24 * 60 * 60, cp_nAuxpowChainId = QBIT_TEST_CHAIN_AUXPOW_CHAIN_ID,
     cp_nASERTHalfLife = 2 * 60 * 60, cp_asertAnchorParams = \<lparr>an_nHeight = 0, an_nBits = 0x1e00f99b, an_nBitsLegacy = 0x1e00f99b, an_nBitsAuxPow = 0x1b0d1b64, an_nAuxPow = 0, an_nBlockTime = 1775433600\<rparr>,
     cp_nMinimumChainWork = uint256_null, cp_defaultAssumeValid = uint256_null,
     cp_signet_blocks = True, cp_signet_challenge = (case challenge of None \<Rightarrow> [0x51] | Some c \<Rightarrow> c)\<rparr>)"

text \<open>
  The regression-test network takes its activation heights from command-line options.
\<close>

record RegTestOptions =
  rt_version_bits_parameters :: "(DeploymentPos \<times> (int \<times> int \<times> int)) list"
  rt_activation_heights :: "(BuriedDeployment \<times> int) list"
  rt_p2mr_activation_height :: "int option"
  rt_p2mr_validation_weight_v2_height :: "int option"
  rt_future_block_time_v2_height :: "int option"
  rt_outer_witness_activation_height :: "int option"
  rt_cadence_activation_height :: "int option"
  rt_auxpow_display_commitment_height :: "int option"
  rt_enforce_bip94 :: bool
  rt_legacy_retarget :: bool
  rt_asert :: bool
  rt_restricted_output_mode :: bool

definition value_or :: "'a option \<Rightarrow> 'a \<Rightarrow> 'a" where
  "value_or m d = (case m of None \<Rightarrow> d | Some x \<Rightarrow> x)"

fun set_activation_height :: "BuriedDeployment \<times> int \<Rightarrow> Params \<Rightarrow> Params" where
  "set_activation_height (DEPLOYMENT_SEGWIT, h) p = p\<lparr>cp_SegwitHeight := h\<rparr>"
| "set_activation_height (DEPLOYMENT_HEIGHTINCB, h) p = p\<lparr>cp_BIP34Height := h\<rparr>"
| "set_activation_height (DEPLOYMENT_DERSIG, h) p = p\<lparr>cp_BIP66Height := h\<rparr>"
| "set_activation_height (DEPLOYMENT_CLTV, h) p = p\<lparr>cp_BIP65Height := h\<rparr>"
| "set_activation_height (DEPLOYMENT_CSV, h) p = p\<lparr>cp_CSVHeight := h\<rparr>"

fun set_version_bits :: "DeploymentPos \<times> (int \<times> int \<times> int) \<Rightarrow> Params \<Rightarrow> Params" where
  "set_version_bits (pos, (start, timeout, min_height)) p =
    p\<lparr>cp_vDeployments := (cp_vDeployments p)(pos := (cp_vDeployments p pos)
      \<lparr>dep_nStartTime := start, dep_nTimeout := timeout, dep_min_activation_height := min_height\<rparr>)\<rparr>"

definition regtest_base :: "RegTestOptions \<Rightarrow> Params" where
  "regtest_base opts =
    \<lparr>cp_hashGenesisBlock = uint256_of_hex 0x0ee96aa77c4b600850e349344fa21b107e805f5370ddc7a6189db12cf69acce6,
     cp_nSubsidyInitial = 210 * COIN, cp_nSubsidyStepInterval = 150,
     cp_nSubsidyStepdownNumerator = 598, cp_nSubsidyStepdownDenominator = 625,
     cp_script_flag_exceptions = Map.empty,
     cp_BIP34Height = 1, cp_BIP34Hash = uint256_null, cp_BIP65Height = 1, cp_BIP66Height = 1, cp_CSVHeight = 1,
     cp_SegwitHeight = 0, cp_P2MRHeight = value_or (rt_p2mr_activation_height opts) 0, cp_nP2MRValidationWeightV2Height = value_or (rt_p2mr_validation_weight_v2_height opts) 0, cp_nFutureBlockTimeV2Height = value_or (rt_future_block_time_v2_height opts) 0,
     cp_nOuterReservedWitnessHeight = value_or (rt_outer_witness_activation_height opts) (2 ^ 31 - 1), cp_MinBIP9WarningHeight = 0,
     cp_vDeployments = deployments 0 108 144,
     cp_powLimit = uint256_of_hex 0x7fffffffffffffffffffffffffffffffffffffffffffffffffffffffffffffff,
     cp_fPowAllowMinDifficultyBlocks = True, cp_enforce_BIP94 = rt_enforce_bip94 opts, cp_fPowNoRetargeting = (\<not> (rt_asert opts \<or> rt_legacy_retarget opts)),
     cp_fRestrictedOutputMode = rt_restricted_output_mode opts, cp_fPowUseASERT = rt_asert opts,
     cp_nCadenceActivationHeight = value_or (rt_cadence_activation_height opts) 0, cp_nAuxpowDisplayCommitmentHeight = value_or (rt_auxpow_display_commitment_height opts) 0,
     cp_nPowTargetSpacing = 60, cp_nPowTargetSpacingLegacy = 75, cp_nPowTargetSpacingAuxPow = 300,
     cp_nPowTargetTimespan = 24 * 60 * 60, cp_nAuxpowChainId = QBIT_TEST_CHAIN_AUXPOW_CHAIN_ID,
     cp_nASERTHalfLife = 2 * 60 * 60, cp_asertAnchorParams = \<lparr>an_nHeight = 0, an_nBits = 0x207fffff, an_nBitsLegacy = 0x207fffff, an_nBitsAuxPow = 0x207fffff, an_nAuxPow = 0, an_nBlockTime = 1738713602\<rparr>,
     cp_nMinimumChainWork = uint256_null, cp_defaultAssumeValid = uint256_null,
     cp_signet_blocks = False, cp_signet_challenge = []\<rparr>"

definition CRegTestParams :: "RegTestOptions \<Rightarrow> Params" where
  "CRegTestParams opts =
    fold set_version_bits (rt_version_bits_parameters opts)
      (fold set_activation_height (rt_activation_heights opts) (regtest_base opts))"

subsection \<open>Every network's ASERT parameters are consistent\<close>

lemma bval_uint256_of_hex: "bval (uint256_of_hex n) = n mod 2 ^ 256" "length (uint256_of_hex n) = 32"
  by (simp_all add: uint256_of_hex_def bval_le_bytes)

lemmas asert_params_eval = asert_params_ok_def bits_ok_def compact_value_def compact_decode_def bval_uint256_of_hex

lemma main_asert_ok: "asert_params_ok CMainParams"
  by (simp add: asert_params_eval CMainParams_def Let_def)

lemma testnet_asert_ok: "asert_params_ok CTestNetParams"
  by (simp add: asert_params_eval CTestNetParams_def Let_def)

lemma testnet4_asert_ok: "asert_params_ok CTestNet4Params"
  by (simp add: asert_params_eval CTestNet4Params_def Let_def)

lemma signet_asert_ok: "asert_params_ok (SigNetParams challenge)"
  by (simp add: asert_params_eval SigNetParams_def Let_def)

text \<open>The options of the regression-test network do not reach the parameters ASERT reads.\<close>

definition asert_part :: "Params \<Rightarrow> uint256 \<times> int \<times> int \<times> int \<times> int \<times> ASERTAnchor \<times> bool \<times> bool" where
  "asert_part p = (cp_powLimit p, cp_nPowTargetSpacing p, cp_nPowTargetSpacingLegacy p,
     cp_nPowTargetSpacingAuxPow p, cp_nASERTHalfLife p, cp_asertAnchorParams p, cp_fPowUseASERT p, cp_fPowNoRetargeting p)"

lemma asert_part_set: "asert_part (set_activation_height x p) = asert_part p" "asert_part (set_version_bits y p) = asert_part p"
  by (cases "(x, p)" rule: set_activation_height.cases; simp add: asert_part_def)
    (cases "(y, p)" rule: set_version_bits.cases; simp add: asert_part_def)

lemma asert_part_fold: "(\<And>x p. asert_part (f x p) = asert_part p) \<Longrightarrow> asert_part (fold f xs p) = asert_part p"
  by (induction xs arbitrary: p) simp_all

lemma asert_part_ok: "asert_part p = asert_part q \<Longrightarrow> asert_params_ok p = asert_params_ok q"
  by (simp add: asert_part_def asert_params_ok_def)

lemma regtest_asert_part: "asert_part (CRegTestParams opts) = asert_part (regtest_base opts)"
  by (simp add: CRegTestParams_def asert_part_fold asert_part_set)

lemma regtest_asert_ok: "asert_params_ok (CRegTestParams opts)"
proof -
  have "asert_params_ok (regtest_base opts)"
    by (simp add: asert_params_eval regtest_base_def Let_def)
  then show ?thesis using asert_part_ok [OF regtest_asert_part] by blast
qed

end
