(* ===== verification/Merkle.thy ===== *)
theory Merkle
  imports Primitives
begin

text \<open>
  The Merkle tree of \<^verbatim>\<open>src/src/consensus/merkle.cpp\<close> and the branch check of \<^verbatim>\<open>src/src/auxpow.cpp\<close>.
  \<open>H\<close> is the double SHA-256 of \<^verbatim>\<open>Hash\<close> and \<^verbatim>\<open>SHA256D64\<close>. The theory shows that a root whose
  computation reports no mutation determines its leaves, unless two of the hashed strings collide,
  and that the constant-space computation finds the same root as the level-by-level one together
  with a branch that the check folds back to it.
\<close>

unbundle bit_operations_syntax

subsection \<open>Level by level\<close>

definition Hash2 :: "(bytes \<Rightarrow> uint256) \<Rightarrow> uint256 \<Rightarrow> uint256 \<Rightarrow> uint256" where
  "Hash2 H a b = H (a @ b)"

fun level_mutated :: "uint256 list \<Rightarrow> bool" where
  "level_mutated (a # b # hs) \<longleftrightarrow> a = b \<or> level_mutated hs"
| "level_mutated _ \<longleftrightarrow> False"

definition dup_last :: "uint256 list \<Rightarrow> uint256 list" where
  "dup_last hs = (if odd (length hs) then hs @ [last hs] else hs)"

fun SHA256D64 :: "(bytes \<Rightarrow> uint256) \<Rightarrow> uint256 list \<Rightarrow> uint256 list" where
  "SHA256D64 H (a # b # hs) = Hash2 H a b # SHA256D64 H hs"
| "SHA256D64 H _ = []"

definition merkle_level :: "(bytes \<Rightarrow> uint256) \<Rightarrow> uint256 list \<Rightarrow> uint256 list" where
  "merkle_level H hs = SHA256D64 H (dup_last hs)"

lemma length_SHA256D64 [simp]: "length (SHA256D64 H hs) = length hs div 2"
  by (induction H hs rule: SHA256D64.induct) simp_all

lemma length_dup_last [simp]: "length (dup_last hs) = 2 * ((length hs + 1) div 2)"
  by (auto simp: dup_last_def elim: oddE evenE)

lemma length_merkle_level [simp]: "length (merkle_level H hs) = (length hs + 1) div 2"
  by (simp add: merkle_level_def)

function merkle_loop :: "(bytes \<Rightarrow> uint256) \<Rightarrow> uint256 list \<Rightarrow> bool \<Rightarrow> uint256 list \<times> bool" where
  "merkle_loop H hashes mutation =
    (if length hashes > 1 then merkle_loop H (merkle_level H hashes) (mutation \<or> level_mutated hashes)
     else (hashes, mutation))"
  by pat_completeness auto
termination by (relation "measure (\<lambda>(H, hs, m). length hs)") auto

declare merkle_loop.simps [simp del]

definition ComputeMerkleRoot :: "(bytes \<Rightarrow> uint256) \<Rightarrow> uint256 list \<Rightarrow> uint256 \<times> bool" where
  "ComputeMerkleRoot H hashes =
    (case merkle_loop H hashes False of (hs, mutation) \<Rightarrow>
      (case hs of [] \<Rightarrow> uint256_null | h # _ \<Rightarrow> h, mutation))"

definition BlockMerkleRoot :: "(bytes \<Rightarrow> uint256) \<Rightarrow> CBlock \<Rightarrow> uint256 \<times> bool" where
  "BlockMerkleRoot H block = ComputeMerkleRoot H (map (tx_GetHash H) (blk_vtx block))"

text \<open>The witness hash of the coinbase is taken as zero; without a first leaf the write is undefined.\<close>

definition BlockWitnessMerkleRoot :: "(bytes \<Rightarrow> uint256) \<Rightarrow> CBlock \<Rightarrow> (uint256 \<times> bool) cxx" where
  "BlockWitnessMerkleRoot H block =
    (case blk_vtx block of [] \<Rightarrow> Inl Null_Deref
     | _ # txs \<Rightarrow> Inr (ComputeMerkleRoot H (uint256_null # map (tx_GetWitnessHash H) txs)))"

subsection \<open>In constant space\<close>

record merkle_state =
  mk_inner :: "nat \<Rightarrow> uint256"
  mk_matchlevel :: int
  mk_path :: "uint256 list"
  mk_mutated :: bool

text \<open>
  One round of the inner loops: the sibling goes to the path when the node above \<^verbatim>\<open>leaf_pos\<close> is
  involved.
\<close>

definition note_match :: "nat \<Rightarrow> uint256 \<Rightarrow> bool \<Rightarrow> merkle_state \<Rightarrow> bool \<times> merkle_state" where
  "note_match level h matchh s =
    (if matchh then (True, s\<lparr>mk_path := mk_path s @ [mk_inner s level]\<rparr>)
     else if mk_matchlevel s = int level then (True, s\<lparr>mk_path := mk_path s @ [h]\<rparr>)
     else (False, s))"

text \<open>
  The counter is a 32-bit integer: a shift by 32 or more is undefined, so the search for a set bit
  fails there.
\<close>

function absorb :: "(bytes \<Rightarrow> uint256) \<Rightarrow> nat \<Rightarrow> bool \<Rightarrow> nat \<Rightarrow> uint256 \<Rightarrow> bool \<Rightarrow> merkle_state
    \<Rightarrow> (nat \<times> uint256 \<times> bool \<times> merkle_state) cxx" where
  "absorb H count check level h matchh s =
    (if level \<ge> 32 then Inl Bad_Shift
     else if \<not> bit count level then
       (let (matchh', s') = note_match level h matchh s;
            s'' = (if check then s'\<lparr>mk_mutated := mk_mutated s' \<or> mk_inner s' level = h\<rparr> else s') in
        absorb H count check (level + 1) (Hash2 H (mk_inner s' level) h) matchh' s'')
     else Inr (level, h, matchh, s))"
  by pat_completeness auto
termination by (relation "measure (\<lambda>(H, c, k, level, h, m, s). 32 - level)") auto

declare absorb.simps [simp del]

fun process_leaves :: "(bytes \<Rightarrow> uint256) \<Rightarrow> nat \<Rightarrow> nat \<Rightarrow> uint256 list \<Rightarrow> merkle_state \<Rightarrow> (nat \<times> merkle_state) cxx" where
  "process_leaves H leaf_pos count [] s = Inr (count, s)"
| "process_leaves H leaf_pos count (h # hs) s =
    (let count' = (count + 1) mod 2 ^ 32 in
     bindE (absorb H count' True 0 h (count = leaf_pos) s) (\<lambda>(level, h', matchh, s').
       process_leaves H leaf_pos count' hs
         (s'\<lparr>mk_inner := (mk_inner s')(level := h'),
             mk_matchlevel := (if matchh then int level else mk_matchlevel s')\<rparr>)))"

function lowest_level :: "nat \<Rightarrow> nat \<Rightarrow> nat cxx" where
  "lowest_level count level =
    (if level \<ge> 32 then Inl Bad_Shift
     else if \<not> bit count level then lowest_level count (level + 1) else Inr level)"
  by pat_completeness auto
termination by (relation "measure (\<lambda>(c, level). 32 - level)") auto

declare lowest_level.simps [simp del]

text \<open>The final sweep; every round moves up at least one level, and the counter has 32 of them.\<close>

fun sweep :: "nat \<Rightarrow> (bytes \<Rightarrow> uint256) \<Rightarrow> nat \<Rightarrow> nat \<Rightarrow> uint256 \<Rightarrow> bool \<Rightarrow> merkle_state \<Rightarrow> (uint256 \<times> merkle_state) cxx" where
  "sweep 0 H count level h matchh s = Inl Out_Of_Fuel"
| "sweep (Suc n) H count level h matchh s =
    (if level \<ge> 32 then Inl Bad_Shift
     else if count \<noteq> 2 ^ level then
       (let s1 = (if matchh then s\<lparr>mk_path := mk_path s @ [h]\<rparr> else s);
            count' = (count + 2 ^ level) mod 2 ^ 32 in
        bindE (absorb H count' False (level + 1) (Hash2 H h h) matchh s1) (\<lambda>(level', h', matchh', s').
          sweep n H count' level' h' matchh' s'))
     else Inr (h, s))"

definition merkle_init :: merkle_state where
  "merkle_init = \<lparr>mk_inner = (\<lambda>_. uint256_null), mk_matchlevel = - 1, mk_path = [], mk_mutated = False\<rparr>"

definition MerkleComputation :: "(bytes \<Rightarrow> uint256) \<Rightarrow> uint256 list \<Rightarrow> nat \<Rightarrow> (uint256 \<times> bool \<times> uint256 list) cxx" where
  "MerkleComputation H leaves leaf_pos =
    (if leaves = [] then Inr (uint256_null, False, [])
     else bindE (process_leaves H leaf_pos 0 leaves merkle_init) (\<lambda>(count, s).
       bindE (lowest_level count 0) (\<lambda>level.
       bindE (sweep 33 H count level (mk_inner s level) (mk_matchlevel s = int level) s) (\<lambda>(h, s').
         Inr (h, mk_mutated s', mk_path s')))))"

definition ComputeMerklePath :: "(bytes \<Rightarrow> uint256) \<Rightarrow> uint256 list \<Rightarrow> nat \<Rightarrow> uint256 list cxx" where
  "ComputeMerklePath H leaves position = bindE (MerkleComputation H leaves position) (\<lambda>(_, _, path). Inr path)"

definition TransactionMerklePath :: "(bytes \<Rightarrow> uint256) \<Rightarrow> CBlock \<Rightarrow> nat \<Rightarrow> uint256 list cxx" where
  "TransactionMerklePath H block position = ComputeMerklePath H (map (tx_GetHash H) (blk_vtx block)) position"

subsection \<open>Checking a branch\<close>

fun CheckMerkleBranch :: "(bytes \<Rightarrow> uint256) \<Rightarrow> uint256 \<Rightarrow> uint256 list \<Rightarrow> u32 \<Rightarrow> uint256" where
  "CheckMerkleBranch H hash [] index = hash"
| "CheckMerkleBranch H hash (sibling # branch) index =
    CheckMerkleBranch H (if index AND 1 \<noteq> 0 then Hash2 H sibling hash else Hash2 H hash sibling) branch (drop_bit 1 index)"

subsection \<open>An unmutated root determines its leaves\<close>

fun pair_inputs :: "uint256 list \<Rightarrow> bytes set" where
  "pair_inputs (a # b # hs) = insert (a @ b) (pair_inputs hs)"
| "pair_inputs _ = {}"

function merkle_inputs :: "(bytes \<Rightarrow> uint256) \<Rightarrow> uint256 list \<Rightarrow> bytes set" where
  "merkle_inputs H hs =
    (if length hs > 1 then pair_inputs (dup_last hs) \<union> merkle_inputs H (merkle_level H hs) else {})"
  by pat_completeness auto
termination by (relation "measure (\<lambda>(H, hs). length hs)") auto

declare merkle_inputs.simps [simp del]

function tree_height :: "nat \<Rightarrow> nat" where
  "tree_height n = (if n > 1 then Suc (tree_height ((n + 1) div 2)) else 0)"
  by pat_completeness auto
termination by (relation "measure (\<lambda>n. n)") auto

declare tree_height.simps [simp del]

text \<open>Two different strings among those hashed have the same hash.\<close>

definition collision :: "(bytes \<Rightarrow> uint256) \<Rightarrow> bytes set \<Rightarrow> bytes set \<Rightarrow> bool" where
  "collision H X Y \<longleftrightarrow> (\<exists>x\<in>X. \<exists>y\<in>Y. x \<noteq> y \<and> H x = H y)"

lemma collision_mono: "collision H X Y \<Longrightarrow> X \<subseteq> X' \<Longrightarrow> Y \<subseteq> Y' \<Longrightarrow> collision H X' Y'"
  by (auto simp: collision_def)

lemma SHA256D64_binding:
  "even (length xs) \<Longrightarrow> even (length ys) \<Longrightarrow> list_all (\<lambda>h. length h = 32) xs \<Longrightarrow> list_all (\<lambda>h. length h = 32) ys \<Longrightarrow>
   SHA256D64 H xs = SHA256D64 H ys \<Longrightarrow> xs = ys \<or> collision H (pair_inputs xs) (pair_inputs ys)"
proof (induction H xs arbitrary: ys rule: SHA256D64.induct)
  case (1 H a b hs)
  then obtain c d ks where ys: "ys = c # d # ks" by (cases ys rule: level_mutated.cases) auto
  have "hs = ks \<or> collision H (pair_inputs hs) (pair_inputs ks)" using 1 ys by auto
  moreover have "a @ b = c @ d \<or> collision H {a @ b} {c @ d}"
    using 1(6) ys by (auto simp: collision_def Hash2_def)
  moreover have "length a = length c" using 1(4,5) ys by simp
  ultimately have "a # b # hs = c # d # ks \<or> collision H {a @ b} {c @ d} \<or> collision H (pair_inputs hs) (pair_inputs ks)"
    by auto
  moreover have "collision H {a @ b} {c @ d} \<Longrightarrow> collision H (pair_inputs (a # b # hs)) (pair_inputs (c # d # ks))"
    by (erule collision_mono) auto
  moreover have "collision H (pair_inputs hs) (pair_inputs ks) \<Longrightarrow> collision H (pair_inputs (a # b # hs)) (pair_inputs (c # d # ks))"
    by (erule collision_mono) auto
  ultimately show ?case unfolding ys by blast
next
  case "2_1"
  then show ?case by (cases ys rule: level_mutated.cases) auto
qed auto

lemma merkle_loop_flag: "snd (merkle_loop H hs m) \<longleftrightarrow> m \<or> snd (merkle_loop H hs False)"
proof (induction "length hs" arbitrary: hs m rule: less_induct)
  case less
  show ?case
  proof (cases "length hs > 1")
    case True
    then have "length (merkle_level H hs) < length hs" by auto
    then show ?thesis
      using True less [of "merkle_level H hs" "m \<or> level_mutated hs"] less [of "merkle_level H hs" "level_mutated hs"]
      by (simp add: merkle_loop.simps [of H hs])
  qed (simp add: merkle_loop.simps)
qed

lemma merkle_loop_fst: "fst (merkle_loop H hs m) = fst (merkle_loop H hs m')"
proof (induction H hs m arbitrary: m' rule: merkle_loop.induct)
  case (1 H hs m)
  then show ?case by (cases "length hs > 1") (simp_all add: merkle_loop.simps [of H hs])
qed

lemma level_mutated_twice: "even (length zs) \<Longrightarrow> level_mutated (zs @ [x, x])"
  by (induction zs rule: level_mutated.induct) auto

lemma level_mutated_last:
  assumes "even (length ys)" "ys = xs @ [last xs]" "xs \<noteq> []"
  shows "level_mutated ys"
proof -
  have "ys = butlast xs @ [last xs, last xs]" using assms(2,3) append_butlast_last_id [OF assms(3)] by simp
  moreover have "even (length (butlast xs))" using assms by simp
  ultimately show ?thesis using level_mutated_twice by metis
qed

lemma dup_last_binding:
  assumes "dup_last xs = dup_last ys" "\<not> level_mutated xs" "\<not> level_mutated ys" "xs \<noteq> []" "ys \<noteq> []"
  shows "xs = ys"
proof (cases "odd (length xs) = odd (length ys)")
  case True
  then show ?thesis using assms(1) by (simp add: dup_last_def split: if_splits)
next
  case False
  then consider "odd (length xs)" "even (length ys)" | "even (length xs)" "odd (length ys)" by blast
  then have False
  proof cases
    case 1
    then have "ys = xs @ [last xs]" using assms(1) by (simp add: dup_last_def)
    then show False using level_mutated_last [OF 1(2)] assms(3,4) by blast
  next
    case 2
    then have "xs = ys @ [last ys]" using assms(1) by (simp add: dup_last_def)
    then show False using level_mutated_last [OF 2(1)] assms(2,5) by blast
  qed
  then show ?thesis ..
qed

lemma list_all_SHA256D64: "(\<And>x. length (H x) = 32) \<Longrightarrow> list_all (\<lambda>h. length h = 32) (SHA256D64 H hs)"
  by (induction H hs rule: SHA256D64.induct) (simp_all add: Hash2_def)

lemma list_all_dup_last: "list_all P hs \<Longrightarrow> list_all P (dup_last hs)"
  by (cases hs rule: rev_cases) (auto simp: dup_last_def)

theorem merkle_loop_binding:
  assumes H: "\<And>x. length (H x) = 32"
  shows "xs \<noteq> [] \<Longrightarrow> ys \<noteq> [] \<Longrightarrow> tree_height (length xs) = tree_height (length ys) \<Longrightarrow>
    list_all (\<lambda>h. length h = 32) xs \<Longrightarrow> list_all (\<lambda>h. length h = 32) ys \<Longrightarrow>
    \<not> snd (merkle_loop H xs False) \<Longrightarrow> \<not> snd (merkle_loop H ys False) \<Longrightarrow>
    fst (merkle_loop H xs False) = fst (merkle_loop H ys False) \<Longrightarrow>
    xs = ys \<or> collision H (merkle_inputs H xs) (merkle_inputs H ys)"
proof (induction "tree_height (length xs)" arbitrary: xs ys)
  case 0
  then have "\<not> length xs > 1" "\<not> length ys > 1"
    by (metis tree_height.simps nat.distinct(1))+
  then show ?case using 0 by (simp add: merkle_loop.simps)
next
  case (Suc n)
  have big: "length xs > 1" "length ys > 1"
    using Suc.hyps(2) Suc.prems(3) by (metis tree_height.simps nat.distinct(1))+
  let ?X = "merkle_level H xs" let ?Y = "merkle_level H ys"
  have xs: "merkle_loop H xs False = merkle_loop H ?X (level_mutated xs)"
    and ys: "merkle_loop H ys False = merkle_loop H ?Y (level_mutated ys)"
    using big by (simp_all add: merkle_loop.simps [of H xs] merkle_loop.simps [of H ys])
  have mut: "\<not> level_mutated xs" "\<not> level_mutated ys" "\<not> snd (merkle_loop H ?X False)" "\<not> snd (merkle_loop H ?Y False)"
    using Suc.prems(6,7) xs ys merkle_loop_flag by metis+
  have "length ?X \<noteq> 0" "length ?Y \<noteq> 0" using big by simp_all
  then have ne: "?X \<noteq> []" "?Y \<noteq> []" by (metis list.size(3))+
  have inp: "merkle_inputs H xs = pair_inputs (dup_last xs) \<union> merkle_inputs H ?X"
    "merkle_inputs H ys = pair_inputs (dup_last ys) \<union> merkle_inputs H ?Y"
    using big by (simp_all add: merkle_inputs.simps [of H xs] merkle_inputs.simps [of H ys])
  have up: "collision H (pair_inputs (dup_last xs)) (pair_inputs (dup_last ys)) \<or>
      collision H (merkle_inputs H ?X) (merkle_inputs H ?Y) \<Longrightarrow> collision H (merkle_inputs H xs) (merkle_inputs H ys)"
    unfolding inp by (elim disjE; erule collision_mono) auto
  have "n = tree_height (length ?X)" "tree_height (length ?X) = tree_height (length ?Y)"
    using Suc.hyps(2) Suc.prems(3) big by (simp_all add: tree_height.simps [of "length xs"] tree_height.simps [of "length ys"])
  moreover have "list_all (\<lambda>h. length h = 32) ?X" "list_all (\<lambda>h. length h = 32) ?Y"
    by (simp_all add: merkle_level_def list_all_SHA256D64 [OF H])
  moreover have "fst (merkle_loop H ?X False) = fst (merkle_loop H ?Y False)"
    using Suc.prems(8) xs ys merkle_loop_fst by metis
  ultimately have "?X = ?Y \<or> collision H (merkle_inputs H ?X) (merkle_inputs H ?Y)"
    using Suc.hyps(1) ne mut by blast
  then show ?case
  proof
    assume "?X = ?Y"
    then have "dup_last xs = dup_last ys \<or> collision H (pair_inputs (dup_last xs)) (pair_inputs (dup_last ys))"
      using Suc.prems(4,5) by (intro SHA256D64_binding) (simp_all add: list_all_dup_last merkle_level_def)
    then show ?case
      using dup_last_binding [OF _ mut(1,2) Suc.prems(1,2)] up by blast
  next
    assume "collision H (merkle_inputs H ?X) (merkle_inputs H ?Y)"
    then show ?case using up by blast
  qed
qed

lemma merkle_loop_single: "hs \<noteq> [] \<Longrightarrow> \<exists>h. fst (merkle_loop H hs m) = [h]"
proof (induction H hs m rule: merkle_loop.induct)
  case (1 H hs m)
  show ?case
  proof (cases "length hs > 1")
    case True
    then have "merkle_level H hs \<noteq> []" using length_merkle_level [of H hs] by (intro notI) simp
    then show ?thesis using 1(1) [OF True] True by (simp add: merkle_loop.simps [of H hs])
  next
    case False
    then show ?thesis using 1(2) by (cases hs) (auto simp: merkle_loop.simps)
  qed
qed

lemma ComputeMerkleRoot_binding:
  assumes "\<And>x. length (H x) = 32" "xs \<noteq> []" "ys \<noteq> []" "tree_height (length xs) = tree_height (length ys)"
    "list_all (\<lambda>h. length h = 32) xs" "list_all (\<lambda>h. length h = 32) ys"
    "ComputeMerkleRoot H xs = (root, False)" "ComputeMerkleRoot H ys = (root, False)"
  shows "xs = ys \<or> collision H (merkle_inputs H xs) (merkle_inputs H ys)"
proof -
  obtain a b where "fst (merkle_loop H xs False) = [a]" "fst (merkle_loop H ys False) = [b]"
    using merkle_loop_single assms(2,3) by metis
  then show ?thesis using merkle_loop_binding [OF assms(1-6)] assms(7,8)
    by (auto simp: ComputeMerkleRoot_def split: prod.splits)
qed

subsection \<open>Nodes of the tree\<close>

text \<open>
  \<open>width n l\<close> is the number of nodes on level \<open>l\<close> of a tree with \<open>n\<close> leaves and \<open>node H L l i\<close> the
  \<open>i\<close>-th of them; a node without right neighbour is combined with itself.
\<close>

fun width :: "nat \<Rightarrow> nat \<Rightarrow> nat" where
  "width n 0 = n"
| "width n (Suc l) = (width n l + 1) div 2"

fun node :: "(bytes \<Rightarrow> uint256) \<Rightarrow> uint256 list \<Rightarrow> nat \<Rightarrow> nat \<Rightarrow> uint256" where
  "node H L 0 i = L ! i"
| "node H L (Suc l) i =
    Hash2 H (node H L l (2 * i)) (node H L l (min (2 * i + 1) (width (length L) l - 1)))"

lemma nth_SHA256D64: "i < length hs div 2 \<Longrightarrow> SHA256D64 H hs ! i = Hash2 H (hs ! (2 * i)) (hs ! (2 * i + 1))"
proof (induction H hs arbitrary: i rule: SHA256D64.induct)
  case (1 H a b hs)
  then show ?case by (cases i) auto
qed auto

lemma nth_dup_last:
  assumes "j < 2 * ((length hs + 1) div 2)"
  shows "dup_last hs ! j = hs ! min j (length hs - 1)"
proof (cases "odd (length hs)")
  case True
  then have "j \<le> length hs" "hs \<noteq> []" "0 < length hs" using assms by auto
  then have "min j (length hs - 1) = (if j = length hs then length hs - 1 else j)" by auto
  with \<open>hs \<noteq> []\<close> \<open>j \<le> length hs\<close> show ?thesis using True by (auto simp: dup_last_def nth_append last_conv_nth)
next
  case False
  then have "min j (length hs - 1) = j" using assms by auto
  then show ?thesis using False by (simp add: dup_last_def)
qed

lemma nth_merkle_level:
  assumes "i < (length hs + 1) div 2"
  shows "merkle_level H hs ! i = Hash2 H (hs ! (2 * i)) (hs ! min (2 * i + 1) (length hs - 1))"
proof -
  have "2 * i \<le> length hs - 1" using assms by linarith
  then show ?thesis using assms by (simp add: merkle_level_def nth_SHA256D64 nth_dup_last min_def)
qed

lemma level_nodes:
  "length ((merkle_level H ^^ l) L) = width (length L) l \<and>
   (\<forall>i < width (length L) l. (merkle_level H ^^ l) L ! i = node H L l i)"
proof (induction l)
  case (Suc l)
  then show ?case
    by (auto simp: nth_merkle_level min_def)
qed simp

lemma merkle_loop_levels:
  "fst (merkle_loop H L m) = (merkle_level H ^^ tree_height (length L)) L"
proof (induction H L m rule: merkle_loop.induct)
  case (1 H hs m)
  then show ?case
    by (cases "length hs > 1") (simp_all add: merkle_loop.simps [of H hs] tree_height.simps [of "length hs"] funpow_swap1)
qed

lemma width_tree_height: "0 < n \<Longrightarrow> width n (tree_height n) = 1"
proof -
  have shift: "width ((n + 1) div 2) l = width n (Suc l)" for n l by (induction l) simp_all
  show "0 < n \<Longrightarrow> width n (tree_height n) = 1"
  proof (induction n rule: tree_height.induct)
    case (1 n)
    show ?case
    proof (cases "n > 1")
      case True
      then show ?thesis using 1(1) [OF True] shift [of n] by (simp add: tree_height.simps [of n])
    next
      case False
      then show ?thesis using 1(2) by (simp add: tree_height.simps)
    qed
  qed
qed

lemma ComputeMerkleRoot_node:
  assumes "L \<noteq> []"
  shows "fst (ComputeMerkleRoot H L) = node H L (tree_height (length L)) 0"
proof -
  have "width (length L) (tree_height (length L)) = 1" using assms by (intro width_tree_height) simp
  then have "fst (merkle_loop H L False) = [node H L (tree_height (length L)) 0]"
    using level_nodes [where l = "tree_height (length L)" and H = H and L = L]
    unfolding merkle_loop_levels by (auto simp: length_Suc_conv)
  then show ?thesis by (auto simp: ComputeMerkleRoot_def split: prod.splits)
qed

subsection \<open>Branches of the tree\<close>

definition sibling :: "nat \<Rightarrow> nat \<Rightarrow> nat \<Rightarrow> nat" where
  "sibling n l i = (if odd i then i - 1 else min (i + 1) (width n l - 1))"

definition branch_of :: "(bytes \<Rightarrow> uint256) \<Rightarrow> uint256 list \<Rightarrow> nat \<Rightarrow> nat \<Rightarrow> uint256 list" where
  "branch_of H L P l = map (\<lambda>k. node H L k (sibling (length L) k (P div 2 ^ k))) [0..<l]"

lemma branch_of_0 [simp]: "branch_of H L P 0 = []"
  by (simp add: branch_of_def)

lemma branch_of_Suc: "branch_of H L P (Suc l) = branch_of H L P l @ [node H L l (sibling (length L) l (P div 2 ^ l))]"
  by (simp add: branch_of_def)

lemma node_step:
  assumes "i < width (length L) l"
  shows "node H L (Suc l) (i div 2) =
    (if odd i then Hash2 H (node H L l (sibling (length L) l i)) (node H L l i)
     else Hash2 H (node H L l i) (node H L l (sibling (length L) l i)))"
proof (cases "odd i")
  case True
  then have "2 * (i div 2) = i - 1" "2 * (i div 2) + 1 = i" by (auto elim: oddE)
  moreover have "min i (width (length L) l - 1) = i" using assms by simp
  ultimately show ?thesis using True by (simp add: sibling_def)
next
  case False
  then show ?thesis by (simp add: sibling_def)
qed

lemma CheckMerkleBranch_append:
  "CheckMerkleBranch H h (xs @ ys) i = CheckMerkleBranch H (CheckMerkleBranch H h xs i) ys (drop_bit (length xs) i)"
  by (induction xs arbitrary: h i) (simp_all add: drop_bit_Suc)

lemma pos_width: "P < n \<Longrightarrow> P div 2 ^ l < width n l"
proof (induction l)
  case (Suc l)
  then have "P div 2 ^ l < width n l" by simp
  then have "P div 2 ^ l div 2 < (width n l + 1) div 2" by linarith
  then show ?case by (simp add: power_Suc2 div_mult2_eq del: power_Suc)
qed simp

lemma CheckMerkleBranch_branch_of:
  assumes P: "P < length L" "P < 2 ^ 32"
  shows "CheckMerkleBranch H (L ! P) (branch_of H L P l) (of_nat P) = node H L l (P div 2 ^ l)"
proof (induction l)
  case (Suc l)
  have "drop_bit l (of_nat P :: u32) AND 1 \<noteq> 0 \<longleftrightarrow> bit (of_nat P :: u32) l"
    by (simp only: and_one_eq odd_iff_mod_2_eq_one [symmetric] bit_iff_odd_drop_bit of_bool_eq_0_iff) (simp add: even_iff_mod_2_eq_zero odd_iff_mod_2_eq_one)
  then have odd: "drop_bit l (of_nat P :: u32) AND 1 \<noteq> 0 \<longleftrightarrow> odd (P div 2 ^ l)"
    using not_bit_if_less_exp [OF P(2), of l] by (auto simp: bit_simps bit_iff_odd [of P] not_less)
  have "P div 2 ^ Suc l = P div 2 ^ l div 2" by (simp add: power_Suc2 div_mult2_eq del: power_Suc)
  then show ?case
    using Suc.IH node_step [OF pos_width [OF P(1)], of H l] odd
    by (simp add: branch_of_Suc CheckMerkleBranch_append branch_of_def split: if_splits)
qed simp

subsection \<open>The constant-space computation\<close>

text \<open>
  While the counter reads \<open>c\<close>, \<^verbatim>\<open>inner\<close> holds the left neighbours of the nodes above position \<open>c\<close>
  at the levels where \<open>c\<close> has a bit, and the path holds the branch up to the level of the subtree
  that contains the wanted leaf.
\<close>

definition inner_ok :: "(bytes \<Rightarrow> uint256) \<Rightarrow> uint256 list \<Rightarrow> nat \<Rightarrow> nat \<Rightarrow> merkle_state \<Rightarrow> bool" where
  "inner_ok H L c level s \<longleftrightarrow> (\<forall>l\<ge>level. bit c l \<longrightarrow> mk_inner s l = node H L l (c div 2 ^ l - 1))"

definition tracked :: "(bytes \<Rightarrow> uint256) \<Rightarrow> uint256 list \<Rightarrow> nat \<Rightarrow> nat \<Rightarrow> nat \<Rightarrow> bool \<Rightarrow> merkle_state \<Rightarrow> bool" where
  "tracked H L P c level matchh s \<longleftrightarrow>
    (if matchh then P \<le> c \<and> P div 2 ^ level = c div 2 ^ level \<and> mk_path s = branch_of H L P level
     else (c < P \<and> mk_matchlevel s = - 1 \<and> mk_path s = []) \<or>
       (\<exists>m\<ge>level. P < c \<and> mk_matchlevel s = int m \<and> bit c m \<and> P div 2 ^ m = c div 2 ^ m - 1 \<and>
          mk_path s = branch_of H L P m))"

lemma div_pow_Suc_2: "(c::nat) div 2 ^ Suc l = c div 2 ^ l div 2"
  by (simp add: power_Suc2 div_mult2_eq del: power_Suc)

lemma tracked_note_match:
  assumes t: "tracked H L P c level matchh s" and inn: "mk_inner s level = node H L level (c div 2 ^ level - 1)"
    and k: "odd (c div 2 ^ level)" "c div 2 ^ level < width (length L) level"
    and nm: "note_match level (node H L level (c div 2 ^ level)) matchh s = (matchh', s')"
  shows "tracked H L P c (Suc level) matchh' s'" "mk_inner s' = mk_inner s" "mk_matchlevel s' = mk_matchlevel s"
proof -
  show "mk_inner s' = mk_inner s" "mk_matchlevel s' = mk_matchlevel s"
    using nm by (auto simp: note_match_def split: if_splits)
  let ?k = "c div 2 ^ level"
  consider (match) matchh | (level) "\<not> matchh" "mk_matchlevel s = int level" | (other) "\<not> matchh" "mk_matchlevel s \<noteq> int level"
    by blast
  then show "tracked H L P c (Suc level) matchh' s'"
  proof cases
    case match
    then show ?thesis using t nm inn k
      by (auto simp: tracked_def note_match_def branch_of_Suc sibling_def div_pow_Suc_2 simp del: power_Suc)
  next
    case level
    then have m: "P < c" "P div 2 ^ level = ?k - 1" "mk_path s = branch_of H L P level"
      using t by (auto simp: tracked_def)
    have "sibling (length L) level (?k - 1) = ?k" "(?k - 1) div 2 = ?k div 2"
      using k by (auto simp: sibling_def elim: oddE)
    then show ?thesis using level m nm by (auto simp: tracked_def note_match_def branch_of_Suc div_pow_Suc_2 simp del: power_Suc)
  next
    case other
    then show ?thesis using t nm by (auto simp: tracked_def note_match_def Suc_le_eq order.order_iff_strict)
  qed
qed

lemma bit_counter: "bit ((k + 1) * 2 ^ level :: nat) level \<longleftrightarrow> even k"
  by (simp add: bit_iff_odd)

lemma absorb_ok:
  assumes "count = (c div 2 ^ level + 1) * 2 ^ level" "count < 2 ^ 32" "c div 2 ^ level < width (length L) level"
    "inner_ok H L c level s" "tracked H L P c level matchh s"
  shows "\<exists>lv matchh' s'. absorb H count check level (node H L level (c div 2 ^ level)) matchh s =
      Inr (lv, node H L lv (c div 2 ^ lv), matchh', s') \<and> level \<le> lv \<and> lv < 32 \<and>
      count = (c div 2 ^ lv + 1) * 2 ^ lv \<and> even (c div 2 ^ lv) \<and> c div 2 ^ lv < width (length L) lv \<and>
      mk_inner s' = mk_inner s \<and> mk_matchlevel s' = mk_matchlevel s \<and> tracked H L P c lv matchh' s'"
  using assms
proof (induction "32 - level" arbitrary: level matchh s)
  case 0
  have "(2::nat) ^ 32 \<le> 2 ^ level" using 0(1) by (intro power_increasing) auto
  moreover have "2 ^ level \<le> count" using 0(2) by simp
  ultimately show ?case using 0(3) by simp
next
  case (Suc d)
  let ?k = "c div 2 ^ level"
  have lv: "level < 32" using Suc.hyps(2) by simp
  show ?case
  proof (cases "even ?k")
    case True
    then have "absorb H count check level (node H L level ?k) matchh s = Inr (level, node H L level ?k, matchh, s)"
      using lv Suc.prems(1) bit_counter [of ?k level] by (simp add: absorb.simps)
    then show ?thesis using True lv Suc.prems by blast
  next
    case False
    obtain matchh' s1 where nm: "note_match level (node H L level ?k) matchh s = (matchh', s1)" by (meson surj_pair)
    define s2 where "s2 = (if check then s1\<lparr>mk_mutated := mk_mutated s1 \<or> mk_inner s1 level = node H L level ?k\<rparr> else s1)"
    have bit: "bit c level" using False by (simp add: bit_iff_odd)
    have nb: "\<not> bit count level" using False bit_counter [of ?k level] Suc.prems(1) by blast
    have inn: "mk_inner s level = node H L level (?k - 1)" using bit Suc.prems(4) by (simp add: inner_ok_def)
    note t = tracked_note_match [OF Suc.prems(5) inn _ Suc.prems(3) nm] False
    have half: "c div 2 ^ Suc level = ?k div 2" "2 * (?k div 2) = ?k - 1" "2 * (?k div 2) + 1 = ?k" "?k div 2 * 2 = ?k - 1"
      using False by (auto simp: div_pow_Suc_2 simp del: power_Suc elim: oddE)
    have w: "?k div 2 < (width (length L) level + 1) div 2" using Suc.prems(3) by linarith
    have nd: "Hash2 H (mk_inner s1 level) (node H L level ?k) = node H L (Suc level) (c div 2 ^ Suc level)"
      using inn t(2) False Suc.prems(3) half by (simp add: min_absorb1 Suc_le_eq)
    have "(c div 2 ^ Suc level + 1) * 2 ^ Suc level = (2 * (?k div 2) + 1 + 1) * 2 ^ level"
      unfolding half(1) by (simp add: algebra_simps)
    then have cnt: "count = (c div 2 ^ Suc level + 1) * 2 ^ Suc level"
      unfolding half(3) Suc.prems(1) ..
    have s2: "mk_inner s2 = mk_inner s" "mk_matchlevel s2 = mk_matchlevel s" "tracked H L P c (Suc level) matchh' s2"
      using t False by (auto simp: s2_def tracked_def)
    have "absorb H count check level (node H L level ?k) matchh s =
        absorb H count check (Suc level) (node H L (Suc level) (c div 2 ^ Suc level)) matchh' s2"
      using lv nb nm nd by (subst absorb.simps) (simp add: s2_def Let_def del: node.simps power_Suc)
    moreover have "inner_ok H L c (Suc level) s2" using Suc.prems(4) s2(1) by (simp add: inner_ok_def)
    moreover have "c div 2 ^ Suc level < width (length L) (Suc level)" using w half(1) by simp
    moreover have "d = 32 - Suc level" using Suc.hyps(2) by simp
    ultimately obtain lv m' s' where "absorb H count check level (node H L level ?k) matchh s =
        Inr (lv, node H L lv (c div 2 ^ lv), m', s')" "Suc level \<le> lv" "lv < 32"
        "count = (c div 2 ^ lv + 1) * 2 ^ lv" "even (c div 2 ^ lv)" "c div 2 ^ lv < width (length L) lv"
        "mk_inner s' = mk_inner s2" "mk_matchlevel s' = mk_matchlevel s2" "tracked H L P c lv m' s'"
      using Suc.hyps(1) [OF _ cnt Suc.prems(2) _ _ s2(3)] by metis
    then show ?thesis using s2 by (metis Suc_leD)
  qed
qed

lemma carry:
  assumes c: "Suc c = (c div 2 ^ lv + 1) * 2 ^ lv" and e: "even (c div 2 ^ lv)"
  shows "Suc c div 2 ^ lv = c div 2 ^ lv + 1" "bit (Suc c) lv" "l < lv \<Longrightarrow> \<not> bit (Suc c) l"
    "lv < l \<Longrightarrow> Suc c div 2 ^ l = c div 2 ^ l" "lv < l \<Longrightarrow> bit (Suc c) l = bit c l"
proof -
  let ?k = "c div 2 ^ lv"
  show d: "Suc c div 2 ^ lv = ?k + 1" by (subst c) simp
  then show "bit (Suc c) lv" using e by (simp add: bit_iff_odd)
  show "\<not> bit (Suc c) l" if "l < lv"
  proof -
    have "Suc c = (?k + 1) * 2 ^ (lv - l) * 2 ^ l"
      using that by (subst c) (simp only: mult.assoc power_add [symmetric] le_add_diff_inverse2 less_imp_le)
    then have "Suc c div 2 ^ l = (?k + 1) * 2 ^ (lv - l)" by simp
    then show ?thesis using that by (simp add: bit_iff_odd)
  qed
  show up: "Suc c div 2 ^ l = c div 2 ^ l" if "lv < l"
  proof -
    define j where "j = l - lv - 1"
    have j: "l = lv + Suc j" using that by (simp add: j_def)
    have split: "x div 2 ^ l = x div 2 ^ lv div 2 div 2 ^ j" for x :: nat
      by (simp only: j power_add power_Suc div_mult2_eq)
    have "Suc c div 2 ^ l = (?k + 1) div 2 div 2 ^ j" unfolding split d ..
    also have "(?k + 1) div 2 = ?k div 2" using e by (elim evenE) simp
    finally show ?thesis unfolding split [of c] .
  qed
  then show "lv < l \<Longrightarrow> bit (Suc c) l = bit c l" by (simp add: bit_iff_odd)
qed

definition counted :: "(bytes \<Rightarrow> uint256) \<Rightarrow> uint256 list \<Rightarrow> nat \<Rightarrow> nat \<Rightarrow> merkle_state \<Rightarrow> bool" where
  "counted H L P c s \<longleftrightarrow> inner_ok H L c 0 s \<and>
    (if P < c then \<exists>m. mk_matchlevel s = int m \<and> bit c m \<and> P div 2 ^ m = c div 2 ^ m - 1 \<and> mk_path s = branch_of H L P m
     else mk_matchlevel s = - 1 \<and> mk_path s = [])"

lemma counted_tracked: "counted H L P c s \<Longrightarrow> tracked H L P c 0 (c = P) s"
  by (auto simp: counted_def tracked_def split: if_splits)

lemma counted_init: "counted H L P 0 merkle_init"
  by (simp add: counted_def inner_ok_def merkle_init_def)

lemma leaf_step:
  assumes s: "counted H L P c s" and c: "c < length L" "Suc c < 2 ^ 32"
  obtains lv h m s' where "absorb H (Suc c) True 0 (L ! c) (c = P) s = Inr (lv, h, m, s')"
    "counted H L P (Suc c) (s'\<lparr>mk_inner := (mk_inner s')(lv := h), mk_matchlevel := (if m then int lv else mk_matchlevel s')\<rparr>)"
proof -
  obtain lv m s' where a: "absorb H (Suc c) True 0 (L ! c) (c = P) s = Inr (lv, node H L lv (c div 2 ^ lv), m, s')"
      "Suc c = (c div 2 ^ lv + 1) * 2 ^ lv" "even (c div 2 ^ lv)"
      "mk_inner s' = mk_inner s" "mk_matchlevel s' = mk_matchlevel s" "tracked H L P c lv m s'"
    using absorb_ok [where level = 0 and count = "Suc c" and c = c and L = L and H = H and s = s and P = P
        and matchh = "c = P" and check = True] c s counted_tracked [OF s] by (auto simp: counted_def)
  note up = carry [OF a(2,3)]
  let ?s = "s'\<lparr>mk_inner := (mk_inner s')(lv := node H L lv (c div 2 ^ lv)), mk_matchlevel := (if m then int lv else mk_matchlevel s')\<rparr>"
  have "mk_inner ?s l = node H L l (Suc c div 2 ^ l - 1)" if "bit (Suc c) l" for l
  proof -
    consider "l < lv" | "l = lv" | "lv < l" by linarith
    then show ?thesis
    proof cases
      case 3
      then show ?thesis using that up(4,5) [OF 3] s a(4) by (simp add: counted_def inner_ok_def)
    qed (use that up(1,3) in auto)
  qed
  then have "inner_ok H L (Suc c) 0 ?s" by (simp add: inner_ok_def)
  moreover have "\<exists>k. mk_matchlevel ?s = int k \<and> bit (Suc c) k \<and> P div 2 ^ k = Suc c div 2 ^ k - 1 \<and> mk_path ?s = branch_of H L P k"
    if lt: "P < Suc c"
  proof (cases m)
    case True
    then show ?thesis using a(6) up(1,2) by (intro exI [of _ lv]) (simp add: tracked_def)
  next
    case False
    then obtain k where k: "lv \<le> k" "mk_matchlevel s' = int k" "bit c k" "P div 2 ^ k = c div 2 ^ k - 1" "mk_path s' = branch_of H L P k"
      using a(6) lt by (auto simp: tracked_def)
    have "lv \<noteq> k" using k(3) a(3) by (auto simp: bit_iff_odd)
    then show ?thesis using k up(4,5) [of k] False by (intro exI [of _ k]) simp
  qed
  moreover have "mk_matchlevel ?s = - 1 \<and> mk_path ?s = []" if "\<not> P < Suc c"
    using a(6) that by (auto simp: tracked_def split: if_splits)
  ultimately have "counted H L P (Suc c) ?s" unfolding counted_def by presburger
  then show thesis using that a(1) by blast
qed

lemma process_leaves_ok:
  assumes "length L < 2 ^ 32"
  shows "counted H L P c s \<Longrightarrow> c \<le> length L \<Longrightarrow>
    \<exists>s'. process_leaves H P c (drop c L) s = Inr (length L, s') \<and> counted H L P (length L) s'"
proof (induction "length L - c" arbitrary: c s)
  case 0
  then show ?case by auto
next
  case (Suc d)
  then have c: "c < length L" "Suc c < 2 ^ 32" using assms by auto
  have "drop c L = L ! c # drop (Suc c) L" using c by (simp add: Cons_nth_drop_Suc)
  with leaf_step [OF Suc.prems(1) c] Suc.hyps(1) [of "Suc c"] Suc.hyps(2) c show ?case
    by (force simp: Let_def)
qed

lemma pow_dvd_Suc: "2 ^ Suc l dvd n \<longleftrightarrow> 2 ^ l dvd n \<and> even (n div 2 ^ l)" for n :: nat
proof
  assume d: "2 ^ Suc l dvd n"
  then obtain k where k: "n = 2 ^ Suc l * k" by (elim dvdE)
  then show "2 ^ l dvd n \<and> even (n div 2 ^ l)" by (simp add: mult.assoc mult.left_commute)
next
  assume "2 ^ l dvd n \<and> even (n div 2 ^ l)"
  then obtain j k where "n = 2 ^ l * k" "n div 2 ^ l = 2 * j" by (elim conjE dvdE evenE)
  then have "n = 2 ^ Suc l * j" by simp
  then show "2 ^ Suc l dvd n" by simp
qed

lemma width_formula: "width n l = n div 2 ^ l + (if 2 ^ l dvd n then 0 else 1)"
proof (induction l)
  case (Suc l)
  have "n div 2 ^ Suc l = n div 2 ^ l div 2" by (rule div_pow_Suc_2)
  then show ?case using Suc.IH by (cases "2 ^ l dvd n"; cases "even (n div 2 ^ l)")
    (auto simp: pow_dvd_Suc simp del: power_Suc elim: evenE oddE)
qed simp

lemma width_1_iff: "0 < n \<Longrightarrow> width n l = 1 \<longleftrightarrow> n \<le> 2 ^ l"
proof -
  assume n: "0 < n"
  show ?thesis
  proof (cases "n < 2 ^ l")
    case True
    then have "\<not> 2 ^ l dvd n" using n by (auto dest: dvd_imp_le)
    then show ?thesis using True by (simp add: width_formula)
  next
    case False
    then have q: "1 \<le> n div 2 ^ l" by (simp add: Suc_le_eq div_greater_zero_iff)
    show ?thesis
    proof (cases "2 ^ l dvd n")
      case True
      then show ?thesis using False q by (auto simp: width_formula elim!: dvdE)
    next
      case ndvd: False
      then have "n \<noteq> 2 ^ l" by auto
      then show ?thesis using False q ndvd by (auto simp: width_formula)
    qed
  qed
qed

lemma tree_height_bounds: "0 < n \<Longrightarrow> n \<le> 2 ^ tree_height n \<and> 2 ^ tree_height n < 2 * n"
proof (induction n rule: tree_height.induct)
  case (1 n)
  show ?case
  proof (cases "n > 1")
    case True
    then have IH: "(n + 1) div 2 \<le> 2 ^ tree_height ((n + 1) div 2)" "2 ^ tree_height ((n + 1) div 2) < 2 * ((n + 1) div 2)"
      using 1(1) [OF True] by auto
    have "2 ^ tree_height ((n + 1) div 2) < n \<or> (even (n + 1) \<and> 2 ^ tree_height ((n + 1) div 2) < n + 1)"
      using IH(2) by (cases "even n") (auto elim: evenE oddE)
    moreover have "2 ^ tree_height ((n + 1) div 2) \<noteq> n" if "even (n + 1)"
      using that True by (cases "tree_height ((n + 1) div 2)") auto
    ultimately have "2 ^ tree_height ((n + 1) div 2) < n" by linarith
    then show ?thesis using IH(1) True by (simp add: tree_height.simps [of n])
  next
    case False
    then show ?thesis using 1(2) by (simp add: tree_height.simps)
  qed
qed

lemma tree_height_unique:
  assumes "0 < n" "n \<le> 2 ^ l" "2 ^ l < 2 * n"
  shows "tree_height n = l"
proof -
  note b = tree_height_bounds [OF assms(1)]
  have "(2::nat) ^ l < 2 ^ Suc (tree_height n)" "(2::nat) ^ tree_height n < 2 ^ Suc l" using b assms by auto
  then have "l < Suc (tree_height n)" "tree_height n < Suc l" by (simp_all only: power_less_imp_less_exp nat_power_less_imp_less
    power_strict_increasing_iff one_less_numeral_iff semiring_norm)
  then show ?thesis by simp
qed

lemma lowest_level_ok:
  assumes "0 < n" "n < 2 ^ 32"
  shows "2 ^ level dvd n \<Longrightarrow> \<exists>lv. lowest_level n level = Inr lv \<and> lv < 32 \<and> bit n lv \<and> 2 ^ lv dvd n"
proof (induction "32 - level" arbitrary: level)
  case 0
  then have "(2::nat) ^ 32 \<le> 2 ^ level" by (intro power_increasing) auto
  then show ?case using 0(2) assms dvd_imp_le [of "2 ^ level" n] by simp
next
  case (Suc d)
  show ?case
  proof (cases "bit n level")
    case True
    then show ?thesis using Suc by (auto simp: lowest_level.simps)
  next
    case False
    then have "2 ^ Suc level dvd n" using Suc.prems by (simp only: pow_dvd_Suc) (simp add: bit_iff_odd)
    then have "\<exists>lv. lowest_level n (Suc level) = Inr lv \<and> lv < 32 \<and> bit n lv \<and> 2 ^ lv dvd n"
      using Suc.hyps by (metis diff_Suc_eq_diff_pred Suc_diff_Suc nat.inject zero_less_Suc zero_less_diff diff_diff_left)
    then show ?thesis using False Suc.hyps(2) by (simp add: lowest_level.simps [of n level])
  qed
qed

text \<open>At the head of the sweep the node at hand is the last one of its level, which has no sibling.\<close>

definition swept :: "(bytes \<Rightarrow> uint256) \<Rightarrow> uint256 list \<Rightarrow> nat \<Rightarrow> nat \<Rightarrow> bool \<Rightarrow> merkle_state \<Rightarrow> bool" where
  "swept H L P level matchh s \<longleftrightarrow>
    odd (width (length L) level) \<and> 2 ^ level < 2 * length L \<and> inner_ok H L (length L) (Suc level) s \<and>
    (if matchh then P div 2 ^ level = width (length L) level - 1 \<and> mk_path s = branch_of H L P level
     else \<exists>m>level. mk_matchlevel s = int m \<and> bit (length L) m \<and> P div 2 ^ m = length L div 2 ^ m - 1 \<and>
       mk_path s = branch_of H L P m)"

lemma odd_width_not_dvd:
  assumes "odd (width n level)" "level < l"
  shows "\<not> 2 ^ l dvd n"
proof
  assume "2 ^ l dvd n"
  then have "2 ^ Suc level dvd n" using assms(2) by (metis Suc_leI dvd_trans le_imp_power_dvd)
  then show False using assms(1) by (simp only: pow_dvd_Suc width_formula) simp
qed

lemma width_low:
  assumes "0 < n"
  shows "(width n l - 1) * 2 ^ l < n"
proof (cases "2 ^ l dvd n")
  case True
  then obtain q where q: "n = 2 ^ l * q" by (elim dvdE)
  then have "(q - 1) * 2 ^ l < q * 2 ^ l" using assms by simp
  then show ?thesis using True q by (simp add: width_formula mult.commute)
next
  case False
  have "n div 2 ^ l * 2 ^ l \<le> n" by simp
  moreover have "n div 2 ^ l * 2 ^ l \<noteq> n" using False by (metis dvd_triv_right)
  ultimately have "n div 2 ^ l * 2 ^ l < n" by linarith
  then show ?thesis using False by (simp add: width_formula)
qed

lemma swept_double:
  assumes s: "swept H L P level matchh s" and P: "P < length L" and W: "width (length L) level \<noteq> 1"
  shows "width (length L) (Suc level) = length L div 2 ^ Suc level + 1"
    "(width (length L) level + 1) * 2 ^ level = (length L div 2 ^ Suc level + 1) * 2 ^ Suc level"
    "(width (length L) level + 1) * 2 ^ level < 2 * length L"
    "Hash2 H (node H L level (width (length L) level - 1)) (node H L level (width (length L) level - 1)) =
       node H L (Suc level) (length L div 2 ^ Suc level)"
    "tracked H L P (length L) (Suc level) matchh
       (if matchh then s\<lparr>mk_path := mk_path s @ [node H L level (width (length L) level - 1)]\<rparr> else s)"
proof -
  let ?n = "length L" let ?W = "width ?n level"
  have odd: "odd ?W" using s by (simp add: swept_def)
  have nd: "\<not> 2 ^ Suc level dvd ?n" using odd_width_not_dvd [OF odd] by blast
  show w: "width ?n (Suc level) = ?n div 2 ^ Suc level + 1" using nd unfolding width_formula by simp
  have half: "2 * (?n div 2 ^ Suc level) = ?W - 1" "?W + 1 = 2 * (?n div 2 ^ Suc level + 1)"
    using w odd by (auto elim!: oddE simp del: power_Suc)
  show "(?W + 1) * 2 ^ level = (?n div 2 ^ Suc level + 1) * 2 ^ Suc level"
    unfolding half(2) by (simp add: algebra_simps)
  have W3: "3 \<le> ?W" using odd W by (cases ?W; cases "?W - 1"; cases "?W - 2") auto
  have n0: "0 < ?n" using P by linarith
  note low = width_low [OF n0, of level]
  have "2 * 2 ^ level \<le> (?W - 1) * 2 ^ level" using W3 by simp
  moreover have "(?W + 1) * 2 ^ level = (?W - 1) * 2 ^ level + 2 * 2 ^ level" using W3 by (simp add: algebra_simps)
  ultimately show "(?W + 1) * 2 ^ level < 2 * ?n" using low by linarith
  show "Hash2 H (node H L level (?W - 1)) (node H L level (?W - 1)) = node H L (Suc level) (?n div 2 ^ Suc level)"
    using half(1) by (simp del: power_Suc)
  have sib: "sibling ?n level (?W - 1) = ?W - 1" using odd by (auto simp: sibling_def)
  have "(?W - 1) div 2 = ?n div 2 ^ Suc level" using half(1) by linarith
  then show "tracked H L P ?n (Suc level) matchh
      (if matchh then s\<lparr>mk_path := mk_path s @ [node H L level (?W - 1)]\<rparr> else s)"
    using s P sib by (auto simp: swept_def tracked_def branch_of_Suc div_pow_Suc_2 Suc_le_eq simp del: power_Suc)
qed

lemma sweep_step:
  assumes "level < 32" "count \<noteq> 2 ^ level" "count + 2 ^ level = c" "c < 2 ^ 32"
    "absorb H c False (Suc level) (Hash2 H h h) matchh (if matchh then s\<lparr>mk_path := mk_path s @ [h]\<rparr> else s) = Inr (lv, h', m, s')"
  shows "sweep (Suc fuel) H count level h matchh s = sweep fuel H c lv h' m s'"
  using assms by (simp add: Let_def)

lemma sweep_ok:
  assumes n: "length L \<le> 2 ^ 31" and P: "P < length L"
  shows "swept H L P level matchh s \<Longrightarrow> 32 - level < fuel \<Longrightarrow> level < 32 \<Longrightarrow>
    \<exists>s'. sweep fuel H (width (length L) level * 2 ^ level) level (node H L level (width (length L) level - 1)) matchh s =
      Inr (node H L (tree_height (length L)) 0, s') \<and> mk_path s' = branch_of H L P (tree_height (length L))"
proof (induction fuel arbitrary: level matchh s)
  case (Suc fuel)
  let ?n = "length L" let ?W = "width ?n level"
  show ?case
  proof (cases "?W = 1")
    case True
    have n0: "0 < ?n" using P by linarith
    have le: "?n \<le> 2 ^ level" using width_1_iff [OF n0, of level] True by blast
    then have th: "tree_height ?n = level"
      using tree_height_unique [OF n0] Suc.prems(1) by (simp add: swept_def)
    have matchh
    proof (rule ccontr)
      assume "\<not> matchh"
      then obtain m where m: "level < m" "bit ?n m" using Suc.prems(1) by (auto simp: swept_def)
      then have "2 ^ m \<le> ?n" by (metis bit_iff_odd div_less even_zero not_le)
      moreover have "(2::nat) ^ level < 2 ^ m" using m(1) by simp
      ultimately show False using le by linarith
    qed
    then show ?thesis using True th Suc.prems by (simp add: swept_def)
  next
    case False
    note d = swept_double [OF Suc.prems(1) P False]
    let ?s1 = "if matchh then s\<lparr>mk_path := mk_path s @ [node H L level (?W - 1)]\<rparr> else s"
    let ?c = "(?W + 1) * 2 ^ level"
    have c: "?c < 2 ^ 32" using d(3) n by simp
    have inn: "inner_ok H L ?n (Suc level) ?s1" using Suc.prems(1) by (simp add: swept_def inner_ok_def)
    obtain lv m s' where a: "absorb H ?c False (Suc level) (node H L (Suc level) (?n div 2 ^ Suc level)) matchh ?s1 =
        Inr (lv, node H L lv (?n div 2 ^ lv), m, s')" "Suc level \<le> lv" "lv < 32" "?c = (?n div 2 ^ lv + 1) * 2 ^ lv"
        "even (?n div 2 ^ lv)" "mk_inner s' = mk_inner ?s1" "mk_matchlevel s' = mk_matchlevel ?s1" "tracked H L P ?n lv m s'"
      using absorb_ok [OF d(2) c _ inn d(5)] d(1) by (metis less_add_one)
    have odd: "odd (width ?n level)" using Suc.prems(1) by (simp add: swept_def)
    have w: "width ?n lv = ?n div 2 ^ lv + 1"
      using odd_width_not_dvd [OF odd] a(2) by (simp add: width_formula Suc_le_eq)
    have "2 ^ lv \<le> ?c" unfolding a(4) by simp
    then have "2 ^ lv < 2 * ?n" using d(3) by linarith
    moreover have "inner_ok H L ?n (Suc lv) s'" using inn a(2,6) by (simp add: inner_ok_def)
    moreover have "if m then P div 2 ^ lv = width ?n lv - 1 \<and> mk_path s' = branch_of H L P lv
      else \<exists>k>lv. mk_matchlevel s' = int k \<and> bit ?n k \<and> P div 2 ^ k = ?n div 2 ^ k - 1 \<and> mk_path s' = branch_of H L P k"
    proof (cases m)
      case True
      then show ?thesis using a(8) w by (simp add: tracked_def)
    next
      case False
      then obtain k where k: "lv \<le> k" "mk_matchlevel s' = int k" "bit ?n k" "P div 2 ^ k = ?n div 2 ^ k - 1"
          "mk_path s' = branch_of H L P k"
        using a(8) P by (auto simp: tracked_def)
      moreover have "k \<noteq> lv" using k(3) a(5) by (auto simp: bit_iff_odd)
      ultimately show ?thesis using False by (auto simp: order.order_iff_strict)
    qed
    ultimately have sw: "swept H L P lv m s'" using w a(5) unfolding swept_def by simp
    have step: "sweep (Suc fuel) H (?W * 2 ^ level) level (node H L level (?W - 1)) matchh s =
        sweep fuel H ?c lv (node H L lv (?n div 2 ^ lv)) m s'"
    proof -
      have "?W * 2 ^ level + 2 ^ level = ?c" by (simp add: algebra_simps)
      moreover have "?W * 2 ^ level \<noteq> 2 ^ level" using False by simp
      ultimately show ?thesis using sweep_step [OF Suc.prems(3) _ _ c a(1) [folded d(4)]] by blast
    qed
    have "?c = width ?n lv * 2 ^ lv" "?n div 2 ^ lv = width ?n lv - 1" using a(4) w by simp_all
    moreover have "32 - lv < fuel" using Suc.prems(2,3) a(2,3) by linarith
    ultimately show ?thesis using Suc.IH [OF sw _ a(3)] unfolding step by simp
  qed
qed simp

lemma low_bits_clear: "2 ^ lv dvd (n::nat) \<Longrightarrow> bit n m \<Longrightarrow> lv \<le> m"
  by (metis bit_iff_odd dvd_trans le_imp_power_dvd not_less_eq_eq pow_dvd_Suc)

lemma counted_swept:
  assumes s: "counted H L P (length L) s" and P: "P < length L" and lv: "bit (length L) lv" "2 ^ lv dvd length L"
  shows "swept H L P lv (mk_matchlevel s = int lv) s" "mk_inner s lv = node H L lv (width (length L) lv - 1)"
    "length L = width (length L) lv * 2 ^ lv"
proof -
  let ?n = "length L"
  have w: "width ?n lv = ?n div 2 ^ lv" using lv(2) by (simp add: width_formula)
  show "mk_inner s lv = node H L lv (width ?n lv - 1)" using s lv(1) w by (simp add: counted_def inner_ok_def)
  show "?n = width ?n lv * 2 ^ lv" using lv(2) w by simp
  obtain m where m: "mk_matchlevel s = int m" "bit ?n m" "P div 2 ^ m = ?n div 2 ^ m - 1" "mk_path s = branch_of H L P m"
    using s P by (auto simp: counted_def)
  have "lv \<le> m" using low_bits_clear [OF lv(2) m(2)] .
  moreover have "2 ^ lv < 2 * ?n" using dvd_imp_le [OF lv(2)] P by linarith
  ultimately show "swept H L P lv (mk_matchlevel s = int lv) s"
    using s m w lv(1) by (auto simp: swept_def counted_def inner_ok_def bit_iff_odd)
qed

theorem MerkleComputation_ok:
  assumes n: "length L \<le> 2 ^ 31" and P: "P < length L"
  shows "\<exists>mut. MerkleComputation H L P =
    Inr (fst (ComputeMerkleRoot H L), mut, branch_of H L P (tree_height (length L)))"
proof -
  let ?n = "length L"
  have L: "L \<noteq> []" and n0: "0 < ?n" and n32: "?n < 2 ^ 32" using P n by auto
  obtain s where s: "process_leaves H P 0 L merkle_init = Inr (?n, s)" "counted H L P ?n s"
    using process_leaves_ok [OF n32 counted_init, of H P] by auto
  obtain lv where lv: "lowest_level ?n 0 = Inr lv" "lv < 32" "bit ?n lv" "2 ^ lv dvd ?n"
    using lowest_level_ok [OF n0 n32, of 0] by auto
  note c = counted_swept [OF s(2) P lv(3,4)]
  have fuel: "32 - lv < 33" by simp
  obtain s' where "sweep 33 H ?n lv (mk_inner s lv) (mk_matchlevel s = int lv) s =
      Inr (node H L (tree_height ?n) 0, s')" "mk_path s' = branch_of H L P (tree_height ?n)"
    using sweep_ok [OF n P c(1) fuel lv(2)] c(2,3) by auto
  then show ?thesis using L s(1) lv(1) by (simp add: MerkleComputation_def ComputeMerkleRoot_node)
qed

theorem ComputeMerklePath_checks:
  assumes "length L \<le> 2 ^ 31" "P < length L"
  shows "\<exists>path. ComputeMerklePath H L P = Inr path \<and> length path = tree_height (length L) \<and>
    CheckMerkleBranch H (L ! P) path (of_nat P) = fst (ComputeMerkleRoot H L)"
proof -
  obtain mut where "MerkleComputation H L P =
      Inr (fst (ComputeMerkleRoot H L), mut, branch_of H L P (tree_height (length L)))"
    using MerkleComputation_ok [OF assms] by blast
  then have "ComputeMerklePath H L P = Inr (branch_of H L P (tree_height (length L)))"
    by (simp add: ComputeMerklePath_def)
  moreover have "P div 2 ^ tree_height (length L) = 0"
    using tree_height_bounds [of "length L"] assms(2) by (intro div_less) linarith
  moreover have "L \<noteq> []" "P < 2 ^ 32" using assms by auto
  ultimately show ?thesis
    using CheckMerkleBranch_branch_of [OF assms(2), of H "tree_height (length L)"]
    by (simp add: ComputeMerkleRoot_node branch_of_def)
qed

end
