(* ===== verification/Coins.thy ===== *)
theory Coins
  imports Primitives
begin

text \<open>
  The unspent output set: the coin cache of \<^verbatim>\<open>src/src/coins.h\<close> and \<^verbatim>\<open>src/src/coins.cpp\<close> with its DIRTY and
  FRESH flags and its linked list of flagged entries, and the database view of \<^verbatim>\<open>src/src/txdb.cpp\<close>
  over a key-value store with atomic batches. A cache is a map of entries and the list of its flagged
  keys in the order of the links. The memory usage of a script, which depends on the allocator, is the
  parameter \<open>mu\<close>. The theory shows that a cache over any base view behaves as one map of unspent coins
  under every operation, that writing it back through any number of layers changes no coin, and that
  the consistency check of the source never fails.
\<close>

subsection \<open>Coins\<close>

record Coin =
  coin_out :: CTxOut
  coin_fCoinBase :: bool
  coin_nHeight :: u32

definition CTxOut_null :: CTxOut where
  "CTxOut_null = \<lparr>txout_nValue = - 1, txout_scriptPubKey = []\<rparr>"

definition CTxOut_IsNull :: "CTxOut \<Rightarrow> bool" where
  "CTxOut_IsNull t \<longleftrightarrow> txout_nValue t = - 1"

text \<open>The height is a bit field of 31 bits.\<close>

definition Coin_make :: "CTxOut \<Rightarrow> int \<Rightarrow> bool \<Rightarrow> Coin" where
  "Coin_make out nHeight fCoinBase =
    \<lparr>coin_out = out, coin_fCoinBase = fCoinBase, coin_nHeight = take_bit 31 (of_int nHeight)\<rparr>"

definition coinEmpty :: Coin where
  "coinEmpty = \<lparr>coin_out = CTxOut_null, coin_fCoinBase = False, coin_nHeight = 0\<rparr>"

definition Coin_Clear :: "Coin \<Rightarrow> Coin" where
  "Coin_Clear c = c\<lparr>coin_out := CTxOut_null, coin_fCoinBase := False, coin_nHeight := 0\<rparr>"

definition Coin_IsSpent :: "Coin \<Rightarrow> bool" where
  "Coin_IsSpent c \<longleftrightarrow> CTxOut_IsNull (coin_out c)"

definition MAX_SCRIPT_SIZE :: nat where "MAX_SCRIPT_SIZE = 10000"

definition IsUnspendable :: "CScript \<Rightarrow> bool" where
  "IsUnspendable s \<longleftrightarrow> (length s > 0 \<and> hd s = 0x6a) \<or> length s > MAX_SCRIPT_SIZE"

subsection \<open>Cache entries and the list of flagged entries\<close>

record CCoinsCacheEntry =
  ce_coin :: Coin
  ce_dirty :: bool
  ce_fresh :: bool

record CCoinsViewCache =
  cc_cacheCoins :: "COutPoint \<Rightarrow> CCoinsCacheEntry option"
  cc_flagged :: "COutPoint list"
  cc_hashBlock :: uint256
  cc_cachedCoinsUsage :: u64

definition new_CCoinsViewCache :: CCoinsViewCache where
  "new_CCoinsViewCache = \<lparr>cc_cacheCoins = Map.empty, cc_flagged = [], cc_hashBlock = uint256_null, cc_cachedCoinsUsage = 0\<rparr>"

definition new_entry :: CCoinsCacheEntry where
  "new_entry = \<lparr>ce_coin = coinEmpty, ce_dirty = False, ce_fresh = False\<rparr>"

definition AddFlags :: "bool \<Rightarrow> bool \<Rightarrow> COutPoint \<Rightarrow> CCoinsViewCache \<Rightarrow> CCoinsViewCache" where
  "AddFlags dirty fresh op c =
    (case cc_cacheCoins c op of None \<Rightarrow> c
     | Some e \<Rightarrow> c\<lparr>cc_cacheCoins := (cc_cacheCoins c)(op \<mapsto> e\<lparr>ce_dirty := ce_dirty e \<or> dirty, ce_fresh := ce_fresh e \<or> fresh\<rparr>),
                   cc_flagged := (if ce_dirty e \<or> ce_fresh e then cc_flagged c else cc_flagged c @ [op])\<rparr>)"

definition SetDirty :: "COutPoint \<Rightarrow> CCoinsViewCache \<Rightarrow> CCoinsViewCache" where
  "SetDirty = AddFlags True False"

definition SetFresh :: "COutPoint \<Rightarrow> CCoinsViewCache \<Rightarrow> CCoinsViewCache" where
  "SetFresh = AddFlags False True"

definition SetClean :: "COutPoint \<Rightarrow> CCoinsViewCache \<Rightarrow> CCoinsViewCache" where
  "SetClean op c =
    (case cc_cacheCoins c op of None \<Rightarrow> c
     | Some e \<Rightarrow> if \<not> (ce_dirty e \<or> ce_fresh e) then c
        else c\<lparr>cc_cacheCoins := (cc_cacheCoins c)(op \<mapsto> e\<lparr>ce_dirty := False, ce_fresh := False\<rparr>),
               cc_flagged := remove1 op (cc_flagged c)\<rparr>)"

text \<open>Erasing an entry runs its destructor, which unlinks it.\<close>

definition cache_erase :: "COutPoint \<Rightarrow> CCoinsViewCache \<Rightarrow> CCoinsViewCache" where
  "cache_erase op c =
    (let c' = SetClean op c in c'\<lparr>cc_cacheCoins := (cc_cacheCoins c')(op := None)\<rparr>)"

definition set_coin :: "COutPoint \<Rightarrow> Coin \<Rightarrow> CCoinsViewCache \<Rightarrow> CCoinsViewCache" where
  "set_coin op coin c =
    (case cc_cacheCoins c op of None \<Rightarrow> c
     | Some e \<Rightarrow> c\<lparr>cc_cacheCoins := (cc_cacheCoins c)(op \<mapsto> e\<lparr>ce_coin := coin\<rparr>)\<rparr>)"

definition add_usage :: "u64 \<Rightarrow> CCoinsViewCache \<Rightarrow> CCoinsViewCache" where
  "add_usage n c = c\<lparr>cc_cachedCoinsUsage := cc_cachedCoinsUsage c + n\<rparr>"

definition sub_usage :: "u64 \<Rightarrow> CCoinsViewCache \<Rightarrow> CCoinsViewCache" where
  "sub_usage n c = c\<lparr>cc_cachedCoinsUsage := cc_cachedCoinsUsage c - n\<rparr>"

definition DynamicMemoryUsage :: "(CScript \<Rightarrow> u64) \<Rightarrow> Coin \<Rightarrow> u64" where
  "DynamicMemoryUsage mu coin = mu (txout_scriptPubKey (coin_out coin))"

subsection \<open>Operations of the cache\<close>

text \<open>
  The base view answers \<^verbatim>\<open>GetCoin\<close> through the function \<open>base\<close>.
\<close>

definition FetchCoin ::
  "(CScript \<Rightarrow> u64) \<Rightarrow> (COutPoint \<Rightarrow> Coin option) \<Rightarrow> COutPoint \<Rightarrow> CCoinsViewCache \<Rightarrow> CCoinsCacheEntry option \<times> CCoinsViewCache" where
  "FetchCoin mu base op c =
    (case cc_cacheCoins c op of
       Some e \<Rightarrow> (Some e, c)
     | None \<Rightarrow> (case base op of
         None \<Rightarrow> (None, c)
       | Some coin \<Rightarrow>
          let c1 = c\<lparr>cc_cacheCoins := (cc_cacheCoins c)(op \<mapsto> new_entry\<lparr>ce_coin := coin\<rparr>)\<rparr>;
              c2 = add_usage (DynamicMemoryUsage mu coin) c1;
              c3 = (if Coin_IsSpent coin then SetFresh op c2 else c2) in
          (cc_cacheCoins c3 op, c3)))"

definition GetCoin ::
  "(CScript \<Rightarrow> u64) \<Rightarrow> (COutPoint \<Rightarrow> Coin option) \<Rightarrow> COutPoint \<Rightarrow> CCoinsViewCache \<Rightarrow> Coin option \<times> CCoinsViewCache" where
  "GetCoin mu base op c =
    (case FetchCoin mu base op c of (it, c') \<Rightarrow>
      (case it of Some e \<Rightarrow> if \<not> Coin_IsSpent (ce_coin e) then Some (ce_coin e) else None | None \<Rightarrow> None, c'))"

definition AddCoin ::
  "(CScript \<Rightarrow> u64) \<Rightarrow> COutPoint \<Rightarrow> Coin \<Rightarrow> bool \<Rightarrow> CCoinsViewCache \<Rightarrow> CCoinsViewCache cxx" where
  "AddCoin mu op coin possible_overwrite c =
    bindE (cxx_assert (\<not> Coin_IsSpent coin)) (\<lambda>_.
    if IsUnspendable (txout_scriptPubKey (coin_out coin)) then Inr c
    else
      let c1 = (case cc_cacheCoins c op of
                  None \<Rightarrow> c\<lparr>cc_cacheCoins := (cc_cacheCoins c)(op \<mapsto> new_entry)\<rparr>
                | Some e \<Rightarrow> sub_usage (DynamicMemoryUsage mu (ce_coin e)) c);
          e = (case cc_cacheCoins c op of None \<Rightarrow> new_entry | Some e \<Rightarrow> e) in
      if \<not> possible_overwrite \<and> \<not> Coin_IsSpent (ce_coin e) then Inl Logic_Error
      else
        let fresh = (\<not> possible_overwrite \<and> \<not> ce_dirty e);
            c2 = SetDirty op (set_coin op coin c1);
            c3 = (if fresh then SetFresh op c2 else c2) in
        Inr (add_usage (DynamicMemoryUsage mu coin) c3))"

definition EmplaceCoinInternalDANGER ::
  "(CScript \<Rightarrow> u64) \<Rightarrow> COutPoint \<Rightarrow> Coin \<Rightarrow> CCoinsViewCache \<Rightarrow> CCoinsViewCache" where
  "EmplaceCoinInternalDANGER mu op coin c =
    (let c1 = add_usage (DynamicMemoryUsage mu coin) c in
     case cc_cacheCoins c1 op of
       Some _ \<Rightarrow> c1
     | None \<Rightarrow> SetDirty op (c1\<lparr>cc_cacheCoins := (cc_cacheCoins c1)(op \<mapsto> new_entry\<lparr>ce_coin := coin\<rparr>)\<rparr>))"

text \<open>The result is the coin moved out, or nothing when the call returns false.\<close>

definition SpendCoin ::
  "(CScript \<Rightarrow> u64) \<Rightarrow> (COutPoint \<Rightarrow> Coin option) \<Rightarrow> COutPoint \<Rightarrow> CCoinsViewCache \<Rightarrow> Coin option \<times> CCoinsViewCache" where
  "SpendCoin mu base op c =
    (case FetchCoin mu base op c of (it, c') \<Rightarrow>
      (case it of None \<Rightarrow> (None, c')
       | Some e \<Rightarrow>
          let c1 = sub_usage (DynamicMemoryUsage mu (ce_coin e)) c';
              c2 = (if ce_fresh e then cache_erase op c1
                    else set_coin op (Coin_Clear (ce_coin e)) (SetDirty op c1)) in
          (Some (ce_coin e), c2)))"

definition AccessCoin ::
  "(CScript \<Rightarrow> u64) \<Rightarrow> (COutPoint \<Rightarrow> Coin option) \<Rightarrow> COutPoint \<Rightarrow> CCoinsViewCache \<Rightarrow> Coin \<times> CCoinsViewCache" where
  "AccessCoin mu base op c =
    (case FetchCoin mu base op c of (it, c') \<Rightarrow> (case it of None \<Rightarrow> coinEmpty | Some e \<Rightarrow> ce_coin e, c'))"

definition HaveCoin ::
  "(CScript \<Rightarrow> u64) \<Rightarrow> (COutPoint \<Rightarrow> Coin option) \<Rightarrow> COutPoint \<Rightarrow> CCoinsViewCache \<Rightarrow> bool \<times> CCoinsViewCache" where
  "HaveCoin mu base op c =
    (case FetchCoin mu base op c of (it, c') \<Rightarrow>
      (case it of None \<Rightarrow> False | Some e \<Rightarrow> \<not> Coin_IsSpent (ce_coin e), c'))"

definition HaveCoinInCache :: "COutPoint \<Rightarrow> CCoinsViewCache \<Rightarrow> bool" where
  "HaveCoinInCache op c = (case cc_cacheCoins c op of None \<Rightarrow> False | Some e \<Rightarrow> \<not> Coin_IsSpent (ce_coin e))"

definition GetBestBlock :: "uint256 \<Rightarrow> CCoinsViewCache \<Rightarrow> uint256 \<times> CCoinsViewCache" where
  "GetBestBlock base_best c =
    (let c' = (if uint256_IsNull (cc_hashBlock c) then c\<lparr>cc_hashBlock := base_best\<rparr> else c) in (cc_hashBlock c', c'))"

definition SetBestBlock :: "uint256 \<Rightarrow> CCoinsViewCache \<Rightarrow> CCoinsViewCache" where
  "SetBestBlock h c = c\<lparr>cc_hashBlock := h\<rparr>"

definition Uncache :: "(CScript \<Rightarrow> u64) \<Rightarrow> COutPoint \<Rightarrow> CCoinsViewCache \<Rightarrow> CCoinsViewCache" where
  "Uncache mu op c =
    (case cc_cacheCoins c op of None \<Rightarrow> c
     | Some e \<Rightarrow> if \<not> ce_dirty e \<and> \<not> ce_fresh e
        then cache_erase op (sub_usage (DynamicMemoryUsage mu (ce_coin e)) c) else c)"

fun have_inputs ::
  "(CScript \<Rightarrow> u64) \<Rightarrow> (COutPoint \<Rightarrow> Coin option) \<Rightarrow> CTxIn list \<Rightarrow> CCoinsViewCache \<Rightarrow> bool \<times> CCoinsViewCache" where
  "have_inputs mu base [] c = (True, c)"
| "have_inputs mu base (i # is) c =
    (case HaveCoin mu base (txin_prevout i) c of (b, c') \<Rightarrow> if b then have_inputs mu base is c' else (False, c'))"

definition HaveInputs ::
  "(CScript \<Rightarrow> u64) \<Rightarrow> (COutPoint \<Rightarrow> Coin option) \<Rightarrow> CTransaction \<Rightarrow> CCoinsViewCache \<Rightarrow> bool \<times> CCoinsViewCache" where
  "HaveInputs mu base tx c = (if \<not> IsCoinBase tx then have_inputs mu base (tx_vin tx) c else (True, c))"

subsection \<open>Writing back\<close>

text \<open>
  A cursor hands the flagged entries to the receiver in the order of the list. The receiver reads the
  entry and asks for the next one; the entry is then erased or unflagged in the sender, unless the
  sender wipes its map afterwards. Moving a coin instead of copying it makes no difference to either.
\<close>

type_synonym cursor = "(COutPoint \<times> CCoinsCacheEntry) list"

definition cursor_entries :: "CCoinsViewCache \<Rightarrow> cursor" where
  "cursor_entries c = map (\<lambda>op. (op, case cc_cacheCoins c op of Some e \<Rightarrow> e | None \<Rightarrow> new_entry)) (cc_flagged c)"

definition NextAndMaybeErase :: "(CScript \<Rightarrow> u64) \<Rightarrow> bool \<Rightarrow> COutPoint \<Rightarrow> CCoinsViewCache \<Rightarrow> CCoinsViewCache" where
  "NextAndMaybeErase mu will_erase op c =
    (if will_erase then c
     else case cc_cacheCoins c op of None \<Rightarrow> c
       | Some e \<Rightarrow> if Coin_IsSpent (ce_coin e) then cache_erase op (sub_usage (DynamicMemoryUsage mu (ce_coin e)) c)
          else SetClean op c)"

definition batch_entry :: "(CScript \<Rightarrow> u64) \<Rightarrow> COutPoint \<times> CCoinsCacheEntry \<Rightarrow> CCoinsViewCache \<Rightarrow> CCoinsViewCache cxx" where
  "batch_entry mu it us =
    (case it of (op, e) \<Rightarrow>
     if \<not> ce_dirty e then Inr us
     else case cc_cacheCoins us op of
       None \<Rightarrow>
         (if ce_fresh e \<and> Coin_IsSpent (ce_coin e) then Inr us
          else let u1 = us\<lparr>cc_cacheCoins := (cc_cacheCoins us)(op \<mapsto> new_entry\<lparr>ce_coin := ce_coin e\<rparr>)\<rparr>;
                   u2 = SetDirty op (add_usage (DynamicMemoryUsage mu (ce_coin e)) u1) in
               Inr (if ce_fresh e then SetFresh op u2 else u2))
     | Some itUs \<Rightarrow>
         (if ce_fresh e \<and> \<not> Coin_IsSpent (ce_coin itUs) then Inl Logic_Error
          else if ce_fresh itUs \<and> Coin_IsSpent (ce_coin e)
          then Inr (cache_erase op (sub_usage (DynamicMemoryUsage mu (ce_coin itUs)) us))
          else let u1 = set_coin op (ce_coin e) (sub_usage (DynamicMemoryUsage mu (ce_coin itUs)) us) in
               Inr (SetDirty op (add_usage (DynamicMemoryUsage mu (ce_coin e)) u1))))"

fun batch_loop :: "(CScript \<Rightarrow> u64) \<Rightarrow> cursor \<Rightarrow> CCoinsViewCache \<Rightarrow> CCoinsViewCache cxx" where
  "batch_loop mu [] us = Inr us"
| "batch_loop mu (it # its) us = bindE (batch_entry mu it us) (\<lambda>us'. batch_loop mu its us')"

definition BatchWrite :: "(CScript \<Rightarrow> u64) \<Rightarrow> cursor \<Rightarrow> uint256 \<Rightarrow> CCoinsViewCache \<Rightarrow> CCoinsViewCache cxx" where
  "BatchWrite mu its hashBlock us = bindE (batch_loop mu its us) (\<lambda>us'. Inr (us'\<lparr>cc_hashBlock := hashBlock\<rparr>))"

text \<open>
  \<^verbatim>\<open>Flush\<close> and \<^verbatim>\<open>Sync\<close> write to a base view of any kind, given by its own \<^verbatim>\<open>BatchWrite\<close>; the boolean is
  its return value.
\<close>

definition Flush ::
  "(cursor \<Rightarrow> uint256 \<Rightarrow> 'v \<Rightarrow> (bool \<times> 'v) cxx) \<Rightarrow> CCoinsViewCache \<Rightarrow> 'v \<Rightarrow> (bool \<times> CCoinsViewCache \<times> 'v) cxx" where
  "Flush write c base =
    bindE (write (cursor_entries c) (cc_hashBlock c) base) (\<lambda>(fOk, base').
    let c1 = (if fOk then c\<lparr>cc_cacheCoins := Map.empty, cc_flagged := []\<rparr> else c) in
    Inr (fOk, c1\<lparr>cc_cachedCoinsUsage := 0\<rparr>, base'))"

definition Sync ::
  "(CScript \<Rightarrow> u64) \<Rightarrow> (cursor \<Rightarrow> uint256 \<Rightarrow> 'v \<Rightarrow> (bool \<times> 'v) cxx) \<Rightarrow> CCoinsViewCache \<Rightarrow> 'v \<Rightarrow> (bool \<times> CCoinsViewCache \<times> 'v) cxx" where
  "Sync mu write c base =
    bindE (write (cursor_entries c) (cc_hashBlock c) base) (\<lambda>(fOk, base').
    let c1 = fold (NextAndMaybeErase mu False) (cc_flagged c) c in
    if fOk \<and> cc_flagged c1 \<noteq> [] then Inl Logic_Error else Inr (fOk, c1, base'))"

text \<open>The consistency check, with the unordered iteration over the map as a sum over its keys.\<close>

definition entry_attr_ok :: "CCoinsCacheEntry \<Rightarrow> bool" where
  "entry_attr_ok e =
    (let attr = (if ce_dirty e then 1 else 0) + (if ce_fresh e then 2 else 0) + (if Coin_IsSpent (ce_coin e) then 4 else 0 :: nat)
     in attr \<noteq> 2 \<and> attr \<noteq> 4 \<and> attr \<noteq> 7)"

definition SanityCheck :: "(CScript \<Rightarrow> u64) \<Rightarrow> CCoinsViewCache \<Rightarrow> unit cxx" where
  "SanityCheck mu c =
    (let flagged = (\<lambda>op. case cc_cacheCoins c op of None \<Rightarrow> False | Some e \<Rightarrow> ce_dirty e \<or> ce_fresh e) in
     bindE (cxx_assert (\<forall>e\<in>ran (cc_cacheCoins c). entry_attr_ok e)) (\<lambda>_.
     bindE (cxx_assert (\<forall>op\<in>set (cc_flagged c). flagged op)) (\<lambda>_.
     bindE (cxx_assert (length (cc_flagged c) = card {op \<in> dom (cc_cacheCoins c). flagged op})) (\<lambda>_.
     cxx_assert (cc_cachedCoinsUsage c =
       (\<Sum>op\<in>dom (cc_cacheCoins c). case cc_cacheCoins c op of None \<Rightarrow> 0 | Some e \<Rightarrow> DynamicMemoryUsage mu (ce_coin e)))))))"

subsection \<open>Primitive updates\<close>

named_theorems coin_simps \<open>effect of the primitive cache updates on the fields of a cache\<close>

lemma AddFlags_simps [simp, coin_simps]:
  "cc_cacheCoins (AddFlags d f op c) =
    (cc_cacheCoins c)(op := map_option (\<lambda>e. e\<lparr>ce_dirty := ce_dirty e \<or> d, ce_fresh := ce_fresh e \<or> f\<rparr>) (cc_cacheCoins c op))"
  "cc_cachedCoinsUsage (AddFlags d f op c) = cc_cachedCoinsUsage c"
  "cc_hashBlock (AddFlags d f op c) = cc_hashBlock c"
  by (auto simp: AddFlags_def fun_eq_iff split: option.splits)

lemma set_coin_simps [simp, coin_simps]:
  "cc_cacheCoins (set_coin op coin c) = (cc_cacheCoins c)(op := map_option (\<lambda>e. e\<lparr>ce_coin := coin\<rparr>) (cc_cacheCoins c op))"
  "cc_cachedCoinsUsage (set_coin op coin c) = cc_cachedCoinsUsage c"
  "cc_hashBlock (set_coin op coin c) = cc_hashBlock c"
  "cc_flagged (set_coin op coin c) = cc_flagged c"
  by (auto simp: set_coin_def fun_eq_iff split: option.splits)

lemma SetClean_simps [simp, coin_simps]:
  "cc_cacheCoins (SetClean op c) =
    (cc_cacheCoins c)(op := map_option (\<lambda>e. e\<lparr>ce_dirty := False, ce_fresh := False\<rparr>) (cc_cacheCoins c op))"
  "cc_cachedCoinsUsage (SetClean op c) = cc_cachedCoinsUsage c"
  "cc_hashBlock (SetClean op c) = cc_hashBlock c"
  by (auto simp: SetClean_def fun_eq_iff split: option.splits)

lemma cache_erase_simps [simp, coin_simps]:
  "cc_cacheCoins (cache_erase op c) = (cc_cacheCoins c)(op := None)"
  "cc_cachedCoinsUsage (cache_erase op c) = cc_cachedCoinsUsage c"
  "cc_hashBlock (cache_erase op c) = cc_hashBlock c"
  by (auto simp: cache_erase_def Let_def)

lemma usage_simps [simp, coin_simps]:
  "cc_cacheCoins (add_usage n c) = cc_cacheCoins c" "cc_flagged (add_usage n c) = cc_flagged c"
  "cc_hashBlock (add_usage n c) = cc_hashBlock c" "cc_cachedCoinsUsage (add_usage n c) = cc_cachedCoinsUsage c + n"
  "cc_cacheCoins (sub_usage n c) = cc_cacheCoins c" "cc_flagged (sub_usage n c) = cc_flagged c"
  "cc_hashBlock (sub_usage n c) = cc_hashBlock c" "cc_cachedCoinsUsage (sub_usage n c) = cc_cachedCoinsUsage c - n"
  by (simp_all add: add_usage_def sub_usage_def)

lemmas coin_defs = SetDirty_def SetFresh_def new_entry_def

lemma coinEmpty_spent [simp]: "Coin_IsSpent coinEmpty" "Coin_IsSpent (Coin_Clear c)"
  by (simp_all add: Coin_IsSpent_def coinEmpty_def CTxOut_IsNull_def CTxOut_null_def Coin_Clear_def)

lemma Coin_Clear_empty [simp]: "Coin_Clear (c :: Coin) = coinEmpty"
  by (simp add: Coin_Clear_def coinEmpty_def)

subsection \<open>The list of flagged entries\<close>

definition is_flagged :: "CCoinsCacheEntry option \<Rightarrow> bool" where
  "is_flagged x = (case x of None \<Rightarrow> False | Some e \<Rightarrow> ce_dirty e \<or> ce_fresh e)"

definition linked :: "CCoinsViewCache \<Rightarrow> bool" where
  "linked c \<longleftrightarrow> distinct (cc_flagged c) \<and> set (cc_flagged c) = {op. is_flagged (cc_cacheCoins c op)}"

lemma is_flagged_simps [simp]:
  "\<not> is_flagged None" "is_flagged (Some e) \<longleftrightarrow> ce_dirty e \<or> ce_fresh e"
  by (simp_all add: is_flagged_def)

lemma linked_AddFlags: "linked c \<Longrightarrow> d \<or> f \<Longrightarrow> linked (AddFlags d f op c)"
  by (auto simp: linked_def AddFlags_def split: option.splits if_splits)

lemma linked_SetClean: "linked c \<Longrightarrow> linked (SetClean op c)"
  by (auto simp: linked_def SetClean_def split: option.splits if_splits)

lemma linked_cache_erase:
  assumes "linked c"
  shows "linked (cache_erase op c)"
proof -
  let ?c = "SetClean op c"
  have "linked ?c" by (rule linked_SetClean [OF assms])
  moreover have "\<not> is_flagged (cc_cacheCoins ?c op)" by (cases "cc_cacheCoins c op") auto
  ultimately show ?thesis by (auto simp: linked_def cache_erase_def Let_def)
qed

lemma linked_set_coin: "linked c \<Longrightarrow> linked (set_coin op coin c)"
  by (auto simp: linked_def set_coin_def split: option.splits)

lemma linked_insert:
  "linked c \<Longrightarrow> cc_cacheCoins c op = None \<Longrightarrow> \<not> is_flagged (Some e) \<Longrightarrow>
    linked (c\<lparr>cc_cacheCoins := (cc_cacheCoins c)(op \<mapsto> e)\<rparr>)"
  by (auto simp: linked_def)

lemma linked_usage [simp]:
  "linked (add_usage n c) = linked c" "linked (sub_usage n c) = linked c"
  "linked (c\<lparr>cc_hashBlock := h\<rparr>) = linked c"
  by (simp_all add: linked_def)

lemmas linked_intros = linked_AddFlags linked_cache_erase linked_set_coin linked_insert

subsection \<open>Memory accounting\<close>

definition entry_usage :: "(CScript \<Rightarrow> u64) \<Rightarrow> CCoinsCacheEntry option \<Rightarrow> u64" where
  "entry_usage mu x = (case x of None \<Rightarrow> 0 | Some e \<Rightarrow> DynamicMemoryUsage mu (ce_coin e))"

definition map_usage :: "(CScript \<Rightarrow> u64) \<Rightarrow> (COutPoint \<Rightarrow> CCoinsCacheEntry option) \<Rightarrow> u64" where
  "map_usage mu m = (\<Sum>op\<in>dom m. entry_usage mu (m op))"

definition accounted :: "(CScript \<Rightarrow> u64) \<Rightarrow> CCoinsViewCache \<Rightarrow> bool" where
  "accounted mu c \<longleftrightarrow> finite (dom (cc_cacheCoins c)) \<and> cc_cachedCoinsUsage c = map_usage mu (cc_cacheCoins c)"

lemma entry_usage_simps [simp]:
  "entry_usage mu None = 0" "entry_usage mu (Some e) = DynamicMemoryUsage mu (ce_coin e)"
  by (simp_all add: entry_usage_def)

lemma map_usage_upd:
  assumes "finite (dom m)"
  shows "map_usage mu (m(op := x)) = map_usage mu m - entry_usage mu (m op) + entry_usage mu x"
proof -
  let ?f = "\<lambda>m. \<Sum>p\<in>dom m - {op}. entry_usage mu (m p)"
  have split: "map_usage mu m' = entry_usage mu (m' op) + ?f m'" if "finite (dom m')" for m'
    unfolding map_usage_def using that by (cases "op \<in> dom m'") (auto simp: sum.remove domIff)
  have "?f (m(op := x)) = ?f m" by (rule sum.cong) (auto split: if_splits)
  moreover have "finite (dom (m(op := x)))" using assms by simp
  ultimately show ?thesis using split [OF assms] split [of "m(op := x)"] by simp
qed

lemma accounted_upd:
  assumes "accounted mu c" "cc_cacheCoins c' = (cc_cacheCoins c)(op := x)"
    "cc_cachedCoinsUsage c' = cc_cachedCoinsUsage c - entry_usage mu (cc_cacheCoins c op) + entry_usage mu x"
  shows "accounted mu c'"
  using assms by (simp add: accounted_def map_usage_upd)

lemma usage_empty [simp]: "mu [] = 0 \<Longrightarrow> DynamicMemoryUsage mu coinEmpty = 0"
  by (simp add: DynamicMemoryUsage_def coinEmpty_def CTxOut_null_def)

subsection \<open>A cache as a map of unspent coins\<close>

definition base_ok :: "(COutPoint \<Rightarrow> Coin option) \<Rightarrow> bool" where
  "base_ok B \<longleftrightarrow> (\<forall>op coin. B op = Some coin \<longrightarrow> \<not> Coin_IsSpent coin)"

definition visible :: "Coin option \<Rightarrow> CCoinsCacheEntry option \<Rightarrow> Coin option" where
  "visible b x = (case x of None \<Rightarrow> b | Some e \<Rightarrow> if Coin_IsSpent (ce_coin e) then None else Some (ce_coin e))"

definition cache_view :: "(COutPoint \<Rightarrow> Coin option) \<Rightarrow> CCoinsViewCache \<Rightarrow> COutPoint \<Rightarrow> Coin option" where
  "cache_view B c op = visible (B op) (cc_cacheCoins c op)"

text \<open>
  What the flags of an entry promise about the base view: a fresh coin is unknown to the base, an
  entry that is not dirty repeats the coin of the base, and a spent entry is dirty and not fresh.
\<close>

definition entry_ok :: "Coin option \<Rightarrow> CCoinsCacheEntry \<Rightarrow> bool" where
  "entry_ok b e \<longleftrightarrow>
    (ce_fresh e \<longrightarrow> b = None \<and> ce_dirty e \<and> \<not> Coin_IsSpent (ce_coin e)) \<and>
    (\<not> ce_dirty e \<longrightarrow> b = Some (ce_coin e) \<and> \<not> Coin_IsSpent (ce_coin e))"

definition cache_inv :: "(CScript \<Rightarrow> u64) \<Rightarrow> (COutPoint \<Rightarrow> Coin option) \<Rightarrow> CCoinsViewCache \<Rightarrow> bool" where
  "cache_inv mu B c \<longleftrightarrow> linked c \<and> accounted mu c \<and> (\<forall>op e. cc_cacheCoins c op = Some e \<longrightarrow> entry_ok (B op) e)"

lemma visible_simps [simp]:
  "visible b None = b" "visible b (Some e) = (if Coin_IsSpent (ce_coin e) then None else Some (ce_coin e))"
  by (simp_all add: visible_def)

lemma base_ok_visible: "base_ok B \<Longrightarrow> base_ok (cache_view B c)"
  by (auto simp: base_ok_def cache_view_def visible_def split: option.splits if_splits)

lemma cache_view_upd:
  "cc_cacheCoins c' = (cc_cacheCoins c)(op := x) \<Longrightarrow> cache_view B c' = (cache_view B c)(op := visible (B op) x)"
  by (auto simp: cache_view_def fun_eq_iff)

lemma cache_invD:
  assumes "cache_inv mu B c" "cc_cacheCoins c op = Some e"
  shows "entry_ok (B op) e"
  using assms by (simp add: cache_inv_def)

lemma cache_inv_upd:
  assumes inv: "cache_inv mu B c" and m: "cc_cacheCoins c' = (cc_cacheCoins c)(op := x)"
    and u: "cc_cachedCoinsUsage c' = cc_cachedCoinsUsage c - entry_usage mu (cc_cacheCoins c op) + entry_usage mu x"
    and "linked c'" and e: "\<And>e. x = Some e \<Longrightarrow> entry_ok (B op) e"
  shows "cache_inv mu B c'"
  using assms accounted_upd [of mu c c' op x] by (auto simp: cache_inv_def)

subsection \<open>Reading, adding and spending\<close>

text \<open>A fetched entry is a copy of the coin in the base view.\<close>

lemma FetchCoin_ok:
  assumes inv: "cache_inv mu B c" and B: "base_ok B" and f: "FetchCoin mu B op c = (it, c')"
  shows "cache_inv mu B c'" "cache_view B c' = cache_view B c" "it = cc_cacheCoins c' op"
    "cache_view B c op = visible None it" "it = None \<longleftrightarrow> cc_cacheCoins c op = None \<and> B op = None"
    "cc_hashBlock c' = cc_hashBlock c"
proof -
  consider (hit) e where "cc_cacheCoins c op = Some e" "it = Some e" "c' = c"
    | (none) "cc_cacheCoins c op = None" "B op = None" "it = None" "c' = c"
    | (miss) coin where "cc_cacheCoins c op = None" "B op = Some coin"
      "it = Some (new_entry\<lparr>ce_coin := coin\<rparr>)"
      "c' = add_usage (DynamicMemoryUsage mu coin) (c\<lparr>cc_cacheCoins := (cc_cacheCoins c)(op \<mapsto> new_entry\<lparr>ce_coin := coin\<rparr>)\<rparr>)"
    using f B by (auto simp: FetchCoin_def Let_def base_ok_def split: option.splits if_splits)
  note cs = this
  show v: "cache_view B c' = cache_view B c" using cs
  proof cases
    case miss
    then have "\<not> Coin_IsSpent coin" using B by (auto simp: base_ok_def)
    then show ?thesis using miss by (auto simp: cache_view_def fun_eq_iff new_entry_def)
  qed simp_all
  show "cache_inv mu B c'" using cs
  proof cases
    case miss
    then have "\<not> Coin_IsSpent coin" using B by (auto simp: base_ok_def)
    then show ?thesis
      by (intro cache_inv_upd [OF inv, where op = op and x = it])
        (use inv miss in \<open>auto simp: cache_inv_def entry_ok_def new_entry_def intro: linked_insert\<close>)
  qed (use inv in simp_all)
  show "it = cc_cacheCoins c' op" using cs by cases simp_all
  show "it = None \<longleftrightarrow> cc_cacheCoins c op = None \<and> B op = None" using cs by cases simp_all
  show "cc_hashBlock c' = cc_hashBlock c" using cs by cases simp_all
  show "cache_view B c op = visible None it"
    using cs unfolding v [symmetric] cache_view_def by cases simp_all
qed

lemma GetCoin_ok:
  assumes "cache_inv mu B c" "base_ok B" "GetCoin mu B op c = (r, c')"
  shows "cache_inv mu B c'" "cache_view B c' = cache_view B c" "r = cache_view B c op"
proof -
  obtain it where f: "FetchCoin mu B op c = (it, c')" using assms(3) by (auto simp: GetCoin_def split: prod.splits)
  note F = FetchCoin_ok [OF assms(1,2) f]
  show "cache_inv mu B c'" "cache_view B c' = cache_view B c" by (rule F)+
  show "r = cache_view B c op" using assms(3) F(4) by (auto simp: GetCoin_def f visible_def split: option.splits)
qed

lemma HaveCoin_ok:
  assumes "cache_inv mu B c" "base_ok B" "HaveCoin mu B op c = (r, c')"
  shows "cache_inv mu B c'" "cache_view B c' = cache_view B c" "r \<longleftrightarrow> cache_view B c op \<noteq> None"
    "cc_hashBlock c' = cc_hashBlock c"
proof -
  obtain it where f: "FetchCoin mu B op c = (it, c')" using assms(3) by (auto simp: HaveCoin_def split: prod.splits)
  note F = FetchCoin_ok [OF assms(1,2) f]
  show "cache_inv mu B c'" "cache_view B c' = cache_view B c" "cc_hashBlock c' = cc_hashBlock c" by (rule F)+
  show "r \<longleftrightarrow> cache_view B c op \<noteq> None"
    using assms(3) F(4) by (auto simp: HaveCoin_def f visible_def split: option.splits)
qed

lemma AccessCoin_ok:
  assumes "cache_inv mu B c" "base_ok B" "AccessCoin mu B op c = (r, c')"
  shows "cache_inv mu B c'" "cache_view B c' = cache_view B c"
    "cache_view B c op = (if Coin_IsSpent r then None else Some r)" "cc_hashBlock c' = cc_hashBlock c"
proof -
  obtain it where f: "FetchCoin mu B op c = (it, c')" using assms(3) by (auto simp: AccessCoin_def split: prod.splits)
  note F = FetchCoin_ok [OF assms(1,2) f]
  show "cache_inv mu B c'" "cache_view B c' = cache_view B c" "cc_hashBlock c' = cc_hashBlock c" by (rule F)+
  show "cache_view B c op = (if Coin_IsSpent r then None else Some r)"
    using assms(3) F(4) by (auto simp: AccessCoin_def f visible_def split: option.splits)
qed

lemma have_inputs_ok:
  assumes "base_ok B"
  shows "cache_inv mu B c \<Longrightarrow> have_inputs mu B is c = (r, c') \<Longrightarrow>
    cache_inv mu B c' \<and> cache_view B c' = cache_view B c \<and>
    (r \<longleftrightarrow> (\<forall>i\<in>set is. cache_view B c (txin_prevout i) \<noteq> None))"
proof (induction "is" arbitrary: c)
  case (Cons i "is")
  obtain b c1 where h: "HaveCoin mu B (txin_prevout i) c = (b, c1)" by force
  note H = HaveCoin_ok [OF Cons.prems(1) assms h]
  show ?case
  proof (cases b)
    case True
    then show ?thesis using Cons.IH [OF H(1)] Cons.prems(2) h H by simp
  next
    case False
    then show ?thesis using Cons.prems(2) h H by auto
  qed
qed simp

lemma AddCoin_ok:
  assumes inv: "cache_inv mu B c" and mu: "mu [] = 0" and c: "\<not> Coin_IsSpent coin" "\<not> IsUnspendable (txout_scriptPubKey (coin_out coin))"
    and ow: "possible_overwrite \<or> cache_view B c op = None"
  obtains c' where "AddCoin mu op coin possible_overwrite c = Inr c'" "cache_inv mu B c'"
    "cache_view B c' = (cache_view B c)(op \<mapsto> coin)" "cc_hashBlock c' = cc_hashBlock c"
proof -
  define e where "e = (case cc_cacheCoins c op of None \<Rightarrow> new_entry | Some e \<Rightarrow> e)"
  define c1 where "c1 = (case cc_cacheCoins c op of
      None \<Rightarrow> c\<lparr>cc_cacheCoins := (cc_cacheCoins c)(op \<mapsto> new_entry)\<rparr>
    | Some e \<Rightarrow> sub_usage (DynamicMemoryUsage mu (ce_coin e)) c)"
  define fresh where "fresh = (\<not> possible_overwrite \<and> \<not> ce_dirty e)"
  define c3 where "c3 = (if fresh then SetFresh op (SetDirty op (set_coin op coin c1)) else SetDirty op (set_coin op coin c1))"
  have ok: "entry_ok (B op) e'" if "cc_cacheCoins c op = Some e'" for e' using cache_invD [OF inv that] .
  have sp: "possible_overwrite \<or> Coin_IsSpent (ce_coin e)"
    using ow by (auto simp: e_def cache_view_def visible_def new_entry_def split: option.splits if_splits)
  have m1: "cc_cacheCoins c1 = (cc_cacheCoins c)(op \<mapsto> e)" "cc_hashBlock c1 = cc_hashBlock c"
    "cc_cachedCoinsUsage c1 = cc_cachedCoinsUsage c - entry_usage mu (cc_cacheCoins c op)"
    by (auto simp: c1_def e_def fun_eq_iff mu split: option.splits)
  have l1: "linked c1" using inv
    by (auto simp: c1_def cache_inv_def new_entry_def intro: linked_insert split: option.splits)
  let ?x = "e\<lparr>ce_coin := coin, ce_dirty := True, ce_fresh := ce_fresh e \<or> fresh\<rparr>"
  have m3: "cc_cacheCoins c3 = (cc_cacheCoins c)(op \<mapsto> ?x)" "cc_cachedCoinsUsage c3 = cc_cachedCoinsUsage c1" "cc_hashBlock c3 = cc_hashBlock c"
    by (auto simp: c3_def coin_defs m1 fun_eq_iff)
  have l3: "linked c3" using l1 by (auto simp: c3_def coin_defs intro!: linked_AddFlags linked_set_coin)
  have "entry_ok (B op) ?x"
  proof -
    have "B op = None" if "ce_fresh e \<or> fresh"
    proof (cases "cc_cacheCoins c op")
      case None
      then show ?thesis using ow that by (auto simp: fresh_def e_def new_entry_def cache_view_def)
    next
      case (Some e')
      then show ?thesis using ok [OF Some] that sp by (auto simp: fresh_def e_def entry_ok_def)
    qed
    then show ?thesis using c by (auto simp: entry_ok_def)
  qed
  then have inv': "cache_inv mu B (add_usage (DynamicMemoryUsage mu coin) c3)"
    by (intro cache_inv_upd [OF inv, where op = op and x = "Some ?x"]) (auto simp: m3 m1 l3)
  have view: "cache_view B (add_usage (DynamicMemoryUsage mu coin) c3) = (cache_view B c)(op \<mapsto> coin)"
    using cache_view_upd [of "add_usage (DynamicMemoryUsage mu coin) c3" c op "Some ?x" B] c by (simp add: m3)
  have "AddCoin mu op coin possible_overwrite c = Inr (add_usage (DynamicMemoryUsage mu coin) c3)"
    using sp c by (auto simp: AddCoin_def Let_def c3_def fresh_def simp flip: e_def c1_def)
  then show thesis using inv' view m3(3) that by simp
qed

lemma AddCoin_unspendable:
  "\<not> Coin_IsSpent coin \<Longrightarrow> IsUnspendable (txout_scriptPubKey (coin_out coin)) \<Longrightarrow> AddCoin mu op coin ow c = Inr c"
  by (simp add: AddCoin_def)

lemma AddCoin_refuses:
  assumes "cc_cacheCoins c op = Some e" "\<not> Coin_IsSpent (ce_coin e)" "\<not> Coin_IsSpent coin"
    "\<not> IsUnspendable (txout_scriptPubKey (coin_out coin))"
  shows "AddCoin mu op coin False c = Inl Logic_Error"
  using assms by (simp add: AddCoin_def Let_def)

lemma SpendCoin_ok:
  assumes inv: "cache_inv mu B c" and B: "base_ok B" and mu: "mu [] = 0" and s: "SpendCoin mu B op c = (r, c')"
  shows "cache_inv mu B c'" "cache_view B c' = (cache_view B c)(op := None)"
    "r = (case cache_view B c op of Some coin \<Rightarrow> Some coin
          | None \<Rightarrow> if cc_cacheCoins c op = None then None else map_option ce_coin (cc_cacheCoins c op))"
    "cc_hashBlock c' = cc_hashBlock c"
proof -
  obtain it c1 where f: "FetchCoin mu B op c = (it, c1)" by force
  note F = FetchCoin_ok [OF inv B f]
  have r: "r = map_option ce_coin it" using s by (auto simp: SpendCoin_def f Let_def split: option.splits)
  show "r = (case cache_view B c op of Some coin \<Rightarrow> Some coin
          | None \<Rightarrow> if cc_cacheCoins c op = None then None else map_option ce_coin (cc_cacheCoins c op))"
  proof (cases "cc_cacheCoins c op")
    case None
    then have "it = None \<or> (\<exists>e. it = Some e \<and> \<not> Coin_IsSpent (ce_coin e))"
      using f B by (auto simp: FetchCoin_def Let_def base_ok_def new_entry_def split: option.splits)
    then show ?thesis using None F(4) r by auto
  next
    case (Some e)
    then have "it = Some e" using f by (simp add: FetchCoin_def)
    then show ?thesis using Some r F(4) by auto
  qed
  define c2 where "c2 e = sub_usage (DynamicMemoryUsage mu (ce_coin e)) c1" for e :: CCoinsCacheEntry
  have l: "linked c1" using F(1) by (simp add: cache_inv_def)
  consider (none) "it = None" "c' = c1"
    | (fresh) e where "it = Some e" "ce_fresh e" "c' = cache_erase op (c2 e)"
    | (keep) e where "it = Some e" "\<not> ce_fresh e" "c' = set_coin op (Coin_Clear (ce_coin e)) (SetDirty op (c2 e))"
    using s by (auto simp: SpendCoin_def f Let_def c2_def split: option.splits if_splits)
  then have "cache_inv mu B c' \<and> cache_view B c' = (cache_view B c)(op := None) \<and> cc_hashBlock c' = cc_hashBlock c"
  proof cases
    case none
    then show ?thesis using F by (auto simp: fun_eq_iff)
  next
    case fresh
    have m: "cc_cacheCoins c' = (cc_cacheCoins c1)(op := None)" by (simp add: fresh c2_def)
    have e: "cc_cacheCoins c1 op = Some e" using F(3) fresh by simp
    have b: "B op = None" using cache_invD [OF F(1) e] fresh by (simp add: entry_ok_def)
    have "cache_inv mu B c'"
      by (rule cache_inv_upd [OF F(1) m]) (use l e in \<open>auto simp: fresh c2_def intro: linked_cache_erase\<close>)
    moreover have "cache_view B c' = (cache_view B c)(op := None)" using cache_view_upd [OF m, of B] F(2) b by simp
    ultimately show ?thesis using fresh F(6) by (simp add: c2_def)
  next
    case keep
    have e: "cc_cacheCoins c1 op = Some e" using F(3) keep by simp
    have m: "cc_cacheCoins c' = (cc_cacheCoins c1)(op \<mapsto> e\<lparr>ce_coin := coinEmpty, ce_dirty := True\<rparr>)"
      by (auto simp: keep c2_def coin_defs e fun_eq_iff)
    have "cache_inv mu B c'"
      by (rule cache_inv_upd [OF F(1) m])
        (use l e keep mu in \<open>auto simp: c2_def coin_defs entry_ok_def intro!: linked_AddFlags linked_set_coin\<close>)
    moreover have "cache_view B c' = (cache_view B c)(op := None)" using cache_view_upd [OF m, of B] F(2) by simp
    ultimately show ?thesis using keep F(6) by (simp add: c2_def coin_defs)
  qed
  then show "cache_inv mu B c'" "cache_view B c' = (cache_view B c)(op := None)" "cc_hashBlock c' = cc_hashBlock c"
    by blast+
qed

lemma Uncache_ok:
  assumes inv: "cache_inv mu B c"
  shows "cache_inv mu B (Uncache mu op c)" "cache_view B (Uncache mu op c) = cache_view B c"
proof -
  consider (same) "Uncache mu op c = c"
    | (gone) e where "cc_cacheCoins c op = Some e" "\<not> ce_dirty e"
      "Uncache mu op c = cache_erase op (sub_usage (DynamicMemoryUsage mu (ce_coin e)) c)"
  proof (cases "\<exists>e. cc_cacheCoins c op = Some e \<and> \<not> ce_dirty e \<and> \<not> ce_fresh e")
    case True
    then show thesis using gone by (auto simp: Uncache_def)
  next
    case False
    then have "Uncache mu op c = c" by (auto simp: Uncache_def split: option.splits)
    then show thesis by (rule same)
  qed
  then have "cache_inv mu B (Uncache mu op c) \<and> cache_view B (Uncache mu op c) = cache_view B c"
  proof cases
    case gone
    have m: "cc_cacheCoins (Uncache mu op c) = (cc_cacheCoins c)(op := None)" by (simp add: gone)
    have ok: "B op = Some (ce_coin e)" "\<not> Coin_IsSpent (ce_coin e)"
      using cache_invD [OF inv gone(1)] gone(2) by (auto simp: entry_ok_def)
    have "linked c" using inv by (simp add: cache_inv_def)
    then have "cache_inv mu B (Uncache mu op c)"
      by (intro cache_inv_upd [OF inv m]) (use gone in \<open>auto intro: linked_cache_erase\<close>)
    then show ?thesis
      using cache_view_upd [OF m, of B] ok gone(1) by (auto simp: cache_view_def fun_eq_iff)
  qed (use inv in simp)
  then show "cache_inv mu B (Uncache mu op c)" "cache_view B (Uncache mu op c) = cache_view B c" by blast+
qed

lemma new_cache_ok: "cache_inv mu B new_CCoinsViewCache" "cache_view B new_CCoinsViewCache = B"
  by (auto simp: cache_inv_def new_CCoinsViewCache_def linked_def accounted_def map_usage_def cache_view_def fun_eq_iff)

lemma SanityCheck_ok:
  assumes "cache_inv mu B c"
  shows "SanityCheck mu c = Inr ()"
proof -
  let ?m = "cc_cacheCoins c"
  have l: "linked c" and a: "accounted mu c" using assms by (simp_all add: cache_inv_def)
  have fl: "(case ?m op of None \<Rightarrow> False | Some e \<Rightarrow> ce_dirty e \<or> ce_fresh e) = is_flagged (?m op)" for op
    by (simp add: is_flagged_def)
  have us: "(case ?m op of None \<Rightarrow> 0 | Some e \<Rightarrow> DynamicMemoryUsage mu (ce_coin e)) = entry_usage mu (?m op)" for op
    by (simp add: entry_usage_def)
  have "entry_attr_ok e" if "e \<in> ran ?m" for e
    using that assms by (auto simp: ran_def cache_inv_def entry_ok_def entry_attr_ok_def)
  moreover have "{op \<in> dom ?m. is_flagged (?m op)} = set (cc_flagged c)"
    using l by (auto simp: linked_def is_flagged_def domIff split: option.splits)
  then have "length (cc_flagged c) = card {op \<in> dom ?m. is_flagged (?m op)}"
    using l by (metis linked_def distinct_card)
  moreover have "\<forall>op\<in>set (cc_flagged c). is_flagged (?m op)" using l by (simp add: linked_def)
  moreover have "cc_cachedCoinsUsage c = (\<Sum>op\<in>dom ?m. entry_usage mu (?m op))"
    using a by (simp add: accounted_def map_usage_def)
  ultimately show ?thesis by (simp add: SanityCheck_def Let_def fl us)
qed

subsection \<open>The contract of a base view\<close>

text \<open>What a batch of entries makes of a map of unspent coins, and which batches are admissible.\<close>

definition flushed :: "(COutPoint \<Rightarrow> Coin option) \<Rightarrow> cursor \<Rightarrow> COutPoint \<Rightarrow> Coin option" where
  "flushed V its op = (case map_of its op of None \<Rightarrow> V op | Some e \<Rightarrow> if ce_dirty e then visible None (Some e) else V op)"

definition cursor_ok :: "(COutPoint \<Rightarrow> Coin option) \<Rightarrow> cursor \<Rightarrow> bool" where
  "cursor_ok V its \<longleftrightarrow> distinct (map fst its) \<and> (\<forall>(op, e)\<in>set its. entry_ok (V op) e)"

locale coins_view =
  fixes get_coin :: "'v \<Rightarrow> COutPoint \<Rightarrow> Coin option"
    and batch_write :: "cursor \<Rightarrow> uint256 \<Rightarrow> 'v \<Rightarrow> (bool \<times> 'v) cxx"
    and view_ok :: "'v \<Rightarrow> bool"
    and tip_ok :: "'v \<Rightarrow> uint256 \<Rightarrow> bool"
  assumes unspent: "view_ok v \<Longrightarrow> base_ok (get_coin v)"
    and written: "view_ok v \<Longrightarrow> tip_ok v h \<Longrightarrow> cursor_ok (get_coin v) its \<Longrightarrow>
      \<exists>v'. batch_write its h v = Inr (True, v') \<and> view_ok v' \<and> get_coin v' = flushed (get_coin v) its"

lemma cursor_entries_ok:
  assumes inv: "cache_inv mu V c"
  shows "cursor_ok V (cursor_entries c)" "flushed V (cursor_entries c) = cache_view V c"
proof -
  let ?e = "\<lambda>op. case cc_cacheCoins c op of Some e \<Rightarrow> e | None \<Rightarrow> new_entry"
  have l: "linked c" using inv by (simp add: cache_inv_def)
  have ex: "\<exists>e. cc_cacheCoins c op = Some e" if "op \<in> set (cc_flagged c)" for op
    using l that by (auto simp: linked_def is_flagged_def split: option.splits)
  show "cursor_ok V (cursor_entries c)"
    using l ex cache_invD [OF inv] by (fastforce simp: cursor_ok_def cursor_entries_def linked_def o_def)
  show "flushed V (cursor_entries c) = cache_view V c"
  proof
    fix op
    have m: "map_of (cursor_entries c) op = (if op \<in> set (cc_flagged c) then Some (?e op) else None)"
      by (auto simp: cursor_entries_def map_of_map_restrict [unfolded o_def] restrict_map_def)
    show "flushed V (cursor_entries c) op = cache_view V c op"
    proof (cases "cc_cacheCoins c op")
      case None
      then have "op \<notin> set (cc_flagged c)" using ex by fastforce
      then show ?thesis using None m by (simp add: flushed_def cache_view_def)
    next
      case (Some e)
      then show ?thesis using m l cache_invD [OF inv Some]
        by (auto simp: flushed_def cache_view_def linked_def entry_ok_def)
    qed
  qed
qed

subsection \<open>A cache as the base of another cache\<close>

lemma batch_entry_ok:
  assumes inv: "cache_inv mu B us" and B: "base_ok B" and mu: "mu [] = 0" and ok: "entry_ok (cache_view B us op) e"
  obtains us' where "batch_entry mu (op, e) us = Inr us'" "cache_inv mu B us'"
    "cache_view B us' = (cache_view B us)(op := if ce_dirty e then visible None (Some e) else cache_view B us op)"
proof -
  have l: "linked us" using inv by (simp add: cache_inv_def)
  consider (clean) "\<not> ce_dirty e"
    | (new) "ce_dirty e" "cc_cacheCoins us op = None"
    | (drop) itUs where "ce_dirty e" "cc_cacheCoins us op = Some itUs" "ce_fresh itUs \<and> Coin_IsSpent (ce_coin e)"
    | (change) itUs where "ce_dirty e" "cc_cacheCoins us op = Some itUs" "\<not> (ce_fresh itUs \<and> Coin_IsSpent (ce_coin e))"
    by (cases "cc_cacheCoins us op") auto
  then show thesis
  proof cases
    case clean
    then show thesis using inv that [of us] by (simp add: batch_entry_def)
  next
    case new
    let ?u1 = "us\<lparr>cc_cacheCoins := (cc_cacheCoins us)(op \<mapsto> new_entry\<lparr>ce_coin := ce_coin e\<rparr>)\<rparr>"
    let ?u2 = "SetDirty op (add_usage (DynamicMemoryUsage mu (ce_coin e)) ?u1)"
    let ?u = "if ce_fresh e then SetFresh op ?u2 else ?u2"
    have b: "batch_entry mu (op, e) us = Inr ?u"
      using new ok by (auto simp: batch_entry_def entry_ok_def Let_def)
    have m: "cc_cacheCoins ?u = (cc_cacheCoins us)(op \<mapsto> \<lparr>ce_coin = ce_coin e, ce_dirty = True, ce_fresh = ce_fresh e\<rparr>)"
      by (auto simp: coin_defs fun_eq_iff)
    have "linked ?u" using l new by (auto simp: coin_defs intro!: linked_AddFlags linked_insert)
    then have "cache_inv mu B ?u"
      by (intro cache_inv_upd [OF inv m]) (use new ok in \<open>auto simp: coin_defs entry_ok_def cache_view_def\<close>)
    moreover have "cache_view B ?u = (cache_view B us)(op := visible None (Some e))"
      using cache_view_upd [OF m, of B] by simp
    ultimately show thesis using b new that by simp
  next
    case drop
    let ?u = "cache_erase op (sub_usage (DynamicMemoryUsage mu (ce_coin itUs)) us)"
    have n: "B op = None" "\<not> Coin_IsSpent (ce_coin itUs)"
      using cache_invD [OF inv drop(2)] drop(3) by (auto simp: entry_ok_def)
    have b: "batch_entry mu (op, e) us = Inr ?u"
      using drop ok n by (auto simp: batch_entry_def entry_ok_def cache_view_def)
    have m: "cc_cacheCoins ?u = (cc_cacheCoins us)(op := None)" by simp
    have "cache_inv mu B ?u"
      by (rule cache_inv_upd [OF inv m]) (use l drop in \<open>auto intro: linked_cache_erase\<close>)
    moreover have "cache_view B ?u = (cache_view B us)(op := visible None (Some e))"
      using cache_view_upd [OF m, of B] drop n by simp
    ultimately show thesis using b drop that by simp
  next
    case change
    let ?u1 = "set_coin op (ce_coin e) (sub_usage (DynamicMemoryUsage mu (ce_coin itUs)) us)"
    let ?u = "SetDirty op (add_usage (DynamicMemoryUsage mu (ce_coin e)) ?u1)"
    have b: "batch_entry mu (op, e) us = Inr ?u"
      using change ok by (auto simp: batch_entry_def entry_ok_def cache_view_def Let_def split: if_splits)
    have m: "cc_cacheCoins ?u = (cc_cacheCoins us)(op \<mapsto> itUs\<lparr>ce_coin := ce_coin e, ce_dirty := True\<rparr>)"
      using change by (auto simp: coin_defs fun_eq_iff)
    have "linked ?u" using l by (auto simp: coin_defs intro!: linked_AddFlags linked_set_coin)
    then have "cache_inv mu B ?u"
      by (intro cache_inv_upd [OF inv m])
        (use change cache_invD [OF inv change(2)] in \<open>auto simp: coin_defs entry_ok_def\<close>)
    moreover have "cache_view B ?u = (cache_view B us)(op := visible None (Some e))"
      using cache_view_upd [OF m, of B] by simp
    ultimately show thesis using b change that by simp
  qed
qed

lemma flushed_Cons:
  assumes "fst it \<notin> fst ` set its"
  shows "flushed V (it # its) = flushed (V(fst it := if ce_dirty (snd it) then visible None (Some (snd it)) else V (fst it))) its"
proof
  fix op
  have "map_of its (fst it) = None" using assms by (simp add: map_of_eq_None_iff)
  then show "flushed V (it # its) op = flushed (V(fst it := if ce_dirty (snd it) then visible None (Some (snd it)) else V (fst it))) its op"
    by (cases "op = fst it"; cases it) (auto simp: flushed_def split: option.splits)
qed

lemma batch_loop_ok:
  assumes B: "base_ok B" and mu: "mu [] = 0"
  shows "cache_inv mu B us \<Longrightarrow> cursor_ok (cache_view B us) its \<Longrightarrow>
    \<exists>us'. batch_loop mu its us = Inr us' \<and> cache_inv mu B us' \<and> cache_view B us' = flushed (cache_view B us) its"
proof (induction its arbitrary: us)
  case Nil
  then show ?case by (auto simp: flushed_def fun_eq_iff)
next
  case (Cons it its)
  obtain op e where it: "it = (op, e)" by force
  from Cons.prems(2) have ok: "entry_ok (cache_view B us op) e" and d: "op \<notin> fst ` set its" and rest: "cursor_ok (cache_view B us) its"
    by (auto simp: cursor_ok_def it)
  obtain us1 where u: "batch_entry mu it us = Inr us1" "cache_inv mu B us1"
    "cache_view B us1 = (cache_view B us)(op := if ce_dirty e then visible None (Some e) else cache_view B us op)"
    using batch_entry_ok [OF Cons.prems(1) B mu ok] unfolding it by blast
  have "cursor_ok (cache_view B us1) its" unfolding cursor_ok_def
  proof
    show "distinct (map fst its)" using rest by (simp add: cursor_ok_def)
    show "\<forall>(op', e')\<in>set its. entry_ok (cache_view B us1 op') e'"
    proof (clarify)
      fix op' e'
      assume i: "(op', e') \<in> set its"
      then have "op' \<noteq> op" using d by force
      then show "entry_ok (cache_view B us1 op') e'" using rest i unfolding u(3) by (auto simp: cursor_ok_def)
    qed
  qed
  then obtain us' where "batch_loop mu its us1 = Inr us'" "cache_inv mu B us'"
      "cache_view B us' = flushed (cache_view B us1) its"
    using Cons.IH [OF u(2)] by blast
  then show ?case using u flushed_Cons [of it its "cache_view B us"] d by (auto simp: it)
qed

definition layer_write :: "(CScript \<Rightarrow> u64) \<Rightarrow> cursor \<Rightarrow> uint256 \<Rightarrow>
    (COutPoint \<Rightarrow> Coin option) \<times> CCoinsViewCache \<Rightarrow> (bool \<times> (COutPoint \<Rightarrow> Coin option) \<times> CCoinsViewCache) cxx" where
  "layer_write mu its h v = (case v of (B, us) \<Rightarrow> bindE (BatchWrite mu its h us) (\<lambda>us'. Inr (True, B, us')))"

interpretation cache_layer: coins_view "\<lambda>(B, c). cache_view B c" "layer_write mu"
  "\<lambda>(B, c). base_ok B \<and> mu [] = 0 \<and> cache_inv mu B c" "\<lambda>_ _. True" for mu
proof unfold_locales
  fix v :: "(COutPoint \<Rightarrow> Coin option) \<times> CCoinsViewCache"
  assume "case v of (B, c) \<Rightarrow> base_ok B \<and> mu [] = 0 \<and> cache_inv mu B c"
  then show "base_ok (case v of (B, c) \<Rightarrow> cache_view B c)" by (auto simp: base_ok_visible)
next
  fix v :: "(COutPoint \<Rightarrow> Coin option) \<times> CCoinsViewCache" and h its
  assume v: "case v of (B, c) \<Rightarrow> base_ok B \<and> mu [] = 0 \<and> cache_inv mu B c"
    and c: "cursor_ok (case v of (B, c) \<Rightarrow> cache_view B c) its"
  obtain B us where "v = (B, us)" by force
  then obtain us' where u: "v = (B, us)" "base_ok B" "mu [] = 0" "batch_loop mu its us = Inr us'" "cache_inv mu B us'"
      "cache_view B us' = flushed (cache_view B us) its"
    using batch_loop_ok [of B mu us its] v c by auto
  have "cache_inv mu B (us'\<lparr>cc_hashBlock := h\<rparr>)" "cache_view B (us'\<lparr>cc_hashBlock := h\<rparr>) = cache_view B us'"
    using u(5) by (auto simp: cache_inv_def accounted_def cache_view_def fun_eq_iff)
  then show "\<exists>v'. layer_write mu its h v = Inr (True, v') \<and> (case v' of (B, c) \<Rightarrow> base_ok B \<and> mu [] = 0 \<and> cache_inv mu B c) \<and>
      (case v' of (B, c) \<Rightarrow> cache_view B c) = flushed (case v of (B, c) \<Rightarrow> cache_view B c) its"
    using u by (auto simp: layer_write_def BatchWrite_def)
qed

subsection \<open>Flushing and synchronising over any base view\<close>

definition cleaned :: "CCoinsCacheEntry option \<Rightarrow> CCoinsCacheEntry option" where
  "cleaned x = (case x of None \<Rightarrow> None
    | Some e \<Rightarrow> if \<not> (ce_dirty e \<or> ce_fresh e) then x
        else if Coin_IsSpent (ce_coin e) then None else Some (e\<lparr>ce_dirty := False, ce_fresh := False\<rparr>))"

lemma sync_entry:
  assumes l: "linked c" and a: "accounted mu c" and op: "op \<in> set (cc_flagged c)"
  defines "n \<equiv> NextAndMaybeErase mu False op c"
  shows "linked n" "accounted mu n" "cc_flagged n = remove1 op (cc_flagged c)"
    "cc_cacheCoins n = (cc_cacheCoins c)(op := cleaned (cc_cacheCoins c op))"
proof -
  obtain e where e: "cc_cacheCoins c op = Some e" "ce_dirty e \<or> ce_fresh e"
    using l op by (auto simp: linked_def is_flagged_def split: option.splits)
  show m: "cc_cacheCoins n = (cc_cacheCoins c)(op := cleaned (cc_cacheCoins c op))"
    using e by (simp add: n_def NextAndMaybeErase_def cleaned_def)
  show "linked n" using l e by (auto simp: n_def NextAndMaybeErase_def intro: linked_cache_erase linked_SetClean)
  show "accounted mu n"
    by (rule accounted_upd [OF a m]) (use e in \<open>auto simp: n_def NextAndMaybeErase_def cleaned_def\<close>)
  show "cc_flagged n = remove1 op (cc_flagged c)"
    using e by (auto simp: n_def NextAndMaybeErase_def cache_erase_def SetClean_def Let_def)
qed

lemma sync_fold:
  assumes "linked c" "accounted mu c" "cc_flagged c = ops"
  shows "linked (fold (NextAndMaybeErase mu False) ops c) \<and> accounted mu (fold (NextAndMaybeErase mu False) ops c) \<and>
    cc_flagged (fold (NextAndMaybeErase mu False) ops c) = [] \<and>
    cc_cacheCoins (fold (NextAndMaybeErase mu False) ops c) = (\<lambda>op. cleaned (cc_cacheCoins c op))"
  using assms
proof (induction ops arbitrary: c)
  case Nil
  then have nf: "\<not> is_flagged (cc_cacheCoins c op)" for op by (auto simp: linked_def)
  have "cleaned (cc_cacheCoins c op) = cc_cacheCoins c op" for op
    using nf [of op] by (cases "cc_cacheCoins c op") (simp_all add: cleaned_def)
  then show ?case using Nil by (simp add: fun_eq_iff)
next
  case (Cons op ops)
  let ?n = "NextAndMaybeErase mu False op c"
  have S: "linked ?n" "accounted mu ?n" "cc_flagged ?n = ops"
    "cc_cacheCoins ?n = (cc_cacheCoins c)(op := cleaned (cc_cacheCoins c op))"
    using sync_entry [OF Cons.prems(1,2), of op] Cons.prems(3) by simp_all
  have "cleaned (cleaned x) = cleaned x" for x by (auto simp: cleaned_def split: option.splits)
  then show ?case using Cons.IH [OF S(1-3)] S(4) by (auto simp: fun_eq_iff)
qed

context coins_view
begin

lemma flush_keeps_view:
  assumes c: "cache_inv mu (get_coin v) c" and v: "view_ok v" "tip_ok v (cc_hashBlock c)"
  obtains c' v' where "Flush batch_write c v = Inr (True, c', v')" "view_ok v'"
    "cc_cacheCoins c' = Map.empty" "cache_inv mu (get_coin v') c'"
    "get_coin v' = cache_view (get_coin v) c" "cache_view (get_coin v') c' = cache_view (get_coin v) c"
proof -
  note C = cursor_entries_ok [OF c]
  obtain v' where v': "batch_write (cursor_entries c) (cc_hashBlock c) v = Inr (True, v')" "view_ok v'"
      "get_coin v' = cache_view (get_coin v) c"
    using written [OF v C(1)] C(2) by auto
  let ?c = "c\<lparr>cc_cacheCoins := Map.empty, cc_flagged := [], cc_cachedCoinsUsage := 0\<rparr>"
  have "Flush batch_write c v = Inr (True, ?c, v')" using v'(1) by (simp add: Flush_def)
  moreover have "cache_inv mu (get_coin v') ?c"
    by (simp add: cache_inv_def linked_def accounted_def map_usage_def)
  moreover have "cache_view (get_coin v') ?c = get_coin v'" by (simp add: cache_view_def fun_eq_iff)
  ultimately show thesis using v' that by simp
qed

lemma sync_keeps_view:
  assumes c: "cache_inv mu (get_coin v) c" and v: "view_ok v" "tip_ok v (cc_hashBlock c)"
  obtains c' v' where "Sync mu batch_write c v = Inr (True, c', v')" "view_ok v'" "cc_flagged c' = []"
    "cache_inv mu (get_coin v') c'" "get_coin v' = cache_view (get_coin v) c"
    "cache_view (get_coin v') c' = cache_view (get_coin v) c"
proof -
  note C = cursor_entries_ok [OF c]
  obtain v' where v': "batch_write (cursor_entries c) (cc_hashBlock c) v = Inr (True, v')" "view_ok v'"
      "get_coin v' = cache_view (get_coin v) c"
    using written [OF v C(1)] C(2) by auto
  define c' where "c' = fold (NextAndMaybeErase mu False) (cc_flagged c) c"
  have l: "linked c" "accounted mu c" using c by (simp_all add: cache_inv_def)
  have f: "linked c'" "accounted mu c'" "cc_flagged c' = []" "cc_cacheCoins c' = (\<lambda>op. cleaned (cc_cacheCoins c op))"
    using sync_fold [OF l refl] unfolding c'_def by auto
  have e: "cc_cacheCoins c' op = Some e \<Longrightarrow> get_coin v' op = Some (ce_coin e) \<and> \<not> ce_dirty e \<and> \<not> ce_fresh e \<and> \<not> Coin_IsSpent (ce_coin e)"
    for op e
    using cache_invD [OF c, of op] unfolding f(4) v'(3)
    by (auto simp: cleaned_def cache_view_def entry_ok_def split: option.splits if_splits)
  have "cache_inv mu (get_coin v') c'" using f e by (fastforce simp: cache_inv_def entry_ok_def)
  moreover have "cache_view (get_coin v') c' = get_coin v'"
    using e by (auto simp: cache_view_def visible_def fun_eq_iff split: option.splits)
  moreover have "Sync mu batch_write c v = Inr (True, c', v')"
    using v'(1) f(3) by (simp add: Sync_def c'_def [symmetric])
  ultimately show thesis using v' f(3) that by simp
qed

end

end
