(* ===== verification/Script_Core.thy ===== *)
theory Script_Core
  imports Primitives Coins
begin

text \<open>
  Scripts as byte strings: the instruction reader, pushes, number encoding and the classification of
  output scripts in \<^verbatim>\<open>src/src/script/script.h\<close> and \<^verbatim>\<open>src/src/script/script.cpp\<close>, and the counting of signature
  operations in \<^verbatim>\<open>src/src/script/interpreter.cpp\<close>. An iterator is the rest of the script it stands before.
  The theory shows that pushed data is read back and the push is minimal, that script numbers have exactly
  one minimal encoding, and bounds on the count of signature operations.
\<close>

unbundle bit_operations_syntax

subsection \<open>Instructions\<close>

definition OP_0 :: byte where "OP_0 = 0x00"
definition OP_PUSHDATA1 :: byte where "OP_PUSHDATA1 = 0x4c"
definition OP_PUSHDATA2 :: byte where "OP_PUSHDATA2 = 0x4d"
definition OP_PUSHDATA4 :: byte where "OP_PUSHDATA4 = 0x4e"
definition OP_1NEGATE :: byte where "OP_1NEGATE = 0x4f"
definition OP_1 :: byte where "OP_1 = 0x51"
definition OP_16 :: byte where "OP_16 = 0x60"
definition OP_RETURN :: byte where "OP_RETURN = 0x6a"
definition OP_EQUAL :: byte where "OP_EQUAL = 0x87"
definition OP_HASH160 :: byte where "OP_HASH160 = 0xa9"
definition OP_CHECKSIG :: byte where "OP_CHECKSIG = 0xac"
definition OP_CHECKSIGVERIFY :: byte where "OP_CHECKSIGVERIFY = 0xad"
definition OP_CHECKMULTISIG :: byte where "OP_CHECKMULTISIG = 0xae"
definition OP_CHECKMULTISIGVERIFY :: byte where "OP_CHECKMULTISIGVERIFY = 0xaf"
definition MAX_OPCODE :: byte where "MAX_OPCODE = 0xb9"
definition OP_INVALIDOPCODE :: byte where "OP_INVALIDOPCODE = 0xff"
definition MAX_SCRIPT_ELEMENT_SIZE :: nat where "MAX_SCRIPT_ELEMENT_SIZE = 520"
definition MAX_PUBKEYS_PER_MULTISIG :: u32 where "MAX_PUBKEYS_PER_MULTISIG = 20"

lemmas opcode_defs = OP_0_def OP_PUSHDATA1_def OP_PUSHDATA2_def OP_PUSHDATA4_def OP_1NEGATE_def OP_1_def OP_16_def
  OP_RETURN_def OP_EQUAL_def OP_HASH160_def OP_CHECKSIG_def OP_CHECKSIGVERIFY_def OP_CHECKMULTISIG_def
  OP_CHECKMULTISIGVERIFY_def MAX_OPCODE_def OP_INVALIDOPCODE_def

text \<open>The size of the operand of a push, and what follows it.\<close>

definition push_size :: "byte \<Rightarrow> bytes \<Rightarrow> (nat \<times> bytes) option" where
  "push_size opcode pc =
    (if opcode < OP_PUSHDATA1 then Some (unat opcode, pc)
     else if opcode = OP_PUSHDATA1 then if length pc < 1 then None else Some (unat (hd pc), tl pc)
     else if opcode = OP_PUSHDATA2 then if length pc < 2 then None else Some (unat (ReadLE16 pc), drop 2 pc)
     else if length pc < 4 then None else Some (unat (ReadLE32 pc), drop 4 pc))"

definition GetScriptOp :: "bytes \<Rightarrow> (byte \<times> bytes \<times> bytes) option" where
  "GetScriptOp pc =
    (case pc of [] \<Rightarrow> None
     | opcode # pc1 \<Rightarrow>
        if opcode \<le> OP_PUSHDATA4 then
          (case push_size opcode pc1 of None \<Rightarrow> None
           | Some (nSize, pc2) \<Rightarrow> if length pc2 < nSize then None else Some (opcode, take nSize pc2, drop nSize pc2))
        else Some (opcode, [], pc1))"

lemma GetScriptOp_progress: "GetScriptOp pc = Some (opcode, vch, rest) \<Longrightarrow> length rest < length pc"
  by (auto simp: GetScriptOp_def push_size_def split: list.splits if_splits option.splits prod.splits)

definition DecodeOP_N :: "byte \<Rightarrow> int cxx" where
  "DecodeOP_N opcode =
    (if opcode = OP_0 then Inr 0
     else bindE (cxx_assert (opcode \<ge> OP_1 \<and> opcode \<le> OP_16)) (\<lambda>_. Inr (uint opcode - (uint OP_1 - 1))))"

definition EncodeOP_N :: "int \<Rightarrow> byte cxx" where
  "EncodeOP_N n = bindE (cxx_assert (n \<ge> 0 \<and> n \<le> 16)) (\<lambda>_. Inr (if n = 0 then OP_0 else of_int (uint OP_1 + n - 1)))"

definition IsOpSuccess :: "byte \<Rightarrow> bool" where
  "IsOpSuccess opcode \<longleftrightarrow>
    opcode = 80 \<or> opcode = 98 \<or> (opcode \<ge> 126 \<and> opcode \<le> 129) \<or> (opcode \<ge> 131 \<and> opcode \<le> 134) \<or>
    (opcode \<ge> 137 \<and> opcode \<le> 138) \<or> (opcode \<ge> 141 \<and> opcode \<le> 142) \<or> (opcode \<ge> 149 \<and> opcode \<le> 153) \<or>
    (opcode \<ge> 187 \<and> opcode \<le> 254)"

definition CheckMinimalPush :: "bytes \<Rightarrow> byte \<Rightarrow> bool cxx" where
  "CheckMinimalPush data opcode =
    bindE (cxx_assert (opcode \<le> OP_PUSHDATA4)) (\<lambda>_. Inr (
      if length data = 0 then opcode = OP_0
      else if length data = 1 \<and> data ! 0 \<ge> 1 \<and> data ! 0 \<le> 16 then False
      else if length data = 1 \<and> data ! 0 = 0x81 then False
      else if length data \<le> 75 then unat opcode = length data
      else if length data \<le> 255 then opcode = OP_PUSHDATA1
      else if length data \<le> 65535 then opcode = OP_PUSHDATA2
      else True))"

subsection \<open>Building scripts\<close>

definition AppendDataSize :: "u32 \<Rightarrow> bytes" where
  "AppendDataSize sz =
    (if sz < ucast OP_PUSHDATA1 then [ucast sz]
     else if sz \<le> 0xff then [OP_PUSHDATA1, ucast sz]
     else if sz \<le> 0xffff then OP_PUSHDATA2 # WriteLE16 (ucast sz)
     else OP_PUSHDATA4 # WriteLE32 sz)"

definition push_data :: "bytes \<Rightarrow> bytes" where
  "push_data b = AppendDataSize (of_nat (length b)) @ b"

text \<open>The digits of the absolute value, least significant first.\<close>

function abs_bytes :: "nat \<Rightarrow> bytes" where
  "abs_bytes absvalue = (if absvalue = 0 then [] else of_nat absvalue # abs_bytes (absvalue div 256))"
  by pat_completeness auto
termination by (relation "measure id") auto

declare abs_bytes.simps [simp del]

definition scriptnum_serialize :: "int \<Rightarrow> bytes" where
  "scriptnum_serialize value =
    (if value = 0 then []
     else
       let neg = value < 0; result = abs_bytes (unat (of_int (\<bar>value\<bar>) :: u64)) in
       if last result AND 0x80 \<noteq> 0 then result @ [if neg then 0x80 else 0]
       else if neg then butlast result @ [last result OR 0x80] else result)"

definition push_int64 :: "int \<Rightarrow> bytes" where
  "push_int64 n =
    (if n = - 1 \<or> (n \<ge> 1 \<and> n \<le> 16) then [of_int (n + (uint OP_1 - 1))]
     else if n = 0 then [OP_0] else push_data (scriptnum_serialize n))"

text \<open>Shifting a byte by 64 bits or more is undefined.\<close>

definition set_vch :: "bytes \<Rightarrow> int cxx" where
  "set_vch vch =
    (if vch = [] then Inr 0
     else if length vch > 8 then Inl Bad_Shift
     else let result = fold (OR) (map (\<lambda>i. push_bit (8 * i) (ucast (vch ! i) :: u64)) [0..<length vch]) 0 in
       if last vch AND 0x80 \<noteq> 0
       then i64 (- sint (result AND NOT (push_bit (8 * (length vch - 1)) 0x80)))
       else Inr (sint result))"

definition CScriptNum :: "bytes \<Rightarrow> bool \<Rightarrow> nat \<Rightarrow> int cxx" where
  "CScriptNum vch fRequireMinimal nMaxNumSize =
    (if length vch > nMaxNumSize then Inl Runtime_Error
     else if fRequireMinimal \<and> length vch > 0 \<and> last vch AND 0x7f = 0 \<and>
        (length vch \<le> 1 \<or> (vch ! (length vch - 2)) AND 0x80 = 0) then Inl Runtime_Error
     else set_vch vch)"

definition scriptnum_getint :: "int \<Rightarrow> int" where
  "scriptnum_getint v = (if v > 2 ^ 31 - 1 then 2 ^ 31 - 1 else if v < - (2 ^ 31) then - (2 ^ 31) else v)"

subsection \<open>Kinds of output scripts\<close>

definition IsPayToAnchor :: "CScript \<Rightarrow> bool" where
  "IsPayToAnchor s \<longleftrightarrow> length s = 4 \<and> s ! 0 = OP_1 \<and> s ! 1 = 0x02 \<and> s ! 2 = 0x4e \<and> s ! 3 = 0x73"

definition IsPayToScriptHash :: "CScript \<Rightarrow> bool" where
  "IsPayToScriptHash s \<longleftrightarrow> length s = 23 \<and> s ! 0 = OP_HASH160 \<and> s ! 1 = 0x14 \<and> s ! 22 = OP_EQUAL"

definition IsPayToWitnessScriptHash :: "CScript \<Rightarrow> bool" where
  "IsPayToWitnessScriptHash s \<longleftrightarrow> length s = 34 \<and> s ! 0 = OP_0 \<and> s ! 1 = 0x20"

definition IsPayToTaproot :: "CScript \<Rightarrow> bool" where
  "IsPayToTaproot s \<longleftrightarrow> length s = 34 \<and> s ! 0 = OP_1 \<and> s ! 1 = 0x20"

text \<open>The guards before \<^verbatim>\<open>DecodeOP_N\<close> keep its assertion.\<close>

definition IsWitnessProgram :: "CScript \<Rightarrow> (int \<times> bytes) option" where
  "IsWitnessProgram s =
    (if length s < 4 \<or> length s > 42 then None
     else if s ! 0 \<noteq> OP_0 \<and> (s ! 0 < OP_1 \<or> s ! 0 > OP_16) then None
     else if unat (s ! 1) + 2 = length s
     then (case DecodeOP_N (s ! 0) of Inr version \<Rightarrow> Some (version, drop 2 s) | Inl _ \<Rightarrow> None)
     else None)"

definition IsReservedFutureWitnessVersion :: "int \<Rightarrow> bool" where
  "IsReservedFutureWitnessVersion v \<longleftrightarrow> v \<ge> 3 \<and> v \<le> 16"

definition IsReservedFutureWitnessOutput :: "CScript \<Rightarrow> bool" where
  "IsReservedFutureWitnessOutput s = (case IsWitnessProgram s of None \<Rightarrow> False | Some (v, _) \<Rightarrow> IsReservedFutureWitnessVersion v)"

function IsPushOnly :: "bytes \<Rightarrow> bool" where
  "IsPushOnly pc =
    (if pc = [] then True
     else case GetScriptOp pc of None \<Rightarrow> False
       | Some (opcode, _, rest) \<Rightarrow> if opcode > OP_16 then False else IsPushOnly rest)"
  by pat_completeness auto
termination by (relation "measure length") (auto dest: GetScriptOp_progress)

declare IsPushOnly.simps [simp del]

function HasValidOps :: "bytes \<Rightarrow> bool" where
  "HasValidOps it =
    (if it = [] then True
     else case GetScriptOp it of None \<Rightarrow> False
       | Some (opcode, item, rest) \<Rightarrow>
          if opcode > MAX_OPCODE \<or> length item > MAX_SCRIPT_ELEMENT_SIZE then False else HasValidOps rest)"
  by pat_completeness auto
termination by (relation "measure length") (auto dest: GetScriptOp_progress)

declare HasValidOps.simps [simp del]

subsection \<open>Signature operations\<close>

function sigop_loop :: "bool \<Rightarrow> bytes \<Rightarrow> byte \<Rightarrow> u32 \<Rightarrow> u32" where
  "sigop_loop fAccurate pc lastOpcode n =
    (if pc = [] then n
     else case GetScriptOp pc of None \<Rightarrow> n
       | Some (opcode, _, rest) \<Rightarrow>
          sigop_loop fAccurate rest opcode
            (if opcode = OP_CHECKSIG \<or> opcode = OP_CHECKSIGVERIFY then n + 1
             else if opcode = OP_CHECKMULTISIG \<or> opcode = OP_CHECKMULTISIGVERIFY then
               if fAccurate \<and> lastOpcode \<ge> OP_1 \<and> lastOpcode \<le> OP_16
               then n + of_int (case DecodeOP_N lastOpcode of Inr k \<Rightarrow> k | Inl _ \<Rightarrow> 0)
               else n + MAX_PUBKEYS_PER_MULTISIG
             else n))"
  by pat_completeness auto
termination by (relation "measure (\<lambda>(f, pc, l, n). length pc)") (auto dest: GetScriptOp_progress)

declare sigop_loop.simps [simp del]

definition GetSigOpCount :: "bool \<Rightarrow> CScript \<Rightarrow> u32" where
  "GetSigOpCount fAccurate s = sigop_loop fAccurate s OP_INVALIDOPCODE 0"

text \<open>The data of the last push of a script, absent when an instruction is malformed or not a push.\<close>

function last_push :: "bytes \<Rightarrow> bytes \<Rightarrow> bytes option" where
  "last_push pc vData =
    (if pc = [] then Some vData
     else case GetScriptOp pc of None \<Rightarrow> None
       | Some (opcode, vData', rest) \<Rightarrow> if opcode > OP_16 then None else last_push rest vData')"
  by pat_completeness auto
termination by (relation "measure (\<lambda>(pc, d). length pc)") (auto dest: GetScriptOp_progress)

declare last_push.simps [simp del]

definition GetSigOpCount_P2SH :: "CScript \<Rightarrow> CScript \<Rightarrow> u32" where
  "GetSigOpCount_P2SH s scriptSig =
    (if \<not> IsPayToScriptHash s then GetSigOpCount True s
     else case last_push scriptSig [] of None \<Rightarrow> 0 | Some vData \<Rightarrow> GetSigOpCount True vData)"

definition SCRIPT_VERIFY_P2SH :: u32 where "SCRIPT_VERIFY_P2SH = 1"
definition SCRIPT_VERIFY_WITNESS :: u32 where "SCRIPT_VERIFY_WITNESS = push_bit 11 1"

definition WitnessSigOps :: "int \<Rightarrow> bytes \<Rightarrow> bytes list \<Rightarrow> nat" where
  "WitnessSigOps witversion witprogram witness =
    (if witversion = 0 \<and> length witprogram = 20 then 1
     else if witversion = 0 \<and> length witprogram = 32 \<and> length witness > 0 then unat (GetSigOpCount True (last witness))
     else 0)"

definition CountWitnessSigOps :: "CScript \<Rightarrow> CScript \<Rightarrow> bytes list \<Rightarrow> u32 \<Rightarrow> nat cxx" where
  "CountWitnessSigOps scriptSig scriptPubKey witness flags =
    (if flags AND SCRIPT_VERIFY_WITNESS = 0 then Inr 0
     else bindE (cxx_assert (flags AND SCRIPT_VERIFY_P2SH \<noteq> 0)) (\<lambda>_. Inr (
       case IsWitnessProgram scriptPubKey of
         Some (v, prog) \<Rightarrow> WitnessSigOps v prog witness
       | None \<Rightarrow>
          if IsPayToScriptHash scriptPubKey \<and> IsPushOnly scriptSig then
            (case last_push scriptSig [] of None \<Rightarrow> 0
             | Some data \<Rightarrow> (case IsWitnessProgram data of Some (v, prog) \<Rightarrow> WitnessSigOps v prog witness | None \<Rightarrow> 0))
          else 0)))"

subsection \<open>Pushes are read back\<close>

lemma unat_small_ucast:
  fixes n :: u32
  shows "unat n < 2 ^ LENGTH('a) \<Longrightarrow> unat (ucast n :: 'a::len word) = unat n"
  by (simp add: unsigned_ucast_eq take_bit_nat_eq_self)

lemma push_data_read:
  assumes "length b < 2 ^ 32"
  shows "\<exists>opcode. GetScriptOp (push_data b @ r) = Some (opcode, b, r) \<and>
    CheckMinimalPush b opcode = Inr (\<not> (length b = 1 \<and> (1 \<le> b ! 0 \<and> b ! 0 \<le> 16 \<or> b ! 0 = 0x81)))"
proof -
  define n :: u32 where "n = of_nat (length b)"
  have n: "unat n = length b" using assms by (simp add: n_def unsigned_of_nat take_bit_nat_eq_self)
  have le: "n < 0x4c \<longleftrightarrow> length b < 76" "n \<le> 0xff \<longleftrightarrow> length b \<le> 255" "n \<le> 0xffff \<longleftrightarrow> length b \<le> 65535"
    using n by (simp_all add: word_less_nat_alt word_le_nat_alt)
  consider (direct) "length b < 76" | (one) "76 \<le> length b" "length b \<le> 255"
    | (two) "255 < length b" "length b \<le> 65535" | (four) "65535 < length b"
    by linarith
  then show ?thesis
  proof cases
    case direct
    have u: "unat (ucast n :: byte) = length b" using direct n by (simp add: unat_small_ucast)
    then have s: "(ucast n :: byte) < 0x4c" "(ucast n :: byte) \<le> 0x4e" "(ucast n :: byte) = 0 \<longleftrightarrow> length b = 0"
      using direct by (simp_all add: word_less_nat_alt word_le_nat_alt word_unat_eq_iff)
    have "push_data b = ucast n # b" using direct le by (simp add: push_data_def AppendDataSize_def opcode_defs n_def [symmetric])
    then show ?thesis using s u direct
      by (auto simp: GetScriptOp_def push_size_def CheckMinimalPush_def opcode_defs)
  next
    case one
    have u: "unat (ucast n :: byte) = length b" using one n by (simp add: unat_small_ucast)
    have "push_data b = OP_PUSHDATA1 # ucast n # b" using one le
      by (simp add: push_data_def AppendDataSize_def opcode_defs n_def [symmetric])
    then show ?thesis using u one
      by (auto simp: GetScriptOp_def push_size_def CheckMinimalPush_def opcode_defs)
  next
    case two
    have u: "unat (ucast n :: u16) = length b" using two n by (simp add: unat_small_ucast)
    have "push_data b = OP_PUSHDATA2 # WriteLE16 (ucast n) @ b" using two le
      by (simp add: push_data_def AppendDataSize_def opcode_defs n_def [symmetric])
    then show ?thesis using u two
      by (auto simp: GetScriptOp_def push_size_def CheckMinimalPush_def opcode_defs)
  next
    case four
    have "push_data b = OP_PUSHDATA4 # WriteLE32 n @ b" using four le
      by (simp add: push_data_def AppendDataSize_def opcode_defs n_def [symmetric])
    then show ?thesis using n four
      by (auto simp: GetScriptOp_def push_size_def CheckMinimalPush_def opcode_defs)
  qed
qed

lemma push_only_no_sigops:
  "IsPushOnly s \<Longrightarrow> sigop_loop f s l n = n"
proof (induction s arbitrary: l rule: IsPushOnly.induct)
  case (1 pc)
  show ?case
  proof (cases "pc = []")
    case False
    then obtain opcode d rest where g: "GetScriptOp pc = Some (opcode, d, rest)" "\<not> opcode > OP_16" "IsPushOnly rest"
      using 1(2) by (auto simp: IsPushOnly.simps [of pc] split: option.splits if_splits)
    have "opcode \<noteq> OP_CHECKSIG" "opcode \<noteq> OP_CHECKSIGVERIFY" "opcode \<noteq> OP_CHECKMULTISIG" "opcode \<noteq> OP_CHECKMULTISIGVERIFY"
      using g(2) by (auto simp: opcode_defs)
    then show ?thesis using 1(1) [OF False g(1) refl refl g(2,3)] False g(1) by (simp add: sigop_loop.simps [of _ pc])
  qed (simp add: sigop_loop.simps)
qed

lemma DecodeOP_N_bounds: "DecodeOP_N opcode = Inr k \<Longrightarrow> 0 \<le> k \<and> k \<le> 16"
  by (auto simp: DecodeOP_N_def bindE_Inr_iff opcode_defs word_le_def split: if_splits)

lemma sigop_loop_bound:
  "unat n + 20 * length s < 2 ^ 32 \<Longrightarrow> unat (sigop_loop f s l n) \<le> unat n + 20 * length s"
proof (induction f s l n rule: sigop_loop.induct)
  case (1 f pc l n)
  show ?case
  proof (cases "GetScriptOp pc")
    case (Some g)
    then obtain opcode d rest where g: "GetScriptOp pc = Some (opcode, d, rest)" by (cases g) auto
    have ne: "pc \<noteq> []" using g by (auto simp: GetScriptOp_def)
    define k where "k = (case DecodeOP_N l of Inr k \<Rightarrow> k | Inl _ \<Rightarrow> 0)"
    have k: "0 \<le> k" "k \<le> 16" using DecodeOP_N_bounds [of l] by (auto simp: k_def split: sum.splits)
    define n' where "n' = (if opcode = OP_CHECKSIG \<or> opcode = OP_CHECKSIGVERIFY then n + 1
             else if opcode = OP_CHECKMULTISIG \<or> opcode = OP_CHECKMULTISIGVERIFY then
               if f \<and> l \<ge> OP_1 \<and> l \<le> OP_16 then n + of_int k else n + MAX_PUBKEYS_PER_MULTISIG
             else n)"
    have r: "length rest < length pc" using GetScriptOp_progress [OF g] .
    have add: "unat (n + m) \<le> unat n + 20" if "unat m \<le> 20" for m :: u32
      using that 1(2) r by (simp add: unat_word_ariths)
    have "unat (of_int k :: u32) \<le> 20"
    proof -
      obtain j where j: "k = int j" using k(1) nonneg_int_cases by blast
      then show ?thesis using k by (simp add: unsigned_of_nat take_bit_nat_eq_self)
    qed
    then have n': "unat n' \<le> unat n + 20" using add [of 1] add [of "of_int k"] add [of 20]
      by (auto simp: n'_def MAX_PUBKEYS_PER_MULTISIG_def)
    have step: "sigop_loop f pc l n = sigop_loop f rest opcode n'"
      using ne g by (simp add: sigop_loop.simps [of f pc] n'_def k_def)
    have "unat (sigop_loop f rest opcode n') \<le> unat n' + 20 * length rest"
      using 1(1) [OF ne g refl refl] n' r 1(2) unfolding n'_def k_def by simp
    then show ?thesis using n' r unfolding step by linarith
  qed (simp add: sigop_loop.simps [of f pc])
qed

lemma DecodeOP_EncodeOP:
  "0 \<le> n \<Longrightarrow> n \<le> 16 \<Longrightarrow> \<exists>b. EncodeOP_N n = Inr b \<and> DecodeOP_N b = Inr n \<and> (b = OP_0 \<or> OP_1 \<le> b \<and> b \<le> OP_16)"
proof -
  assume n: "0 \<le> n" "n \<le> 16"
  define b :: byte where "b = (if n = 0 then OP_0 else of_int (uint OP_1 + n - 1))"
  have m: "uint (word_of_int m :: byte) = m" if "0 \<le> m" "m < 256" for m
    using that by (simp add: uint_word_of_int_eq take_bit_int_eq_self)
  have u: "uint b = (if n = 0 then 0 else 0x50 + n)"
  proof (cases "n = 0")
    case False
    then have "b = word_of_int (0x50 + n)" by (simp add: b_def opcode_defs)
    then show ?thesis using m [of "0x50 + n"] n False by (simp del: of_int_add)
  qed (simp add: b_def opcode_defs)
  have "EncodeOP_N n = Inr b" using n by (simp add: EncodeOP_N_def b_def)
  moreover have "b = OP_0 \<longleftrightarrow> n = 0" using u n by (auto simp: opcode_defs b_def)
  moreover have "OP_1 \<le> b \<and> b \<le> OP_16" if "n \<noteq> 0" using u n that by (simp add: word_le_def opcode_defs)
  moreover have "uint OP_1 = 0x51" by (simp add: opcode_defs)
  ultimately show ?thesis using n u by (auto simp: DecodeOP_N_def)
qed

text \<open>A witness program is a version between 0 and 16 followed by the push of 2 to 40 bytes.\<close>

lemma IsWitnessProgram_iff:
  "IsWitnessProgram s = Some (v, prog) \<longleftrightarrow>
    (\<exists>b. DecodeOP_N b = Inr v \<and> s = b # of_nat (length prog) # prog) \<and> 2 \<le> length prog \<and> length prog \<le> 40"
proof
  assume a: "IsWitnessProgram s = Some (v, prog)"
  then have len: "4 \<le> length s" "length s \<le> 42" "unat (s ! 1) + 2 = length s" "DecodeOP_N (s ! 0) = Inr v" "prog = drop 2 s"
    by (auto simp: IsWitnessProgram_def split: if_splits sum.splits)
  then obtain b c rest where s: "s = b # c # rest" by (cases s; cases "tl s") auto
  have "unat c = length prog" "length prog < 256" using len s by auto
  then have "of_nat (length prog) = c" by (simp add: word_unat_eq_iff unsigned_of_nat take_bit_nat_eq_self)
  then show "(\<exists>b. DecodeOP_N b = Inr v \<and> s = b # of_nat (length prog) # prog) \<and> 2 \<le> length prog \<and> length prog \<le> 40"
    using len s by auto
next
  assume a: "(\<exists>b. DecodeOP_N b = Inr v \<and> s = b # of_nat (length prog) # prog) \<and> 2 \<le> length prog \<and> length prog \<le> 40"
  then obtain b where b: "DecodeOP_N b = Inr v" "s = b # of_nat (length prog) # prog" by blast
  have "b = OP_0 \<or> OP_1 \<le> b \<and> b \<le> OP_16" using b(1) by (auto simp: DecodeOP_N_def bindE_Inr_iff split: if_splits)
  moreover have "unat (of_nat (length prog) :: byte) = length prog" using a by (simp add: unsigned_of_nat take_bit_nat_eq_self)
  ultimately show "IsWitnessProgram s = Some (v, prog)" using a b by (auto simp: IsWitnessProgram_def)
qed

subsection \<open>Script numbers\<close>

lemma abs_bytes_0 [simp]: "abs_bytes 0 = []"
  by (simp add: abs_bytes.simps)

lemma abs_bytes_pos: "n \<noteq> 0 \<Longrightarrow> abs_bytes n = of_nat n # abs_bytes (n div 256)"
  by (simp add: abs_bytes.simps)

lemma bval_abs_bytes: "bval (abs_bytes n) = n"
proof (induction n rule: abs_bytes.induct)
  case (1 n)
  show ?case
  proof (cases "n = 0")
    case False
    then show ?thesis using 1 by (simp add: abs_bytes_pos unsigned_of_nat take_bit_eq_mod)
  qed simp
qed

lemma abs_bytes_last: "n \<noteq> 0 \<Longrightarrow> abs_bytes n \<noteq> [] \<and> last (abs_bytes n) \<noteq> 0"
proof (induction n rule: abs_bytes.induct)
  case (1 n)
  show ?case
  proof (cases "n < 256")
    case True
    then have "(of_nat n :: byte) \<noteq> 0" using 1(2) by (simp add: word_unat_eq_iff unsigned_of_nat take_bit_nat_eq_self)
    then show ?thesis using True 1(2) by (simp add: abs_bytes_pos)
  next
    case False
    then show ?thesis using 1 by (simp add: abs_bytes_pos)
  qed
qed

lemma byte_of_digit: "of_nat (unat b + 256 * n) = (b :: byte)"
proof -
  have "(of_nat (unat b + 256 * n) :: byte) = of_nat ((unat b + 256 * n) mod 2 ^ 8)"
    by (simp only: word_of_nat_eq_iff) (simp add: take_bit_eq_mod)
  then show ?thesis by (simp add: unat_bounds)
qed

lemma abs_bytes_unique: "bs = [] \<or> last bs \<noteq> 0 \<Longrightarrow> abs_bytes (bval bs) = bs"
proof (induction bs)
  case (Cons b bs)
  have l: "bs = [] \<or> last bs \<noteq> 0" using Cons.prems by auto
  have "bval (b # bs) \<noteq> 0"
  proof (cases bs)
    case Nil
    then show ?thesis using Cons.prems by (simp add: word_unat_eq_iff)
  next
    case (Cons c cs)
    then have "bval bs \<noteq> 0" using l abs_bytes_0 Cons.IH [OF l] by (metis list.distinct(1))
    then show ?thesis by simp
  qed
  moreover have "(unat b + 256 * bval bs) div 256 = bval bs" by (simp add: unat_bounds)
  moreover have "of_nat (unat b + 256 * bval bs) = b" by (rule byte_of_digit)
  ultimately show ?case using Cons.IH [OF l] abs_bytes_pos [of "bval (b # bs)"] by simp
qed simp

lemma or_bytes:
  "length vch \<le> 8 \<Longrightarrow> unat (fold (OR) (map (\<lambda>i. push_bit (8 * i) (ucast (vch ! i) :: u64)) [0..<length vch]) 0) = bval vch"
proof (induction vch rule: rev_induct)
  case (snoc b vch)
  let ?f = "\<lambda>v. fold (OR) (map (\<lambda>i. push_bit (8 * i) (ucast (v ! i) :: u64)) [0..<length v]) 0"
  have m: "map (\<lambda>i. push_bit (8 * i) (ucast ((vch @ [b]) ! i) :: u64)) [0..<length vch] =
      map (\<lambda>i. push_bit (8 * i) (ucast (vch ! i))) [0..<length vch]"
    by (rule map_cong) (simp_all add: nth_append)
  have "[0..<length (vch @ [b])] = [0..<length vch] @ [length vch]" by simp
  then have f: "?f (vch @ [b]) = ?f vch OR push_bit (8 * length vch) (ucast b)"
    by (simp only: map_append m fold_append o_apply list.map fold_simps nth_append_length or.commute)
  have IH: "unat (?f vch) = bval vch" using snoc by simp
  have b: "unat (ucast b :: u64) = unat b" by (rule unat_ucast_up8)
  have "unat (?f vch OR push_bit (8 * length vch) (ucast b)) = unat (?f vch) + unat (ucast b :: u64) * 2 ^ (8 * length vch)"
  proof (rule unat_or_disjoint)
    show "unat (?f vch) < 2 ^ (8 * length vch)" using IH bval_less [of vch] by simp
    have "(unat b + 1) * 2 ^ (8 * length vch) \<le> 2 ^ 8 * 2 ^ (8 * length vch)"
      using unat_byte_less [of b] by (intro mult_le_mono1) simp
    also have "\<dots> = 2 ^ (8 + 8 * length vch)" by (simp add: power_add)
    also have "\<dots> \<le> 2 ^ 64" by (rule power_increasing) (use snoc.prems in auto)
    finally show "unat (ucast b :: u64) * 2 ^ (8 * length vch) + 2 ^ (8 * length vch) \<le> 2 ^ LENGTH(64)"
      unfolding b by simp
  qed
  then show ?case unfolding f IH b by (simp add: bval_append)
qed simp

lemma sint_small_u64: "unat (r :: u64) < 2 ^ 63 \<Longrightarrow> sint r = int (unat r)"
proof -
  assume a: "unat r < 2 ^ 63"
  have "sint r = signed_take_bit 63 (uint r)" by (simp add: sint_uint)
  also have "\<dots> = uint r"
  proof (rule signed_take_bit_int_eq_self)
    show "- (2 ^ 63) \<le> uint r" using uint_ge_0 [of r] by (rule order.trans [rotated]) simp
    have "int (unat r) < int (2 ^ 63)" using a by (simp only: of_nat_less_iff)
    then show "uint r < 2 ^ 63" by simp
  qed
  finally show ?thesis by simp
qed

lemma div_plus_self: "a < p \<Longrightarrow> (a + p) div p = (1::nat)"
  by (simp add: div_add_self2)

text \<open>A byte string of up to eight bytes read as magnitude with the sign in the top bit.\<close>

lemma snoc_value_less:
  assumes "length ws \<le> 7"
  shows "bval ws + 2 ^ (8 * length ws) * (unat (b::byte) mod 128) < 2 ^ 63"
proof -
  let ?k = "8 * length ws"
  have "bval ws + 2 ^ ?k * (unat b mod 128) < 2 ^ ?k + 2 ^ ?k * (unat b mod 128)" using bval_less [of ws] by simp
  also have "\<dots> = 2 ^ ?k * (unat b mod 128 + 1)" by simp
  also have "\<dots> \<le> 2 ^ ?k * 2 ^ 7" by (intro mult_le_mono2) (simp add: Suc_leI)
  also have "\<dots> = 2 ^ (?k + 7)" by (simp only: power_add)
  also have "\<dots> \<le> 2 ^ 63" by (rule power_increasing) (use assms in auto)
  finally show ?thesis .
qed

lemma set_vch_snoc:
  assumes len: "length ws \<le> 7"
  shows "set_vch (ws @ [b]) =
    (let a = bval ws + 2 ^ (8 * length ws) * (unat b mod 128) in Inr (if 128 \<le> unat b then - int a else int a))"
proof -
  let ?k = "8 * length ws"
  define r where "r = fold (OR) (map (\<lambda>i. push_bit (8 * i) (ucast ((ws @ [b]) ! i) :: u64)) [0..<length (ws @ [b])]) 0"
  define a where "a = bval ws + 2 ^ ?k * (unat b mod 128)"
  have r: "unat r = bval ws + 2 ^ ?k * unat b" unfolding r_def using or_bytes [of "ws @ [b]"] len by (simp add: bval_append)
  have a63: "a < 2 ^ 63" unfolding a_def by (rule snoc_value_less [OF len])
  have top: "last (ws @ [b]) AND 0x80 \<noteq> 0 \<longleftrightarrow> 128 \<le> unat b" using byte_and_80 by simp
  have def: "set_vch (ws @ [b]) = (if 128 \<le> unat b then i64 (- sint (r AND NOT (push_bit ?k 0x80))) else Inr (sint r))"
    using len unfolding set_vch_def top r_def by (simp add: Let_def)
  show ?thesis
  proof (cases "128 \<le> unat b")
    case True
    then have ub: "unat b = 128 + unat b mod 128" using unat_byte_less [of b] by (simp add: le_mod_geq)
    let ?m = "push_bit ?k 0x80 :: u64"
    have p: "128 * 2 ^ ?k = (2::nat) ^ (?k + 7)" by (simp add: power_add)
    have k: "?k + 7 < 64" using len by simp
    have m2: "?m = push_bit (?k + 7) 1" by (simp add: push_bit_eq_mult power_add)
    have um: "unat ?m = 2 ^ (?k + 7)"
      unfolding m2 unsigned_push_bit_eq using k by (simp add: push_bit_eq_mult take_bit_nat_eq_self)
    have ra: "unat r = a + 2 ^ (?k + 7)" unfolding r a_def p [symmetric] by (subst ub) (simp add: algebra_simps)
    have "bit r (?k + 7)"
    proof -
      have "a < 2 ^ (?k + 7)"
      proof -
        have "a < 2 ^ ?k + 2 ^ ?k * (unat b mod 128)" using bval_less [of ws] by (simp add: a_def)
        also have "\<dots> \<le> 2 ^ ?k * 2 ^ 7" by (simp add: Suc_leI flip: mult_Suc_right)
        finally show ?thesis by (simp only: power_add)
      qed
      then have "unat r div 2 ^ (?k + 7) = 1" unfolding ra by (rule div_plus_self)
      then have "bit (unat r) (?k + 7)" by (simp only: bit_iff_odd) simp
      then show ?thesis by (simp add: bit_unsigned_iff)
    qed
    then have "r AND NOT ?m = r - ?m"
      unfolding m2 by (intro disjunctive_diff [symmetric]) (auto simp: bit_exp_iff)
    then have "unat (r AND NOT ?m) = a" using ra um by (simp add: unat_sub word_le_nat_alt)
    then have "sint (r AND NOT ?m) = int a" using a63 by (simp add: sint_small_u64)
    moreover have "i64 (- int a) = Inr (- int a)" using a63 by (simp add: i64_range_def)
    ultimately show ?thesis unfolding def a_def [symmetric] Let_def using True by simp
  next
    case False
    then have "unat r = a" unfolding r a_def by simp
    then have "sint r = int a" using a63 by (simp add: sint_small_u64)
    then show ?thesis unfolding def a_def [symmetric] Let_def using False by simp
  qed
qed

text \<open>Adding the sign bit to the top byte, and taking it away.\<close>

lemma unat_or_80: "unat (b :: byte) < 128 \<Longrightarrow> unat (b OR 0x80) = unat b + 128"
  using unat_or_disjoint [of b 7 1] by (simp add: push_bit_eq_mult)

lemma serialize_cases:
  assumes v: "0 < \<bar>v\<bar>" "\<bar>v\<bar> < 2 ^ 63"
  obtains (wide) "128 \<le> unat (last (abs_bytes (nat \<bar>v\<bar>)))"
      "scriptnum_serialize v = abs_bytes (nat \<bar>v\<bar>) @ [if v < 0 then 0x80 else 0]"
    | (narrow) ws b where "abs_bytes (nat \<bar>v\<bar>) = ws @ [b]" "b \<noteq> 0" "unat b < 128"
      "scriptnum_serialize v = ws @ [if v < 0 then b OR 0x80 else b]"
proof -
  obtain n where n: "\<bar>v\<bar> = int n" using nonneg_int_cases [of "\<bar>v\<bar>"] by auto
  have n63: "n < 2 ^ 63" using v(2) n by simp
  have u: "unat (of_int \<bar>v\<bar> :: u64) = n" unfolding n using n63 by (simp add: unsigned_of_nat take_bit_nat_eq_self)
  have nz: "n \<noteq> 0" "nat \<bar>v\<bar> = n" "v \<noteq> 0" using v n by auto
  note l = abs_bytes_last [OF nz(1)]
  have S: "scriptnum_serialize v = (if 128 \<le> unat (last (abs_bytes n)) then abs_bytes n @ [if v < 0 then 0x80 else 0]
      else if v < 0 then butlast (abs_bytes n) @ [last (abs_bytes n) OR 0x80] else abs_bytes n)"
    unfolding scriptnum_serialize_def u Let_def byte_and_80 using nz(3) by simp
  show thesis
  proof (cases "128 \<le> unat (last (abs_bytes n))")
    case True
    then show thesis using wide S nz(2) by simp
  next
    case False
    have "abs_bytes n = butlast (abs_bytes n) @ [last (abs_bytes n)]" using l by simp
    then show thesis using narrow [of "butlast (abs_bytes n)" "last (abs_bytes n)"] S False l nz(2) by simp
  qed
qed

lemma length_abs_bytes: "n < 256 ^ k \<Longrightarrow> length (abs_bytes n) \<le> k"
proof (induction k arbitrary: n)
  case (Suc k)
  show ?case
  proof (cases "n = 0")
    case False
    have "n div 256 < 256 ^ k" using Suc.prems by (simp add: less_mult_imp_div_less mult.commute)
    then show ?thesis using Suc.IH False by (simp add: abs_bytes_pos)
  qed simp
qed simp

lemma byte_and_7f_0: "(b::byte) AND 0x7f = 0 \<longleftrightarrow> unat b mod 128 = 0"
  using byte_and_7F [of b] by (metis unat_eq_zero)

lemma CScriptNum_snoc:
  assumes "length ws < n" "n \<le> 8"
  shows "CScriptNum (ws @ [b]) m n =
    (if m \<and> unat b mod 128 = 0 \<and> (ws = [] \<or> unat (last ws) < 128) then Inl Runtime_Error else set_vch (ws @ [b]))"
proof -
  have "(vch ! (length vch - 2) AND 0x80 = 0 \<or> length vch \<le> 1) \<longleftrightarrow> ws = [] \<or> unat (last ws) < 128"
    if "vch = ws @ [b]" for vch
  proof (cases "ws = []")
    case False
    then have "vch ! (length vch - 2) = last ws" by (simp add: that nth_append last_conv_nth)
    then show ?thesis using byte_and_80 [of "last ws"] False that by auto
  qed (simp add: that)
  then have "(length (ws @ [b]) \<le> 1 \<or> (ws @ [b]) ! (length (ws @ [b]) - 2) AND 0x80 = 0) \<longleftrightarrow> ws = [] \<or> unat (last ws) < 128"
    by blast
  moreover have "last (ws @ [b]) AND 0x7f = 0 \<longleftrightarrow> unat b mod 128 = 0" by (simp add: byte_and_7f_0)
  ultimately show ?thesis using assms unfolding CScriptNum_def by auto
qed

lemma bval_last_ge: "ws \<noteq> [] \<Longrightarrow> 128 \<le> unat (last ws) \<Longrightarrow> 2 ^ (8 * length ws - 1) \<le> bval ws"
proof (induction ws rule: rev_induct)
  case (snoc b ws)
  have "(2::nat) ^ (8 * length (ws @ [b]) - 1) = 2 ^ (8 * length ws) * 128" by (simp add: power_add)
  also have "\<dots> \<le> 2 ^ (8 * length ws) * unat b" using snoc.prems by simp
  finally show ?case by (simp add: bval_append)
qed simp

lemma scriptnum_read_back:
  assumes v: "0 < \<bar>v\<bar>" "\<bar>v\<bar> < 2 ^ (8 * n - 1)" and n: "0 < n" "n \<le> 8"
  shows "CScriptNum (scriptnum_serialize v) m n = Inr v"
proof -
  have "(2::int) ^ (8 * n - 1) \<le> 2 ^ 63" by (rule power_increasing) (use n in auto)
  then have v63: "\<bar>v\<bar> < 2 ^ 63" using v(2) by linarith
  let ?a = "nat \<bar>v\<bar>"
  have a: "?a < 2 ^ (8 * n - 1)" using v(2) by (simp add: nat_less_iff)
  show ?thesis using v(1) v63
  proof (cases rule: serialize_cases)
    case wide
    let ?b = "if v < 0 then 0x80 else 0 :: byte"
    have ne: "abs_bytes ?a \<noteq> []" using abs_bytes_last [of ?a] v(1) by simp
    have "(2::nat) ^ (8 * length (abs_bytes ?a) - 1) < 2 ^ (8 * n - 1)"
      using bval_last_ge [OF ne wide(1)] a unfolding bval_abs_bytes by linarith
    then have "8 * length (abs_bytes ?a) - 1 < 8 * n - 1" by (rule power_less_imp_less_exp [rotated]) simp
    then have len: "length (abs_bytes ?a) < n" by linarith
    have "CScriptNum (abs_bytes ?a @ [?b]) m n = set_vch (abs_bytes ?a @ [?b])"
      using CScriptNum_snoc [OF len n(2)] wide(1) ne by auto
    also have "\<dots> = Inr v" using set_vch_snoc [of "abs_bytes ?a" ?b] len n by (auto simp: bval_abs_bytes Let_def)
    finally show ?thesis using wide(2) by simp
  next
    case (narrow ws b)
    let ?b = "if v < 0 then b OR 0x80 else b"
    have "(2::nat) ^ (8 * n - 1) \<le> 256 ^ n" using power_increasing [of "8 * n - 1" "8 * n" "2::nat"] by (simp add: power_mult)
    then have "?a < 256 ^ n" using a by (rule order.strict_trans2 [rotated])
    then have len: "length ws < n" using length_abs_bytes [of ?a n] narrow(1) by simp
    have b: "unat ?b mod 128 = unat b" "128 \<le> unat ?b \<longleftrightarrow> v < 0" using narrow(3) unat_or_80 [of b] by auto
    have "bval ws + 2 ^ (8 * length ws) * unat b = ?a" using bval_abs_bytes [of ?a] unfolding narrow(1) by (simp add: bval_append)
    then have "set_vch (ws @ [?b]) = Inr v"
      using set_vch_snoc [of ws ?b] len n unfolding b by (auto simp: Let_def)
    moreover have "unat b \<noteq> 0" using narrow(2) by (metis unat_eq_zero)
    ultimately show ?thesis using CScriptNum_snoc [OF len n(2), of ?b m] narrow(4) unfolding b by simp
  qed
qed

lemma scriptnum_unique:
  assumes c: "CScriptNum vch True n = Inr v" and n: "n \<le> 8"
  shows "scriptnum_serialize v = vch"
proof (cases vch rule: rev_cases)
  case Nil
  then show ?thesis using c by (simp add: CScriptNum_def set_vch_def scriptnum_serialize_def)
next
  case (snoc ws b)
  have len: "length ws < n" using c snoc by (auto simp: CScriptNum_def split: if_splits)
  have l7: "length ws \<le> 7" using len n by simp
  define a where "a = bval ws + 2 ^ (8 * length ws) * (unat b mod 128)"
  have nm: "\<not> (unat b mod 128 = 0 \<and> (ws = [] \<or> unat (last ws) < 128))" and v: "v = (if 128 \<le> unat b then - int a else int a)"
    using c CScriptNum_snoc [OF len n, of b True] set_vch_snoc [OF l7, of b] unfolding snoc
    by (auto simp: Let_def a_def split: if_splits)
  have a63: "a < 2 ^ 63" unfolding a_def by (rule snoc_value_less [OF l7])
  show ?thesis
  proof (cases "unat b mod 128 = 0")
    case True
    then have ws: "ws \<noteq> []" "128 \<le> unat (last ws)" using nm by auto
    then have "last ws \<noteq> 0" by auto
    then have A: "abs_bytes a = ws" using abs_bytes_unique [of ws] True by (simp add: a_def)
    then have a0: "a \<noteq> 0" using ws(1) by (metis abs_bytes_0)
    have "unat b = 0 \<or> unat b = 128" using True unat_byte_less [of b] by (simp add: mod_eq_0_iff_dvd) presburger
    then have b: "b = (if v < 0 then 0x80 else 0)" using a0 v by (auto simp: word_unat_eq_iff)
    have "0 < \<bar>v\<bar>" "\<bar>v\<bar> < 2 ^ 63" "nat \<bar>v\<bar> = a" using a0 a63 v by auto
    from this(1,2) show ?thesis
      by (cases rule: serialize_cases) (use \<open>nat \<bar>v\<bar> = a\<close> A ws b snoc in auto)
  next
    case False
    define d where "d = (of_nat (unat b mod 128) :: byte)"
    have d: "unat d = unat b mod 128" by (simp add: d_def unsigned_of_nat take_bit_nat_eq_self)
    then have d0: "d \<noteq> 0" using False by auto
    have A: "abs_bytes a = ws @ [d]" using abs_bytes_unique [of "ws @ [d]"] d0 by (simp add: bval_append d a_def)
    then have a0: "a \<noteq> 0" by (metis abs_bytes_0 append_is_Nil_conv not_Cons_self2)
    have d128: "unat d < 128" unfolding d by simp
    have "b = (if v < 0 then d OR 0x80 else d)"
      using v a0 d unat_or_80 [OF d128] unat_byte_less [of b] by (auto simp: word_unat_eq_iff le_mod_geq)
    moreover have "0 < \<bar>v\<bar>" "\<bar>v\<bar> < 2 ^ 63" "nat \<bar>v\<bar> = a" using a0 a63 v by auto
    from this(1,2) have "scriptnum_serialize v = ws @ [if v < 0 then d OR 0x80 else d]"
      by (cases rule: serialize_cases) (use \<open>nat \<bar>v\<bar> = a\<close> A d128 in auto)
    ultimately show ?thesis using snoc by simp
  qed
qed

end
