(* ===== verification/Genesis.thy ===== *)
theory Genesis
  imports Chain_Params Merkle Script_Core
begin

text \<open>
  The genesis blocks of the networks, from \<^verbatim>\<open>src/src/kernel/chainparams.cpp\<close>, and the pairs of
  parameters and genesis block a node can be started with. The theory shows what the difficulty rules
  need of them: a network that uses ASERT has consistent ASERT parameters anchored at height zero, and
  its genesis block is not merge-mined.
\<close>

text \<open>The bytes of a literal of \<open>2 n\<close> hexadecimal digits (\<^verbatim>\<open>ParseHex\<close>).\<close>

definition hex_bytes :: "nat \<Rightarrow> nat \<Rightarrow> bytes" where
  "hex_bytes n x = rev (le_bytes n x)"

definition CreateGenesisBlock ::
  "(bytes \<Rightarrow> uint256) \<Rightarrow> CScript \<Rightarrow> CScript \<Rightarrow> u32 \<Rightarrow> u32 \<Rightarrow> u32 \<Rightarrow> u32 \<Rightarrow> CAmount \<Rightarrow> CBlock" where
  "CreateGenesisBlock H genesisInputScript genesisOutputScript nTime nNonce nBits nVersion genesisReward =
    (let txNew = \<lparr>tx_vin = [\<lparr>txin_prevout = \<lparr>op_hash = uint256_null, op_n = NULL_INDEX\<rparr>, txin_scriptSig = genesisInputScript,
                    txin_nSequence = 0xffffffff, txin_witness = []\<rparr>],
                  tx_vout = [\<lparr>txout_nValue = genesisReward, txout_scriptPubKey = genesisOutputScript\<rparr>],
                  tx_version = 1, tx_nLockTime = 0\<rparr>;
         genesis = \<lparr>hdr_nVersion = nVersion, hdr_hashPrevBlock = uint256_null, hdr_hashMerkleRoot = uint256_null,
                    hdr_nTime = nTime, hdr_nBits = nBits, hdr_nNonce = nNonce, hdr_auxpow = None, blk_vtx = [txNew]\<rparr> in
     genesis\<lparr>hdr_hashMerkleRoot := fst (BlockMerkleRoot H genesis)\<rparr>)"

definition genesisOutputScript :: CScript where
  "genesisOutputScript = push_data (hex_bytes 33 0) @ [OP_CHECKSIG]"

definition CreateGenesisBlock_text ::
  "(bytes \<Rightarrow> uint256) \<Rightarrow> string \<Rightarrow> CScript \<Rightarrow> u32 \<Rightarrow> u32 \<Rightarrow> u32 \<Rightarrow> u32 \<Rightarrow> CAmount \<Rightarrow> CBlock" where
  "CreateGenesisBlock_text H pszTimestamp outputScript =
    CreateGenesisBlock H (push_int64 486604799 @ push_data (scriptnum_serialize 4) @ push_data (map of_char pszTimestamp)) outputScript"

definition CreateGenesisBlock_dev :: "(bytes \<Rightarrow> uint256) \<Rightarrow> u32 \<Rightarrow> u32 \<Rightarrow> u32 \<Rightarrow> u32 \<Rightarrow> CAmount \<Rightarrow> CBlock" where
  "CreateGenesisBlock_dev H =
    CreateGenesisBlock_text H ''qbit/v0.1 development genesis - not for production use'' genesisOutputScript"

definition CreateTestNet4GenesisBlock :: "(bytes \<Rightarrow> uint256) \<Rightarrow> u32 \<Rightarrow> u32 \<Rightarrow> u32 \<Rightarrow> u32 \<Rightarrow> CAmount \<Rightarrow> CBlock" where
  "CreateTestNet4GenesisBlock H =
    CreateGenesisBlock H (hex_bytes 97 0x04ffff001d0800000008f44100004c5146696e616e6369616c2054696d65732031322f4a756e2f32303236205175616e74756d20636f6d707574696e67207265766f6c7574696f6e20697320636c6f736572207468616e20796f75207468696e6b) genesisOutputScript"

definition CreateMainNetGenesisBlock :: "(bytes \<Rightarrow> uint256) \<Rightarrow> u32 \<Rightarrow> u32 \<Rightarrow> u32 \<Rightarrow> u32 \<Rightarrow> CAmount \<Rightarrow> CBlock" where
  "CreateMainNetGenesisBlock H =
    CreateGenesisBlock H (hex_bytes 100 0x04ffff001d08044c0000000000004c54476f6f676c653a205365637572696e67204543432043727970746f63757272656e6369657320616761696e7374205175616e74756d2056756c6e65726162696c6974696573203935383135373a33616261663835) genesisOutputScript"

text \<open>The parameters of every network with its genesis block.\<close>

definition main_network :: "(bytes \<Rightarrow> uint256) \<Rightarrow> Params \<times> CBlock" where
  "main_network H = (CMainParams, CreateMainNetGenesisBlock H 1784131083 1084616938 0x1a7f1ab5 1 (cp_nSubsidyInitial CMainParams))"

definition test_network :: "(bytes \<Rightarrow> uint256) \<Rightarrow> Params \<times> CBlock" where
  "test_network H = (CTestNetParams, CreateGenesisBlock_dev H 1738713601 88582 0x1f00ffff 1 (cp_nSubsidyInitial CTestNetParams))"

definition test4_network :: "(bytes \<Rightarrow> uint256) \<Rightarrow> Params \<times> CBlock" where
  "test4_network H = (CTestNet4Params, CreateTestNet4GenesisBlock H 1781704709 2528738861 0x1a7f1ab5 1 (cp_nSubsidyInitial CTestNet4Params))"

definition signet_network :: "(bytes \<Rightarrow> uint256) \<Rightarrow> bytes option \<Rightarrow> Params \<times> CBlock" where
  "signet_network H challenge =
    (SigNetParams challenge, CreateGenesisBlock_dev H 1775433600 260258 0x1f00ffff 1 (cp_nSubsidyInitial (SigNetParams challenge)))"

definition regtest_network :: "(bytes \<Rightarrow> uint256) \<Rightarrow> RegTestOptions \<Rightarrow> Params \<times> CBlock" where
  "regtest_network H opts =
    (CRegTestParams opts, CreateGenesisBlock_dev H 1738713602 1 0x207fffff 1 (cp_nSubsidyInitial (CRegTestParams opts)))"

definition networks :: "(bytes \<Rightarrow> uint256) \<Rightarrow> (Params \<times> CBlock) set" where
  "networks H = {main_network H, test_network H, test4_network H} \<union> range (signet_network H) \<union> range (regtest_network H)"

subsection \<open>Networks with ASERT\<close>

lemma CreateGenesisBlock_header [simp]:
  "hdr_nVersion (CreateGenesisBlock H i u t n b v r) = v"
  "hdr_hashPrevBlock (CreateGenesisBlock H i u t n b v r) = uint256_null"
  by (simp_all add: CreateGenesisBlock_def Let_def)

lemmas genesis_defs = CreateGenesisBlock_dev_def CreateGenesisBlock_text_def CreateTestNet4GenesisBlock_def CreateMainNetGenesisBlock_def
lemmas network_defs = main_network_def test_network_def test4_network_def signet_network_def regtest_network_def

lemma genesis_plain: "(params, genesis) \<in> networks H \<Longrightarrow> \<not> SignalsAuxpow genesis"
  by (auto simp: networks_def network_defs genesis_defs SignalsAuxpow_def IsAuxpowVersion_def BLOCK_VERSION_AUXPOW_def)

lemma genesis_prev_null: "(params, genesis) \<in> networks H \<Longrightarrow> hdr_hashPrevBlock genesis = uint256_null"
  by (auto simp: networks_def network_defs genesis_defs)

lemma regtest_flags:
  "cp_fPowUseASERT (CRegTestParams opts) = rt_asert opts"
  "cp_fPowNoRetargeting (CRegTestParams opts) = (\<not> (rt_asert opts \<or> rt_legacy_retarget opts))"
  "cp_asertAnchorParams (CRegTestParams opts) = cp_asertAnchorParams (regtest_base opts)"
  using regtest_asert_part [of opts] by (simp_all add: asert_part_def regtest_base_def)

lemma asert_networks_ok:
  assumes "(params, genesis) \<in> networks H" "cp_fPowUseASERT params"
  shows "asert_params_ok params" "\<not> cp_fPowNoRetargeting params" "length (cp_powLimit params) = 32"
    "an_nHeight (cp_asertAnchorParams params) = 0" "an_nAuxPow (cp_asertAnchorParams params) = 0"
proof -
  show ok: "asert_params_ok params"
    using assms(1) main_asert_ok testnet_asert_ok testnet4_asert_ok signet_asert_ok regtest_asert_ok
    by (auto simp: networks_def network_defs)
  show "\<not> cp_fPowNoRetargeting params"
    using assms by (auto simp: networks_def network_defs regtest_flags CMainParams_def CTestNetParams_def
        CTestNet4Params_def SigNetParams_def Let_def)
  show "length (cp_powLimit params) = 32" using ok by (simp add: asert_params_ok_def Let_def)
  show "an_nHeight (cp_asertAnchorParams params) = 0" "an_nAuxPow (cp_asertAnchorParams params) = 0"
    using assms(1) by (auto simp: networks_def network_defs regtest_flags regtest_base_def CMainParams_def CTestNetParams_def
        CTestNet4Params_def SigNetParams_def Let_def)
qed

lemma network_anchored:
  assumes "(params, genesis) \<in> networks H" "cp_fPowUseASERT params" "network_index H genesis bm"
  shows "wf_index (bm_block_index bm)" "anchored (bm_block_index bm) params"
  using network_index_ok [OF genesis_plain [OF assms(1)] assms(3)] asert_networks_ok(4,5) [OF assms(1,2)]
  by (auto simp: anchored_def wf_manager_def)

end
