(* ===== verification/Auxpow.thy ===== *)
theory Auxpow
  imports Merkle Pow
begin

text \<open>
  Merged mining: the slot function of \<^verbatim>\<open>src/src/auxpow.cpp\<close> and the payload checks of
  \<^verbatim>\<open>src/src/auxpow_validation.cpp\<close>. A check returns the reject reason, or \<open>None\<close> when the payload is
  valid; the debug messages are not modelled. A payload comes from deserialization, so its coinbase
  transaction is always present. The theory shows what an accepted payload proves, that the slot is
  within the tree, and that one parent coinbase with a merged-mining header commits to a single qbit
  block, unless two of the hashed strings collide.
\<close>

unbundle bit_operations_syntax

subsection \<open>The slot of a chain in the parent's tree\<close>

definition AdvanceSlotLcg :: "u32 \<Rightarrow> u32" where
  "AdvanceSlotLcg value = ucast ((ucast value * 1103515245 + 12345 :: u64) AND 0xffffffff)"

definition GetExpectedIndex :: "u32 \<Rightarrow> int \<Rightarrow> nat \<Rightarrow> int" where
  "GetExpectedIndex nonce chain_id merkle_height =
    (let rand = AdvanceSlotLcg nonce;
         rand = ucast ((ucast rand + ucast (of_int chain_id :: u32) :: u64) AND 0xffffffff) :: u32;
         rand = AdvanceSlotLcg rand in
     if merkle_height \<ge> 32 then sint rand
     else sint (rand AND (push_bit merkle_height 1 - 1)))"

subsection \<open>Looking for the commitment\<close>

definition MAX_CHAIN_MERKLE_BRANCH_LENGTH :: nat where "MAX_CHAIN_MERKLE_BRANCH_LENGTH = 30"
definition LEGACY_COMMITMENT_START_LIMIT :: nat where "LEGACY_COMMITMENT_START_LIMIT = 20"
definition MERGED_MINING_HEADER :: bytes where "MERGED_MINING_HEADER = [0xfa, 0xbe, 0x6d, 0x6d]"

datatype CommitmentValidation = EITHER | INTERNAL | DISPLAY

definition CommitmentValidationForHeight :: "Params \<Rightarrow> int \<Rightarrow> CommitmentValidation" where
  "CommitmentValidationForHeight params height =
    (if AuxpowDisplayCommitmentActiveAtHeight params height then DISPLAY else INTERNAL)"

text \<open>\<^verbatim>\<open>std::search\<close>: the first occurrence of a pattern at or after a position.\<close>

definition occurs_at :: "bytes \<Rightarrow> bytes \<Rightarrow> nat \<Rightarrow> bool" where
  "occurs_at pat s i \<longleftrightarrow> i + length pat \<le> length s \<and> take (length pat) (drop i s) = pat"

definition search_from :: "nat \<Rightarrow> bytes \<Rightarrow> bytes \<Rightarrow> nat option" where
  "search_from start s pat = find (occurs_at pat s) [start..<Suc (length s)]"

definition HasRoom :: "nat \<Rightarrow> bytes \<Rightarrow> nat \<Rightarrow> bool" where
  "HasRoom first s n \<longleftrightarrow> length s - first \<ge> n"

definition commitments :: "CommitmentValidation \<Rightarrow> uint256 \<Rightarrow> bytes list" where
  "commitments commitment_validation chain_root =
    (let internal_commitment = chain_root; display_commitment = rev internal_commitment in
     case commitment_validation of
       INTERNAL \<Rightarrow> [internal_commitment]
     | DISPLAY \<Rightarrow> [display_commitment]
     | EITHER \<Rightarrow> if internal_commitment = display_commitment then [display_commitment]
                 else [display_commitment, internal_commitment])"

text \<open>
  One round of the loop over the candidate commitments: the outer option is \<open>None\<close> when the
  candidate does not occur, the inner one is the reject reason of a candidate that does.
\<close>

definition check_commitment :: "bytes \<Rightarrow> bytes \<Rightarrow> nat \<Rightarrow> int \<Rightarrow> u16 \<Rightarrow> string option option" where
  "check_commitment script_sig commitment height chain_index expected_chain_id =
    (case search_from 0 script_sig commitment of
       None \<Rightarrow> None
     | Some root_it \<Rightarrow> Some (
        let header_it = search_from 0 script_sig MERGED_MINING_HEADER;
            header_error = (case header_it of
                Some pos \<Rightarrow>
                  (if search_from (pos + 1) script_sig MERGED_MINING_HEADER \<noteq> None then True
                   else pos + length MERGED_MINING_HEADER \<noteq> root_it)
              | None \<Rightarrow> root_it > LEGACY_COMMITMENT_START_LIMIT);
            footer_it = root_it + length commitment in
        if header_error then Some ''bad-auxpow-commitment''
        else if \<not> HasRoom footer_it script_sig 8 then Some ''bad-auxpow-commitment''
        else
          let merkle_size = ReadLE32 (drop footer_it script_sig);
              nonce = ReadLE32 (drop (footer_it + 4) script_sig);
              expected_size = push_bit height 1 :: u32 in
          if merkle_size \<noteq> expected_size then Some ''bad-auxpow-merkle-size''
          else if chain_index \<noteq> GetExpectedIndex nonce (uint expected_chain_id) height
          then Some ''bad-auxpow-chain-index''
          else None))"

fun check_commitments ::
  "bytes \<Rightarrow> bytes list \<Rightarrow> nat \<Rightarrow> int \<Rightarrow> u16 \<Rightarrow> string option \<Rightarrow> string option" where
  "check_commitments script_sig [] height chain_index chain_id commitment_error =
    (case commitment_error of Some e \<Rightarrow> Some e | None \<Rightarrow> Some ''bad-auxpow-commitment'')"
| "check_commitments script_sig (c # cs) height chain_index chain_id commitment_error =
    (case check_commitment script_sig c height chain_index chain_id of
       None \<Rightarrow> check_commitments script_sig cs height chain_index chain_id commitment_error
     | Some (Some e) \<Rightarrow> check_commitments script_sig cs height chain_index chain_id (Some e)
     | Some None \<Rightarrow> None)"

subsection \<open>Validating a payload\<close>

definition CAuxPow_Validate ::
  "(bytes \<Rightarrow> uint256) \<Rightarrow> bool \<Rightarrow> CAuxPow \<Rightarrow> uint256 \<Rightarrow> Params \<Rightarrow> u32 \<Rightarrow> u16 \<Rightarrow> bool \<Rightarrow> CommitmentValidation \<Rightarrow> string option" where
  "CAuxPow_Validate H fuzz a aux_block_hash consensus target_bits expected_chain_id check_pow commitment_validation =
    (if \<not> IsCoinBase (ap_coinbase_tx a) then Some ''bad-auxpow-coinbase''
     else if ap_coinbase_branch_index a < 0 then Some ''bad-auxpow-coinbase-index''
     else if ap_coinbase_branch_index a \<noteq> 0 then Some ''bad-auxpow-coinbase-index''
     else if ap_chain_index a < 0 then Some ''bad-auxpow-chain-index''
     else if length (ap_chain_merkle_branch a) > MAX_CHAIN_MERKLE_BRANCH_LENGTH then Some ''bad-auxpow-chain-branch-size''
     else if length (ap_coinbase_merkle_branch a) \<ge> 32 then Some ''bad-auxpow-coinbase-branch-size''
     else if drop_bit (length (ap_coinbase_merkle_branch a)) (of_int (ap_coinbase_branch_index a) :: u32) \<noteq> 0
     then Some ''bad-auxpow-coinbase-index''
     else if drop_bit (length (ap_chain_merkle_branch a)) (of_int (ap_chain_index a) :: u32) \<noteq> 0
     then Some ''bad-auxpow-chain-index''
     else if CheckMerkleBranch H (tx_GetHash H (ap_coinbase_tx a)) (ap_coinbase_merkle_branch a)
               (of_int (ap_coinbase_branch_index a)) \<noteq> hdr_hashMerkleRoot (ap_parent_block a)
     then Some ''bad-auxpow-coinbase-branch''
     else if check_pow \<and> \<not> CheckProofOfWork fuzz (header_GetHash H (ap_parent_block a)) target_bits consensus
     then Some ''bad-auxpow-parent-hash''
     else
       let chain_root = CheckMerkleBranch H aux_block_hash (ap_chain_merkle_branch a) (of_int (ap_chain_index a));
           script_sig = txin_scriptSig (tx_vin (ap_coinbase_tx a) ! 0) in
       check_commitments script_sig (commitments commitment_validation chain_root)
         (length (ap_chain_merkle_branch a)) (ap_chain_index a) expected_chain_id None)"

definition auxpow_Validate ::
  "(bytes \<Rightarrow> uint256) \<Rightarrow> bool \<Rightarrow> 'a CBlockHeader_scheme \<Rightarrow> Params \<Rightarrow> bool \<Rightarrow> CommitmentValidation \<Rightarrow> string option" where
  "auxpow_Validate H fuzz block consensus check_pow commitment_validation =
    (if \<not> SignalsAuxpow block then
       if HasAuxpow block then Some ''bad-auxpow-unexpected-payload''
       else if check_pow \<and> \<not> CheckProofOfWork fuzz (header_GetHash H block) (hdr_nBits block) consensus
       then Some ''high-hash''
       else None
     else
       let expected_chain_id = of_int (cp_nAuxpowChainId consensus) :: u16 in
       if GetChainId block \<noteq> expected_chain_id then Some ''bad-auxpow-chainid''
       else (case hdr_auxpow block of
               None \<Rightarrow> Some ''bad-auxpow-missing-payload''
             | Some a \<Rightarrow> CAuxPow_Validate H fuzz a (header_GetHash H block) consensus (hdr_nBits block)
                           expected_chain_id check_pow commitment_validation))"

subsection \<open>Slots\<close>

lemma sint_nonneg_u32:
  assumes "unat (x::u32) < 2 ^ 31"
  shows "sint x = int (unat x)"
proof -
  have "int (unat x) < int (2 ^ 31)" using assms by (simp only: of_nat_less_iff)
  then have "uint x < 2 ^ 31" by simp
  moreover have "- (2 ^ 31) \<le> uint x" by (rule order_trans [OF _ unsigned_greater_eq]) simp
  ultimately show ?thesis using signed_take_bit_int_eq_self [of 31 "uint x"] by (simp add: sint_uint)
qed

lemma GetExpectedIndex_bounds:
  assumes "h \<le> 30"
  shows "0 \<le> GetExpectedIndex nonce chain_id h" "GetExpectedIndex nonce chain_id h < 2 ^ h"
proof -
  have "sint (r AND (push_bit h 1 - 1) :: u32) = int (unat r mod 2 ^ h)" for r :: u32
  proof -
    have m: "push_bit h (1::u32) - 1 = mask h" by (simp add: mask_eq_exp_minus_1)
    have u: "unat (r AND mask h) = unat r mod 2 ^ h" using assms by (simp add: unat_and_mask32)
    have "unat r mod 2 ^ h < 2 ^ h" by simp
    also have "(2::nat) ^ h \<le> 2 ^ 30" using assms by (intro power_increasing) auto
    finally have "unat (r AND mask h) < 2 ^ 31" using u by simp
    then have "sint (r AND mask h) = int (unat (r AND mask h))" by (rule sint_nonneg_u32)
    then show ?thesis unfolding m u .
  qed
  then have "GetExpectedIndex nonce chain_id h = int (unat (AdvanceSlotLcg (ucast ((ucast (AdvanceSlotLcg nonce) +
      ucast (of_int chain_id :: u32) :: u64) AND 0xffffffff))) mod 2 ^ h)"
    using assms by (simp add: GetExpectedIndex_def Let_def del: push_bit_of_1)
  then show "0 \<le> GetExpectedIndex nonce chain_id h" "GetExpectedIndex nonce chain_id h < 2 ^ h"
    by (simp_all del: of_nat_mod add: of_nat_less_iff [of _ "2 ^ h", simplified])
qed

subsection \<open>What an accepted payload proves\<close>

lemma search_from_eq_Some:
  "search_from st s pat = Some i \<longleftrightarrow> st \<le> i \<and> occurs_at pat s i \<and> (\<forall>j. st \<le> j \<longrightarrow> j < i \<longrightarrow> \<not> occurs_at pat s j)"
proof
  assume "search_from st s pat = Some i"
  then obtain k where k: "k < Suc (length s) - st" "occurs_at pat s (st + k)" "i = st + k" "\<forall>j<k. \<not> occurs_at pat s (st + j)"
    by (auto simp: search_from_def find_Some_iff simp del: upt_Suc)
  have "\<not> occurs_at pat s j" if "st \<le> j" "j < i" for j
    using k(4) that by (auto simp: k(3) dest: spec [of _ "j - st"])
  then show "st \<le> i \<and> occurs_at pat s i \<and> (\<forall>j. st \<le> j \<longrightarrow> j < i \<longrightarrow> \<not> occurs_at pat s j)" using k(2,3) by simp
next
  assume i: "st \<le> i \<and> occurs_at pat s i \<and> (\<forall>j. st \<le> j \<longrightarrow> j < i \<longrightarrow> \<not> occurs_at pat s j)"
  then have "i < Suc (length s)" by (simp add: occurs_at_def)
  then show "search_from st s pat = Some i" using i
    unfolding search_from_def find_Some_iff by (intro exI [of _ "i - st"]) (auto simp del: upt_Suc)
qed

lemma search_from_eq_None: "search_from st s pat = None \<longleftrightarrow> (\<forall>i\<ge>st. \<not> occurs_at pat s i)"
  by (auto simp: search_from_def find_None_iff occurs_at_def)

lemma search_from_Some: "search_from st s pat = Some i \<Longrightarrow> st \<le> i" "search_from st s pat = Some i \<Longrightarrow> occurs_at pat s i"
  by (simp_all add: search_from_eq_Some)

lemma search_from_None: "search_from st s pat = None \<Longrightarrow> st \<le> i \<Longrightarrow> \<not> occurs_at pat s i"
  by (simp add: search_from_eq_None)

lemma check_commitments_None:
  "check_commitments script cs h idx cid err = None \<longleftrightarrow> (\<exists>c\<in>set cs. check_commitment script c h idx cid = Some None)"
  by (induction cs arbitrary: err) (auto split: option.splits)

lemma set_commitments: "set (commitments cv r) = (case cv of INTERNAL \<Rightarrow> {r} | DISPLAY \<Rightarrow> {rev r} | EITHER \<Rightarrow> {r, rev r})"
  by (auto simp: commitments_def Let_def split: CommitmentValidation.splits)

lemma commitments_cases: "c \<in> set (commitments cv r) \<Longrightarrow> c = r \<or> c = rev r"
  by (auto simp: set_commitments split: CommitmentValidation.splits)

text \<open>
  The commitment as it stands in the parent's coinbase: the root, the size of the tree and the nonce.
\<close>

definition committed_at :: "bytes \<Rightarrow> nat \<Rightarrow> bytes \<Rightarrow> nat \<Rightarrow> int \<Rightarrow> u16 \<Rightarrow> bool" where
  "committed_at script pos c h idx cid \<longleftrightarrow>
    occurs_at c script pos \<and> pos + length c + 8 \<le> length script \<and>
    ReadLE32 (drop (pos + length c) script) = push_bit h 1 \<and>
    idx = GetExpectedIndex (ReadLE32 (drop (pos + length c + 4) script)) (uint cid) h"

lemma check_commitment_committed:
  assumes "check_commitment script c h idx cid = Some None"
  obtains pos where "committed_at script pos c h idx cid"
    "\<And>hp. search_from 0 script MERGED_MINING_HEADER = Some hp \<Longrightarrow>
      pos = hp + length MERGED_MINING_HEADER \<and> search_from (hp + 1) script MERGED_MINING_HEADER = None"
    "search_from 0 script MERGED_MINING_HEADER = None \<Longrightarrow> pos \<le> LEGACY_COMMITMENT_START_LIMIT"
proof -
  obtain pos where pos: "search_from 0 script c = Some pos"
    using assms by (auto simp: check_commitment_def split: option.splits)
  have occ: "occurs_at c script pos" by (rule search_from_Some(2) [OF pos])
  then have "pos + length c \<le> length script" by (simp add: occurs_at_def)
  then have room: "HasRoom (pos + length c) script 8 \<Longrightarrow> pos + length c + 8 \<le> length script"
    by (simp add: HasRoom_def)
  show thesis
  proof (cases "search_from 0 script MERGED_MINING_HEADER")
    case None
    then show thesis using that [of pos] assms pos occ room
      by (simp add: check_commitment_def Let_def committed_at_def split: if_splits)
  next
    case (Some hp)
    then have "search_from (hp + 1) script MERGED_MINING_HEADER = None \<and> hp + length MERGED_MINING_HEADER = pos \<and>
        HasRoom (pos + length c) script 8 \<and> ReadLE32 (drop (pos + length c) script) = push_bit h 1 \<and>
        idx = GetExpectedIndex (ReadLE32 (drop (pos + length c + 4) script)) (uint cid) h"
      using assms pos by (simp add: check_commitment_def Let_def del: push_bit_of_1 split: if_splits)
    then show thesis using Some occ room by (intro that [of pos]) (auto simp: committed_at_def)
  qed
qed

lemma CAuxPow_Validate_accepts:
  assumes "CAuxPow_Validate H fuzz a h params bits cid check_pow cv = None"
  shows "IsCoinBase (ap_coinbase_tx a)" "ap_coinbase_branch_index a = 0" "0 \<le> ap_chain_index a"
    "length (ap_chain_merkle_branch a) \<le> 30" "length (ap_coinbase_merkle_branch a) < 32"
    "CheckMerkleBranch H (tx_GetHash H (ap_coinbase_tx a)) (ap_coinbase_merkle_branch a) 0 = hdr_hashMerkleRoot (ap_parent_block a)"
    "check_pow \<Longrightarrow> CheckProofOfWork fuzz (header_GetHash H (ap_parent_block a)) bits params"
    "\<exists>c \<in> set (commitments cv (CheckMerkleBranch H h (ap_chain_merkle_branch a) (of_int (ap_chain_index a)))).
       check_commitment (txin_scriptSig (tx_vin (ap_coinbase_tx a) ! 0)) c (length (ap_chain_merkle_branch a))
         (ap_chain_index a) cid = Some None"
  using assms
  by (auto simp: CAuxPow_Validate_def Let_def check_commitments_None MAX_CHAIN_MERKLE_BRANCH_LENGTH_def split: if_splits)

text \<open>
  When one round accepts, said of the scriptSig itself: every merged-mining header in it stands right
  before the first occurrence of the root, or there is none and the root starts near the beginning;
  behind the root stand the size of the chain tree and a nonce, which gives the slot of this chain.
\<close>

lemma merged_header_search:
  "(case search_from 0 script MERGED_MINING_HEADER of
      Some p \<Rightarrow> search_from (p + 1) script MERGED_MINING_HEADER = None \<and> p + length MERGED_MINING_HEADER = pos
    | None \<Rightarrow> pos \<le> LEGACY_COMMITMENT_START_LIMIT) \<longleftrightarrow>
    (\<forall>i. occurs_at MERGED_MINING_HEADER script i \<longrightarrow> i + length MERGED_MINING_HEADER = pos) \<and>
    ((\<exists>i. occurs_at MERGED_MINING_HEADER script i) \<or> pos \<le> LEGACY_COMMITMENT_START_LIMIT)"
proof (cases "search_from 0 script MERGED_MINING_HEADER")
  case None
  then show ?thesis unfolding None using None by (simp add: search_from_eq_None)
next
  case (Some p)
  then have p: "occurs_at MERGED_MINING_HEADER script p" "\<And>i. occurs_at MERGED_MINING_HEADER script i \<Longrightarrow> p \<le> i"
    by (auto simp: search_from_eq_Some not_less)
  have one: "(\<forall>i\<ge>p + 1. \<not> occurs_at MERGED_MINING_HEADER script i) \<longleftrightarrow> (\<forall>i. occurs_at MERGED_MINING_HEADER script i \<longrightarrow> i = p)"
    using p(2) by (metis Suc_eq_plus1 Suc_n_not_le_n le_antisym not_less_eq_eq)
  have "(\<forall>i. occurs_at MERGED_MINING_HEADER script i \<longrightarrow> i = p) \<and> p + k = pos \<longleftrightarrow>
      (\<forall>i. occurs_at MERGED_MINING_HEADER script i \<longrightarrow> i + k = pos)" for k
    using p(1) by (metis add_right_cancel)
  then show ?thesis unfolding Some option.case search_from_eq_None one using p(1) by blast
qed

lemma check_commitment_iff:
  "check_commitment script c n idx cid = Some None \<longleftrightarrow> (\<exists>pos. occurs_at c script pos \<and> (\<forall>i<pos. \<not> occurs_at c script i) \<and>
    (\<forall>i. occurs_at MERGED_MINING_HEADER script i \<longrightarrow> i + length MERGED_MINING_HEADER = pos) \<and>
    ((\<exists>i. occurs_at MERGED_MINING_HEADER script i) \<or> pos \<le> LEGACY_COMMITMENT_START_LIMIT) \<and>
    pos + length c + 8 \<le> length script \<and> ReadLE32 (drop (pos + length c) script) = 2 ^ n \<and>
    idx = GetExpectedIndex (ReadLE32 (drop (pos + length c + 4) script)) (uint cid) n)"
  (is "_ \<longleftrightarrow> (\<exists>pos. ?P pos)")
proof (cases "search_from 0 script c")
  case None
  then have "\<not> occurs_at c script i" for i by (simp add: search_from_eq_None)
  then show ?thesis unfolding check_commitment_def None by simp
next
  case (Some pos)
  then have pos: "occurs_at c script pos" "\<And>i. i < pos \<Longrightarrow> \<not> occurs_at c script i" "pos + length c \<le> length script"
    by (auto simp: search_from_eq_Some occurs_at_def)
  have "check_commitment script c n idx cid = Some None \<longleftrightarrow>
      (case search_from 0 script MERGED_MINING_HEADER of
        Some p \<Rightarrow> search_from (p + 1) script MERGED_MINING_HEADER = None \<and> p + length MERGED_MINING_HEADER = pos
      | None \<Rightarrow> pos \<le> LEGACY_COMMITMENT_START_LIMIT) \<and>
      pos + length c + 8 \<le> length script \<and> ReadLE32 (drop (pos + length c) script) = 2 ^ n \<and>
      idx = GetExpectedIndex (ReadLE32 (drop (pos + length c + 4) script)) (uint cid) n"
    using Some pos(3) by (auto simp: check_commitment_def Let_def HasRoom_def split: option.splits)
  also have "\<dots> \<longleftrightarrow> ?P pos" unfolding merged_header_search using pos(1,2) by blast
  also have "\<dots> \<longleftrightarrow> (\<exists>pos. ?P pos)"
  proof -
    have "q = pos" if "?P q" for q using that pos(1,2) by (meson linorder_neqE_nat)
    then show ?thesis by blast
  qed
  finally show ?thesis .
qed

lemma slot_in_range:
  assumes "n \<le> 30" "idx = GetExpectedIndex nonce cid n"
  shows "0 \<le> idx" "idx < 2 ^ n" "drop_bit n (of_int idx :: u32) = 0"
proof -
  show b: "0 \<le> idx" "idx < 2 ^ n" using GetExpectedIndex_bounds [OF assms(1)] assms(2) by auto
  have "(2::int) ^ n \<le> 2 ^ 30" using assms(1) by (intro power_increasing) auto
  then have "unat (of_int idx :: u32) = nat idx"
    using b by (simp add: unsigned_of_int take_bit_int_eq_self)
  then have "unat (of_int idx :: u32) < 2 ^ n" using b by (simp add: nat_less_iff)
  then have "unat (drop_bit n (of_int idx :: u32)) = 0" unfolding unat_drop_bit_eq by (simp add: drop_bit_eq_div)
  then show "drop_bit n (of_int idx :: u32) = 0" by (simp only: unsigned_eq_0_iff)
qed

lemma CAuxPow_Validate_iff:
  "CAuxPow_Validate H fuzz a h params bits cid check_pow cv = None \<longleftrightarrow>
    IsCoinBase (ap_coinbase_tx a) \<and> ap_coinbase_branch_index a = 0 \<and>
    length (ap_chain_merkle_branch a) \<le> 30 \<and> length (ap_coinbase_merkle_branch a) < 32 \<and>
    CheckMerkleBranch H (tx_GetHash H (ap_coinbase_tx a)) (ap_coinbase_merkle_branch a) 0 = hdr_hashMerkleRoot (ap_parent_block a) \<and>
    (check_pow \<longrightarrow> CheckProofOfWork fuzz (header_GetHash H (ap_parent_block a)) bits params) \<and>
    (\<exists>c \<in> set (commitments cv (CheckMerkleBranch H h (ap_chain_merkle_branch a) (of_int (ap_chain_index a)))).
       check_commitment (txin_scriptSig (tx_vin (ap_coinbase_tx a) ! 0)) c (length (ap_chain_merkle_branch a))
         (ap_chain_index a) cid = Some None)"
  (is "_ \<longleftrightarrow> ?R")
proof
  assume ?R
  then have "0 \<le> ap_chain_index a \<and> drop_bit (length (ap_chain_merkle_branch a)) (of_int (ap_chain_index a) :: u32) = 0"
    using slot_in_range [of "length (ap_chain_merkle_branch a)" "ap_chain_index a"] by (auto simp: check_commitment_iff)
  then show "CAuxPow_Validate H fuzz a h params bits cid check_pow cv = None" using \<open>?R\<close>
    by (simp add: CAuxPow_Validate_def Let_def check_commitments_None MAX_CHAIN_MERKLE_BRANCH_LENGTH_def)
qed (auto dest: CAuxPow_Validate_accepts)

subsection \<open>One parent coinbase, one block\<close>

fun branch_inputs :: "(bytes \<Rightarrow> uint256) \<Rightarrow> uint256 \<Rightarrow> uint256 list \<Rightarrow> u32 \<Rightarrow> bytes set" where
  "branch_inputs H h [] i = {}"
| "branch_inputs H h (s # br) i =
    (let x = (if i AND 1 \<noteq> 0 then s @ h else h @ s) in insert x (branch_inputs H (H x) br (drop_bit 1 i)))"

lemma CheckMerkleBranch_binding:
  assumes H: "\<And>x. length (H x) = 32"
  shows "length br = length br' \<Longrightarrow> length h = 32 \<Longrightarrow> length h' = 32 \<Longrightarrow>
    list_all (\<lambda>x. length x = 32) br \<Longrightarrow> list_all (\<lambda>x. length x = 32) br' \<Longrightarrow>
    CheckMerkleBranch H h br i = CheckMerkleBranch H h' br' i \<Longrightarrow>
    (h = h' \<and> br = br') \<or> collision H (branch_inputs H h br i) (branch_inputs H h' br' i)"
proof (induction br arbitrary: br' h h' i)
  case (Cons s br)
  then obtain t br2 where br': "br' = t # br2" by (cases br') auto
  define x where "x = (if i AND 1 \<noteq> 0 then s @ h else h @ s)"
  define y where "y = (if i AND 1 \<noteq> 0 then t @ h' else h' @ t)"
  have "CheckMerkleBranch H (H x) br (drop_bit 1 i) = CheckMerkleBranch H (H y) br2 (drop_bit 1 i)"
    using Cons.prems(6) br' by (simp add: x_def y_def Hash2_def split: if_splits)
  then have IH: "(H x = H y \<and> br = br2) \<or> collision H (branch_inputs H (H x) br (drop_bit 1 i)) (branch_inputs H (H y) br2 (drop_bit 1 i))"
    using Cons.IH [of br2 "H x" "H y" "drop_bit 1 i"] Cons.prems br' H by simp
  have inp: "branch_inputs H h (s # br) i = insert x (branch_inputs H (H x) br (drop_bit 1 i))"
    "branch_inputs H h' br' i = insert y (branch_inputs H (H y) br2 (drop_bit 1 i))"
    by (simp_all add: br' x_def y_def Let_def)
  have xy: "x = y \<Longrightarrow> h = h' \<and> s = t" using Cons.prems br' by (auto simp: x_def y_def split: if_splits)
  show ?case
  proof (cases "x = y")
    case True
    then show ?thesis using xy IH br' unfolding inp by (auto simp: collision_def)
  next
    case False
    then show ?thesis using IH unfolding inp by (auto simp: collision_def)
  qed
qed simp

lemma committed_unique:
  assumes c: "committed_at script pos c h idx cid" "committed_at script pos c' h' idx' cid" and len: "length c = length c'"
    and h: "h \<le> 30" "h' \<le> 30"
  shows "c = c' \<and> h = h' \<and> idx = idx'"
proof -
  have "c = c'" using c len by (auto simp: committed_at_def occurs_at_def)
  moreover have "push_bit h (1::u32) = push_bit h' 1" using c len unfolding committed_at_def by metis
  then have "bit (push_bit h (1::u32)) h = bit (push_bit h' (1::u32)) h" by simp
  then have "h = h'" using h by (auto simp: bit_simps simp del: push_bit_of_1)
  ultimately show ?thesis using c by (auto simp: committed_at_def)
qed

theorem auxpow_single_commitment:
  fixes a1 a2 :: CAuxPow
  defines "script \<equiv> txin_scriptSig (tx_vin (ap_coinbase_tx a1) ! 0)"
  assumes H: "\<And>x. length (H x) = 32" and cv: "cv \<noteq> EITHER"
    and ok: "CAuxPow_Validate H fuzz a1 h1 params bits1 cid pow1 cv = None" "CAuxPow_Validate H fuzz a2 h2 params bits2 cid pow2 cv = None"
    and sc: "txin_scriptSig (tx_vin (ap_coinbase_tx a2) ! 0) = script"
    and mm: "search_from 0 script MERGED_MINING_HEADER \<noteq> None"
    and len: "length h1 = 32" "length h2 = 32" "list_all (\<lambda>x. length x = 32) (ap_chain_merkle_branch a1)"
      "list_all (\<lambda>x. length x = 32) (ap_chain_merkle_branch a2)"
  shows "h1 = h2 \<or> collision H (branch_inputs H h1 (ap_chain_merkle_branch a1) (of_int (ap_chain_index a1)))
    (branch_inputs H h2 (ap_chain_merkle_branch a2) (of_int (ap_chain_index a2)))"
proof -
  let ?r1 = "CheckMerkleBranch H h1 (ap_chain_merkle_branch a1) (of_int (ap_chain_index a1))"
  let ?r2 = "CheckMerkleBranch H h2 (ap_chain_merkle_branch a2) (of_int (ap_chain_index a2))"
  have root_len: "length (CheckMerkleBranch H h br i) = 32" if "length h = 32" for h br i
    using that H by (induction br arbitrary: h i) (auto simp: Hash2_def)
  obtain hp where hp: "search_from 0 script MERGED_MINING_HEADER = Some hp" using mm by blast
  define f where "f r = (case cv of INTERNAL \<Rightarrow> r | _ \<Rightarrow> rev r)" for r :: uint256
  have one: "commitments cv r = [f r]" for r using cv by (cases cv) (simp_all add: commitments_def f_def)
  have comm: "committed_at script (hp + length MERGED_MINING_HEADER) (f (CheckMerkleBranch H h (ap_chain_merkle_branch a) (of_int (ap_chain_index a))))
      (length (ap_chain_merkle_branch a)) (ap_chain_index a) cid"
    if "CAuxPow_Validate H fuzz a h params bits cid pow cv = None" "txin_scriptSig (tx_vin (ap_coinbase_tx a) ! 0) = script"
    for a h bits pow
    using CAuxPow_Validate_accepts(8) [OF that(1)] that(2) hp unfolding one
    by (auto elim!: check_commitment_committed)
  have same: "f ?r1 = f ?r2 \<and> length (ap_chain_merkle_branch a1) = length (ap_chain_merkle_branch a2) \<and> ap_chain_index a1 = ap_chain_index a2"
  proof (rule committed_unique)
    show "length (f ?r1) = length (f ?r2)" using root_len len by (simp add: f_def split: CommitmentValidation.split)
  qed (use comm [OF ok(1)] comm [OF ok(2) sc] script_def CAuxPow_Validate_accepts(4) [OF ok(1)] CAuxPow_Validate_accepts(4) [OF ok(2)] in auto)
  have "?r1 = ?r2" using conjunct1 [OF same] by (simp add: f_def split: CommitmentValidation.splits)
  then have eq: "?r1 = ?r2" "length (ap_chain_merkle_branch a1) = length (ap_chain_merkle_branch a2)"
      "ap_chain_index a2 = ap_chain_index a1"
    using same by simp_all
  show ?thesis
    using CheckMerkleBranch_binding [OF H eq(2) len eq(1) [unfolded eq(3)]] unfolding eq(3) by blast
qed

end
