(* ===== verification/Coins_DB.thy ===== *)
theory Coins_DB
  imports Coins
begin

text \<open>
  The database view of the coins, \<^verbatim>\<open>CCoinsViewDB\<close> in \<^verbatim>\<open>src/src/txdb.cpp\<close>. The key-value store is a record
  of the three kinds of keys the view uses, and a batch is a list of writes and erasures the store
  applies atomically. \<^verbatim>\<open>BatchWrite\<close> may split its work into several batches; when it does so depends on
  sizes only the store knows, hence on the parameter \<open>full\<close>. The theory shows that the store ends up
  with the coins of the cache and the new tip, whatever the splitting, and that a process killed between
  two batches leaves a store that names both tips and in which every coin is either old or new.
\<close>

record CCoinsViewDB =
  db_coins :: "COutPoint \<Rightarrow> Coin option"
  db_best_block :: "uint256 option"
  db_head_blocks :: "uint256 list option"

datatype batch_op =
    Write_Coin COutPoint Coin
  | Erase_Coin COutPoint
  | Write_Best uint256
  | Erase_Best
  | Write_Heads "uint256 list"
  | Erase_Heads

primrec apply_op :: "batch_op \<Rightarrow> CCoinsViewDB \<Rightarrow> CCoinsViewDB" where
  "apply_op (Write_Coin op coin) db = db\<lparr>db_coins := (db_coins db)(op \<mapsto> coin)\<rparr>"
| "apply_op (Erase_Coin op) db = db\<lparr>db_coins := (db_coins db)(op := None)\<rparr>"
| "apply_op (Write_Best h) db = db\<lparr>db_best_block := Some h\<rparr>"
| "apply_op Erase_Best db = db\<lparr>db_best_block := None\<rparr>"
| "apply_op (Write_Heads hs) db = db\<lparr>db_head_blocks := Some hs\<rparr>"
| "apply_op Erase_Heads db = db\<lparr>db_head_blocks := None\<rparr>"

definition WriteBatch :: "batch_op list \<Rightarrow> CCoinsViewDB \<Rightarrow> CCoinsViewDB" where
  "WriteBatch batch db = fold apply_op batch db"

definition db_GetCoin :: "CCoinsViewDB \<Rightarrow> COutPoint \<Rightarrow> Coin option" where
  "db_GetCoin db op = db_coins db op"

definition db_GetBestBlock :: "CCoinsViewDB \<Rightarrow> uint256" where
  "db_GetBestBlock db = (case db_best_block db of None \<Rightarrow> uint256_null | Some h \<Rightarrow> h)"

definition GetHeadBlocks :: "CCoinsViewDB \<Rightarrow> uint256 list" where
  "GetHeadBlocks db = (case db_head_blocks db of None \<Rightarrow> [] | Some hs \<Rightarrow> hs)"

definition coin_op :: "COutPoint \<times> CCoinsCacheEntry \<Rightarrow> batch_op list" where
  "coin_op it = (case it of (op, e) \<Rightarrow>
    if ce_dirty e then [if Coin_IsSpent (ce_coin e) then Erase_Coin op else Write_Coin op (ce_coin e)] else [])"

text \<open>The loop returns the batch still to be written and the states of the store so far, the last one first.\<close>

fun db_loop ::
  "(batch_op list \<Rightarrow> bool) \<Rightarrow> cursor \<Rightarrow> batch_op list \<Rightarrow> CCoinsViewDB \<Rightarrow> CCoinsViewDB list
    \<Rightarrow> batch_op list \<times> CCoinsViewDB \<times> CCoinsViewDB list" where
  "db_loop full [] batch db states = (batch, db, states)"
| "db_loop full (it # its) batch db states =
    (let batch1 = batch @ coin_op it in
     if full batch1 then db_loop full its [] (WriteBatch batch1 db) (WriteBatch batch1 db # states)
     else db_loop full its batch1 db states)"

definition old_tip_of :: "uint256 \<Rightarrow> CCoinsViewDB \<Rightarrow> uint256 cxx" where
  "old_tip_of hashBlock db =
    (let old_tip = db_GetBestBlock db; old_heads = GetHeadBlocks db in
     if uint256_IsNull old_tip \<and> length old_heads = 2
     then bindE (cxx_assert (old_heads ! 0 = hashBlock)) (\<lambda>_. Inr (old_heads ! 1))
     else Inr old_tip)"

definition db_BatchWrite ::
  "(batch_op list \<Rightarrow> bool) \<Rightarrow> cursor \<Rightarrow> uint256 \<Rightarrow> CCoinsViewDB \<Rightarrow> (CCoinsViewDB list \<times> CCoinsViewDB) cxx" where
  "db_BatchWrite full its hashBlock db =
    bindE (cxx_assert (\<not> uint256_IsNull hashBlock)) (\<lambda>_.
    bindE (old_tip_of hashBlock db) (\<lambda>old_tip.
    case db_loop full its [Erase_Best, Write_Heads [hashBlock, old_tip]] db [] of (batch, db1, states) \<Rightarrow>
      Inr (states, WriteBatch (batch @ [Erase_Heads, Write_Best hashBlock]) db1)))"

subsection \<open>What a batch does to the store\<close>

lemma WriteBatch_append: "WriteBatch (a @ b) db = WriteBatch b (WriteBatch a db)"
  by (simp add: WriteBatch_def)

lemma WriteBatch_coin_op:
  "WriteBatch (coin_op it) db = db\<lparr>db_coins := (db_coins db)(fst it :=
    if ce_dirty (snd it) then visible None (Some (snd it)) else db_coins db (fst it))\<rparr>"
  by (cases it; cases db) (auto simp: WriteBatch_def coin_op_def)

text \<open>The splitting does not matter for the store after the last write.\<close>

lemma db_loop_final:
  "db_loop full its batch db states = (batch', db', states') \<Longrightarrow>
    WriteBatch batch' db' = WriteBatch (batch @ concat (map coin_op its)) db"
proof (induction its arbitrary: batch db states)
  case Nil
  then show ?case by simp
next
  case (Cons it its)
  show ?case
  proof (cases "full (batch @ coin_op it)")
    case True
    then have "db_loop full its [] (WriteBatch (batch @ coin_op it) db) (WriteBatch (batch @ coin_op it) db # states) = (batch', db', states')"
      using Cons.prems by (simp add: Let_def)
    from Cons.IH [OF this] show ?thesis by (simp add: WriteBatch_append)
  next
    case False
    then have "db_loop full its (batch @ coin_op it) db states = (batch', db', states')"
      using Cons.prems by (simp add: Let_def)
    from Cons.IH [OF this] show ?thesis by simp
  qed
qed

lemma WriteBatch_cursor:
  "distinct (map fst its) \<Longrightarrow> WriteBatch (concat (map coin_op its)) db = db\<lparr>db_coins := flushed (db_coins db) its\<rparr>"
proof (induction its arbitrary: db)
  case Nil
  then show ?case by (simp add: WriteBatch_def flushed_def fun_eq_iff)
next
  case (Cons it its)
  then have "fst it \<notin> fst ` set its" by simp
  then show ?case using Cons by (simp add: WriteBatch_append WriteBatch_coin_op flushed_Cons)
qed

text \<open>The states a crash can leave behind: those after each batch but the last.\<close>

lemma db_loop_states:
  assumes "db_loop full its batch db states = (batch', db', states')" "s \<in> set states'"
  shows "s \<in> set states \<or> (\<exists>k \<le> length its. s = WriteBatch (batch @ concat (map coin_op (take k its))) db)"
  using assms
proof (induction its arbitrary: batch db states)
  case (Cons it its)
  show ?case
  proof (cases "full (batch @ coin_op it)")
    case True
    let ?d = "WriteBatch (batch @ coin_op it) db"
    have "db_loop full its [] ?d (?d # states) = (batch', db', states')" using True Cons.prems(1) by (simp add: Let_def)
    from Cons.IH [OF this Cons.prems(2)]
    consider "s = ?d" | "s \<in> set states" | k where "k \<le> length its" "s = WriteBatch ([] @ concat (map coin_op (take k its))) ?d"
      by auto
    then show ?thesis
    proof cases
      case 1
      then show ?thesis by (intro disjI2 exI [of _ 1]) simp
    next
      case 3
      then show ?thesis by (intro disjI2 exI [of _ "Suc k"]) (simp add: WriteBatch_append)
    qed simp
  next
    case False
    then have "db_loop full its (batch @ coin_op it) db states = (batch', db', states')"
      using Cons.prems(1) by (simp add: Let_def)
    from Cons.IH [OF this Cons.prems(2)]
    consider "s \<in> set states"
      | k where "k \<le> length its" "s = WriteBatch ((batch @ coin_op it) @ concat (map coin_op (take k its))) db"
      by auto
    then show ?thesis
    proof cases
      case 2
      then show ?thesis by (intro disjI2 exI [of _ "Suc k"]) simp
    qed simp
  qed
qed simp

definition db_tip_ok :: "CCoinsViewDB \<Rightarrow> uint256 \<Rightarrow> bool" where
  "db_tip_ok db h \<longleftrightarrow> \<not> uint256_IsNull h \<and> (\<exists>t. old_tip_of h db = Inr t)"

lemma flushed_take:
  assumes "distinct (map fst its)"
  shows "flushed V (take k its) op = V op \<or> flushed V (take k its) op = flushed V its op"
proof (cases "map_of (take k its) op")
  case None
  then show ?thesis by (simp add: flushed_def)
next
  case (Some e)
  then have "(op, e) \<in> set its" using map_of_SomeD in_set_takeD by metis
  then have "map_of its op = Some e" using assms by simp
  then show ?thesis using Some by (simp add: flushed_def)
qed

lemma db_BatchWrite_ok:
  assumes tip: "db_tip_ok db h" and d: "distinct (map fst its)"
  obtains states where "db_BatchWrite full its h db =
      Inr (states, \<lparr>db_coins = flushed (db_coins db) its, db_best_block = Some h, db_head_blocks = None\<rparr>)"
    "\<And>s. s \<in> set states \<Longrightarrow> db_best_block s = None \<and> (\<exists>t. old_tip_of h db = Inr t \<and> db_head_blocks s = Some [h, t]) \<and>
      (\<forall>op. db_coins s op = db_coins db op \<or> db_coins s op = flushed (db_coins db) its op)"
proof -
  obtain t where t: "old_tip_of h db = Inr t" "\<not> uint256_IsNull h" using tip by (auto simp: db_tip_ok_def)
  let ?b0 = "[Erase_Best, Write_Heads [h, t]]"
  let ?d0 = "db\<lparr>db_best_block := None, db_head_blocks := Some [h, t]\<rparr>"
  have d0: "WriteBatch ?b0 db = ?d0" by (simp add: WriteBatch_def)
  obtain batch db1 states where l: "db_loop full its ?b0 db [] = (batch, db1, states)" using prod_cases3 by blast
  have "WriteBatch batch db1 = WriteBatch (concat (map coin_op its)) ?d0"
    using db_loop_final [OF l] by (simp only: WriteBatch_append d0)
  then have "WriteBatch (batch @ [Erase_Heads, Write_Best h]) db1 =
      \<lparr>db_coins = flushed (db_coins db) its, db_best_block = Some h, db_head_blocks = None\<rparr>"
    using WriteBatch_cursor [OF d, of ?d0] unfolding WriteBatch_append by (simp add: WriteBatch_def)
  then have "db_BatchWrite full its h db =
      Inr (states, \<lparr>db_coins = flushed (db_coins db) its, db_best_block = Some h, db_head_blocks = None\<rparr>)"
    using t l by (simp add: db_BatchWrite_def)
  moreover have "db_best_block s = None \<and> (\<exists>t. old_tip_of h db = Inr t \<and> db_head_blocks s = Some [h, t]) \<and>
      (\<forall>op. db_coins s op = db_coins db op \<or> db_coins s op = flushed (db_coins db) its op)" if s: "s \<in> set states" for s
  proof -
    obtain k where "s = WriteBatch (?b0 @ concat (map coin_op (take k its))) db"
      using db_loop_states [OF l s] by auto
    moreover have "distinct (map fst (take k its))" using d by (simp add: take_map [symmetric] distinct_take)
    ultimately have "s = ?d0\<lparr>db_coins := flushed (db_coins db) (take k its)\<rparr>"
      by (simp only: WriteBatch_append d0 WriteBatch_cursor) simp
    then show ?thesis using t flushed_take [OF d] by auto
  qed
  ultimately show thesis using that by blast
qed

definition db_write :: "(batch_op list \<Rightarrow> bool) \<Rightarrow> cursor \<Rightarrow> uint256 \<Rightarrow> CCoinsViewDB \<Rightarrow> (bool \<times> CCoinsViewDB) cxx" where
  "db_write full its h db = bindE (db_BatchWrite full its h db) (\<lambda>(_, db'). Inr (True, db'))"

lemma base_ok_flushed: "base_ok V \<Longrightarrow> base_ok (flushed V its)"
  by (auto simp: base_ok_def flushed_def split: option.splits if_splits)

interpretation database: coins_view db_GetCoin "db_write full" "\<lambda>db. base_ok (db_GetCoin db)" db_tip_ok for full
proof unfold_locales
  fix db h its
  assume v: "base_ok (db_GetCoin db)" "db_tip_ok db h" "cursor_ok (db_GetCoin db) its"
  have g: "db_GetCoin d = db_coins d" for d by (simp add: db_GetCoin_def fun_eq_iff)
  have "distinct (map fst its)" using v(3) by (simp add: cursor_ok_def)
  then obtain states where "db_BatchWrite full its h db =
      Inr (states, \<lparr>db_coins = flushed (db_coins db) its, db_best_block = Some h, db_head_blocks = None\<rparr>)"
    using db_BatchWrite_ok [OF v(2)] by metis
  then show "\<exists>v'. db_write full its h db = Inr (True, v') \<and> base_ok (db_GetCoin v') \<and> db_GetCoin v' = flushed (db_GetCoin db) its"
    using v(1) by (auto simp: db_write_def g base_ok_flushed)
qed

end
