(* ===== verification/Coins_Session.thy ===== *)
theory Coins_Session
  imports Coins_DB
begin

text \<open>
  A coin cache over the database, used through any sequence of calls. The specification is one map of
  unspent coins and the hash of the tip: it knows nothing of entries, flags, memory accounting or
  batches. The theory shows that the cache and the database together implement it: every sequence of
  calls the specification admits gives the same answers and keeps the consistency check of the cache
  silent, wherever the calls to \<^verbatim>\<open>Sync\<close>, \<^verbatim>\<open>Flush\<close> and \<^verbatim>\<open>Uncache\<close> stand and however the database splits its
  batches.
\<close>

subsection \<open>Calls and their execution\<close>

datatype coin_call =
    Call_GetCoin COutPoint
  | Call_HaveCoin COutPoint
  | Call_AccessCoin COutPoint
  | Call_AddCoin COutPoint Coin bool
  | Call_SpendCoin COutPoint
  | Call_Uncache COutPoint
  | Call_SetBestBlock uint256
  | Call_GetBestBlock
  | Call_Sync
  | Call_Flush

datatype coin_answer = No_Answer | Coin_Answer "Coin option" | Bool_Answer bool | Hash_Answer uint256

type_synonym coin_stack = "CCoinsViewCache \<times> CCoinsViewDB"

fun run_call :: "(CScript \<Rightarrow> u64) \<Rightarrow> (batch_op list \<Rightarrow> bool) \<Rightarrow> coin_call \<Rightarrow> coin_stack \<Rightarrow> (coin_answer \<times> coin_stack) cxx" where
  "run_call mu full (Call_GetCoin op) (c, db) =
    (case GetCoin mu (db_GetCoin db) op c of (r, c') \<Rightarrow> Inr (Coin_Answer r, c', db))"
| "run_call mu full (Call_HaveCoin op) (c, db) =
    (case HaveCoin mu (db_GetCoin db) op c of (r, c') \<Rightarrow> Inr (Bool_Answer r, c', db))"
| "run_call mu full (Call_AccessCoin op) (c, db) =
    (case AccessCoin mu (db_GetCoin db) op c of (r, c') \<Rightarrow>
      Inr (Coin_Answer (if Coin_IsSpent r then None else Some r), c', db))"
| "run_call mu full (Call_AddCoin op coin ow) (c, db) =
    bindE (AddCoin mu op coin ow c) (\<lambda>c'. Inr (No_Answer, c', db))"
| "run_call mu full (Call_SpendCoin op) (c, db) =
    (case SpendCoin mu (db_GetCoin db) op c of (r, c') \<Rightarrow> Inr (Coin_Answer r, c', db))"
| "run_call mu full (Call_Uncache op) (c, db) = Inr (No_Answer, Uncache mu op c, db)"
| "run_call mu full (Call_SetBestBlock h) (c, db) = Inr (No_Answer, SetBestBlock h c, db)"
| "run_call mu full Call_GetBestBlock (c, db) =
    (case GetBestBlock (db_GetBestBlock db) c of (h, c') \<Rightarrow> Inr (Hash_Answer h, c', db))"
| "run_call mu full Call_Sync (c, db) =
    bindE (Sync mu (db_write full) c db) (\<lambda>(ok, c', db'). Inr (Bool_Answer ok, c', db'))"
| "run_call mu full Call_Flush (c, db) =
    bindE (Flush (db_write full) c db) (\<lambda>(ok, c', db'). Inr (Bool_Answer ok, c', db'))"

fun run_calls :: "(CScript \<Rightarrow> u64) \<Rightarrow> (batch_op list \<Rightarrow> bool) \<Rightarrow> coin_call list \<Rightarrow> coin_stack \<Rightarrow> (coin_answer list \<times> coin_stack) cxx" where
  "run_calls mu full [] s = Inr ([], s)"
| "run_calls mu full (x # xs) s =
    bindE (run_call mu full x s) (\<lambda>(a, s1). bindE (run_calls mu full xs s1) (\<lambda>(as, s2). Inr (a # as, s2)))"

subsection \<open>The specification\<close>

record coin_set =
  cs_coins :: "COutPoint \<Rightarrow> Coin option"
  cs_tip :: uint256

text \<open>
  A coin may be added where there is none, or over an old one when the caller says so; only an existing
  coin may be spent; the tip is a block hash.
\<close>

fun spec_call :: "coin_call \<Rightarrow> coin_set \<Rightarrow> (coin_answer \<times> coin_set) option" where
  "spec_call (Call_GetCoin op) s = Some (Coin_Answer (cs_coins s op), s)"
| "spec_call (Call_HaveCoin op) s = Some (Bool_Answer (cs_coins s op \<noteq> None), s)"
| "spec_call (Call_AccessCoin op) s = Some (Coin_Answer (cs_coins s op), s)"
| "spec_call (Call_AddCoin op coin ow) s =
    (if Coin_IsSpent coin then None
     else if IsUnspendable (txout_scriptPubKey (coin_out coin)) then Some (No_Answer, s)
     else if ow \<or> cs_coins s op = None then Some (No_Answer, s\<lparr>cs_coins := (cs_coins s)(op \<mapsto> coin)\<rparr>) else None)"
| "spec_call (Call_SpendCoin op) s =
    (if cs_coins s op = None then None
     else Some (Coin_Answer (cs_coins s op), s\<lparr>cs_coins := (cs_coins s)(op := None)\<rparr>))"
| "spec_call (Call_Uncache op) s = Some (No_Answer, s)"
| "spec_call (Call_SetBestBlock h) s = (if uint256_IsNull h then None else Some (No_Answer, s\<lparr>cs_tip := h\<rparr>))"
| "spec_call Call_GetBestBlock s = Some (Hash_Answer (cs_tip s), s)"
| "spec_call Call_Sync s = Some (Bool_Answer True, s)"
| "spec_call Call_Flush s = Some (Bool_Answer True, s)"

fun spec_calls :: "coin_call list \<Rightarrow> coin_set \<Rightarrow> (coin_answer list \<times> coin_set) option" where
  "spec_calls [] s = Some ([], s)"
| "spec_calls (x # xs) s =
    (case spec_call x s of None \<Rightarrow> None
     | Some (a, s1) \<Rightarrow> (case spec_calls xs s1 of None \<Rightarrow> None | Some (as, s2) \<Rightarrow> Some (a # as, s2)))"

text \<open>The states of cache and database that represent a state of the specification.\<close>

definition represents :: "(CScript \<Rightarrow> u64) \<Rightarrow> coin_stack \<Rightarrow> coin_set \<Rightarrow> bool" where
  "represents mu st s \<longleftrightarrow> (case st of (c, db) \<Rightarrow>
    base_ok (db_GetCoin db) \<and> GetHeadBlocks db = [] \<and> cache_inv mu (db_GetCoin db) c \<and>
    cache_view (db_GetCoin db) c = cs_coins s \<and> cc_hashBlock c = cs_tip s \<and> \<not> uint256_IsNull (cs_tip s))"

subsection \<open>Every call refines its specification\<close>


lemma GetCoin_hash: "GetCoin mu B op c = (r, c') \<Longrightarrow> cc_hashBlock c' = cc_hashBlock c"
  by (auto simp: GetCoin_def FetchCoin_def Let_def coin_defs split: option.splits if_splits prod.splits)

lemma settled_tip:
  assumes "GetHeadBlocks db = []" "\<not> uint256_IsNull h"
  shows "db_tip_ok db h"
  using assms by (simp add: db_tip_ok_def old_tip_of_def)

lemma db_write_heads:
  assumes "db_write full its h db = Inr (True, db')"
  shows "GetHeadBlocks db' = []"
proof -
  obtain batch db1 where "db' = WriteBatch (batch @ [Erase_Heads, Write_Best h]) db1"
    using assms by (auto simp: db_write_def db_BatchWrite_def bindE_def split: sum.splits prod.splits)
  then show ?thesis by (simp add: WriteBatch_def GetHeadBlocks_def)
qed

lemma Flush_write: "Flush write c db = Inr (True, c', db') \<Longrightarrow> write (cursor_entries c) (cc_hashBlock c) db = Inr (True, db') \<and> cc_hashBlock c' = cc_hashBlock c"
  by (auto simp: Flush_def bindE_def Let_def split: sum.splits)

lemma NextAndMaybeErase_hash [simp]: "cc_hashBlock (NextAndMaybeErase mu b op c) = cc_hashBlock c"
  by (simp add: NextAndMaybeErase_def split: option.split)

lemma fold_erase_hash [simp]: "cc_hashBlock (fold (NextAndMaybeErase mu b) ops c) = cc_hashBlock c"
  by (induction ops arbitrary: c) simp_all

lemma Sync_write: "Sync mu write c db = Inr (True, c', db') \<Longrightarrow> write (cursor_entries c) (cc_hashBlock c) db = Inr (True, db') \<and> cc_hashBlock c' = cc_hashBlock c"
  by (auto simp: Sync_def bindE_def Let_def split: sum.splits if_splits)

lemma run_call_refines:
  assumes mu: "mu [] = 0" and r: "represents mu st s" and sp: "spec_call x s = Some (a, s')"
  shows "\<exists>st'. run_call mu full x st = Inr (a, st') \<and> represents mu st' s'"
proof -
  obtain c db where st: "st = (c, db)" by force
  let ?B = "db_GetCoin db"
  have B: "base_ok ?B" and hd: "GetHeadBlocks db = []" and inv: "cache_inv mu ?B c"
    and v: "cache_view ?B c = cs_coins s" and t: "cc_hashBlock c = cs_tip s" "\<not> uint256_IsNull (cs_tip s)"
    using r by (simp_all add: represents_def st)
  note tip = settled_tip [OF hd, of "cc_hashBlock c", unfolded t(1), OF t(2)]
  show ?thesis
  proof (cases x)
    case (Call_GetCoin op)
    obtain y c' where "GetCoin mu ?B op c = (y, c')" by force
    then show ?thesis using GetCoin_ok [OF inv B] GetCoin_hash sp Call_GetCoin B hd v t by (auto simp: st represents_def)
  next
    case (Call_HaveCoin op)
    obtain y c' where "HaveCoin mu ?B op c = (y, c')" by force
    then show ?thesis using HaveCoin_ok [OF inv B] sp Call_HaveCoin B hd v t by (auto simp: st represents_def)
  next
    case (Call_AccessCoin op)
    obtain y c' where "AccessCoin mu ?B op c = (y, c')" by force
    then show ?thesis using AccessCoin_ok [OF inv B] sp Call_AccessCoin B hd v t by (auto simp: st represents_def)
  next
    case (Call_AddCoin op coin ow)
    show ?thesis
    proof (cases "IsUnspendable (txout_scriptPubKey (coin_out coin))")
      case True
      then show ?thesis using sp Call_AddCoin r AddCoin_unspendable by (auto simp: st split: if_splits)
    next
      case False
      then have "\<not> Coin_IsSpent coin" "ow \<or> cache_view ?B c op = None"
        and s': "a = No_Answer" "s' = s\<lparr>cs_coins := (cs_coins s)(op \<mapsto> coin)\<rparr>"
        using sp Call_AddCoin v by (auto split: if_splits)
      then obtain c' where "AddCoin mu op coin ow c = Inr c'" "cache_inv mu ?B c'"
          "cache_view ?B c' = (cache_view ?B c)(op \<mapsto> coin)" "cc_hashBlock c' = cc_hashBlock c"
        using AddCoin_ok [OF inv mu _ False] by blast
      then show ?thesis using Call_AddCoin B hd v t by (auto simp: st represents_def s')
    qed
  next
    case (Call_SpendCoin op)
    obtain y c' where s: "SpendCoin mu ?B op c = (y, c')" by force
    show ?thesis using SpendCoin_ok [OF inv B mu s] s sp Call_SpendCoin B hd v t
      by (auto simp: st represents_def split: if_splits)
  next
    case (Call_Uncache op)
    have "cc_hashBlock (Uncache mu op c) = cc_hashBlock c" by (simp add: Uncache_def split: option.split)
    then show ?thesis using Uncache_ok [OF inv] sp Call_Uncache B hd v t by (auto simp: st represents_def)
  next
    case (Call_SetBestBlock h)
    then show ?thesis using sp inv B hd v
      by (auto simp: st represents_def SetBestBlock_def cache_inv_def linked_def accounted_def cache_view_def fun_eq_iff split: if_splits)
  next
    case Call_GetBestBlock
    then show ?thesis using sp r t by (auto simp: st GetBestBlock_def Let_def)
  next
    case Call_Sync
    obtain c' db' where w: "Sync mu (db_write full) c db = Inr (True, c', db')" "base_ok (db_GetCoin db')"
        "cache_inv mu (db_GetCoin db') c'" "cache_view (db_GetCoin db') c' = cache_view ?B c"
      using database.sync_keeps_view [OF inv B] tip t(1) by metis
    then show ?thesis
      using sp Call_Sync Sync_write [OF w(1)] db_write_heads [of full "cursor_entries c" "cc_hashBlock c" db db'] v t by (auto simp: st represents_def)
  next
    case Call_Flush
    obtain c' db' where w: "Flush (db_write full) c db = Inr (True, c', db')" "base_ok (db_GetCoin db')"
        "cache_inv mu (db_GetCoin db') c'" "cache_view (db_GetCoin db') c' = cache_view ?B c"
      using database.flush_keeps_view [OF inv B] tip t(1) by metis
    then show ?thesis
      using sp Call_Flush Flush_write [OF w(1)] db_write_heads [of full "cursor_entries c" "cc_hashBlock c" db db'] v t by (auto simp: st represents_def)
  qed
qed

lemma run_calls_refine:
  assumes mu: "mu [] = 0"
  shows "represents mu st s \<Longrightarrow> spec_calls xs s = Some (as, s') \<Longrightarrow>
    \<exists>st'. run_calls mu full xs st = Inr (as, st') \<and> represents mu st' s'"
proof (induction xs arbitrary: st s as)
  case (Cons x xs)
  obtain a s1 as1 where a: "spec_call x s = Some (a, s1)" "spec_calls xs s1 = Some (as1, s')" "as = a # as1"
    using Cons.prems(2) by (auto split: option.splits)
  obtain st1 where "run_call mu full x st = Inr (a, st1)" "represents mu st1 s1"
    using run_call_refines [OF mu Cons.prems(1) a(1)] by blast
  then show ?case using Cons.IH [of st1 s1 as1] a by auto
qed simp

lemma represents_sane: "represents mu (c, db) s \<Longrightarrow> SanityCheck mu c = Inr ()"
  using SanityCheck_ok by (auto simp: represents_def)


end
