(* ===== verification/Utxo_Update.thy ===== *)
theory Utxo_Update
  imports Coins Chain_Params
begin

text \<open>
  How blocks change the set of unspent outputs: \<^verbatim>\<open>AddCoins\<close> and \<^verbatim>\<open>AccessByTxid\<close> of \<^verbatim>\<open>src/src/coins.cpp\<close>,
  \<^verbatim>\<open>UpdateCoins\<close>, \<^verbatim>\<open>ApplyTxInUndo\<close> and \<^verbatim>\<open>DisconnectBlock\<close> of \<^verbatim>\<open>src/src/validation.cpp\<close>. The undo data of a block
  are read from disk; that they may be unreadable is the missing value of an option. The theory shows
  what a transaction does to the map of coins, and that disconnecting a block with the undo data
  recorded when it was connected restores every coin and reports a clean result.
\<close>

subsection \<open>Connecting\<close>

type_synonym CTxUndo = "Coin list"
type_synonym CBlockUndo = "CTxUndo list"

definition outpoint :: "uint256 \<Rightarrow> nat \<Rightarrow> COutPoint" where
  "outpoint txid n = \<lparr>op_hash = txid, op_n = of_nat n\<rparr>"

fun add_coins ::
  "(CScript \<Rightarrow> u64) \<Rightarrow> (COutPoint \<Rightarrow> Coin option) \<Rightarrow> uint256 \<Rightarrow> int \<Rightarrow> bool \<Rightarrow> bool \<Rightarrow> nat \<Rightarrow> CTxOut list \<Rightarrow> CCoinsViewCache
    \<Rightarrow> CCoinsViewCache cxx" where
  "add_coins mu base txid nHeight fCoinbase check i [] cache = Inr cache"
| "add_coins mu base txid nHeight fCoinbase check i (out # outs) cache =
    (case (if check then HaveCoin mu base (outpoint txid i) cache else (fCoinbase, cache)) of (overwrite, cache1) \<Rightarrow>
     bindE (AddCoin mu (outpoint txid i) (Coin_make out nHeight fCoinbase) overwrite cache1) (\<lambda>cache2.
     add_coins mu base txid nHeight fCoinbase check (i + 1) outs cache2))"

definition AddCoins ::
  "(bytes \<Rightarrow> uint256) \<Rightarrow> (CScript \<Rightarrow> u64) \<Rightarrow> (COutPoint \<Rightarrow> Coin option) \<Rightarrow> CTransaction \<Rightarrow> int \<Rightarrow> bool \<Rightarrow> CCoinsViewCache
    \<Rightarrow> CCoinsViewCache cxx" where
  "AddCoins H mu base tx nHeight check cache =
    add_coins mu base (tx_GetHash H tx) nHeight (IsCoinBase tx) check 0 (tx_vout tx) cache"

fun spend_inputs ::
  "(CScript \<Rightarrow> u64) \<Rightarrow> (COutPoint \<Rightarrow> Coin option) \<Rightarrow> CTxIn list \<Rightarrow> CTxUndo \<Rightarrow> CCoinsViewCache \<Rightarrow> (CTxUndo \<times> CCoinsViewCache) cxx" where
  "spend_inputs mu base [] txundo inputs = Inr (txundo, inputs)"
| "spend_inputs mu base (txin # vin) txundo inputs =
    (case SpendCoin mu base (txin_prevout txin) inputs of (moved, inputs1) \<Rightarrow>
     bindE (cxx_assert (moved \<noteq> None)) (\<lambda>_.
     spend_inputs mu base vin (txundo @ [case moved of Some coin \<Rightarrow> coin | None \<Rightarrow> coinEmpty]) inputs1))"

definition UpdateCoins ::
  "(bytes \<Rightarrow> uint256) \<Rightarrow> (CScript \<Rightarrow> u64) \<Rightarrow> (COutPoint \<Rightarrow> Coin option) \<Rightarrow> CTransaction \<Rightarrow> CCoinsViewCache \<Rightarrow> CTxUndo \<Rightarrow> int
    \<Rightarrow> (CTxUndo \<times> CCoinsViewCache) cxx" where
  "UpdateCoins H mu base tx inputs txundo nHeight =
    bindE (if \<not> IsCoinBase tx then spend_inputs mu base (tx_vin tx) txundo inputs else Inr (txundo, inputs))
      (\<lambda>(txundo', inputs').
    bindE (AddCoins H mu base tx nHeight False inputs') (\<lambda>inputs''. Inr (txundo', inputs'')))"

subsection \<open>Disconnecting\<close>

datatype DisconnectResult = DISCONNECT_OK | DISCONNECT_UNCLEAN | DISCONNECT_FAILED

definition MAX_OUTPUTS_PER_BLOCK :: nat where
  "MAX_OUTPUTS_PER_BLOCK = 2000000 div (1 * length (ser_CTxOut CTxOut_null))"

function access_by_txid ::
  "(CScript \<Rightarrow> u64) \<Rightarrow> (COutPoint \<Rightarrow> Coin option) \<Rightarrow> uint256 \<Rightarrow> nat \<Rightarrow> CCoinsViewCache \<Rightarrow> Coin \<times> CCoinsViewCache" where
  "access_by_txid mu base txid n view =
    (if n < MAX_OUTPUTS_PER_BLOCK then
       (case AccessCoin mu base (outpoint txid n) view of (alternate, view') \<Rightarrow>
        if \<not> Coin_IsSpent alternate then (alternate, view') else access_by_txid mu base txid (n + 1) view')
     else (coinEmpty, view))"
  by pat_completeness auto
termination by (relation "measure (\<lambda>(mu, base, txid, n, view). MAX_OUTPUTS_PER_BLOCK - n)") auto

declare access_by_txid.simps [simp del]

definition AccessByTxid ::
  "(CScript \<Rightarrow> u64) \<Rightarrow> (COutPoint \<Rightarrow> Coin option) \<Rightarrow> CCoinsViewCache \<Rightarrow> uint256 \<Rightarrow> Coin \<times> CCoinsViewCache" where
  "AccessByTxid mu base view txid = access_by_txid mu base txid 0 view"

definition ApplyTxInUndo ::
  "(CScript \<Rightarrow> u64) \<Rightarrow> (COutPoint \<Rightarrow> Coin option) \<Rightarrow> Coin \<Rightarrow> CCoinsViewCache \<Rightarrow> COutPoint \<Rightarrow> (DisconnectResult \<times> CCoinsViewCache) cxx" where
  "ApplyTxInUndo mu base undo view out =
    (case HaveCoin mu base out view of (have, view1) \<Rightarrow>
     let fClean = \<not> have in
     case (if coin_nHeight undo = 0 then
             (case AccessByTxid mu base view1 (op_hash out) of (alternate, view2) \<Rightarrow>
              if \<not> Coin_IsSpent alternate
              then (Some (undo\<lparr>coin_nHeight := coin_nHeight alternate, coin_fCoinBase := coin_fCoinBase alternate\<rparr>), view2)
              else (None, view2))
           else (Some undo, view1)) of (found, view3) \<Rightarrow>
     (case found of
        None \<Rightarrow> Inr (DISCONNECT_FAILED, view3)
      | Some undo' \<Rightarrow> bindE (AddCoin mu out undo' (\<not> fClean) view3) (\<lambda>view4.
          Inr (if fClean then DISCONNECT_OK else DISCONNECT_UNCLEAN, view4))))"

text \<open>The loop over the outputs; \<open>exc\<close> is the exception for duplicate coinbases.\<close>

fun spend_outputs ::
  "(CScript \<Rightarrow> u64) \<Rightarrow> (COutPoint \<Rightarrow> Coin option) \<Rightarrow> uint256 \<Rightarrow> int \<Rightarrow> bool \<Rightarrow> bool \<Rightarrow> nat \<Rightarrow> CTxOut list \<Rightarrow> bool \<times> CCoinsViewCache
    \<Rightarrow> bool \<times> CCoinsViewCache" where
  "spend_outputs mu base hash nHeight is_coinbase exc n [] (fClean, view) = (fClean, view)"
| "spend_outputs mu base hash nHeight is_coinbase exc n (out # outs) (fClean, view) =
    spend_outputs mu base hash nHeight is_coinbase exc (n + 1) outs
      (if \<not> IsUnspendable (txout_scriptPubKey out) then
         (case SpendCoin mu base (outpoint hash n) view of (moved, view') \<Rightarrow>
          let coin = (case moved of Some coin \<Rightarrow> coin | None \<Rightarrow> coinEmpty) in
          (if (moved = None \<or> out \<noteq> coin_out coin \<or> nHeight \<noteq> uint (coin_nHeight coin) \<or> is_coinbase \<noteq> coin_fCoinBase coin) \<and> \<not> exc
           then False else fClean, view'))
       else (fClean, view))"

text \<open>The loop over the inputs, which are given last one first; the boolean is \<^verbatim>\<open>fClean\<close>, absent after a failure.\<close>

fun restore_inputs ::
  "(CScript \<Rightarrow> u64) \<Rightarrow> (COutPoint \<Rightarrow> Coin option) \<Rightarrow> (COutPoint \<times> Coin) list \<Rightarrow> bool \<times> CCoinsViewCache
    \<Rightarrow> (bool option \<times> CCoinsViewCache) cxx" where
  "restore_inputs mu base [] (fClean, view) = Inr (Some fClean, view)"
| "restore_inputs mu base ((out, undo) # rest) (fClean, view) =
    bindE (ApplyTxInUndo mu base undo view out) (\<lambda>(res, view').
      if res = DISCONNECT_FAILED then Inr (None, view')
      else restore_inputs mu base rest (fClean \<and> res \<noteq> DISCONNECT_UNCLEAN, view'))"

definition disconnect_tx ::
  "(bytes \<Rightarrow> uint256) \<Rightarrow> (CScript \<Rightarrow> u64) \<Rightarrow> (COutPoint \<Rightarrow> Coin option) \<Rightarrow> int \<Rightarrow> bool \<Rightarrow> CTxUndo option \<Rightarrow> CTransaction
    \<Rightarrow> bool \<times> CCoinsViewCache \<Rightarrow> (bool option \<times> CCoinsViewCache) cxx" where
  "disconnect_tx H mu base nHeight fEnforceBIP30 txundo tx s =
    (let is_coinbase = IsCoinBase tx;
         (fClean, view) = spend_outputs mu base (tx_GetHash H tx) nHeight is_coinbase (is_coinbase \<and> \<not> fEnforceBIP30) 0 (tx_vout tx) s in
     case txundo of
       None \<Rightarrow> Inr (Some fClean, view)
     | Some undo \<Rightarrow>
        if length undo \<noteq> length (tx_vin tx) then Inr (None, view)
        else restore_inputs mu base (rev (zip (map txin_prevout (tx_vin tx)) undo)) (fClean, view))"

fun disconnect_txs ::
  "(bytes \<Rightarrow> uint256) \<Rightarrow> (CScript \<Rightarrow> u64) \<Rightarrow> (COutPoint \<Rightarrow> Coin option) \<Rightarrow> int \<Rightarrow> bool \<Rightarrow> CBlockUndo \<Rightarrow> CTransaction list \<Rightarrow> nat
    \<Rightarrow> bool \<times> CCoinsViewCache \<Rightarrow> (bool option \<times> CCoinsViewCache) cxx" where
  "disconnect_txs H mu base nHeight fEnforceBIP30 vtxundo vtx 0 (fClean, view) = Inr (Some fClean, view)"
| "disconnect_txs H mu base nHeight fEnforceBIP30 vtxundo vtx (Suc i) s =
    bindE (disconnect_tx H mu base nHeight fEnforceBIP30 (if i > 0 then Some (vtxundo ! (i - 1)) else None) (vtx ! i) s)
      (\<lambda>(r, view). case r of None \<Rightarrow> Inr (None, view)
        | Some fClean \<Rightarrow> disconnect_txs H mu base nHeight fEnforceBIP30 vtxundo vtx i (fClean, view))"

definition EnforceBIP30 :: "int \<Rightarrow> uint256 \<Rightarrow> bool" where
  "EnforceBIP30 nHeight hash = (\<not>
    (nHeight = 91722 \<and> hash = uint256_of_hex 0x00000000000271a2dc26e7667f8419f2e15416dc6955e5a6c6cdf3f2574dd08e \<or>
     nHeight = 91812 \<and> hash = uint256_of_hex 0x00000000000af0aed4792b1acee3d966af36cf5def14935db8de83d6f9306f2f))"

definition DisconnectBlock ::
  "(bytes \<Rightarrow> uint256) \<Rightarrow> (CScript \<Rightarrow> u64) \<Rightarrow> (COutPoint \<Rightarrow> Coin option) \<Rightarrow> BlockMap \<Rightarrow> CBlockUndo option
    \<Rightarrow> CTransaction list \<Rightarrow> CBlockIndex \<Rightarrow> CCoinsViewCache \<Rightarrow> (DisconnectResult \<times> CCoinsViewCache) cxx" where
  "DisconnectBlock H mu base st blockUndo vtx pindex view =
    (case blockUndo of
       None \<Rightarrow> Inr (DISCONNECT_FAILED, view)
     | Some vtxundo \<Rightarrow>
        if length vtxundo + 1 \<noteq> length vtx then Inr (DISCONNECT_FAILED, view)
        else
          bindE (if bi_nHeight pindex = 91722 \<or> bi_nHeight pindex = 91812 then bi_GetBlockHash pindex else Inr uint256_null) (\<lambda>hash.
          bindE (disconnect_txs H mu base (bi_nHeight pindex) (EnforceBIP30 (bi_nHeight pindex) hash) vtxundo vtx (length vtx) (True, view))
            (\<lambda>(r, view').
          case r of
            None \<Rightarrow> Inr (DISCONNECT_FAILED, view')
          | Some fClean \<Rightarrow>
              bindE (deref (case bi_pprev pindex of None \<Rightarrow> None | Some q \<Rightarrow> st q)) (\<lambda>prev.
              bindE (bi_GetBlockHash prev) (\<lambda>h.
              Inr (if fClean then DISCONNECT_OK else DISCONNECT_UNCLEAN, SetBestBlock h view'))))))"

subsection \<open>The effect of a transaction on the map of coins\<close>

definition created :: "uint256 \<Rightarrow> int \<Rightarrow> bool \<Rightarrow> nat \<Rightarrow> CTxOut list \<Rightarrow> COutPoint \<Rightarrow> Coin option" where
  "created txid h cb n outs op =
    (let k = unat (op_n op) in
     if op_hash op = txid \<and> n \<le> k \<and> k < n + length outs \<and> \<not> IsUnspendable (txout_scriptPubKey (outs ! (k - n)))
     then Some (Coin_make (outs ! (k - n)) h cb) else None)"

definition spent_by :: "CTransaction \<Rightarrow> COutPoint set" where
  "spent_by tx = (if IsCoinBase tx then {} else set (map txin_prevout (tx_vin tx)))"

definition tx_effect :: "(bytes \<Rightarrow> uint256) \<Rightarrow> int \<Rightarrow> CTransaction \<Rightarrow> (COutPoint \<Rightarrow> Coin option) \<Rightarrow> COutPoint \<Rightarrow> Coin option" where
  "tx_effect H h tx V = (V |` (- spent_by tx)) ++ created (tx_GetHash H tx) h (IsCoinBase tx) 0 (tx_vout tx)"

text \<open>
  What validation has established before a transaction is connected: its inputs exist and are
  different, its outputs have a value and do not exist yet.
\<close>

definition tx_connectable :: "(bytes \<Rightarrow> uint256) \<Rightarrow> CTransaction \<Rightarrow> (COutPoint \<Rightarrow> Coin option) \<Rightarrow> bool" where
  "tx_connectable H tx V \<longleftrightarrow>
    (\<not> IsCoinBase tx \<longrightarrow> distinct (map txin_prevout (tx_vin tx)) \<and> (\<forall>i\<in>set (tx_vin tx). V (txin_prevout i) \<noteq> None)) \<and>
    (\<forall>out\<in>set (tx_vout tx). txout_nValue out \<noteq> - 1) \<and> length (tx_vout tx) < 2 ^ 32 \<and>
    (\<forall>k<length (tx_vout tx). V (outpoint (tx_GetHash H tx) k) = None)"

lemma unat_outpoint [simp]: "k < 2 ^ 32 \<Longrightarrow> unat (op_n (outpoint txid k)) = k" "op_hash (outpoint txid k) = txid"
  by (simp_all add: outpoint_def unsigned_of_nat take_bit_nat_eq_self)

lemma outpoint_eq: "op_hash op = txid \<Longrightarrow> outpoint txid (unat (op_n op)) = op"
  by (simp add: outpoint_def)

lemma Coin_make_simps [simp]:
  "Coin_IsSpent (Coin_make out h cb) \<longleftrightarrow> txout_nValue out = - 1" "coin_out (Coin_make out h cb) = out"
  "coin_fCoinBase (Coin_make out h cb) = cb"
  by (simp_all add: Coin_IsSpent_def CTxOut_IsNull_def Coin_make_def)

lemma Coin_make_height: "0 \<le> h \<Longrightarrow> h < 2 ^ 31 \<Longrightarrow> uint (coin_nHeight (Coin_make out h cb)) = h"
  by (simp add: Coin_make_def unsigned_take_bit_eq uint_word_of_int_eq take_bit_int_eq_self)

lemma created_Cons:
  assumes "n + length (out # outs) < 2 ^ 32"
  shows "created txid h cb n (out # outs) =
    (if IsUnspendable (txout_scriptPubKey out) then Map.empty else [outpoint txid n \<mapsto> Coin_make out h cb]) ++
      created txid h cb (Suc n) outs"
proof
  fix op
  show "created txid h cb n (out # outs) op =
    ((if IsUnspendable (txout_scriptPubKey out) then Map.empty else [outpoint txid n \<mapsto> Coin_make out h cb]) ++
      created txid h cb (Suc n) outs) op"
  proof (cases "op_hash op = txid \<and> n \<le> unat (op_n op)")
    case True
    then consider "unat (op_n op) = n" | k where "unat (op_n op) - n = Suc k" "unat (op_n op) - Suc n = k" "Suc n \<le> unat (op_n op)"
      by (cases "unat (op_n op) - n") auto
    then show ?thesis
    proof cases
      case 1
      then have "op = outpoint txid n" using True outpoint_eq by metis
      then show ?thesis using 1 by (auto simp: created_def map_add_def)
    next
      case 2
      then have "op \<noteq> outpoint txid n" using assms by auto
      then show ?thesis using 2 True by (auto simp: created_def map_add_def Let_def)
    qed
  next
    case False
    then have "op \<noteq> outpoint txid n" using assms by auto
    then show ?thesis using False by (auto simp: created_def map_add_def Let_def)
  qed
qed

lemma created_Nil [simp]: "created txid h cb n [] = Map.empty"
  by (auto simp: created_def fun_eq_iff Let_def)

lemma add_coins_ok:
  assumes mu: "mu [] = 0"
  shows "cache_inv mu B c \<Longrightarrow> n + length outs < 2 ^ 32 \<Longrightarrow> \<forall>out\<in>set outs. txout_nValue out \<noteq> - 1 \<Longrightarrow>
    \<forall>k. n \<le> k \<and> k < n + length outs \<longrightarrow> cache_view B c (outpoint txid k) = None \<Longrightarrow>
    \<exists>c'. add_coins mu B txid h cb False n outs c = Inr c' \<and> cache_inv mu B c' \<and>
      cache_view B c' = cache_view B c ++ created txid h cb n outs \<and> cc_hashBlock c' = cc_hashBlock c"
proof (induction outs arbitrary: n c)
  case (Cons out outs)
  let ?op = "outpoint txid n" and ?coin = "Coin_make out h cb"
  obtain c1 where c1: "AddCoin mu ?op ?coin cb c = Inr c1" "cache_inv mu B c1" "cc_hashBlock c1 = cc_hashBlock c"
    "cache_view B c1 = cache_view B c ++ (if IsUnspendable (txout_scriptPubKey out) then Map.empty else [?op \<mapsto> ?coin])"
  proof (cases "IsUnspendable (txout_scriptPubKey out)")
    case True
    then show thesis using that [of c] Cons.prems by (simp add: AddCoin_unspendable)
  next
    case False
    have "cache_view B c ?op = None" using Cons.prems(4) by simp
    then show thesis
      using AddCoin_ok [OF Cons.prems(1) mu, of ?coin cb ?op] that False Cons.prems(3) by auto
  qed
  have "cache_view B c1 (outpoint txid k) = None" if "Suc n \<le> k" "k < Suc n + length outs" for k
  proof -
    have "unat (op_n (outpoint txid k)) \<noteq> unat (op_n ?op)" using that Cons.prems(2) by simp
    then have "outpoint txid k \<noteq> ?op" by auto
    then show ?thesis using Cons.prems(4) that unfolding c1(4) by (auto simp: map_add_def)
  qed
  then obtain c' where "add_coins mu B txid h cb False (Suc n) outs c1 = Inr c'" "cache_inv mu B c'"
      "cache_view B c' = cache_view B c1 ++ created txid h cb (Suc n) outs" "cc_hashBlock c' = cc_hashBlock c1"
    using Cons.IH [OF c1(2), of "Suc n"] Cons.prems by auto
  then show ?case using c1 created_Cons [of n out outs txid h cb] Cons.prems(2) by (auto simp: map_add_assoc)
qed simp

lemma spend_inputs_ok:
  assumes B: "base_ok B" and mu: "mu [] = 0"
  shows "cache_inv mu B c \<Longrightarrow> distinct (map txin_prevout vin) \<Longrightarrow> \<forall>i\<in>set vin. cache_view B c (txin_prevout i) \<noteq> None \<Longrightarrow>
    \<exists>c'. spend_inputs mu B vin undo c = Inr (undo @ map (\<lambda>i. the (cache_view B c (txin_prevout i))) vin, c') \<and>
      cache_inv mu B c' \<and> cache_view B c' = cache_view B c |` (- set (map txin_prevout vin)) \<and> cc_hashBlock c' = cc_hashBlock c"
proof (induction vin arbitrary: c undo)
  case Nil
  have "m |` UNIV = m" for m :: "COutPoint \<Rightarrow> Coin option" by (simp add: restrict_map_def)
  then show ?case using Nil by simp
next
  case (Cons i vin)
  let ?op = "txin_prevout i" and ?V = "cache_view B c"
  obtain coin where coin: "?V ?op = Some coin" using Cons.prems(3) by auto
  obtain r c1 where s: "SpendCoin mu B ?op c = (r, c1)" by force
  note S = SpendCoin_ok [OF Cons.prems(1) B mu s]
  have r: "r = Some coin" using S(3) coin by simp
  have ne: "txin_prevout j \<noteq> ?op" if "j \<in> set vin" for j using Cons.prems(2) that by (metis distinct.simps(2) list.simps(9) image_eqI list.set_map)
  have "\<forall>j\<in>set vin. cache_view B c1 (txin_prevout j) \<noteq> None" using ne Cons.prems(3) unfolding S(2) by simp
  moreover have "distinct (map txin_prevout vin)" using Cons.prems(2) by simp
  ultimately obtain c' where c': "spend_inputs mu B vin (undo @ [coin]) c1 =
      Inr ((undo @ [coin]) @ map (\<lambda>i. the (cache_view B c1 (txin_prevout i))) vin, c')" "cache_inv mu B c'"
      "cache_view B c' = cache_view B c1 |` (- set (map txin_prevout vin))" "cc_hashBlock c' = cc_hashBlock c1"
    using Cons.IH [OF S(1), of "undo @ [coin]"] by blast
  have "map (\<lambda>i. the (cache_view B c1 (txin_prevout i))) vin = map (\<lambda>i. the (?V (txin_prevout i))) vin"
    using ne unfolding S(2) by auto
  moreover have "cache_view B c' = ?V |` (- set (map txin_prevout (i # vin)))"
    unfolding c'(3) S(2) by (auto simp: restrict_map_def fun_eq_iff)
  ultimately show ?case using c' s r coin S(4) by simp
qed

lemma UpdateCoins_ok:
  assumes inv: "cache_inv mu B c" and B: "base_ok B" and mu: "mu [] = 0" and tx: "tx_connectable H tx (cache_view B c)"
  obtains c' where "UpdateCoins H mu B tx c [] h =
      Inr (if IsCoinBase tx then [] else map (\<lambda>i. the (cache_view B c (txin_prevout i))) (tx_vin tx), c')"
    "cache_inv mu B c'" "cache_view B c' = tx_effect H h tx (cache_view B c)" "cc_hashBlock c' = cc_hashBlock c"
proof -
  let ?V = "cache_view B c"
  let ?undo = "if IsCoinBase tx then [] else map (\<lambda>i. the (?V (txin_prevout i))) (tx_vin tx)"
  obtain c1 where c1: "(if \<not> IsCoinBase tx then spend_inputs mu B (tx_vin tx) [] c else Inr ([], c)) = Inr (?undo, c1)"
    "cache_inv mu B c1" "cache_view B c1 = ?V |` (- spent_by tx)" "cc_hashBlock c1 = cc_hashBlock c"
  proof (cases "IsCoinBase tx")
    case True
    then show thesis using that [of c] inv by (simp add: spent_by_def restrict_map_def)
  next
    case False
    then show thesis
      using spend_inputs_ok [OF B mu inv, of "tx_vin tx" "[]"] tx that by (auto simp: tx_connectable_def spent_by_def)
  qed
  have "cache_view B c1 (outpoint (tx_GetHash H tx) k) = None" if "k < length (tx_vout tx)" for k
    using tx that unfolding c1(3) by (simp add: tx_connectable_def restrict_map_def)
  then obtain c' where "add_coins mu B (tx_GetHash H tx) h (IsCoinBase tx) False 0 (tx_vout tx) c1 = Inr c'"
      "cache_inv mu B c'" "cache_view B c' = tx_effect H h tx ?V" "cc_hashBlock c' = cc_hashBlock c"
    using add_coins_ok [OF mu c1(2), of 0 "tx_vout tx" "tx_GetHash H tx" h "IsCoinBase tx"] tx c1(3,4)
    by (auto simp: tx_connectable_def tx_effect_def)
  then show thesis using c1(1) that by (simp add: UpdateCoins_def AddCoins_def)
qed

subsection \<open>Undoing a transaction\<close>

lemma restrict_UNIV [simp]: "m |` UNIV = m"
  by (simp add: restrict_map_def)

lemma spend_outputs_ok:
  assumes B: "base_ok B" and mu: "mu [] = 0" and h: "0 \<le> h" "h < 2 ^ 31"
  shows "cache_inv mu B c \<Longrightarrow> n + length outs < 2 ^ 32 \<Longrightarrow>
    \<forall>op coin. created txid h cb n outs op = Some coin \<longrightarrow> cache_view B c op = Some coin \<Longrightarrow>
    \<exists>c'. spend_outputs mu B txid h cb exc n outs (fClean, c) = (fClean, c') \<and> cache_inv mu B c' \<and>
      cache_view B c' = cache_view B c |` (- dom (created txid h cb n outs)) \<and> cc_hashBlock c' = cc_hashBlock c"
proof (induction outs arbitrary: n c)
  case (Cons out outs)
  let ?op = "outpoint txid n" and ?coin = "Coin_make out h cb" and ?rest = "created txid h cb (Suc n) outs"
  have cr: "created txid h cb n (out # outs) =
      (if IsUnspendable (txout_scriptPubKey out) then Map.empty else [?op \<mapsto> ?coin]) ++ ?rest"
    by (rule created_Cons) (use Cons.prems(2) in simp)
  have fr: "?rest ?op = None" using Cons.prems(2) by (simp add: created_def Let_def)
  define c1 where "c1 = (if IsUnspendable (txout_scriptPubKey out) then c else snd (SpendCoin mu B ?op c))"
  have c1: "cache_inv mu B c1" "cc_hashBlock c1 = cc_hashBlock c"
    "cache_view B c1 = (if IsUnspendable (txout_scriptPubKey out) then cache_view B c else (cache_view B c)(?op := None))"
    "spend_outputs mu B txid h cb exc n (out # outs) (fClean, c) = spend_outputs mu B txid h cb exc (Suc n) outs (fClean, c1)"
  proof -
    obtain r c2 where s: "SpendCoin mu B ?op c = (r, c2)" by force
    note S = SpendCoin_ok [OF Cons.prems(1) B mu s]
    show "cache_inv mu B c1" "cc_hashBlock c1 = cc_hashBlock c"
      "cache_view B c1 = (if IsUnspendable (txout_scriptPubKey out) then cache_view B c else (cache_view B c)(?op := None))"
      using S s Cons.prems(1) by (auto simp: c1_def)
    have "r = Some ?coin" if "\<not> IsUnspendable (txout_scriptPubKey out)"
    proof -
      have "created txid h cb n (out # outs) ?op = Some ?coin" using cr fr that by (simp add: map_add_def)
      then show ?thesis using Cons.prems(3) S(3) by simp
    qed
    then show "spend_outputs mu B txid h cb exc n (out # outs) (fClean, c) = spend_outputs mu B txid h cb exc (Suc n) outs (fClean, c1)"
      using s Coin_make_height [OF h, of out cb] by (simp add: c1_def)
  qed
  have "\<forall>op coin. ?rest op = Some coin \<longrightarrow> cache_view B c1 op = Some coin"
  proof (intro allI impI)
    fix op coin
    assume r: "?rest op = Some coin"
    then have "op \<noteq> ?op" using fr by auto
    moreover have "created txid h cb n (out # outs) op = Some coin" using cr r by (simp add: map_add_Some_iff)
    ultimately show "cache_view B c1 op = Some coin" using Cons.prems(3) c1(3) by auto
  qed
  then obtain c' where c': "spend_outputs mu B txid h cb exc (Suc n) outs (fClean, c1) = (fClean, c')" "cache_inv mu B c'"
      "cache_view B c' = cache_view B c1 |` (- dom ?rest)" "cc_hashBlock c' = cc_hashBlock c1"
    using Cons.IH [OF c1(1), of "Suc n"] Cons.prems(2) by auto
  have "cache_view B c' = cache_view B c |` (- dom (created txid h cb n (out # outs)))"
    unfolding c'(3) c1(3) cr by (auto simp: restrict_map_def fun_eq_iff)
  then show ?case using c' c1 by auto
qed simp

text \<open>Coins an undo record can restore: unspent, spendable and with a recorded height.\<close>

definition good_coin :: "Coin \<Rightarrow> bool" where
  "good_coin c \<longleftrightarrow> \<not> Coin_IsSpent c \<and> \<not> IsUnspendable (txout_scriptPubKey (coin_out c)) \<and> coin_nHeight c \<noteq> 0"

lemma ApplyTxInUndo_ok:
  assumes inv: "cache_inv mu B c" and B: "base_ok B" and mu: "mu [] = 0" and "cache_view B c op = None" "good_coin coin"
  obtains c' where "ApplyTxInUndo mu B coin c op = Inr (DISCONNECT_OK, c')" "cache_inv mu B c'"
    "cache_view B c' = (cache_view B c)(op \<mapsto> coin)" "cc_hashBlock c' = cc_hashBlock c"
proof -
  obtain b c1 where h: "HaveCoin mu B op c = (b, c1)" by force
  note H = HaveCoin_ok [OF inv B h]
  have "\<not> b" using H(3) assms(4) by simp
  moreover obtain c2 where "AddCoin mu op coin False c1 = Inr c2" "cache_inv mu B c2"
      "cache_view B c2 = (cache_view B c1)(op \<mapsto> coin)" "cc_hashBlock c2 = cc_hashBlock c1"
    using AddCoin_ok [OF H(1) mu, of coin False op] H(2) assms(4,5) by (auto simp: good_coin_def)
  ultimately show thesis
    using that [of c2] h H assms(5) by (simp add: ApplyTxInUndo_def good_coin_def)
qed

lemma restore_inputs_ok:
  assumes B: "base_ok B" and mu: "mu [] = 0"
  shows "cache_inv mu B c \<Longrightarrow> distinct (map fst us) \<Longrightarrow> \<forall>(op, coin)\<in>set us. cache_view B c op = None \<and> good_coin coin \<Longrightarrow>
    \<exists>c'. restore_inputs mu B us (fClean, c) = Inr (Some fClean, c') \<and> cache_inv mu B c' \<and>
      cache_view B c' = cache_view B c ++ map_of us \<and> cc_hashBlock c' = cc_hashBlock c"
proof (induction us arbitrary: c)
  case (Cons u us)
  obtain op coin where u: "u = (op, coin)" by force
  obtain c1 where c1: "ApplyTxInUndo mu B coin c op = Inr (DISCONNECT_OK, c1)" "cache_inv mu B c1"
      "cache_view B c1 = (cache_view B c)(op \<mapsto> coin)" "cc_hashBlock c1 = cc_hashBlock c"
    using ApplyTxInUndo_ok [OF Cons.prems(1) B mu, of op coin] Cons.prems(3) by (auto simp: u)
  have n: "op \<notin> fst ` set us" using Cons.prems(2) by (simp add: u)
  have "\<forall>(op', coin')\<in>set us. cache_view B c1 op' = None \<and> good_coin coin'"
  proof clarify
    fix op' coin'
    assume i: "(op', coin') \<in> set us"
    then have "op' \<noteq> op" using n by force
    then show "cache_view B c1 op' = None \<and> good_coin coin'" using i Cons.prems(3) c1(3) by auto
  qed
  then obtain c' where c': "restore_inputs mu B us (fClean, c1) = Inr (Some fClean, c')" "cache_inv mu B c'"
      "cache_view B c' = cache_view B c1 ++ map_of us" "cc_hashBlock c' = cc_hashBlock c1"
    using Cons.IH [OF c1(2)] Cons.prems(2) by auto
  have "op \<notin> dom (map_of us)" using n by (simp add: dom_map_of_conv_image_fst)
  then have v: "cache_view B c' = cache_view B c ++ map_of (u # us)"
    unfolding c'(3) c1(3) u map_of.simps fst_conv snd_conv map_add_upd by (rule map_add_upd_left)
  have "restore_inputs mu B (u # us) (fClean, c) = Inr (Some fClean, c')"
    using c'(1) c1(1) by (simp add: u)
  moreover have "cc_hashBlock c' = cc_hashBlock c" using c'(4) c1(4) by simp
  ultimately show ?case using c'(2) v by blast
qed simp

lemma tx_effect_undone:
  assumes tx: "tx_connectable H tx V" and ncb: "\<not> IsCoinBase tx"
  shows "(tx_effect H h tx V |` (- dom (created (tx_GetHash H tx) h (IsCoinBase tx) 0 (tx_vout tx)))) ++
    map_of (rev (zip (map txin_prevout (tx_vin tx)) (map (\<lambda>i. the (V (txin_prevout i))) (tx_vin tx)))) = V"
proof
  fix op
  let ?C = "created (tx_GetHash H tx) h (IsCoinBase tx) 0 (tx_vout tx)"
  let ?us = "rev (zip (map txin_prevout (tx_vin tx)) (map (\<lambda>i. the (V (txin_prevout i))) (tx_vin tx)))"
  have us: "?us = map (\<lambda>i. (txin_prevout i, the (V (txin_prevout i)))) (rev (tx_vin tx))"
    by (simp add: zip_map_map zip_same_conv_map rev_map)
  have d: "distinct (map fst ?us)" using tx ncb unfolding us by (simp add: tx_connectable_def o_def rev_map [symmetric])
  have op: "map_of ?us op = (if op \<in> spent_by tx then V op else None)"
  proof (cases "op \<in> spent_by tx")
    case True
    then obtain i where i: "i \<in> set (tx_vin tx)" "op = txin_prevout i" using ncb by (auto simp: spent_by_def)
    then have "V op = Some (the (V op))" using tx ncb by (auto simp: tx_connectable_def)
    moreover have "(op, the (V op)) \<in> set ?us" unfolding us using i by auto
    then have "map_of ?us op = Some (the (V op))" by (rule map_of_is_SomeI [OF d])
    ultimately show ?thesis using True by simp
  next
    case False
    then have "op \<notin> fst ` set ?us" unfolding us using ncb by (auto simp: spent_by_def)
    then show ?thesis using False by (simp add: map_of_eq_None_iff)
  qed
  have "V op = None" if "?C op \<noteq> None"
  proof -
    from that have "op_hash op = tx_GetHash H tx" "unat (op_n op) < length (tx_vout tx)"
      by (auto simp: created_def Let_def split: if_splits)
    then have "outpoint (tx_GetHash H tx) (unat (op_n op)) = op" by (simp add: outpoint_eq)
    then show ?thesis using tx \<open>unat (op_n op) < length (tx_vout tx)\<close> by (auto simp: tx_connectable_def)
  qed
  then show "((tx_effect H h tx V |` (- dom ?C)) ++ map_of ?us) op = V op"
    using op by (auto simp: map_add_def tx_effect_def restrict_map_def domIff split: option.splits)
qed

lemma coinbase_effect_undone:
  assumes tx: "tx_connectable H tx V" and cb: "IsCoinBase tx"
  shows "tx_effect H h tx V |` (- dom (created (tx_GetHash H tx) h (IsCoinBase tx) 0 (tx_vout tx))) = V"
proof
  fix op
  let ?C = "created (tx_GetHash H tx) h (IsCoinBase tx) 0 (tx_vout tx)"
  have "V op = None" if "?C op \<noteq> None"
  proof -
    from that have "op_hash op = tx_GetHash H tx" "unat (op_n op) < length (tx_vout tx)"
      by (auto simp: created_def Let_def split: if_splits)
    then have "outpoint (tx_GetHash H tx) (unat (op_n op)) = op" by (simp add: outpoint_eq)
    then show ?thesis using tx \<open>unat (op_n op) < length (tx_vout tx)\<close> by (auto simp: tx_connectable_def)
  qed
  then show "(tx_effect H h tx V |` (- dom ?C)) op = V op"
    using cb by (auto simp: map_add_def tx_effect_def restrict_map_def domIff spent_by_def split: option.splits)
qed

subsection \<open>Undoing a block\<close>

text \<open>The part of the loop of \<^verbatim>\<open>ConnectBlock\<close> that updates the coins and records the undo data.\<close>

fun connect_coins ::
  "(bytes \<Rightarrow> uint256) \<Rightarrow> (CScript \<Rightarrow> u64) \<Rightarrow> (COutPoint \<Rightarrow> Coin option) \<Rightarrow> int \<Rightarrow> nat \<Rightarrow> CTransaction list \<Rightarrow> CBlockUndo \<Rightarrow> CCoinsViewCache
    \<Rightarrow> (CBlockUndo \<times> CCoinsViewCache) cxx" where
  "connect_coins H mu base nHeight i [] vtxundo view = Inr (vtxundo, view)"
| "connect_coins H mu base nHeight i (tx # vtx) vtxundo view =
    bindE (UpdateCoins H mu base tx view [] nHeight) (\<lambda>(undo, view').
    connect_coins H mu base nHeight (i + 1) vtx (if i > 0 then vtxundo @ [undo] else vtxundo) view')"

definition undo_of :: "CTransaction \<Rightarrow> (COutPoint \<Rightarrow> Coin option) \<Rightarrow> CTxUndo" where
  "undo_of tx V = (if IsCoinBase tx then [] else map (\<lambda>i. the (V (txin_prevout i))) (tx_vin tx))"

definition effects :: "(bytes \<Rightarrow> uint256) \<Rightarrow> int \<Rightarrow> CTransaction list \<Rightarrow> (COutPoint \<Rightarrow> Coin option) \<Rightarrow> COutPoint \<Rightarrow> Coin option" where
  "effects H h txs V = fold (tx_effect H h) txs V"

definition undos :: "(bytes \<Rightarrow> uint256) \<Rightarrow> int \<Rightarrow> CTransaction list \<Rightarrow> (COutPoint \<Rightarrow> Coin option) \<Rightarrow> CBlockUndo" where
  "undos H h txs V = map (\<lambda>i. undo_of (txs ! i) (effects H h (take i txs) V)) [0..<length txs]"

definition block_connectable :: "(bytes \<Rightarrow> uint256) \<Rightarrow> int \<Rightarrow> CTransaction list \<Rightarrow> (COutPoint \<Rightarrow> Coin option) \<Rightarrow> bool" where
  "block_connectable H h txs V \<longleftrightarrow> (\<forall>i<length txs. tx_connectable H (txs ! i) (effects H h (take i txs) V))"

definition good_view :: "(COutPoint \<Rightarrow> Coin option) \<Rightarrow> bool" where
  "good_view V \<longleftrightarrow> (\<forall>op coin. V op = Some coin \<longrightarrow> good_coin coin)"

lemma effects_simps [simp]: "effects H h [] V = V" "effects H h (tx # txs) V = effects H h txs (tx_effect H h tx V)"
  by (simp_all add: effects_def)

lemma effects_take_Suc: "i < length txs \<Longrightarrow> effects H h (take (Suc i) txs) V = tx_effect H h (txs ! i) (effects H h (take i txs) V)"
  by (simp add: effects_def take_Suc_conv_app_nth)

lemma undos_simps: "undos H h [] V = []" "undos H h (tx # txs) V = undo_of tx V # undos H h txs (tx_effect H h tx V)"
proof -
  have "[0..<Suc (length txs)] = 0 # map Suc [0..<length txs]" by (simp add: map_Suc_upt upt_conv_Cons del: upt_Suc)
  then show "undos H h (tx # txs) V = undo_of tx V # undos H h txs (tx_effect H h tx V)"
    by (simp add: undos_def o_def del: upt_Suc)
qed (simp add: undos_def)

lemma block_connectable_Cons:
  "block_connectable H h (tx # txs) V \<longleftrightarrow> tx_connectable H tx V \<and> block_connectable H h txs (tx_effect H h tx V)"
  by (auto simp: block_connectable_def All_less_Suc2)

lemma good_view_tx_effect:
  assumes "good_view V" "tx_connectable H tx V" "0 < h" "h < 2 ^ 31"
  shows "good_view (tx_effect H h tx V)"
  unfolding good_view_def
proof (intro allI impI)
  fix op coin
  assume c: "tx_effect H h tx V op = Some coin"
  have nz: "coin_nHeight (Coin_make out h cb) \<noteq> 0" for out cb
    using Coin_make_height [of h out cb] assms(3,4) by (auto simp del: Coin_make_simps)
  show "good_coin coin"
  proof (cases "created (tx_GetHash H tx) h (IsCoinBase tx) 0 (tx_vout tx) op")
    case None
    then show ?thesis using c assms(1) by (auto simp: tx_effect_def map_add_def restrict_map_def good_view_def split: if_splits)
  next
    case (Some coin')
    then have "coin' = coin" using c by (simp add: tx_effect_def map_add_def)
    then show ?thesis using Some assms(2) nz
      by (auto simp: created_def Let_def good_coin_def tx_connectable_def split: if_splits)
  qed
qed

lemma good_view_effects:
  assumes "good_view V" "block_connectable H h txs V" "0 < h" "h < 2 ^ 31" "i \<le> length txs"
  shows "good_view (effects H h (take i txs) V)"
  using assms(5)
proof (induction i)
  case (Suc i)
  then show ?case using good_view_tx_effect assms(2-4) by (simp add: effects_take_Suc block_connectable_def)
qed (use assms(1) in simp)

lemma connect_coins_ok:
  assumes B: "base_ok B" and mu: "mu [] = 0"
  shows "cache_inv mu B c \<Longrightarrow> block_connectable H h txs (cache_view B c) \<Longrightarrow>
    \<exists>c'. connect_coins H mu B h i txs vtxundo c =
        Inr (vtxundo @ (if i > 0 then undos H h txs (cache_view B c) else tl (undos H h txs (cache_view B c))), c') \<and>
      cache_inv mu B c' \<and> cache_view B c' = effects H h txs (cache_view B c) \<and> cc_hashBlock c' = cc_hashBlock c"
proof (induction txs arbitrary: c i vtxundo)
  case (Cons tx txs)
  then have tx: "tx_connectable H tx (cache_view B c)" "block_connectable H h txs (tx_effect H h tx (cache_view B c))"
    by (simp_all add: block_connectable_Cons)
  obtain c1 where c1: "UpdateCoins H mu B tx c [] h = Inr (undo_of tx (cache_view B c), c1)" "cache_inv mu B c1"
      "cache_view B c1 = tx_effect H h tx (cache_view B c)" "cc_hashBlock c1 = cc_hashBlock c"
    using UpdateCoins_ok [OF Cons.prems(1) B mu tx(1), of h] unfolding undo_of_def by blast
  have "block_connectable H h txs (cache_view B c1)" using tx(2) c1(3) by simp
  from Cons.IH [OF c1(2) this, of "i + 1" "if i > 0 then vtxundo @ [undo_of tx (cache_view B c)] else vtxundo"]
  show ?case using c1 by (auto simp: undos_simps)
qed (simp add: undos_simps)

lemma disconnect_tx_ok:
  assumes inv: "cache_inv mu B c" and B: "base_ok B" and mu: "mu [] = 0" and h: "0 < h" "h < 2 ^ 31"
    and tx: "tx_connectable H tx V" and V: "good_view V" and c: "cache_view B c = tx_effect H h tx V"
    and u: "u = (if IsCoinBase tx then None else Some (undo_of tx V))"
  obtains c' where "disconnect_tx H mu B h f u tx (fClean, c) = Inr (Some fClean, c')" "cache_inv mu B c'"
    "cache_view B c' = V" "cc_hashBlock c' = cc_hashBlock c"
proof -
  let ?C = "created (tx_GetHash H tx) h (IsCoinBase tx) 0 (tx_vout tx)"
  have "\<forall>op coin. ?C op = Some coin \<longrightarrow> cache_view B c op = Some coin"
    unfolding c tx_effect_def by (auto simp: map_add_Some_iff)
  then obtain c1 where c1: "spend_outputs mu B (tx_GetHash H tx) h (IsCoinBase tx) (IsCoinBase tx \<and> \<not> f) 0 (tx_vout tx) (fClean, c) = (fClean, c1)"
      "cache_inv mu B c1" "cache_view B c1 = cache_view B c |` (- dom ?C)" "cc_hashBlock c1 = cc_hashBlock c"
    using spend_outputs_ok [OF B mu _ h(2) inv, of 0 "tx_vout tx" "tx_GetHash H tx" "IsCoinBase tx" "IsCoinBase tx \<and> \<not> f" fClean] tx h(1)
    by (auto simp: tx_connectable_def)
  show thesis
  proof (cases "IsCoinBase tx")
    case True
    then show thesis using that [of c1] c1 coinbase_effect_undone [OF tx True, of h] c u by (simp add: disconnect_tx_def)
  next
    case False
    let ?us = "rev (zip (map txin_prevout (tx_vin tx)) (undo_of tx V))"
    have ud: "undo_of tx V = map (\<lambda>i. the (V (txin_prevout i))) (tx_vin tx)" using False by (simp add: undo_of_def)
    have us: "set ?us = (\<lambda>i. (txin_prevout i, the (V (txin_prevout i)))) ` set (tx_vin tx)"
      unfolding ud by (simp add: zip_map_map zip_same_conv_map)
    have "\<forall>(op, coin)\<in>set ?us. cache_view B c1 op = None \<and> good_coin coin"
    proof clarify
      fix op coin
      assume "(op, coin) \<in> set ?us"
      then obtain i where i: "i \<in> set (tx_vin tx)" "op = txin_prevout i" "coin = the (V op)" unfolding us by auto
      then have "V op \<noteq> None" using tx False by (auto simp: tx_connectable_def)
      moreover have "op \<in> spent_by tx" using i False by (simp add: spent_by_def)
      ultimately show "cache_view B c1 op = None \<and> good_coin coin"
        using V i(3) unfolding c1(3) c tx_effect_def by (auto simp: restrict_map_def map_add_def good_view_def domIff split: option.splits)
    qed
    moreover have "distinct (map fst ?us)" using tx False unfolding ud by (simp add: tx_connectable_def rev_map [symmetric])
    ultimately obtain c' where "restore_inputs mu B ?us (fClean, c1) = Inr (Some fClean, c')" "cache_inv mu B c'"
        "cache_view B c' = cache_view B c1 ++ map_of ?us" "cc_hashBlock c' = cc_hashBlock c1"
      using restore_inputs_ok [OF B mu c1(2)] by blast
    moreover have "cache_view B c1 ++ map_of ?us = V"
      using tx_effect_undone [OF tx False, of h] unfolding c1(3) c ud .
    moreover have "length (undo_of tx V) = length (tx_vin tx)" by (simp add: ud)
    ultimately show thesis using that [of c'] c1 False u by (simp add: disconnect_tx_def)
  qed
qed

lemma disconnect_txs_ok:
  assumes B: "base_ok B" and mu: "mu [] = 0" and h: "0 < h" "h < 2 ^ 31" and V: "good_view V"
    and b: "block_connectable H h txs V" and cb: "\<And>i. i < length txs \<Longrightarrow> IsCoinBase (txs ! i) \<longleftrightarrow> i = 0"
  shows "cache_inv mu B c \<Longrightarrow> i \<le> length txs \<Longrightarrow> cache_view B c = effects H h (take i txs) V \<Longrightarrow>
    \<exists>c'. disconnect_txs H mu B h f (tl (undos H h txs V)) txs i (fClean, c) = Inr (Some fClean, c') \<and>
      cache_inv mu B c' \<and> cache_view B c' = V \<and> cc_hashBlock c' = cc_hashBlock c"
proof (induction i arbitrary: c)
  case (Suc i)
  let ?V = "effects H h (take i txs) V"
  have i: "i < length txs" using Suc.prems(2) by simp
  have tx: "tx_connectable H (txs ! i) ?V" using b i by (simp add: block_connectable_def)
  have g: "good_view ?V" using good_view_effects [OF V b h, of i] i by simp
  have v: "cache_view B c = tx_effect H h (txs ! i) ?V" using Suc.prems(3) effects_take_Suc [OF i] by simp
  have "tl (undos H h txs V) ! (i - 1) = undo_of (txs ! i) ?V" if "i > 0"
    using that i by (simp add: undos_def nth_tl)
  then have u: "(if i > 0 then Some (tl (undos H h txs V) ! (i - 1)) else None) = (if IsCoinBase (txs ! i) then None else Some (undo_of (txs ! i) ?V))"
    using cb [OF i] by simp
  obtain c1 where "disconnect_tx H mu B h f (if i > 0 then Some (tl (undos H h txs V) ! (i - 1)) else None) (txs ! i) (fClean, c) = Inr (Some fClean, c1)"
      "cache_inv mu B c1" "cache_view B c1 = ?V" "cc_hashBlock c1 = cc_hashBlock c"
    using disconnect_tx_ok [OF Suc.prems(1) B mu h tx g v u, of f fClean] by blast
  then show ?case using Suc.IH [of c1] i by simp
qed simp

lemma length_undos: "txs \<noteq> [] \<Longrightarrow> length (tl (undos H h txs V)) + 1 = length txs"
  by (simp add: undos_def)

lemma DisconnectBlock_ok:
  assumes inv: "cache_inv mu B c" and B: "base_ok B" and mu: "mu [] = 0" and h: "0 < bi_nHeight pindex" "bi_nHeight pindex < 2 ^ 31"
    and V: "good_view V" and b: "block_connectable H (bi_nHeight pindex) txs V"
    and cb: "txs \<noteq> []" "\<And>i. i < length txs \<Longrightarrow> IsCoinBase (txs ! i) \<longleftrightarrow> i = 0"
    and v: "cache_view B c = effects H (bi_nHeight pindex) txs V"
    and p: "bi_phashBlock pindex = Some hash" "bi_pprev pindex = Some q" "st q = Some prev" "bi_phashBlock prev = Some phash"
  obtains c' where "DisconnectBlock H mu B st (Some (tl (undos H (bi_nHeight pindex) txs V))) txs pindex c = Inr (DISCONNECT_OK, c')"
    "cache_inv mu B c'" "cache_view B c' = V" "cc_hashBlock c' = phash"
proof -
  let ?f = "EnforceBIP30 (bi_nHeight pindex) (if bi_nHeight pindex = 91722 \<or> bi_nHeight pindex = 91812 then hash else uint256_null)"
  have "cache_view B c = effects H (bi_nHeight pindex) (take (length txs) txs) V" using v by simp
  then obtain c1 where c1: "disconnect_txs H mu B (bi_nHeight pindex) ?f (tl (undos H (bi_nHeight pindex) txs V)) txs (length txs) (True, c) = Inr (Some True, c1)"
      "cache_inv mu B c1" "cache_view B c1 = V"
    using disconnect_txs_ok [OF B mu h V b cb(2) inv order.refl] by blast
  have e: "(if bi_nHeight pindex = 91722 \<or> bi_nHeight pindex = 91812 then bi_GetBlockHash pindex else Inr uint256_null) =
      Inr (if bi_nHeight pindex = 91722 \<or> bi_nHeight pindex = 91812 then hash else uint256_null)"
    using p(1) by (simp add: bi_GetBlockHash_def)
  have "DisconnectBlock H mu B st (Some (tl (undos H (bi_nHeight pindex) txs V))) txs pindex c = Inr (DISCONNECT_OK, SetBestBlock phash c1)"
    unfolding DisconnectBlock_def option.case e bindE_simps c1(1)
    using length_undos [OF cb(1)] p by (simp add: bi_GetBlockHash_def)
  moreover have "cache_inv mu B (SetBestBlock phash c1)" "cache_view B (SetBestBlock phash c1) = cache_view B c1"
    using c1(2) by (auto simp: SetBestBlock_def cache_inv_def accounted_def cache_view_def fun_eq_iff)
  ultimately show thesis using that c1(3) by (simp add: SetBestBlock_def)
qed

end
