(* ===== verification/Script_Interp.thy ===== *)
theory Script_Interp
  imports Script_Core
begin

text \<open>
  The script machine of \<^verbatim>\<open>src/src/script/interpreter.cpp\<close>: \<^verbatim>\<open>EvalScript\<close> with every opcode, the condition stack,
  the encoding rules for keys and signatures and \<^verbatim>\<open>FindAndDelete\<close>. A stack is a list with its top first.
  The signature checker, the hash functions and the two library predicates on keys and signatures are
  members of a context. A run yields the final state, a script error, or a failure of the C++ code;
  exceptions thrown inside the loop are caught by it and become \<open>SCRIPT_ERR_UNKNOWN_ERROR\<close>.
\<close>

unbundle bit_operations_syntax

subsection \<open>Opcodes, flags and errors\<close>

definition OP_NOP :: byte where "OP_NOP = 0x61"
definition OP_IF :: byte where "OP_IF = 0x63"
definition OP_NOTIF :: byte where "OP_NOTIF = 0x64"
definition OP_ELSE :: byte where "OP_ELSE = 0x67"
definition OP_ENDIF :: byte where "OP_ENDIF = 0x68"
definition OP_VERIFY :: byte where "OP_VERIFY = 0x69"
definition OP_TOALTSTACK :: byte where "OP_TOALTSTACK = 0x6b"
definition OP_FROMALTSTACK :: byte where "OP_FROMALTSTACK = 0x6c"
definition OP_2DROP :: byte where "OP_2DROP = 0x6d"
definition OP_2DUP :: byte where "OP_2DUP = 0x6e"
definition OP_3DUP :: byte where "OP_3DUP = 0x6f"
definition OP_2OVER :: byte where "OP_2OVER = 0x70"
definition OP_2ROT :: byte where "OP_2ROT = 0x71"
definition OP_2SWAP :: byte where "OP_2SWAP = 0x72"
definition OP_IFDUP :: byte where "OP_IFDUP = 0x73"
definition OP_DEPTH :: byte where "OP_DEPTH = 0x74"
definition OP_DROP :: byte where "OP_DROP = 0x75"
definition OP_DUP :: byte where "OP_DUP = 0x76"
definition OP_NIP :: byte where "OP_NIP = 0x77"
definition OP_OVER :: byte where "OP_OVER = 0x78"
definition OP_PICK :: byte where "OP_PICK = 0x79"
definition OP_ROLL :: byte where "OP_ROLL = 0x7a"
definition OP_ROT :: byte where "OP_ROT = 0x7b"
definition OP_SWAP :: byte where "OP_SWAP = 0x7c"
definition OP_TUCK :: byte where "OP_TUCK = 0x7d"
definition OP_CAT :: byte where "OP_CAT = 0x7e"
definition OP_SUBSTR :: byte where "OP_SUBSTR = 0x7f"
definition OP_LEFT :: byte where "OP_LEFT = 0x80"
definition OP_RIGHT :: byte where "OP_RIGHT = 0x81"
definition OP_SIZE :: byte where "OP_SIZE = 0x82"
definition OP_INVERT :: byte where "OP_INVERT = 0x83"
definition OP_AND :: byte where "OP_AND = 0x84"
definition OP_OR :: byte where "OP_OR = 0x85"
definition OP_XOR :: byte where "OP_XOR = 0x86"
definition OP_EQUALVERIFY :: byte where "OP_EQUALVERIFY = 0x88"
definition OP_1ADD :: byte where "OP_1ADD = 0x8b"
definition OP_1SUB :: byte where "OP_1SUB = 0x8c"
definition OP_2MUL :: byte where "OP_2MUL = 0x8d"
definition OP_2DIV :: byte where "OP_2DIV = 0x8e"
definition OP_NEGATE :: byte where "OP_NEGATE = 0x8f"
definition OP_ABS :: byte where "OP_ABS = 0x90"
definition OP_NOT :: byte where "OP_NOT = 0x91"
definition OP_0NOTEQUAL :: byte where "OP_0NOTEQUAL = 0x92"
definition OP_ADD :: byte where "OP_ADD = 0x93"
definition OP_SUB :: byte where "OP_SUB = 0x94"
definition OP_MUL :: byte where "OP_MUL = 0x95"
definition OP_DIV :: byte where "OP_DIV = 0x96"
definition OP_MOD :: byte where "OP_MOD = 0x97"
definition OP_LSHIFT :: byte where "OP_LSHIFT = 0x98"
definition OP_RSHIFT :: byte where "OP_RSHIFT = 0x99"
definition OP_BOOLAND :: byte where "OP_BOOLAND = 0x9a"
definition OP_BOOLOR :: byte where "OP_BOOLOR = 0x9b"
definition OP_NUMEQUAL :: byte where "OP_NUMEQUAL = 0x9c"
definition OP_NUMEQUALVERIFY :: byte where "OP_NUMEQUALVERIFY = 0x9d"
definition OP_NUMNOTEQUAL :: byte where "OP_NUMNOTEQUAL = 0x9e"
definition OP_LESSTHAN :: byte where "OP_LESSTHAN = 0x9f"
definition OP_GREATERTHAN :: byte where "OP_GREATERTHAN = 0xa0"
definition OP_LESSTHANOREQUAL :: byte where "OP_LESSTHANOREQUAL = 0xa1"
definition OP_GREATERTHANOREQUAL :: byte where "OP_GREATERTHANOREQUAL = 0xa2"
definition OP_MIN :: byte where "OP_MIN = 0xa3"
definition OP_MAX :: byte where "OP_MAX = 0xa4"
definition OP_WITHIN :: byte where "OP_WITHIN = 0xa5"
definition OP_RIPEMD160 :: byte where "OP_RIPEMD160 = 0xa6"
definition OP_SHA1 :: byte where "OP_SHA1 = 0xa7"
definition OP_SHA256 :: byte where "OP_SHA256 = 0xa8"
definition OP_HASH256 :: byte where "OP_HASH256 = 0xaa"
definition OP_CODESEPARATOR :: byte where "OP_CODESEPARATOR = 0xab"
definition OP_NOP1 :: byte where "OP_NOP1 = 0xb0"
definition OP_CHECKLOCKTIMEVERIFY :: byte where "OP_CHECKLOCKTIMEVERIFY = 0xb1"
definition OP_CHECKSEQUENCEVERIFY :: byte where "OP_CHECKSEQUENCEVERIFY = 0xb2"
definition OP_CHECKSIGPQC :: byte where "OP_CHECKSIGPQC = 0xb3"
definition OP_NOP5 :: byte where "OP_NOP5 = 0xb4"
definition OP_NOP6 :: byte where "OP_NOP6 = 0xb5"
definition OP_NOP7 :: byte where "OP_NOP7 = 0xb6"
definition OP_NOP8 :: byte where "OP_NOP8 = 0xb7"
definition OP_NOP9 :: byte where "OP_NOP9 = 0xb8"
definition OP_NOP10 :: byte where "OP_NOP10 = 0xb9"
definition OP_CHECKSIGADD :: byte where "OP_CHECKSIGADD = 0xba"
definition OP_CHECKTEMPLATEVERIFY :: byte where "OP_CHECKTEMPLATEVERIFY = 0xbb"
definition OP_CHECKDATASIGPQC :: byte where "OP_CHECKDATASIGPQC = 0xbc"
definition OP_CHECKDATASIGADDPQC :: byte where "OP_CHECKDATASIGADDPQC = 0xbd"

lemmas all_opcode_defs = opcode_defs
  OP_NOP_def OP_IF_def OP_NOTIF_def OP_ELSE_def OP_ENDIF_def OP_VERIFY_def OP_TOALTSTACK_def OP_FROMALTSTACK_def
  OP_2DROP_def OP_2DUP_def OP_3DUP_def OP_2OVER_def OP_2ROT_def OP_2SWAP_def OP_IFDUP_def OP_DEPTH_def
  OP_DROP_def OP_DUP_def OP_NIP_def OP_OVER_def OP_PICK_def OP_ROLL_def OP_ROT_def OP_SWAP_def OP_TUCK_def
  OP_CAT_def OP_SUBSTR_def OP_LEFT_def OP_RIGHT_def OP_SIZE_def OP_INVERT_def OP_AND_def OP_OR_def OP_XOR_def
  OP_EQUALVERIFY_def OP_1ADD_def OP_1SUB_def OP_2MUL_def OP_2DIV_def OP_NEGATE_def OP_ABS_def OP_NOT_def
  OP_0NOTEQUAL_def OP_ADD_def OP_SUB_def OP_MUL_def OP_DIV_def OP_MOD_def OP_LSHIFT_def OP_RSHIFT_def
  OP_BOOLAND_def OP_BOOLOR_def OP_NUMEQUAL_def OP_NUMEQUALVERIFY_def OP_NUMNOTEQUAL_def OP_LESSTHAN_def
  OP_GREATERTHAN_def OP_LESSTHANOREQUAL_def OP_GREATERTHANOREQUAL_def OP_MIN_def OP_MAX_def OP_WITHIN_def
  OP_RIPEMD160_def OP_SHA1_def OP_SHA256_def OP_HASH256_def OP_CODESEPARATOR_def OP_NOP1_def
  OP_CHECKLOCKTIMEVERIFY_def OP_CHECKSEQUENCEVERIFY_def OP_CHECKSIGPQC_def OP_NOP5_def OP_NOP6_def OP_NOP7_def
  OP_NOP8_def OP_NOP9_def OP_NOP10_def OP_CHECKSIGADD_def OP_CHECKTEMPLATEVERIFY_def OP_CHECKDATASIGPQC_def
  OP_CHECKDATASIGADDPQC_def

definition SCRIPT_VERIFY_STRICTENC :: u32 where "SCRIPT_VERIFY_STRICTENC = push_bit 1 1"
definition SCRIPT_VERIFY_DERSIG :: u32 where "SCRIPT_VERIFY_DERSIG = push_bit 2 1"
definition SCRIPT_VERIFY_LOW_S :: u32 where "SCRIPT_VERIFY_LOW_S = push_bit 3 1"
definition SCRIPT_VERIFY_NULLDUMMY :: u32 where "SCRIPT_VERIFY_NULLDUMMY = push_bit 4 1"
definition SCRIPT_VERIFY_SIGPUSHONLY :: u32 where "SCRIPT_VERIFY_SIGPUSHONLY = push_bit 5 1"
definition SCRIPT_VERIFY_MINIMALDATA :: u32 where "SCRIPT_VERIFY_MINIMALDATA = push_bit 6 1"
definition SCRIPT_VERIFY_DISCOURAGE_UPGRADABLE_NOPS :: u32 where "SCRIPT_VERIFY_DISCOURAGE_UPGRADABLE_NOPS = push_bit 7 1"
definition SCRIPT_VERIFY_CLEANSTACK :: u32 where "SCRIPT_VERIFY_CLEANSTACK = push_bit 8 1"
definition SCRIPT_VERIFY_CHECKLOCKTIMEVERIFY :: u32 where "SCRIPT_VERIFY_CHECKLOCKTIMEVERIFY = push_bit 9 1"
definition SCRIPT_VERIFY_CHECKSEQUENCEVERIFY :: u32 where "SCRIPT_VERIFY_CHECKSEQUENCEVERIFY = push_bit 10 1"
definition SCRIPT_VERIFY_DISCOURAGE_UPGRADABLE_WITNESS_PROGRAM :: u32 where "SCRIPT_VERIFY_DISCOURAGE_UPGRADABLE_WITNESS_PROGRAM = push_bit 12 1"
definition SCRIPT_VERIFY_MINIMALIF :: u32 where "SCRIPT_VERIFY_MINIMALIF = push_bit 13 1"
definition SCRIPT_VERIFY_NULLFAIL :: u32 where "SCRIPT_VERIFY_NULLFAIL = push_bit 14 1"
definition SCRIPT_VERIFY_WITNESS_PUBKEYTYPE :: u32 where "SCRIPT_VERIFY_WITNESS_PUBKEYTYPE = push_bit 15 1"
definition SCRIPT_VERIFY_CONST_SCRIPTCODE :: u32 where "SCRIPT_VERIFY_CONST_SCRIPTCODE = push_bit 16 1"
definition SCRIPT_VERIFY_TAPROOT :: u32 where "SCRIPT_VERIFY_TAPROOT = push_bit 17 1"
definition SCRIPT_VERIFY_DISCOURAGE_UPGRADABLE_TAPROOT_VERSION :: u32 where "SCRIPT_VERIFY_DISCOURAGE_UPGRADABLE_TAPROOT_VERSION = push_bit 18 1"
definition SCRIPT_VERIFY_DISCOURAGE_OP_SUCCESS :: u32 where "SCRIPT_VERIFY_DISCOURAGE_OP_SUCCESS = push_bit 19 1"
definition SCRIPT_VERIFY_DISCOURAGE_UPGRADABLE_PUBKEYTYPE :: u32 where "SCRIPT_VERIFY_DISCOURAGE_UPGRADABLE_PUBKEYTYPE = push_bit 20 1"
definition SCRIPT_VERIFY_P2MR_RULES :: u32 where "SCRIPT_VERIFY_P2MR_RULES = push_bit 21 1"
definition SCRIPT_VERIFY_P2MR_LEGACY_VALIDATION_WEIGHT :: u32 where "SCRIPT_VERIFY_P2MR_LEGACY_VALIDATION_WEIGHT = push_bit 22 1"

lemmas flag_defs = SCRIPT_VERIFY_P2SH_def SCRIPT_VERIFY_WITNESS_def
  SCRIPT_VERIFY_STRICTENC_def SCRIPT_VERIFY_DERSIG_def SCRIPT_VERIFY_LOW_S_def SCRIPT_VERIFY_NULLDUMMY_def
  SCRIPT_VERIFY_SIGPUSHONLY_def SCRIPT_VERIFY_MINIMALDATA_def SCRIPT_VERIFY_DISCOURAGE_UPGRADABLE_NOPS_def
  SCRIPT_VERIFY_CLEANSTACK_def SCRIPT_VERIFY_CHECKLOCKTIMEVERIFY_def SCRIPT_VERIFY_CHECKSEQUENCEVERIFY_def
  SCRIPT_VERIFY_DISCOURAGE_UPGRADABLE_WITNESS_PROGRAM_def SCRIPT_VERIFY_MINIMALIF_def SCRIPT_VERIFY_NULLFAIL_def
  SCRIPT_VERIFY_WITNESS_PUBKEYTYPE_def SCRIPT_VERIFY_CONST_SCRIPTCODE_def SCRIPT_VERIFY_TAPROOT_def
  SCRIPT_VERIFY_DISCOURAGE_UPGRADABLE_TAPROOT_VERSION_def SCRIPT_VERIFY_DISCOURAGE_OP_SUCCESS_def
  SCRIPT_VERIFY_DISCOURAGE_UPGRADABLE_PUBKEYTYPE_def SCRIPT_VERIFY_P2MR_RULES_def
  SCRIPT_VERIFY_P2MR_LEGACY_VALIDATION_WEIGHT_def

definition has_flag :: "u32 \<Rightarrow> u32 \<Rightarrow> bool" where
  "has_flag flags f \<longleftrightarrow> flags AND f \<noteq> 0"

definition MAX_OPS_PER_SCRIPT :: int where "MAX_OPS_PER_SCRIPT = 201"
definition MAX_STACK_SIZE :: nat where "MAX_STACK_SIZE = 1000"
definition VALIDATION_WEIGHT_PER_SIGOP_PASSED :: int where "VALIDATION_WEIGHT_PER_SIGOP_PASSED = 50"
definition P2MR_VALIDATION_WEIGHT_PER_SIGOP_LEGACY :: int where "P2MR_VALIDATION_WEIGHT_PER_SIGOP_LEGACY = 3730"
definition P2MR_VALIDATION_WEIGHT_PER_SIGOP_V2 :: int where "P2MR_VALIDATION_WEIGHT_PER_SIGOP_V2 = 3683"
definition PQC_PUBKEY_SIZE :: nat where "PQC_PUBKEY_SIZE = 32"
definition PQC_SIG_SIZE :: nat where "PQC_SIG_SIZE = 3680"

datatype ScriptError =
    SCRIPT_ERR_OK
  | SCRIPT_ERR_UNKNOWN_ERROR
  | SCRIPT_ERR_EVAL_FALSE
  | SCRIPT_ERR_OP_RETURN
  | SCRIPT_ERR_SCRIPT_SIZE
  | SCRIPT_ERR_PUSH_SIZE
  | SCRIPT_ERR_OP_COUNT
  | SCRIPT_ERR_STACK_SIZE
  | SCRIPT_ERR_SIG_COUNT
  | SCRIPT_ERR_PUBKEY_COUNT
  | SCRIPT_ERR_VERIFY
  | SCRIPT_ERR_EQUALVERIFY
  | SCRIPT_ERR_CHECKMULTISIGVERIFY
  | SCRIPT_ERR_CHECKSIGVERIFY
  | SCRIPT_ERR_NUMEQUALVERIFY
  | SCRIPT_ERR_BAD_OPCODE
  | SCRIPT_ERR_DISABLED_OPCODE
  | SCRIPT_ERR_INVALID_STACK_OPERATION
  | SCRIPT_ERR_INVALID_ALTSTACK_OPERATION
  | SCRIPT_ERR_UNBALANCED_CONDITIONAL
  | SCRIPT_ERR_NEGATIVE_LOCKTIME
  | SCRIPT_ERR_UNSATISFIED_LOCKTIME
  | SCRIPT_ERR_SIG_HASHTYPE
  | SCRIPT_ERR_SIG_DER
  | SCRIPT_ERR_MINIMALDATA
  | SCRIPT_ERR_SIG_PUSHONLY
  | SCRIPT_ERR_SIG_HIGH_S
  | SCRIPT_ERR_SIG_NULLDUMMY
  | SCRIPT_ERR_PUBKEYTYPE
  | SCRIPT_ERR_CLEANSTACK
  | SCRIPT_ERR_MINIMALIF
  | SCRIPT_ERR_SIG_NULLFAIL
  | SCRIPT_ERR_DISCOURAGE_UPGRADABLE_NOPS
  | SCRIPT_ERR_DISCOURAGE_UPGRADABLE_WITNESS_PROGRAM
  | SCRIPT_ERR_DISCOURAGE_UPGRADABLE_TAPROOT_VERSION
  | SCRIPT_ERR_DISCOURAGE_OP_SUCCESS
  | SCRIPT_ERR_DISCOURAGE_UPGRADABLE_PUBKEYTYPE
  | SCRIPT_ERR_WITNESS_PROGRAM_WRONG_LENGTH
  | SCRIPT_ERR_WITNESS_PROGRAM_WITNESS_EMPTY
  | SCRIPT_ERR_WITNESS_PROGRAM_MISMATCH
  | SCRIPT_ERR_WITNESS_MALLEATED
  | SCRIPT_ERR_WITNESS_MALLEATED_P2SH
  | SCRIPT_ERR_WITNESS_UNEXPECTED
  | SCRIPT_ERR_WITNESS_PUBKEYTYPE
  | SCRIPT_ERR_SCHNORR_SIG_SIZE
  | SCRIPT_ERR_SCHNORR_SIG_HASHTYPE
  | SCRIPT_ERR_SCHNORR_SIG
  | SCRIPT_ERR_TAPROOT_WRONG_CONTROL_SIZE
  | SCRIPT_ERR_TAPSCRIPT_VALIDATION_WEIGHT
  | SCRIPT_ERR_TAPSCRIPT_CHECKMULTISIG
  | SCRIPT_ERR_TAPSCRIPT_MINIMALIF
  | SCRIPT_ERR_P2MR_WRONG_CONTROL_SIZE
  | SCRIPT_ERR_P2MR_CONTROL_BIT0
  | SCRIPT_ERR_P2MR_VALIDATION_WEIGHT
  | SCRIPT_ERR_P2MR_SIG_SIZE
  | SCRIPT_ERR_P2MR_SIG
  | SCRIPT_ERR_P2MR_SIG_HASHTYPE
  | SCRIPT_ERR_P2MR_CHECKSIG
  | SCRIPT_ERR_TEMPLATE_MISMATCH
  | SCRIPT_ERR_OP_CODESEPARATOR
  | SCRIPT_ERR_SIG_FINDANDDELETE

datatype SigVersion = BASE | WITNESS_V0 | TAPROOT | TAPSCRIPT | P2MR

text \<open>
  A call that returns false has set the script error, or left it as it was; or the program has failed.
\<close>

datatype script_fail = Script_Error ScriptError | Error_Unset | Cxx_Error cxx_error

type_synonym 'a script = "script_fail + 'a"
type_synonym valtype = bytes

definition set_error :: "ScriptError \<Rightarrow> 'a script" where
  "set_error e = Inl (Script_Error e)"

definition cxx :: "'a cxx \<Rightarrow> 'a script" where
  "cxx r = (case r of Inl e \<Rightarrow> Inl (Cxx_Error e) | Inr a \<Rightarrow> Inr a)"

text \<open>The handler around the loop of \<^verbatim>\<open>EvalScript\<close>, which also fixes the error set before it.\<close>

definition catch_all :: "'a script \<Rightarrow> 'a script" where
  "catch_all r = (case r of
      Inl (Cxx_Error Runtime_Error) \<Rightarrow> set_error SCRIPT_ERR_UNKNOWN_ERROR
    | Inl Error_Unset \<Rightarrow> set_error SCRIPT_ERR_UNKNOWN_ERROR
    | _ \<Rightarrow> r)"

subsection \<open>State\<close>

record ScriptExecutionData =
  m_tapleaf_hash_init :: bool
  m_tapleaf_hash :: uint256
  m_codeseparator_pos_init :: bool
  m_codeseparator_pos :: u32
  m_annex_init :: bool
  m_annex_present :: bool
  m_annex_hash :: uint256
  m_validation_weight_left_init :: bool
  m_validation_weight_left :: int
  m_output_hash :: "uint256 option"

definition new_execdata :: ScriptExecutionData where
  "new_execdata = \<lparr>m_tapleaf_hash_init = False, m_tapleaf_hash = uint256_null, m_codeseparator_pos_init = False,
     m_codeseparator_pos = 0, m_annex_init = False, m_annex_present = False, m_annex_hash = uint256_null,
     m_validation_weight_left_init = False, m_validation_weight_left = 0, m_output_hash = None\<rparr>"

record BaseSignatureChecker =
  CheckECDSASignature :: "valtype \<Rightarrow> valtype \<Rightarrow> CScript \<Rightarrow> SigVersion \<Rightarrow> bool cxx"
  CheckSchnorrSignature :: "valtype \<Rightarrow> valtype \<Rightarrow> SigVersion \<Rightarrow> ScriptExecutionData \<Rightarrow> ScriptExecutionData script"
  CheckPQCSignature :: "valtype \<Rightarrow> valtype \<Rightarrow> SigVersion \<Rightarrow> ScriptExecutionData \<Rightarrow> ScriptExecutionData script"
  CheckTemplateVerifyHash :: "valtype \<Rightarrow> unit script"
  CheckLockTime :: "int \<Rightarrow> bool"
  CheckSequence :: "int \<Rightarrow> bool"

record script_ctx =
  sc_flags :: u32
  sc_sigversion :: SigVersion
  sc_checker :: BaseSignatureChecker
  sc_ripemd160 :: "bytes \<Rightarrow> bytes"
  sc_sha1 :: "bytes \<Rightarrow> bytes"
  sc_sha256 :: "bytes \<Rightarrow> bytes"
  sc_CheckLowS :: "bytes \<Rightarrow> bool"
  sc_pqc_verify :: "bytes \<Rightarrow> uint256 \<Rightarrow> bytes \<Rightarrow> bool"
  sc_CheckTapTweak :: "bytes \<Rightarrow> bytes \<Rightarrow> uint256 \<Rightarrow> bool \<Rightarrow> bool"

record ConditionStack =
  m_stack_size :: u32
  m_first_false_pos :: u32

record eval_state =
  es_codehash :: bytes
  es_stack :: "valtype list"
  es_altstack :: "valtype list"
  es_cond :: ConditionStack
  es_nOpCount :: int
  es_opcode_pos :: u32
  es_execdata :: ScriptExecutionData

definition flag :: "script_ctx \<Rightarrow> u32 \<Rightarrow> bool" where
  "flag ctx f = has_flag (sc_flags ctx) f"

definition pre_tapscript :: "script_ctx \<Rightarrow> bool" where
  "pre_tapscript ctx \<longleftrightarrow> sc_sigversion ctx = BASE \<or> sc_sigversion ctx = WITNESS_V0"

subsection \<open>Encoding rules\<close>

fun CastToBool :: "valtype \<Rightarrow> bool" where
  "CastToBool [] = False"
| "CastToBool (b # bs) = (if b \<noteq> 0 then \<not> (bs = [] \<and> b = 0x80) else CastToBool bs)"

definition IsCompressedOrUncompressedPubKey :: "valtype \<Rightarrow> bool" where
  "IsCompressedOrUncompressedPubKey key =
    (if length key < 33 then False
     else if key ! 0 = 0x04 then length key = 65
     else if key ! 0 = 0x02 \<or> key ! 0 = 0x03 then length key = 33
     else False)"

definition IsCompressedPubKey :: "valtype \<Rightarrow> bool" where
  "IsCompressedPubKey key \<longleftrightarrow> length key = 33 \<and> (key ! 0 = 0x02 \<or> key ! 0 = 0x03)"

definition IsValidSignatureEncoding :: "valtype \<Rightarrow> bool" where
  "IsValidSignatureEncoding sig =
    (if length sig < 9 then False
     else if length sig > 73 then False
     else if sig ! 0 \<noteq> 0x30 then False
     else if unat (sig ! 1) \<noteq> length sig - 3 then False
     else let lenR = unat (sig ! 3) in
       if 5 + lenR \<ge> length sig then False
       else let lenS = unat (sig ! (5 + lenR)) in
         if lenR + lenS + 7 \<noteq> length sig then False
         else if sig ! 2 \<noteq> 0x02 then False
         else if lenR = 0 then False
         else if sig ! 4 AND 0x80 \<noteq> 0 then False
         else if lenR > 1 \<and> sig ! 4 = 0x00 \<and> sig ! 5 AND 0x80 = 0 then False
         else if sig ! (lenR + 4) \<noteq> 0x02 then False
         else if lenS = 0 then False
         else if sig ! (lenR + 6) AND 0x80 \<noteq> 0 then False
         else if lenS > 1 \<and> sig ! (lenR + 6) = 0x00 \<and> sig ! (lenR + 7) AND 0x80 = 0 then False
         else True)"

definition IsLowDERSignature :: "script_ctx \<Rightarrow> valtype \<Rightarrow> unit script" where
  "IsLowDERSignature ctx sig =
    (if \<not> IsValidSignatureEncoding sig then set_error SCRIPT_ERR_SIG_DER
     else if \<not> sc_CheckLowS ctx (butlast sig) then set_error SCRIPT_ERR_SIG_HIGH_S
     else Inr ())"

definition SIGHASH_ANYONECANPAY :: byte where "SIGHASH_ANYONECANPAY = 0x80"

definition IsDefinedHashtypeSignature :: "valtype \<Rightarrow> bool" where
  "IsDefinedHashtypeSignature sig =
    (if length sig = 0 then False
     else let nHashType = last sig AND NOT SIGHASH_ANYONECANPAY in \<not> (nHashType < 1 \<or> nHashType > 3))"

definition CheckSignatureEncoding :: "script_ctx \<Rightarrow> valtype \<Rightarrow> unit script" where
  "CheckSignatureEncoding ctx sig =
    (if length sig = 0 then Inr ()
     else if flag ctx (SCRIPT_VERIFY_DERSIG OR SCRIPT_VERIFY_LOW_S OR SCRIPT_VERIFY_STRICTENC) \<and> \<not> IsValidSignatureEncoding sig
     then set_error SCRIPT_ERR_SIG_DER
     else bindE (if flag ctx SCRIPT_VERIFY_LOW_S then IsLowDERSignature ctx sig else Inr ()) (\<lambda>_.
       if flag ctx SCRIPT_VERIFY_STRICTENC \<and> \<not> IsDefinedHashtypeSignature sig then set_error SCRIPT_ERR_SIG_HASHTYPE
       else Inr ()))"

definition CheckPubKeyEncoding :: "script_ctx \<Rightarrow> valtype \<Rightarrow> unit script" where
  "CheckPubKeyEncoding ctx key =
    (if flag ctx SCRIPT_VERIFY_STRICTENC \<and> \<not> IsCompressedOrUncompressedPubKey key then set_error SCRIPT_ERR_PUBKEYTYPE
     else if flag ctx SCRIPT_VERIFY_WITNESS_PUBKEYTYPE \<and> sc_sigversion ctx = WITNESS_V0 \<and> \<not> IsCompressedPubKey key
     then set_error SCRIPT_ERR_WITNESS_PUBKEYTYPE
     else Inr ())"

subsection \<open>Removing a signature from a script\<close>

function skip_matches :: "bytes \<Rightarrow> bytes \<Rightarrow> bytes \<times> nat" where
  "skip_matches b pc =
    (if b \<noteq> [] \<and> length pc \<ge> length b \<and> take (length b) pc = b
     then (case skip_matches b (drop (length b) pc) of (pc', n) \<Rightarrow> (pc', n + 1)) else (pc, 0))"
  by pat_completeness auto
termination by (relation "measure (\<lambda>(b, pc). length pc)") (auto simp: neq_Nil_conv)

declare skip_matches.simps [simp del]

lemma skip_matches_length: "skip_matches b pc = (pc', n) \<Longrightarrow> length pc' \<le> length pc"
proof (induction b pc arbitrary: pc' n rule: skip_matches.induct)
  case (1 b pc)
  show ?case
  proof (cases "b \<noteq> [] \<and> length pc \<ge> length b \<and> take (length b) pc = b")
    case True
    obtain p k where "skip_matches b (drop (length b) pc) = (p, k)" by force
    then show ?thesis using 1 True by (fastforce simp: skip_matches.simps [of b pc])
  next
    case False
    then show ?thesis using 1(2) by (auto simp: skip_matches.simps [of b pc] split: if_splits)
  qed
qed

function delete_matches :: "bytes \<Rightarrow> bytes \<Rightarrow> bytes \<times> nat" where
  "delete_matches b script =
    (case skip_matches b script of (pc, n) \<Rightarrow>
      (case GetScriptOp pc of None \<Rightarrow> (pc, n)
       | Some (_, _, rest) \<Rightarrow>
          (case delete_matches b rest of (result, m) \<Rightarrow> (take (length pc - length rest) pc @ result, n + m))))"
  by pat_completeness auto
termination
  by (relation "measure (\<lambda>(b, s). length s)")
    (auto dest!: GetScriptOp_progress skip_matches_length [OF sym])

declare delete_matches.simps [simp del]

definition FindAndDelete :: "bytes \<Rightarrow> bytes \<Rightarrow> bytes \<times> nat" where
  "FindAndDelete script b =
    (if b = [] then (script, 0)
     else case delete_matches b script of (result, nFound) \<Rightarrow> if nFound > 0 then (result, nFound) else (script, nFound))"

subsection \<open>The condition stack\<close>

definition NO_FALSE :: u32 where "NO_FALSE = - 1"

definition new_ConditionStack :: ConditionStack where
  "new_ConditionStack = \<lparr>m_stack_size = 0, m_first_false_pos = NO_FALSE\<rparr>"

definition cond_empty :: "ConditionStack \<Rightarrow> bool" where
  "cond_empty c \<longleftrightarrow> m_stack_size c = 0"

definition all_true :: "ConditionStack \<Rightarrow> bool" where
  "all_true c \<longleftrightarrow> m_first_false_pos c = NO_FALSE"

definition cond_push_back :: "bool \<Rightarrow> ConditionStack \<Rightarrow> ConditionStack" where
  "cond_push_back f c =
    (let c1 = (if m_first_false_pos c = NO_FALSE \<and> \<not> f then c\<lparr>m_first_false_pos := m_stack_size c\<rparr> else c)
     in c1\<lparr>m_stack_size := m_stack_size c1 + 1\<rparr>)"

definition cond_pop_back :: "ConditionStack \<Rightarrow> ConditionStack cxx" where
  "cond_pop_back c =
    bindE (cxx_assert (m_stack_size c > 0)) (\<lambda>_.
    let c1 = c\<lparr>m_stack_size := m_stack_size c - 1\<rparr> in
    Inr (if m_first_false_pos c1 = m_stack_size c1 then c1\<lparr>m_first_false_pos := NO_FALSE\<rparr> else c1))"

definition toggle_top :: "ConditionStack \<Rightarrow> ConditionStack cxx" where
  "toggle_top c =
    bindE (cxx_assert (m_stack_size c > 0)) (\<lambda>_. Inr (
      if m_first_false_pos c = NO_FALSE then c\<lparr>m_first_false_pos := m_stack_size c - 1\<rparr>
      else if m_first_false_pos c = m_stack_size c - 1 then c\<lparr>m_first_false_pos := NO_FALSE\<rparr>
      else c))"

subsection \<open>Tagged hashes\<close>

text \<open>A hash writer is what has been written to it.\<close>

type_synonym HashWriter = bytes

definition GetSHA256 :: "(bytes \<Rightarrow> bytes) \<Rightarrow> HashWriter \<Rightarrow> uint256" where
  "GetSHA256 sha w = sha w"

definition ascii :: "string \<Rightarrow> bytes" where
  "ascii s = map of_char s"

definition TaggedHash :: "(bytes \<Rightarrow> bytes) \<Rightarrow> string \<Rightarrow> HashWriter" where
  "TaggedHash sha tag = (let taghash = sha (ascii tag) in taghash @ taghash)"

definition ComputeQbitDataSigPQCHash :: "(bytes \<Rightarrow> bytes) \<Rightarrow> bytes \<Rightarrow> uint256 cxx" where
  "ComputeQbitDataSigPQCHash sha msg_hash =
    bindE (cxx_assert (length msg_hash = 32)) (\<lambda>_. Inr (GetSHA256 sha (TaggedHash sha ''QbitDataSigPQC'' @ msg_hash)))"

subsection \<open>Signature opcodes\<close>

definition EvalChecksigPreTapscript :: "script_ctx \<Rightarrow> valtype \<Rightarrow> valtype \<Rightarrow> bytes \<Rightarrow> bool script" where
  "EvalChecksigPreTapscript ctx sig key codehash =
    bindE (cxx (cxx_assert (pre_tapscript ctx))) (\<lambda>_.
    bindE (if sc_sigversion ctx = BASE then
             (case FindAndDelete codehash (push_data sig) of (scriptCode, found) \<Rightarrow>
                if found > 0 \<and> flag ctx SCRIPT_VERIFY_CONST_SCRIPTCODE then set_error SCRIPT_ERR_SIG_FINDANDDELETE
                else Inr scriptCode)
           else Inr codehash) (\<lambda>scriptCode.
    bindE (CheckSignatureEncoding ctx sig) (\<lambda>_.
    bindE (CheckPubKeyEncoding ctx key) (\<lambda>_.
    bindE (cxx (CheckECDSASignature (sc_checker ctx) sig key scriptCode (sc_sigversion ctx))) (\<lambda>fSuccess.
    if \<not> fSuccess \<and> flag ctx SCRIPT_VERIFY_NULLFAIL \<and> length sig > 0 then set_error SCRIPT_ERR_SIG_NULLFAIL
    else Inr fSuccess)))))"

text \<open>Charging a signature against the validation weight of the input.\<close>

definition spend_weight :: "int \<Rightarrow> ScriptError \<Rightarrow> bool \<Rightarrow> ScriptExecutionData \<Rightarrow> ScriptExecutionData script" where
  "spend_weight cost e success execdata =
    (if success then
       bindE (cxx (cxx_assert (m_validation_weight_left_init execdata))) (\<lambda>_.
       let execdata1 = execdata\<lparr>m_validation_weight_left := m_validation_weight_left execdata - cost\<rparr> in
       if m_validation_weight_left execdata1 < 0 then set_error e else Inr execdata1)
     else Inr execdata)"

definition EvalChecksigTapscript ::
  "script_ctx \<Rightarrow> valtype \<Rightarrow> valtype \<Rightarrow> ScriptExecutionData \<Rightarrow> (bool \<times> ScriptExecutionData) script" where
  "EvalChecksigTapscript ctx sig key execdata =
    bindE (cxx (cxx_assert (sc_sigversion ctx = TAPSCRIPT))) (\<lambda>_.
    let success = (sig \<noteq> []) in
    bindE (spend_weight VALIDATION_WEIGHT_PER_SIGOP_PASSED SCRIPT_ERR_TAPSCRIPT_VALIDATION_WEIGHT success execdata) (\<lambda>execdata1.
    if length key = 0 then set_error SCRIPT_ERR_PUBKEYTYPE
    else if length key = 32 then
      bindE (if success then CheckSchnorrSignature (sc_checker ctx) sig key (sc_sigversion ctx) execdata1 else Inr execdata1)
        (\<lambda>execdata2. Inr (success, execdata2))
    else if flag ctx SCRIPT_VERIFY_DISCOURAGE_UPGRADABLE_PUBKEYTYPE
    then set_error SCRIPT_ERR_DISCOURAGE_UPGRADABLE_PUBKEYTYPE
    else Inr (success, execdata1)))"

definition p2mr_cost :: "script_ctx \<Rightarrow> int" where
  "p2mr_cost ctx = (if flag ctx SCRIPT_VERIFY_P2MR_LEGACY_VALIDATION_WEIGHT
     then P2MR_VALIDATION_WEIGHT_PER_SIGOP_LEGACY else P2MR_VALIDATION_WEIGHT_PER_SIGOP_V2)"

definition EvalChecksigP2MR ::
  "script_ctx \<Rightarrow> valtype \<Rightarrow> valtype \<Rightarrow> ScriptExecutionData \<Rightarrow> (bool \<times> ScriptExecutionData) script" where
  "EvalChecksigP2MR ctx sig key execdata =
    bindE (cxx (cxx_assert (sc_sigversion ctx = P2MR))) (\<lambda>_.
    let success = (sig \<noteq> []) in
    bindE (spend_weight (p2mr_cost ctx) SCRIPT_ERR_P2MR_VALIDATION_WEIGHT success execdata) (\<lambda>execdata1.
    if length key = 0 then set_error SCRIPT_ERR_PUBKEYTYPE
    else if length key = 32 then
      bindE (if success then CheckPQCSignature (sc_checker ctx) sig key (sc_sigversion ctx) execdata1 else Inr execdata1)
        (\<lambda>execdata2. Inr (success, execdata2))
    else set_error SCRIPT_ERR_PUBKEYTYPE))"

definition EvalCheckDataSigPQC ::
  "script_ctx \<Rightarrow> valtype \<Rightarrow> valtype \<Rightarrow> valtype \<Rightarrow> ScriptExecutionData \<Rightarrow> (bool \<times> ScriptExecutionData) script" where
  "EvalCheckDataSigPQC ctx sig msg_hash key execdata =
    (let success = (sig \<noteq> []) in
    bindE (spend_weight (p2mr_cost ctx) SCRIPT_ERR_P2MR_VALIDATION_WEIGHT success execdata) (\<lambda>execdata1.
    if length key \<noteq> PQC_PUBKEY_SIZE then set_error SCRIPT_ERR_PUBKEYTYPE
    else if length msg_hash \<noteq> 32 then set_error SCRIPT_ERR_PUSH_SIZE
    else if \<not> success then Inr (success, execdata1)
    else if length sig \<noteq> PQC_SIG_SIZE then set_error SCRIPT_ERR_P2MR_SIG_SIZE
    else bindE (cxx (ComputeQbitDataSigPQCHash (sc_sha256 ctx) msg_hash)) (\<lambda>datasig_hash.
      if \<not> sc_pqc_verify ctx key datasig_hash sig then set_error SCRIPT_ERR_P2MR_SIG
      else Inr (success, execdata1))))"

definition EvalChecksig ::
  "script_ctx \<Rightarrow> valtype \<Rightarrow> valtype \<Rightarrow> bytes \<Rightarrow> ScriptExecutionData \<Rightarrow> (bool \<times> ScriptExecutionData) script" where
  "EvalChecksig ctx sig key codehash execdata =
    (case sc_sigversion ctx of
       TAPSCRIPT \<Rightarrow> EvalChecksigTapscript ctx sig key execdata
     | P2MR \<Rightarrow> EvalChecksigP2MR ctx sig key execdata
     | TAPROOT \<Rightarrow> cxx (Inl Assert_Failure)
     | _ \<Rightarrow> bindE (EvalChecksigPreTapscript ctx sig key codehash) (\<lambda>success. Inr (success, execdata)))"

subsection \<open>Opcodes\<close>

definition bool_vch :: "bool \<Rightarrow> valtype" where
  "bool_vch b = (if b then [1] else [])"

abbreviation bad_stack :: "'a script" where
  "bad_stack \<equiv> set_error SCRIPT_ERR_INVALID_STACK_OPERATION"

definition require_minimal :: "script_ctx \<Rightarrow> bool" where
  "require_minimal ctx = flag ctx SCRIPT_VERIFY_MINIMALDATA"

definition script_num :: "script_ctx \<Rightarrow> valtype \<Rightarrow> int script" where
  "script_num ctx vch = cxx (CScriptNum vch (require_minimal ctx) 4)"

definition SEQUENCE_LOCKTIME_DISABLE_FLAG :: u32 where "SEQUENCE_LOCKTIME_DISABLE_FLAG = push_bit 31 1"

definition op_checklocktimeverify :: "script_ctx \<Rightarrow> valtype list \<Rightarrow> unit script" where
  "op_checklocktimeverify ctx stack =
    (if \<not> flag ctx SCRIPT_VERIFY_CHECKLOCKTIMEVERIFY then Inr ()
     else case stack of [] \<Rightarrow> bad_stack
     | x # _ \<Rightarrow>
        bindE (cxx (CScriptNum x (require_minimal ctx) 5)) (\<lambda>nLockTime.
        if nLockTime < 0 then set_error SCRIPT_ERR_NEGATIVE_LOCKTIME
        else if \<not> CheckLockTime (sc_checker ctx) nLockTime then set_error SCRIPT_ERR_UNSATISFIED_LOCKTIME
        else Inr ()))"

definition op_checksequenceverify :: "script_ctx \<Rightarrow> valtype list \<Rightarrow> unit script" where
  "op_checksequenceverify ctx stack =
    (if \<not> flag ctx SCRIPT_VERIFY_CHECKSEQUENCEVERIFY then Inr ()
     else case stack of [] \<Rightarrow> bad_stack
     | x # _ \<Rightarrow>
        bindE (cxx (CScriptNum x (require_minimal ctx) 5)) (\<lambda>nSequence.
        if nSequence < 0 then set_error SCRIPT_ERR_NEGATIVE_LOCKTIME
        else if nSequence AND uint SEQUENCE_LOCKTIME_DISABLE_FLAG \<noteq> 0 then Inr ()
        else if \<not> CheckSequence (sc_checker ctx) nSequence then set_error SCRIPT_ERR_UNSATISFIED_LOCKTIME
        else Inr ()))"

definition op_checktemplateverify :: "script_ctx \<Rightarrow> valtype list \<Rightarrow> unit script" where
  "op_checktemplateverify ctx stack =
    (if sc_sigversion ctx \<noteq> P2MR then set_error SCRIPT_ERR_BAD_OPCODE
     else case stack of [] \<Rightarrow> bad_stack
     | expected # _ \<Rightarrow>
        if length expected = 32 then CheckTemplateVerifyHash (sc_checker ctx) expected
        else if flag ctx SCRIPT_VERIFY_DISCOURAGE_OP_SUCCESS then set_error SCRIPT_ERR_DISCOURAGE_OP_SUCCESS
        else Inr ())"

definition check_minimal_if :: "script_ctx \<Rightarrow> valtype \<Rightarrow> unit script" where
  "check_minimal_if ctx vch =
    (let bad = (length vch > 1 \<or> (length vch = 1 \<and> vch ! 0 \<noteq> 1)) in
     if (sc_sigversion ctx = TAPSCRIPT \<or> sc_sigversion ctx = P2MR) \<and> bad then set_error SCRIPT_ERR_TAPSCRIPT_MINIMALIF
     else if sc_sigversion ctx = WITNESS_V0 \<and> flag ctx SCRIPT_VERIFY_MINIMALIF \<and> bad then set_error SCRIPT_ERR_MINIMALIF
     else Inr ())"

definition op_if :: "script_ctx \<Rightarrow> byte \<Rightarrow> bool \<Rightarrow> valtype list \<Rightarrow> ConditionStack \<Rightarrow> (valtype list \<times> ConditionStack) script" where
  "op_if ctx opcode fExec stack cond =
    (if fExec then
       (case stack of [] \<Rightarrow> set_error SCRIPT_ERR_UNBALANCED_CONDITIONAL
        | vch # rest \<Rightarrow>
          bindE (check_minimal_if ctx vch) (\<lambda>_.
          let fValue = (if opcode = OP_NOTIF then \<not> CastToBool vch else CastToBool vch) in
          Inr (rest, cond_push_back fValue cond)))
     else Inr (stack, cond_push_back False cond))"

definition op_else_endif :: "byte \<Rightarrow> ConditionStack \<Rightarrow> ConditionStack script" where
  "op_else_endif opcode cond =
    (if cond_empty cond then set_error SCRIPT_ERR_UNBALANCED_CONDITIONAL
     else cxx (if opcode = OP_ELSE then toggle_top cond else cond_pop_back cond))"

text \<open>The opcodes that only rearrange the two stacks.\<close>

definition stack_op :: "script_ctx \<Rightarrow> byte \<Rightarrow> valtype list \<Rightarrow> valtype list \<Rightarrow> (valtype list \<times> valtype list) script" where
  "stack_op ctx opcode stack alt =
    (if opcode = OP_VERIFY then
       (case stack of x # s \<Rightarrow> if CastToBool x then Inr (s, alt) else set_error SCRIPT_ERR_VERIFY | _ \<Rightarrow> bad_stack)
     else if opcode = OP_RETURN then set_error SCRIPT_ERR_OP_RETURN
     else if opcode = OP_TOALTSTACK then (case stack of x # s \<Rightarrow> Inr (s, x # alt) | _ \<Rightarrow> bad_stack)
     else if opcode = OP_FROMALTSTACK then
       (case alt of x # a \<Rightarrow> Inr (x # stack, a) | _ \<Rightarrow> set_error SCRIPT_ERR_INVALID_ALTSTACK_OPERATION)
     else if opcode = OP_2DROP then (case stack of _ # _ # s \<Rightarrow> Inr (s, alt) | _ \<Rightarrow> bad_stack)
     else if opcode = OP_2DUP then (case stack of x2 # x1 # s \<Rightarrow> Inr (x2 # x1 # x2 # x1 # s, alt) | _ \<Rightarrow> bad_stack)
     else if opcode = OP_3DUP then
       (case stack of x3 # x2 # x1 # s \<Rightarrow> Inr (x3 # x2 # x1 # x3 # x2 # x1 # s, alt) | _ \<Rightarrow> bad_stack)
     else if opcode = OP_2OVER then
       (case stack of x4 # x3 # x2 # x1 # s \<Rightarrow> Inr (x2 # x1 # x4 # x3 # x2 # x1 # s, alt) | _ \<Rightarrow> bad_stack)
     else if opcode = OP_2ROT then
       (case stack of x6 # x5 # x4 # x3 # x2 # x1 # s \<Rightarrow> Inr (x2 # x1 # x6 # x5 # x4 # x3 # s, alt) | _ \<Rightarrow> bad_stack)
     else if opcode = OP_2SWAP then
       (case stack of x4 # x3 # x2 # x1 # s \<Rightarrow> Inr (x2 # x1 # x4 # x3 # s, alt) | _ \<Rightarrow> bad_stack)
     else if opcode = OP_IFDUP then
       (case stack of x # s \<Rightarrow> Inr (if CastToBool x then x # x # s else x # s, alt) | _ \<Rightarrow> bad_stack)
     else if opcode = OP_DEPTH then Inr (scriptnum_serialize (int (length stack)) # stack, alt)
     else if opcode = OP_DROP then (case stack of _ # s \<Rightarrow> Inr (s, alt) | _ \<Rightarrow> bad_stack)
     else if opcode = OP_DUP then (case stack of x # s \<Rightarrow> Inr (x # x # s, alt) | _ \<Rightarrow> bad_stack)
     else if opcode = OP_NIP then (case stack of x2 # _ # s \<Rightarrow> Inr (x2 # s, alt) | _ \<Rightarrow> bad_stack)
     else if opcode = OP_OVER then (case stack of x2 # x1 # s \<Rightarrow> Inr (x1 # x2 # x1 # s, alt) | _ \<Rightarrow> bad_stack)
     else if opcode = OP_PICK \<or> opcode = OP_ROLL then
       (case stack of x # y # s \<Rightarrow>
          bindE (script_num ctx x) (\<lambda>v.
          let n = scriptnum_getint v; s1 = y # s in
          if n < 0 \<or> n \<ge> int (length s1) then bad_stack
          else let vch = s1 ! nat n in
            Inr (vch # (if opcode = OP_ROLL then take (nat n) s1 @ drop (nat n + 1) s1 else s1), alt))
        | _ \<Rightarrow> bad_stack)
     else if opcode = OP_ROT then (case stack of x3 # x2 # x1 # s \<Rightarrow> Inr (x1 # x3 # x2 # s, alt) | _ \<Rightarrow> bad_stack)
     else if opcode = OP_SWAP then (case stack of x2 # x1 # s \<Rightarrow> Inr (x1 # x2 # s, alt) | _ \<Rightarrow> bad_stack)
     else if opcode = OP_TUCK then (case stack of x2 # x1 # s \<Rightarrow> Inr (x2 # x1 # x2 # s, alt) | _ \<Rightarrow> bad_stack)
     else (case stack of x # s \<Rightarrow> Inr (scriptnum_serialize (int (length x)) # x # s, alt) | _ \<Rightarrow> bad_stack))"

definition stack_opcodes :: "byte list" where
  "stack_opcodes = [OP_VERIFY, OP_RETURN, OP_TOALTSTACK, OP_FROMALTSTACK, OP_2DROP, OP_2DUP, OP_3DUP, OP_2OVER, OP_2ROT,
     OP_2SWAP, OP_IFDUP, OP_DEPTH, OP_DROP, OP_DUP, OP_NIP, OP_OVER, OP_PICK, OP_ROLL, OP_ROT, OP_SWAP, OP_TUCK, OP_SIZE]"

definition op_equal :: "byte \<Rightarrow> valtype list \<Rightarrow> valtype list script" where
  "op_equal opcode stack =
    (case stack of x2 # x1 # s \<Rightarrow>
       let fEqual = (x1 = x2) in
       if opcode = OP_EQUALVERIFY then (if fEqual then Inr s else set_error SCRIPT_ERR_EQUALVERIFY)
       else Inr (bool_vch fEqual # s)
     | _ \<Rightarrow> bad_stack)"

subsection \<open>Arithmetic of script numbers\<close>

text \<open>The compound operators assert that they stay in range; the plain ones overflow.\<close>

definition num_add_assign :: "int \<Rightarrow> int \<Rightarrow> int cxx" where
  "num_add_assign v rhs =
    bindE (cxx_assert (rhs = 0 \<or> (rhs > 0 \<and> v \<le> 2 ^ 63 - 1 - rhs) \<or> (rhs < 0 \<and> v \<ge> - (2 ^ 63) - rhs))) (\<lambda>_. i64 (v + rhs))"

definition num_sub_assign :: "int \<Rightarrow> int \<Rightarrow> int cxx" where
  "num_sub_assign v rhs =
    bindE (cxx_assert (rhs = 0 \<or> (rhs > 0 \<and> v \<ge> - (2 ^ 63) + rhs) \<or> (rhs < 0 \<and> v \<le> 2 ^ 63 - 1 + rhs))) (\<lambda>_. i64 (v - rhs))"

definition num_negate :: "int \<Rightarrow> int cxx" where
  "num_negate v = bindE (cxx_assert (v \<noteq> - (2 ^ 63))) (\<lambda>_. i64 (- v))"

definition unary_num :: "byte \<Rightarrow> int \<Rightarrow> int cxx" where
  "unary_num opcode bn =
    (if opcode = OP_1ADD then num_add_assign bn 1
     else if opcode = OP_1SUB then num_sub_assign bn 1
     else if opcode = OP_NEGATE then num_negate bn
     else if opcode = OP_ABS then if bn < 0 then num_negate bn else Inr bn
     else if opcode = OP_NOT then Inr (of_bool (bn = 0))
     else if opcode = OP_0NOTEQUAL then Inr (of_bool (bn \<noteq> 0))
     else Inl Assert_Failure)"

definition op_unary :: "script_ctx \<Rightarrow> byte \<Rightarrow> valtype list \<Rightarrow> valtype list script" where
  "op_unary ctx opcode stack =
    (case stack of x # s \<Rightarrow>
       bindE (script_num ctx x) (\<lambda>bn. bindE (cxx (unary_num opcode bn)) (\<lambda>r. Inr (scriptnum_serialize r # s)))
     | _ \<Rightarrow> bad_stack)"

definition binary_num :: "byte \<Rightarrow> int \<Rightarrow> int \<Rightarrow> int cxx" where
  "binary_num opcode bn1 bn2 =
    (if opcode = OP_ADD then i64 (bn1 + bn2)
     else if opcode = OP_SUB then i64 (bn1 - bn2)
     else if opcode = OP_BOOLAND then Inr (of_bool (bn1 \<noteq> 0 \<and> bn2 \<noteq> 0))
     else if opcode = OP_BOOLOR then Inr (of_bool (bn1 \<noteq> 0 \<or> bn2 \<noteq> 0))
     else if opcode = OP_NUMEQUAL then Inr (of_bool (bn1 = bn2))
     else if opcode = OP_NUMEQUALVERIFY then Inr (of_bool (bn1 = bn2))
     else if opcode = OP_NUMNOTEQUAL then Inr (of_bool (bn1 \<noteq> bn2))
     else if opcode = OP_LESSTHAN then Inr (of_bool (bn1 < bn2))
     else if opcode = OP_GREATERTHAN then Inr (of_bool (bn1 > bn2))
     else if opcode = OP_LESSTHANOREQUAL then Inr (of_bool (bn1 \<le> bn2))
     else if opcode = OP_GREATERTHANOREQUAL then Inr (of_bool (bn1 \<ge> bn2))
     else if opcode = OP_MIN then Inr (if bn1 < bn2 then bn1 else bn2)
     else if opcode = OP_MAX then Inr (if bn1 > bn2 then bn1 else bn2)
     else Inl Assert_Failure)"

definition op_binary :: "script_ctx \<Rightarrow> byte \<Rightarrow> valtype list \<Rightarrow> valtype list script" where
  "op_binary ctx opcode stack =
    (case stack of x2 # x1 # s \<Rightarrow>
       bindE (script_num ctx x1) (\<lambda>bn1. bindE (script_num ctx x2) (\<lambda>bn2.
       bindE (cxx (binary_num opcode bn1 bn2)) (\<lambda>bn.
       let vch = scriptnum_serialize bn in
       if opcode = OP_NUMEQUALVERIFY then (if CastToBool vch then Inr s else set_error SCRIPT_ERR_NUMEQUALVERIFY)
       else Inr (vch # s))))
     | _ \<Rightarrow> bad_stack)"

definition op_within :: "script_ctx \<Rightarrow> valtype list \<Rightarrow> valtype list script" where
  "op_within ctx stack =
    (case stack of x3 # x2 # x1 # s \<Rightarrow>
       bindE (script_num ctx x1) (\<lambda>bn1. bindE (script_num ctx x2) (\<lambda>bn2. bindE (script_num ctx x3) (\<lambda>bn3.
       Inr (bool_vch (bn2 \<le> bn1 \<and> bn1 < bn3) # s))))
     | _ \<Rightarrow> bad_stack)"

definition op_hashing :: "script_ctx \<Rightarrow> byte \<Rightarrow> valtype list \<Rightarrow> valtype list script" where
  "op_hashing ctx opcode stack =
    (case stack of vch # s \<Rightarrow>
       Inr ((if opcode = OP_RIPEMD160 then sc_ripemd160 ctx vch
             else if opcode = OP_SHA1 then sc_sha1 ctx vch
             else if opcode = OP_SHA256 then sc_sha256 ctx vch
             else if opcode = OP_HASH160 then sc_ripemd160 ctx (sc_sha256 ctx vch)
             else sc_sha256 ctx (sc_sha256 ctx vch)) # s)
     | _ \<Rightarrow> bad_stack)"

subsection \<open>Checking signatures\<close>

text \<open>\<^verbatim>\<open>OP_CHECKSIG\<close>, its verifying variant and \<^verbatim>\<open>OP_CHECKSIGPQC\<close> share their stack effect.\<close>

definition op_checksig ::
  "script_ctx \<Rightarrow> byte \<Rightarrow> bytes \<Rightarrow> valtype list \<Rightarrow> ScriptExecutionData \<Rightarrow> (valtype list \<times> ScriptExecutionData) script" where
  "op_checksig ctx opcode codehash stack execdata =
    (if opcode = OP_CHECKSIGPQC \<and> sc_sigversion ctx \<noteq> P2MR then set_error SCRIPT_ERR_BAD_OPCODE
     else if opcode \<noteq> OP_CHECKSIGPQC \<and> sc_sigversion ctx = P2MR then set_error SCRIPT_ERR_P2MR_CHECKSIG
     else case stack of key # sig # s \<Rightarrow>
       bindE (EvalChecksig ctx sig key codehash execdata) (\<lambda>(fSuccess, execdata1).
       if opcode = OP_CHECKSIGVERIFY then (if fSuccess then Inr (s, execdata1) else set_error SCRIPT_ERR_CHECKSIGVERIFY)
       else Inr (bool_vch fSuccess # s, execdata1))
     | _ \<Rightarrow> bad_stack)"

definition op_checksigadd ::
  "script_ctx \<Rightarrow> bytes \<Rightarrow> valtype list \<Rightarrow> ScriptExecutionData \<Rightarrow> (valtype list \<times> ScriptExecutionData) script" where
  "op_checksigadd ctx codehash stack execdata =
    (if sc_sigversion ctx \<noteq> TAPSCRIPT \<and> sc_sigversion ctx \<noteq> P2MR then set_error SCRIPT_ERR_BAD_OPCODE
     else case stack of key # x # sig # s \<Rightarrow>
       bindE (script_num ctx x) (\<lambda>num.
       bindE (EvalChecksig ctx sig key codehash execdata) (\<lambda>(success, execdata1).
       bindE (cxx (i64 (num + of_bool success))) (\<lambda>r. Inr (scriptnum_serialize r # s, execdata1))))
     | _ \<Rightarrow> bad_stack)"

definition op_checkdatasig ::
  "script_ctx \<Rightarrow> valtype list \<Rightarrow> ScriptExecutionData \<Rightarrow> (valtype list \<times> ScriptExecutionData) script" where
  "op_checkdatasig ctx stack execdata =
    (if sc_sigversion ctx \<noteq> P2MR then set_error SCRIPT_ERR_BAD_OPCODE
     else case stack of key # msg_hash # sig # s \<Rightarrow>
       bindE (EvalCheckDataSigPQC ctx sig msg_hash key execdata) (\<lambda>(success, execdata1).
       Inr (bool_vch success # s, execdata1))
     | _ \<Rightarrow> bad_stack)"

definition op_checkdatasigadd ::
  "script_ctx \<Rightarrow> valtype list \<Rightarrow> ScriptExecutionData \<Rightarrow> (valtype list \<times> ScriptExecutionData) script" where
  "op_checkdatasigadd ctx stack execdata =
    (if sc_sigversion ctx \<noteq> P2MR then set_error SCRIPT_ERR_BAD_OPCODE
     else case stack of key # x # msg_hash # sig # s \<Rightarrow>
       bindE (script_num ctx x) (\<lambda>num.
       bindE (EvalCheckDataSigPQC ctx sig msg_hash key execdata) (\<lambda>(success, execdata1).
       bindE (cxx (i64 (num + of_bool success))) (\<lambda>r. Inr (scriptnum_serialize r # s, execdata1))))
     | _ \<Rightarrow> bad_stack)"

fun drop_signatures :: "script_ctx \<Rightarrow> valtype list \<Rightarrow> bytes \<Rightarrow> bytes script" where
  "drop_signatures ctx [] scriptCode = Inr scriptCode"
| "drop_signatures ctx (sig # sigs) scriptCode =
    (if sc_sigversion ctx = BASE then
       (case FindAndDelete scriptCode (push_data sig) of (scriptCode1, found) \<Rightarrow>
          if found > 0 \<and> flag ctx SCRIPT_VERIFY_CONST_SCRIPTCODE then set_error SCRIPT_ERR_SIG_FINDANDDELETE
          else drop_signatures ctx sigs scriptCode1)
     else drop_signatures ctx sigs scriptCode)"

text \<open>There are never more signatures left than keys, so the second equation is not reached.\<close>

fun multisig_loop :: "script_ctx \<Rightarrow> bytes \<Rightarrow> valtype list \<Rightarrow> valtype list \<Rightarrow> bool script" where
  "multisig_loop ctx scriptCode [] keys = Inr True"
| "multisig_loop ctx scriptCode (sig # sigs) [] = Inr False"
| "multisig_loop ctx scriptCode (sig # sigs) (key # keys) =
    bindE (CheckSignatureEncoding ctx sig) (\<lambda>_.
    bindE (CheckPubKeyEncoding ctx key) (\<lambda>_.
    bindE (cxx (CheckECDSASignature (sc_checker ctx) sig key scriptCode (sc_sigversion ctx))) (\<lambda>fOk.
    if fOk then (if length sigs > length keys then Inr False else multisig_loop ctx scriptCode sigs keys)
    else (if length (sig # sigs) > length keys then Inr False else multisig_loop ctx scriptCode (sig # sigs) keys))))"

definition multisig_verdict ::
  "script_ctx \<Rightarrow> byte \<Rightarrow> bytes \<Rightarrow> valtype list \<Rightarrow> valtype list \<Rightarrow> valtype list \<Rightarrow> valtype list script" where
  "multisig_verdict ctx opcode codehash sigs keys rest =
    bindE (drop_signatures ctx sigs codehash) (\<lambda>scriptCode.
    bindE (multisig_loop ctx scriptCode sigs keys) (\<lambda>fSuccess.
    if \<not> fSuccess \<and> flag ctx SCRIPT_VERIFY_NULLFAIL \<and> list_ex (\<lambda>sig. sig \<noteq> []) sigs then set_error SCRIPT_ERR_SIG_NULLFAIL
    else case rest of [] \<Rightarrow> bad_stack
    | dummy # s \<Rightarrow>
       if flag ctx SCRIPT_VERIFY_NULLDUMMY \<and> dummy \<noteq> [] then set_error SCRIPT_ERR_SIG_NULLDUMMY
       else if opcode = OP_CHECKMULTISIGVERIFY then (if fSuccess then Inr s else set_error SCRIPT_ERR_CHECKMULTISIGVERIFY)
       else Inr (bool_vch fSuccess # s)))"

definition op_checkmultisig ::
  "script_ctx \<Rightarrow> byte \<Rightarrow> bytes \<Rightarrow> int \<Rightarrow> valtype list \<Rightarrow> (valtype list \<times> int) script" where
  "op_checkmultisig ctx opcode codehash nOpCount stack =
    (if sc_sigversion ctx = TAPSCRIPT \<or> sc_sigversion ctx = P2MR then set_error SCRIPT_ERR_TAPSCRIPT_CHECKMULTISIG
     else case stack of [] \<Rightarrow> bad_stack
     | x # s1 \<Rightarrow>
       bindE (script_num ctx x) (\<lambda>v.
       let nKeysCount = scriptnum_getint v in
       if nKeysCount < 0 \<or> nKeysCount > uint MAX_PUBKEYS_PER_MULTISIG then set_error SCRIPT_ERR_PUBKEY_COUNT
       else if nOpCount + nKeysCount > MAX_OPS_PER_SCRIPT then set_error SCRIPT_ERR_OP_COUNT
       else if length s1 < nat nKeysCount + 1 then bad_stack
       else let keys = take (nat nKeysCount) s1; s2 = drop (nat nKeysCount + 1) s1 in
         bindE (script_num ctx (s1 ! nat nKeysCount)) (\<lambda>w.
         let nSigsCount = scriptnum_getint w in
         if nSigsCount < 0 \<or> nSigsCount > nKeysCount then set_error SCRIPT_ERR_SIG_COUNT
         else if length s2 < nat nSigsCount + 1 then bad_stack
         else bindE (multisig_verdict ctx opcode codehash (take (nat nSigsCount) s2) keys (drop (nat nSigsCount) s2)) (\<lambda>s.
           Inr (s, nOpCount + nKeysCount)))))"

subsection \<open>The machine\<close>

definition disabled_opcodes :: "byte list" where
  "disabled_opcodes = [OP_CAT, OP_SUBSTR, OP_LEFT, OP_RIGHT, OP_INVERT, OP_AND, OP_OR, OP_XOR, OP_2MUL, OP_2DIV,
     OP_MUL, OP_DIV, OP_MOD, OP_LSHIFT, OP_RSHIFT]"

definition on_stack :: "eval_state \<Rightarrow> valtype list script \<Rightarrow> eval_state script" where
  "on_stack st r = bindE r (\<lambda>s. Inr (st\<lparr>es_stack := s\<rparr>))"

definition with_execdata :: "eval_state \<Rightarrow> (valtype list \<times> ScriptExecutionData) script \<Rightarrow> eval_state script" where
  "with_execdata st r = bindE r (\<lambda>(s, d). Inr (st\<lparr>es_stack := s, es_execdata := d\<rparr>))"

definition exec_opcode :: "script_ctx \<Rightarrow> byte \<Rightarrow> bytes \<Rightarrow> bool \<Rightarrow> eval_state \<Rightarrow> eval_state script" where
  "exec_opcode ctx opcode pc fExec st =
    (if opcode = OP_1NEGATE \<or> (OP_1 \<le> opcode \<and> opcode \<le> OP_16)
     then Inr (st\<lparr>es_stack := scriptnum_serialize (uint opcode - (uint OP_1 - 1)) # es_stack st\<rparr>)
     else if opcode = OP_NOP then Inr st
     else if opcode = OP_CHECKLOCKTIMEVERIFY then bindE (op_checklocktimeverify ctx (es_stack st)) (\<lambda>_. Inr st)
     else if opcode = OP_CHECKSEQUENCEVERIFY then bindE (op_checksequenceverify ctx (es_stack st)) (\<lambda>_. Inr st)
     else if opcode = OP_CHECKTEMPLATEVERIFY then bindE (op_checktemplateverify ctx (es_stack st)) (\<lambda>_. Inr st)
     else if opcode \<in> set [OP_NOP1, OP_NOP5, OP_NOP6, OP_NOP7, OP_NOP8, OP_NOP9, OP_NOP10] then
       (if flag ctx SCRIPT_VERIFY_DISCOURAGE_UPGRADABLE_NOPS then set_error SCRIPT_ERR_DISCOURAGE_UPGRADABLE_NOPS else Inr st)
     else if opcode = OP_IF \<or> opcode = OP_NOTIF then
       bindE (op_if ctx opcode fExec (es_stack st) (es_cond st)) (\<lambda>(s, c). Inr (st\<lparr>es_stack := s, es_cond := c\<rparr>))
     else if opcode = OP_ELSE \<or> opcode = OP_ENDIF then
       bindE (op_else_endif opcode (es_cond st)) (\<lambda>c. Inr (st\<lparr>es_cond := c\<rparr>))
     else if opcode \<in> set stack_opcodes then
       bindE (stack_op ctx opcode (es_stack st) (es_altstack st)) (\<lambda>(s, a). Inr (st\<lparr>es_stack := s, es_altstack := a\<rparr>))
     else if opcode = OP_EQUAL \<or> opcode = OP_EQUALVERIFY then on_stack st (op_equal opcode (es_stack st))
     else if opcode \<in> set [OP_1ADD, OP_1SUB, OP_NEGATE, OP_ABS, OP_NOT, OP_0NOTEQUAL] then on_stack st (op_unary ctx opcode (es_stack st))
     else if opcode \<in> set [OP_ADD, OP_SUB, OP_BOOLAND, OP_BOOLOR, OP_NUMEQUAL, OP_NUMEQUALVERIFY, OP_NUMNOTEQUAL, OP_LESSTHAN,
         OP_GREATERTHAN, OP_LESSTHANOREQUAL, OP_GREATERTHANOREQUAL, OP_MIN, OP_MAX] then on_stack st (op_binary ctx opcode (es_stack st))
     else if opcode = OP_WITHIN then on_stack st (op_within ctx (es_stack st))
     else if opcode \<in> set [OP_RIPEMD160, OP_SHA1, OP_SHA256, OP_HASH160, OP_HASH256] then on_stack st (op_hashing ctx opcode (es_stack st))
     else if opcode = OP_CODESEPARATOR then
       Inr (st\<lparr>es_codehash := pc, es_execdata := (es_execdata st)\<lparr>m_codeseparator_pos := es_opcode_pos st\<rparr>\<rparr>)
     else if opcode \<in> set [OP_CHECKSIG, OP_CHECKSIGVERIFY, OP_CHECKSIGPQC] then
       with_execdata st (op_checksig ctx opcode (es_codehash st) (es_stack st) (es_execdata st))
     else if opcode = OP_CHECKSIGADD then with_execdata st (op_checksigadd ctx (es_codehash st) (es_stack st) (es_execdata st))
     else if opcode = OP_CHECKDATASIGPQC then with_execdata st (op_checkdatasig ctx (es_stack st) (es_execdata st))
     else if opcode = OP_CHECKDATASIGADDPQC then with_execdata st (op_checkdatasigadd ctx (es_stack st) (es_execdata st))
     else if opcode = OP_CHECKMULTISIG \<or> opcode = OP_CHECKMULTISIGVERIFY then
       bindE (op_checkmultisig ctx opcode (es_codehash st) (es_nOpCount st) (es_stack st)) (\<lambda>(s, n).
       Inr (st\<lparr>es_stack := s, es_nOpCount := n\<rparr>))
     else set_error SCRIPT_ERR_BAD_OPCODE)"

definition count_op :: "script_ctx \<Rightarrow> byte \<Rightarrow> eval_state \<Rightarrow> eval_state script" where
  "count_op ctx opcode st =
    (if pre_tapscript ctx \<and> opcode > OP_16 then
       let st1 = st\<lparr>es_nOpCount := es_nOpCount st + 1\<rparr> in
       if es_nOpCount st1 > MAX_OPS_PER_SCRIPT then set_error SCRIPT_ERR_OP_COUNT else Inr st1
     else Inr st)"

definition eval_instr :: "script_ctx \<Rightarrow> byte \<Rightarrow> valtype \<Rightarrow> bytes \<Rightarrow> eval_state \<Rightarrow> eval_state script" where
  "eval_instr ctx opcode vchPushValue pc st =
    (let fExec = all_true (es_cond st) in
     if length vchPushValue > MAX_SCRIPT_ELEMENT_SIZE then set_error SCRIPT_ERR_PUSH_SIZE
     else
     bindE (count_op ctx opcode st) (\<lambda>st1.
     if opcode \<in> set disabled_opcodes then set_error SCRIPT_ERR_DISABLED_OPCODE
     else if opcode = OP_CODESEPARATOR \<and> sc_sigversion ctx = BASE \<and> flag ctx SCRIPT_VERIFY_CONST_SCRIPTCODE
     then set_error SCRIPT_ERR_OP_CODESEPARATOR
     else
     bindE (if fExec \<and> opcode \<le> OP_PUSHDATA4 then
              bindE (if require_minimal ctx then cxx (CheckMinimalPush vchPushValue opcode) else Inr True) (\<lambda>minimal.
              if \<not> minimal then set_error SCRIPT_ERR_MINIMALDATA
              else Inr (st1\<lparr>es_stack := vchPushValue # es_stack st1\<rparr>))
            else if fExec \<or> (OP_IF \<le> opcode \<and> opcode \<le> OP_ENDIF) then exec_opcode ctx opcode pc fExec st1
            else Inr st1) (\<lambda>st2.
     if length (es_stack st2) + length (es_altstack st2) > MAX_STACK_SIZE then set_error SCRIPT_ERR_STACK_SIZE
     else Inr (st2\<lparr>es_opcode_pos := es_opcode_pos st2 + 1\<rparr>))))"

function eval_loop :: "script_ctx \<Rightarrow> bytes \<Rightarrow> eval_state \<Rightarrow> eval_state script" where
  "eval_loop ctx pc st =
    (if pc = [] then Inr st
     else case GetScriptOp pc of None \<Rightarrow> set_error SCRIPT_ERR_BAD_OPCODE
     | Some (opcode, vch, rest) \<Rightarrow> bindE (eval_instr ctx opcode vch rest st) (\<lambda>st'. eval_loop ctx rest st'))"
  by pat_completeness auto
termination
  by (relation "measure (\<lambda>(ctx, pc, st). length pc)") (auto dest: GetScriptOp_progress)

declare eval_loop.simps [simp del]

definition init_state :: "CScript \<Rightarrow> valtype list \<Rightarrow> ScriptExecutionData \<Rightarrow> eval_state" where
  "init_state script stack execdata =
    \<lparr>es_codehash = script, es_stack = stack, es_altstack = [], es_cond = new_ConditionStack, es_nOpCount = 0,
     es_opcode_pos = 0, es_execdata = execdata\<lparr>m_codeseparator_pos := 0xFFFFFFFF, m_codeseparator_pos_init := True\<rparr>\<rparr>"

definition EvalScript ::
  "script_ctx \<Rightarrow> CScript \<Rightarrow> valtype list \<Rightarrow> ScriptExecutionData \<Rightarrow> (valtype list \<times> ScriptExecutionData) script" where
  "EvalScript ctx script stack execdata =
    bindE (cxx (cxx_assert (sc_sigversion ctx \<noteq> TAPROOT))) (\<lambda>_.
    if pre_tapscript ctx \<and> length script > MAX_SCRIPT_SIZE then set_error SCRIPT_ERR_SCRIPT_SIZE
    else bindE (catch_all (eval_loop ctx script (init_state script stack execdata))) (\<lambda>st.
      if \<not> cond_empty (es_cond st) then set_error SCRIPT_ERR_UNBALANCED_CONDITIONAL
      else Inr (es_stack st, es_execdata st)))"

end
