(* ===== verification/Script_Flags.thy ===== *)
theory Script_Flags
  imports Script_Interp
begin

text \<open>
  The documentation of the script flags says that all of them are soft forks: adding flags only shrinks
  the set of accepted scripts. This theory shows it for a run of the script machine, for every script,
  stack and pair of flag sets of which one includes the other.
\<close>

unbundle bit_operations_syntax

subsection \<open>Stricter flags\<close>

text \<open>
  Two runs that differ only in their flags: whatever the run with more flags accepts, the run with
  fewer accepts with the same stacks. The only trace flags leave in the state is the validation weight,
  which costs more under the legacy rule.
\<close>

definition stricter :: "script_ctx \<Rightarrow> script_ctx \<Rightarrow> bool" where
  "stricter ctx' ctx \<longleftrightarrow> (\<exists>F. ctx' = ctx\<lparr>sc_flags := F\<rparr> \<and> sc_flags ctx AND F = sc_flags ctx)"

definition allows :: "('a \<Rightarrow> 'b \<Rightarrow> bool) \<Rightarrow> 'a script \<Rightarrow> 'b script \<Rightarrow> bool" where
  "allows R r r' \<longleftrightarrow> (\<forall>a'. r' = Inr a' \<longrightarrow> (\<exists>a. r = Inr a \<and> R a a'))"

definition more_weight :: "ScriptExecutionData \<Rightarrow> ScriptExecutionData \<Rightarrow> bool" where
  "more_weight d d' \<longleftrightarrow> m_validation_weight_left d' \<le> m_validation_weight_left d \<and>
    d = d'\<lparr>m_validation_weight_left := m_validation_weight_left d\<rparr>"

definition more_weight_pair :: "'a \<times> ScriptExecutionData \<Rightarrow> 'a \<times> ScriptExecutionData \<Rightarrow> bool" where
  "more_weight_pair p p' \<longleftrightarrow> fst p = fst p' \<and> more_weight (snd p) (snd p')"

definition more_weight_state :: "eval_state \<Rightarrow> eval_state \<Rightarrow> bool" where
  "more_weight_state st st' \<longleftrightarrow> st = st'\<lparr>es_execdata := es_execdata st\<rparr> \<and> more_weight (es_execdata st) (es_execdata st')"

lemma stricterD [dest]:
  assumes "stricter ctx' ctx"
  shows "sc_sigversion ctx' = sc_sigversion ctx" "sc_checker ctx' = sc_checker ctx" "sc_ripemd160 ctx' = sc_ripemd160 ctx"
    "sc_sha1 ctx' = sc_sha1 ctx" "sc_sha256 ctx' = sc_sha256 ctx" "sc_CheckLowS ctx' = sc_CheckLowS ctx"
    "sc_pqc_verify ctx' = sc_pqc_verify ctx" "sc_CheckTapTweak ctx' = sc_CheckTapTweak ctx" "pre_tapscript ctx' = pre_tapscript ctx"
  using assms by (auto simp: stricter_def pre_tapscript_def)

lemma stricter_flag: "stricter ctx' ctx \<Longrightarrow> flag ctx f \<Longrightarrow> flag ctx' f"
proof -
  assume s: "stricter ctx' ctx" and f: "flag ctx f"
  obtain F where F: "ctx' = ctx\<lparr>sc_flags := F\<rparr>" "sc_flags ctx AND F = sc_flags ctx" using s by (auto simp: stricter_def)
  have "sc_flags ctx AND f = sc_flags ctx AND (F AND f)" using F(2) by (metis and.assoc)
  then show ?thesis using f F(1) by (auto simp: flag_def has_flag_def)
qed

lemma allows_Inr [simp]: "allows R (Inr a) (Inr a') \<longleftrightarrow> R a a'"
  by (simp add: allows_def)

lemma allows_error [simp]: "allows R r (set_error e)" "allows R r (Inl x)" "allows R r (cxx (Inl y))"
  by (simp_all add: allows_def set_error_def cxx_def)

lemma allows_refl: "(\<And>a. R a a) \<Longrightarrow> allows R r r"
  by (simp add: allows_def)

lemma allows_eq [simp]: "allows (=) r r"
  by (simp add: allows_def)

lemma allows_bind:
  assumes "allows R r r'" "\<And>a a'. R a a' \<Longrightarrow> r' = Inr a' \<Longrightarrow> allows S (f a) (f' a')"
  shows "allows S (bindE r f) (bindE r' f')"
  using assms by (force simp: allows_def bindE_def split: sum.splits)

lemma allows_bind_eq:
  assumes "allows (=) r r'" "\<And>a. r' = Inr a \<Longrightarrow> allows S (f a) (f' a)"
  shows "allows S (bindE r f) (bindE r' f')"
  using assms by (force simp: allows_def bindE_def split: sum.splits)

lemma allows_if: "(b \<Longrightarrow> allows R x x') \<Longrightarrow> (\<not> b \<Longrightarrow> allows R y y') \<Longrightarrow> allows R (if b then x else y) (if b then x' else y')"
  by simp

text \<open>A test that rejects under the stricter flags only.\<close>

lemma allows_reject: "(b \<Longrightarrow> b') \<Longrightarrow> allows R x x' \<Longrightarrow> allows R (if b then set_error e else x) (if b' then set_error e else x')"
  by simp

lemma allows_catch: "allows R r r' \<Longrightarrow> allows R (catch_all r) (catch_all r')"
  by (force simp: allows_def catch_all_def set_error_def split: sum.splits script_fail.splits cxx_error.splits)

lemma more_weightI: "m_validation_weight_left d' \<le> w \<Longrightarrow> more_weight (d'\<lparr>m_validation_weight_left := w\<rparr>) d'"
  by (simp add: more_weight_def)

lemma more_weight_refl [simp]: "more_weight d d" "more_weight_pair p p" "more_weight_state st st"
  by (simp_all add: more_weight_def more_weight_pair_def more_weight_state_def)

lemma script_num_allows: "stricter ctx' ctx \<Longrightarrow> allows (=) (script_num ctx x) (script_num ctx' x)"
  using stricter_flag [of ctx' ctx SCRIPT_VERIFY_MINIMALDATA]
  by (auto simp: script_num_def require_minimal_def CScriptNum_def cxx_def allows_def)

lemma locktime_num_allows:
  "stricter ctx' ctx \<Longrightarrow> allows (=) (cxx (CScriptNum x (require_minimal ctx) n)) (cxx (CScriptNum x (require_minimal ctx') n))"
  using stricter_flag [of ctx' ctx SCRIPT_VERIFY_MINIMALDATA]
  by (auto simp: require_minimal_def CScriptNum_def cxx_def allows_def)

lemma CheckSignatureEncoding_allows:
  assumes "stricter ctx' ctx"
  shows "allows (=) (CheckSignatureEncoding ctx sig) (CheckSignatureEncoding ctx' sig)"
proof -
  note f = stricter_flag [OF assms]
  have low: "IsLowDERSignature ctx' sig = IsLowDERSignature ctx sig"
    using stricterD(6) [OF assms] by (simp add: IsLowDERSignature_def)
  show ?thesis unfolding CheckSignatureEncoding_def low
    using f by (auto simp: allows_def set_error_def bindE_def split: sum.splits if_splits)
qed

lemma CheckPubKeyEncoding_allows:
  assumes "stricter ctx' ctx"
  shows "allows (=) (CheckPubKeyEncoding ctx key) (CheckPubKeyEncoding ctx' key)"
  using stricter_flag [OF assms] stricterD(1) [OF assms] by (auto simp: CheckPubKeyEncoding_def)

lemma EvalChecksigPreTapscript_allows:
  assumes s: "stricter ctx' ctx"
  shows "allows (=) (EvalChecksigPreTapscript ctx sig key ch) (EvalChecksigPreTapscript ctx' sig key ch)"
  unfolding EvalChecksigPreTapscript_def stricterD [OF s]
  by (intro allows_bind_eq allows_if allows_reject CheckSignatureEncoding_allows CheckPubKeyEncoding_allows s)
    (use stricter_flag [OF s] in \<open>auto split: prod.splits\<close>)

lemma spend_weight_allows:
  assumes "cost \<le> cost'" "more_weight d d'"
  shows "allows more_weight (spend_weight cost e b d) (spend_weight cost' e b d')"
proof -
  define w where "w = m_validation_weight_left d"
  have w: "m_validation_weight_left d' \<le> w" "d = d'\<lparr>m_validation_weight_left := w\<rparr>"
    using assms(2) by (simp_all add: more_weight_def w_def)
  show ?thesis using assms(1) w
    using more_weightI [of "d'\<lparr>m_validation_weight_left := m_validation_weight_left d' - cost'\<rparr>" "w - cost"]
    by (cases "m_validation_weight_left_init d'") (auto simp: spend_weight_def Let_def cxx_def cxx_assert_def intro: more_weightI)
qed

lemma p2mr_cost_mono: "stricter ctx' ctx \<Longrightarrow> p2mr_cost ctx \<le> p2mr_cost ctx'"
  using stricter_flag [of ctx' ctx SCRIPT_VERIFY_P2MR_LEGACY_VALIDATION_WEIGHT]
  by (auto simp: p2mr_cost_def P2MR_VALIDATION_WEIGHT_PER_SIGOP_LEGACY_def P2MR_VALIDATION_WEIGHT_PER_SIGOP_V2_def)

text \<open>The opcodes whose outcome does not depend on the validation weight.\<close>

lemma op_checklocktimeverify_allows:
  assumes s: "stricter ctx' ctx"
  shows "allows (=) (op_checklocktimeverify ctx stack) (op_checklocktimeverify ctx' stack)"
proof (cases stack)
  case (Cons x r)
  have f: "flag ctx SCRIPT_VERIFY_CHECKLOCKTIMEVERIFY \<Longrightarrow> flag ctx' SCRIPT_VERIFY_CHECKLOCKTIMEVERIFY"
    by (rule stricter_flag [OF s])
  show ?thesis
  proof (cases "flag ctx SCRIPT_VERIFY_CHECKLOCKTIMEVERIFY")
    case True
    then show ?thesis unfolding op_checklocktimeverify_def stricterD [OF s] using f
      by (simp add: Cons) (rule allows_bind_eq [OF locktime_num_allows [OF s]], simp)
  next
    case False
    then show ?thesis by (simp add: op_checklocktimeverify_def allows_def)
  qed
qed (use stricter_flag [OF s] in \<open>simp add: op_checklocktimeverify_def\<close>)

lemma op_checksequenceverify_allows:
  assumes s: "stricter ctx' ctx"
  shows "allows (=) (op_checksequenceverify ctx stack) (op_checksequenceverify ctx' stack)"
proof (cases stack)
  case (Cons x r)
  have f: "flag ctx SCRIPT_VERIFY_CHECKSEQUENCEVERIFY \<Longrightarrow> flag ctx' SCRIPT_VERIFY_CHECKSEQUENCEVERIFY"
    by (rule stricter_flag [OF s])
  show ?thesis
  proof (cases "flag ctx SCRIPT_VERIFY_CHECKSEQUENCEVERIFY")
    case True
    then show ?thesis unfolding op_checksequenceverify_def stricterD [OF s] using f
      by (simp add: Cons) (rule allows_bind_eq [OF locktime_num_allows [OF s]], simp)
  next
    case False
    then show ?thesis by (simp add: op_checksequenceverify_def allows_def)
  qed
qed (use stricter_flag [OF s] in \<open>simp add: op_checksequenceverify_def\<close>)

lemma op_checktemplateverify_allows:
  assumes s: "stricter ctx' ctx"
  shows "allows (=) (op_checktemplateverify ctx stack) (op_checktemplateverify ctx' stack)"
  unfolding op_checktemplateverify_def stricterD [OF s]
  by (cases stack) (use stricter_flag [OF s] in simp_all)

lemma op_if_allows:
  assumes s: "stricter ctx' ctx"
  shows "allows (=) (op_if ctx opcode fExec stack cond) (op_if ctx' opcode fExec stack cond)"
proof -
  have "allows (=) (check_minimal_if ctx vch) (check_minimal_if ctx' vch)" for vch
    using stricter_flag [OF s] by (auto simp: check_minimal_if_def stricterD [OF s] Let_def)
  then show ?thesis unfolding op_if_def
    by (auto intro!: allows_bind_eq split: list.splits)
qed

lemma stack_op_allows:
  assumes s: "stricter ctx' ctx"
  shows "allows (=) (stack_op ctx opcode stack alt) (stack_op ctx' opcode stack alt)"
proof (cases "opcode = OP_PICK \<or> opcode = OP_ROLL")
  case True
  then have "stack_op c opcode stack alt = (case stack of x # y # r \<Rightarrow>
      bindE (script_num c x) (\<lambda>v. let n = scriptnum_getint v; s1 = y # r in
        if n < 0 \<or> n \<ge> int (length s1) then bad_stack
        else let vch = s1 ! nat n in
          Inr (vch # (if opcode = OP_ROLL then take (nat n) s1 @ drop (nat n + 1) s1 else s1), alt)) | _ \<Rightarrow> bad_stack)" for c
    by (auto simp: stack_op_def all_opcode_defs)
  then show ?thesis by (auto intro!: allows_bind_eq script_num_allows [OF s] split: list.splits)
next
  case False
  then have "stack_op ctx' opcode stack alt = stack_op ctx opcode stack alt" by (simp add: stack_op_def)
  then show ?thesis by simp
qed

lemma op_unary_allows:
  assumes s: "stricter ctx' ctx"
  shows "allows (=) (op_unary ctx opcode stack) (op_unary ctx' opcode stack)"
  by (cases stack) (auto simp: op_unary_def simp del: allows_eq intro!: allows_bind_eq [OF script_num_allows [OF s]] allows_eq)

lemma op_binary_allows:
  assumes s: "stricter ctx' ctx"
  shows "allows (=) (op_binary ctx opcode stack) (op_binary ctx' opcode stack)"
proof (cases "\<exists>x2 x1 r. stack = x2 # x1 # r")
  case True
  then show ?thesis
    by (auto simp: op_binary_def simp del: allows_eq intro!: allows_bind_eq [OF script_num_allows [OF s]] allows_eq)
next
  case False
  then show ?thesis by (auto simp: op_binary_def split: list.split)
qed

lemma op_within_allows:
  assumes s: "stricter ctx' ctx"
  shows "allows (=) (op_within ctx stack) (op_within ctx' stack)"
proof (cases "\<exists>x3 x2 x1 r. stack = x3 # x2 # x1 # r")
  case True
  then show ?thesis
    by (auto simp: op_within_def simp del: allows_eq intro!: allows_bind_eq [OF script_num_allows [OF s]] allows_eq)
next
  case False
  then show ?thesis by (auto simp: op_within_def split: list.split)
qed

lemma drop_signatures_allows:
  assumes s: "stricter ctx' ctx"
  shows "allows (=) (drop_signatures ctx sigs code) (drop_signatures ctx' sigs code)"
  by (induction sigs arbitrary: code) (use stricter_flag [OF s] in \<open>auto simp: stricterD [OF s] split: prod.splits\<close>)

lemma multisig_loop_allows:
  assumes s: "stricter ctx' ctx"
  shows "allows (=) (multisig_loop ctx code sigs keys) (multisig_loop ctx' code sigs keys)"
proof (induction keys arbitrary: sigs)
  case Nil
  show ?case by (cases sigs) simp_all
next
  case (Cons key keys)
  show ?case
  proof (cases sigs)
    case (Cons sig sigs')
    show ?thesis unfolding Cons multisig_loop.simps stricterD [OF s]
      by (intro allows_bind_eq CheckSignatureEncoding_allows CheckPubKeyEncoding_allows s allows_eq)
        (simp del: list.size add: Cons.IH)
  qed simp
qed

lemma multisig_verdict_allows:
  assumes s: "stricter ctx' ctx"
  shows "allows (=) (multisig_verdict ctx opcode ch sigs keys rest) (multisig_verdict ctx' opcode ch sigs keys rest)"
  unfolding multisig_verdict_def
  by (intro allows_bind_eq drop_signatures_allows multisig_loop_allows s)
    (use stricter_flag [OF s] in \<open>auto split: list.splits\<close>)

lemma op_checkmultisig_allows:
  assumes s: "stricter ctx' ctx"
  shows "allows (=) (op_checkmultisig ctx opcode ch n stack) (op_checkmultisig ctx' opcode ch n stack)"
proof (cases stack)
  case (Cons x r)
  show ?thesis unfolding op_checkmultisig_def stricterD [OF s] Cons list.case Let_def
    by (intro allows_if allows_bind_eq script_num_allows multisig_verdict_allows s allows_eq)
qed (simp add: op_checkmultisig_def stricterD [OF s])

lemma EvalCheckDataSigPQC_allows:
  assumes s: "stricter ctx' ctx" and d: "more_weight d d'"
  shows "allows more_weight_pair (EvalCheckDataSigPQC ctx sig h key d) (EvalCheckDataSigPQC ctx' sig h key d')"
  unfolding EvalCheckDataSigPQC_def Let_def stricterD [OF s]
  by (rule allows_bind [OF spend_weight_allows [OF p2mr_cost_mono [OF s] d]])
    (simp add: more_weight_pair_def ComputeQbitDataSigPQCHash_def cxx_assert_def cxx_def)

lemma op_checkdatasig_allows:
  assumes s: "stricter ctx' ctx" and d: "more_weight d d'"
  shows "allows more_weight_pair (op_checkdatasig ctx stack d) (op_checkdatasig ctx' stack d')"
proof (cases "\<exists>key h sig r. stack = key # h # sig # r")
  case True
  then obtain key h sig r where st: "stack = key # h # sig # r" by blast
  show ?thesis unfolding op_checkdatasig_def stricterD [OF s] st list.case
    by (intro allows_if allows_error allows_bind [OF EvalCheckDataSigPQC_allows [OF s d]]) (auto simp: more_weight_pair_def)
next
  case False
  then show ?thesis by (auto simp: op_checkdatasig_def split: list.split)
qed

lemma op_checkdatasigadd_allows:
  assumes s: "stricter ctx' ctx" and d: "more_weight d d'"
  shows "allows more_weight_pair (op_checkdatasigadd ctx stack d) (op_checkdatasigadd ctx' stack d')"
proof (cases "\<exists>key x h sig r. stack = key # x # h # sig # r")
  case True
  then obtain key x h sig r where st: "stack = key # x # h # sig # r" by blast
  show ?thesis unfolding op_checkdatasigadd_def stricterD [OF s] st list.case
    by (intro allows_if allows_bind_eq script_num_allows s allows_error allows_bind [OF EvalCheckDataSigPQC_allows [OF s d]])
      (auto simp: more_weight_pair_def intro: allows_bind_eq)
next
  case False
  then show ?thesis by (auto simp: op_checkdatasigadd_def split: list.split)
qed

text \<open>
  What the machine asks of a signature checker: a verdict does not depend on the validation weight that
  is left, and leaves it alone.
\<close>

locale signature_checker =
  fixes ck :: BaseSignatureChecker
  assumes schnorr_weight: "more_weight d d' \<Longrightarrow>
      allows more_weight (CheckSchnorrSignature ck sig key sv d) (CheckSchnorrSignature ck sig key sv d')"
    and pqc_weight: "more_weight d d' \<Longrightarrow>
      allows more_weight (CheckPQCSignature ck sig key sv d) (CheckPQCSignature ck sig key sv d')"
begin

lemma EvalChecksigTapscript_allows:
  assumes s: "stricter ctx' ctx" and c: "sc_checker ctx = ck" and d: "more_weight d d'"
  shows "allows more_weight_pair (EvalChecksigTapscript ctx sig key d) (EvalChecksigTapscript ctx' sig key d')"
proof -
  have t: "allows more_weight (if b then CheckSchnorrSignature ck sig key v e else Inr e)
      (if b then CheckSchnorrSignature ck sig key v e' else Inr e')" if "more_weight e e'" for b v e e'
    using that schnorr_weight by simp
  show ?thesis unfolding EvalChecksigTapscript_def Let_def stricterD [OF s] c
    by (intro allows_bind_eq allows_eq allows_if allows_error allows_reject allows_bind [OF spend_weight_allows [OF order.refl d]]
        allows_bind [OF t]) (auto simp: more_weight_pair_def dest: stricter_flag [OF s])
qed

lemma EvalChecksigP2MR_allows:
  assumes s: "stricter ctx' ctx" and c: "sc_checker ctx = ck" and d: "more_weight d d'"
  shows "allows more_weight_pair (EvalChecksigP2MR ctx sig key d) (EvalChecksigP2MR ctx' sig key d')"
proof -
  have t: "allows more_weight (if b then CheckPQCSignature ck sig key v e else Inr e)
      (if b then CheckPQCSignature ck sig key v e' else Inr e')" if "more_weight e e'" for b v e e'
    using that pqc_weight by simp
  show ?thesis unfolding EvalChecksigP2MR_def Let_def stricterD [OF s] c
    by (intro allows_bind_eq allows_eq allows_if allows_error allows_bind [OF spend_weight_allows [OF p2mr_cost_mono [OF s] d]]
        allows_bind [OF t]) (auto simp: more_weight_pair_def)
qed

lemma EvalChecksig_allows:
  assumes s: "stricter ctx' ctx" and c: "sc_checker ctx = ck" and d: "more_weight d d'"
  shows "allows more_weight_pair (EvalChecksig ctx sig key ch d) (EvalChecksig ctx' sig key ch d')"
proof -
  have "allows more_weight_pair (bindE (EvalChecksigPreTapscript ctx sig key ch) (\<lambda>b. Inr (b, d)))
      (bindE (EvalChecksigPreTapscript ctx' sig key ch) (\<lambda>b. Inr (b, d')))"
    by (rule allows_bind_eq [OF EvalChecksigPreTapscript_allows [OF s]]) (simp add: more_weight_pair_def d)
  then show ?thesis unfolding EvalChecksig_def stricterD [OF s]
    using EvalChecksigTapscript_allows [OF s c d] EvalChecksigP2MR_allows [OF s c d] by (cases "sc_sigversion ctx") simp_all
qed

lemma op_checksig_allows:
  assumes s: "stricter ctx' ctx" and c: "sc_checker ctx = ck" and d: "more_weight d d'"
  shows "allows more_weight_pair (op_checksig ctx opcode ch stack d) (op_checksig ctx' opcode ch stack d')"
proof (cases "\<exists>key sig r. stack = key # sig # r")
  case True
  then obtain key sig r where st: "stack = key # sig # r" by blast
  show ?thesis unfolding op_checksig_def stricterD [OF s] st list.case
    by (intro allows_if allows_error allows_bind [OF EvalChecksig_allows [OF s c d]]) (auto simp: more_weight_pair_def)
next
  case False
  then show ?thesis by (auto simp: op_checksig_def split: list.split)
qed

lemma op_checksigadd_allows:
  assumes s: "stricter ctx' ctx" and c: "sc_checker ctx = ck" and d: "more_weight d d'"
  shows "allows more_weight_pair (op_checksigadd ctx ch stack d) (op_checksigadd ctx' ch stack d')"
proof (cases "\<exists>key x sig r. stack = key # x # sig # r")
  case True
  then obtain key x sig r where st: "stack = key # x # sig # r" by blast
  show ?thesis unfolding op_checksigadd_def stricterD [OF s] st list.case
    by (intro allows_if allows_error allows_bind_eq script_num_allows s allows_bind [OF EvalChecksig_allows [OF s c d]])
      (auto simp: more_weight_pair_def intro: allows_bind_eq)
next
  case False
  then show ?thesis by (auto simp: op_checksigadd_def split: list.split)
qed

end

lemma more_weight_stateD:
  assumes "more_weight_state st st'"
  shows "es_codehash st = es_codehash st'" "es_stack st = es_stack st'" "es_altstack st = es_altstack st'" "es_cond st = es_cond st'"
    "es_nOpCount st = es_nOpCount st'" "es_opcode_pos st = es_opcode_pos st'" "more_weight (es_execdata st) (es_execdata st')"
  using assms by (cases st, cases st', simp add: more_weight_state_def)+

lemma more_weight_state_upd:
  assumes "more_weight_state st st'"
  shows "more_weight_state (st\<lparr>es_stack := x\<rparr>) (st'\<lparr>es_stack := x\<rparr>)" "more_weight_state (st\<lparr>es_altstack := x\<rparr>) (st'\<lparr>es_altstack := x\<rparr>)"
    "more_weight_state (st\<lparr>es_cond := c\<rparr>) (st'\<lparr>es_cond := c\<rparr>)" "more_weight_state (st\<lparr>es_nOpCount := n\<rparr>) (st'\<lparr>es_nOpCount := n\<rparr>)"
    "more_weight_state (st\<lparr>es_opcode_pos := p\<rparr>) (st'\<lparr>es_opcode_pos := p\<rparr>)"
  using assms by (cases st, cases st', simp add: more_weight_state_def)+

lemma more_weight_codesep:
  assumes "more_weight_state st st'"
  shows "more_weight_state (st\<lparr>es_codehash := ch, es_execdata := (es_execdata st)\<lparr>m_codeseparator_pos := p\<rparr>\<rparr>)
    (st'\<lparr>es_codehash := ch, es_execdata := (es_execdata st')\<lparr>m_codeseparator_pos := p\<rparr>\<rparr>)"
  using assms by (cases st, cases st', cases "es_execdata st", cases "es_execdata st'")
    (simp add: more_weight_state_def more_weight_def)

lemma on_stack_allows:
  assumes "more_weight_state st st'" "allows (=) r r'"
  shows "allows more_weight_state (on_stack st r) (on_stack st' r')"
  unfolding on_stack_def by (rule allows_bind_eq [OF assms(2)]) (simp add: more_weight_state_upd [OF assms(1)])

lemma with_execdata_allows:
  assumes "more_weight_state st st'" "allows more_weight_pair r r'"
  shows "allows more_weight_state (with_execdata st r) (with_execdata st' r')"
  unfolding with_execdata_def
  by (rule allows_bind [OF assms(2)])
    (use assms(1) in \<open>cases st, cases st', auto simp: more_weight_state_def more_weight_pair_def\<close>)

lemma keep_allows:
  assumes "more_weight_state st st'" "allows (=) r r'"
    "\<And>a. more_weight_state (f a st) (f a st')"
  shows "allows more_weight_state (bindE r (\<lambda>a. Inr (f a st))) (bindE r' (\<lambda>a. Inr (f a st')))"
  by (rule allows_bind_eq [OF assms(2)]) (simp add: assms(3))

context signature_checker
begin

lemma exec_opcode_allows:
  assumes s: "stricter ctx' ctx" and c: "sc_checker ctx = ck" and st: "more_weight_state st st'"
  shows "allows more_weight_state (exec_opcode ctx opcode pc fExec st) (exec_opcode ctx' opcode pc fExec st')"
proof -
  note D = more_weight_stateD [OF st]
  have hash: "op_hashing ctx' = op_hashing ctx" by (intro ext) (simp only: op_hashing_def stricterD [OF s])
  show ?thesis unfolding exec_opcode_def D(1-6) hash
    by (intro allows_if allows_reject allows_error
        keep_allows [OF st op_checklocktimeverify_allows [OF s], where f = "\<lambda>_ st. st"]
        keep_allows [OF st op_checksequenceverify_allows [OF s], where f = "\<lambda>_ st. st"]
        keep_allows [OF st op_checktemplateverify_allows [OF s], where f = "\<lambda>_ st. st"]
        allows_bind_eq [OF op_if_allows [OF s]] allows_bind_eq [OF stack_op_allows [OF s]]
        allows_bind_eq [OF op_checkmultisig_allows [OF s]] allows_bind_eq [OF allows_eq]
        on_stack_allows [OF st] op_unary_allows op_binary_allows op_within_allows allows_eq s
        with_execdata_allows [OF st] op_checksig_allows [OF s c D(7)] op_checksigadd_allows [OF s c D(7)]
        op_checkdatasig_allows [OF s D(7)] op_checkdatasigadd_allows [OF s D(7)])
      (auto simp: st more_weight_state_upd more_weight_codesep stricter_flag [OF s])
qed

lemma eval_instr_allows:
  assumes s: "stricter ctx' ctx" and c: "sc_checker ctx = ck" and st: "more_weight_state st st'"
  shows "allows more_weight_state (eval_instr ctx opcode vch pc st) (eval_instr ctx' opcode vch pc st')"
proof -
  have n: "allows more_weight_state (count_op ctx opcode st) (count_op ctx' opcode st')"
    unfolding count_op_def stricterD [OF s] Let_def
    using more_weight_stateD [OF st] st by (auto simp: more_weight_state_upd)
  have m: "allows more_weight_state
      (bindE (if require_minimal ctx then cxx (CheckMinimalPush vch opcode) else Inr True)
        (\<lambda>m. if \<not> m then set_error SCRIPT_ERR_MINIMALDATA else Inr (a\<lparr>es_stack := vch # es_stack a\<rparr>)))
      (bindE (if require_minimal ctx' then cxx (CheckMinimalPush vch opcode) else Inr True)
        (\<lambda>m. if \<not> m then set_error SCRIPT_ERR_MINIMALDATA else Inr (a'\<lparr>es_stack := vch # es_stack a'\<rparr>)))"
    if a: "more_weight_state a a'" for a a'
  proof -
    have "require_minimal ctx \<Longrightarrow> require_minimal ctx'" using stricter_flag [OF s] by (simp add: require_minimal_def)
    moreover have "more_weight_state (a\<lparr>es_stack := vch # es_stack a\<rparr>) (a'\<lparr>es_stack := vch # es_stack a'\<rparr>)"
      using more_weight_state_upd(1) [OF a, of "vch # es_stack a'"] more_weight_stateD(2) [OF a] by simp
    ultimately show ?thesis by (auto simp: allows_def bindE_def set_error_def split: sum.splits)
  qed
  have l: "allows more_weight_state
      (if length (es_stack a) + length (es_altstack a) > MAX_STACK_SIZE then set_error SCRIPT_ERR_STACK_SIZE
       else Inr (a\<lparr>es_opcode_pos := es_opcode_pos a + 1\<rparr>))
      (if length (es_stack a') + length (es_altstack a') > MAX_STACK_SIZE then set_error SCRIPT_ERR_STACK_SIZE
       else Inr (a'\<lparr>es_opcode_pos := es_opcode_pos a' + 1\<rparr>))" if a: "more_weight_state a a'" for a a'
    using more_weight_stateD [OF a] more_weight_state_upd(5) [OF a] by simp
  show ?thesis unfolding eval_instr_def Let_def more_weight_stateD(4) [OF st] stricterD(1) [OF s]
  proof (intro allows_if allows_error allows_bind [OF n] allows_reject)
    fix a a'
    assume a: "more_weight_state a a'"
    show "allows more_weight_state
      (bindE (if all_true (es_cond st') \<and> opcode \<le> OP_PUSHDATA4
        then bindE (if require_minimal ctx then cxx (CheckMinimalPush vch opcode) else Inr True)
          (\<lambda>m. if \<not> m then set_error SCRIPT_ERR_MINIMALDATA else Inr (a\<lparr>es_stack := vch # es_stack a\<rparr>))
        else if all_true (es_cond st') \<or> OP_IF \<le> opcode \<and> opcode \<le> OP_ENDIF then exec_opcode ctx opcode pc (all_true (es_cond st')) a
        else Inr a) (\<lambda>a. if length (es_stack a) + length (es_altstack a) > MAX_STACK_SIZE then set_error SCRIPT_ERR_STACK_SIZE
          else Inr (a\<lparr>es_opcode_pos := es_opcode_pos a + 1\<rparr>)))
      (bindE (if all_true (es_cond st') \<and> opcode \<le> OP_PUSHDATA4
        then bindE (if require_minimal ctx' then cxx (CheckMinimalPush vch opcode) else Inr True)
          (\<lambda>m. if \<not> m then set_error SCRIPT_ERR_MINIMALDATA else Inr (a'\<lparr>es_stack := vch # es_stack a'\<rparr>))
        else if all_true (es_cond st') \<or> OP_IF \<le> opcode \<and> opcode \<le> OP_ENDIF then exec_opcode ctx' opcode pc (all_true (es_cond st')) a'
        else Inr a') (\<lambda>a. if length (es_stack a) + length (es_altstack a) > MAX_STACK_SIZE then set_error SCRIPT_ERR_STACK_SIZE
          else Inr (a\<lparr>es_opcode_pos := es_opcode_pos a + 1\<rparr>)))"
      by (rule allows_bind [where R = more_weight_state], intro allows_if m a exec_opcode_allows s c)
        (simp_all only: allows_Inr a l)
  qed (use stricter_flag [OF s] in auto)
qed

lemma eval_loop_allows:
  assumes s: "stricter ctx' ctx" and c: "sc_checker ctx = ck"
  shows "more_weight_state st st' \<Longrightarrow> allows more_weight_state (eval_loop ctx pc st) (eval_loop ctx' pc st')"
proof (induction pc arbitrary: st st' rule: length_induct)
  case (1 pc)
  show ?case
  proof (cases "GetScriptOp pc")
    case None
    then show ?thesis using 1 by (simp add: eval_loop.simps)
  next
    case (Some p)
    obtain opcode vch rest where p: "p = (opcode, vch, rest)" using prod_cases3 by blast
    then have "length rest < length pc" using Some GetScriptOp_progress by blast
    then have "allows more_weight_state (bindE (eval_instr ctx opcode vch rest st) (eval_loop ctx rest))
        (bindE (eval_instr ctx' opcode vch rest st') (eval_loop ctx' rest))"
      using allows_bind [OF eval_instr_allows [OF s c 1(2)]] 1(1) by blast
    then show ?thesis using 1(2) Some p by (simp add: eval_loop.simps [of _ pc])
  qed
qed

lemma EvalScript_allows:
  assumes s: "stricter ctx' ctx" and c: "sc_checker ctx = ck" and d: "more_weight d d'"
  shows "allows more_weight_pair (EvalScript ctx script stack d) (EvalScript ctx' script stack d')"
proof -
  have i: "more_weight_state (init_state script stack d) (init_state script stack d')"
    using d by (cases d, cases d') (simp add: init_state_def more_weight_state_def more_weight_def)
  show ?thesis unfolding EvalScript_def stricterD [OF s]
    by (intro allows_bind_eq [OF allows_eq] allows_if allows_error allows_bind [OF allows_catch [OF eval_loop_allows [OF s c i]]])
      (auto simp: more_weight_pair_def dest: more_weight_stateD)
qed

end

end
