(* ===== verification/Script_Safety.thy ===== *)
theory Script_Safety
  imports Script_Interp
begin

text \<open>
  The script machine is safe. The condition stack, which keeps two numbers, implements a stack of
  booleans. A run never trips an assertion, overflows or shifts too far, whatever the script, and the
  stacks, the size of their elements, the count of operations and the validation weight stay within
  their limits.
\<close>

unbundle bit_operations_syntax

subsection \<open>The condition stack implements a stack of booleans\<close>

definition cond_repr :: "ConditionStack \<Rightarrow> bool list \<Rightarrow> bool" where
  "cond_repr c bs \<longleftrightarrow> length bs < 2 ^ 32 - 1 \<and> m_stack_size c = of_nat (length bs) \<and>
    m_first_false_pos c = (if False \<in> set bs then of_nat (length (takeWhile id (rev bs))) else NO_FALSE)"

lemma first_false_Cons:
  "takeWhile id (rev bs @ [b]) = (if False \<in> set bs then takeWhile id (rev bs) else if b then rev bs @ [True] else rev bs)"
proof (cases "False \<in> set bs")
  case True
  then show ?thesis using takeWhile_append1 [of False "rev bs" id "[b]"] by simp
next
  case False
  then have "\<And>x. x \<in> set (rev bs) \<Longrightarrow> id x" by (metis id_apply set_rev)
  then have "takeWhile id (rev bs @ [b]) = rev bs @ takeWhile id [b]" by (rule takeWhile_append2)
  then show ?thesis using False by simp
qed

lemma first_false_less:
  assumes "False \<in> set bs"
  shows "length (takeWhile id (rev bs)) < length bs"
proof -
  have "takeWhile id (rev bs) \<noteq> rev bs" using assms by (auto simp: takeWhile_eq_all_conv)
  then have "length (takeWhile id (rev bs)) \<noteq> length (rev bs)" by (metis takeWhile_eq_take take_all order.refl)
  then show ?thesis using length_takeWhile_le [of id "rev bs"] by simp
qed

lemma pos_not_NO_FALSE: "k < 2 ^ 32 - 1 \<Longrightarrow> (of_nat k :: u32) \<noteq> NO_FALSE"
proof
  assume k: "k < 2 ^ 32 - 1" "(of_nat k :: u32) = NO_FALSE"
  have "unat (of_nat k :: u32) = k" using k(1) by (simp add: unsigned_of_nat take_bit_nat_eq_self)
  then show False using k by (simp add: NO_FALSE_def unsigned_minus_1_eq_mask mask_eq_exp_minus_1)
qed

lemma of_nat_u32_eq: "a < 2 ^ 32 \<Longrightarrow> b < 2 ^ 32 \<Longrightarrow> (of_nat a :: u32) = of_nat b \<longleftrightarrow> a = b"
  by (simp add: word_of_nat_eq_iff take_bit_nat_eq_self)

lemma cond_repr_new: "cond_repr new_ConditionStack []"
  by (simp add: cond_repr_def new_ConditionStack_def)

lemma cond_repr_empty: "cond_repr c bs \<Longrightarrow> cond_empty c \<longleftrightarrow> bs = []"
  using of_nat_u32_eq [of "length bs" 0] by (auto simp: cond_repr_def cond_empty_def)

lemma cond_repr_all_true: "cond_repr c bs \<Longrightarrow> all_true c \<longleftrightarrow> False \<notin> set bs"
  using pos_not_NO_FALSE first_false_less [of bs] by (auto simp: cond_repr_def all_true_def)

lemma cond_repr_push:
  assumes "cond_repr c bs" "length bs + 1 < 2 ^ 32 - 1"
  shows "cond_repr (cond_push_back f c) (f # bs)"
  using assms cond_repr_all_true [OF assms(1)] by (auto simp: cond_repr_def cond_push_back_def first_false_Cons all_true_def Let_def)

lemma cond_repr_pop:
  assumes "cond_repr c (b # bs)"
  shows "\<exists>c'. cond_pop_back c = Inr c' \<and> cond_repr c' bs"
proof -
  have l: "length bs + 1 < 2 ^ 32 - 1" and sz: "m_stack_size c = of_nat (length bs + 1)"
    and ff: "m_first_false_pos c = (if False \<in> set (b # bs) then of_nat (length (takeWhile id (rev (b # bs)))) else NO_FALSE)"
    using assms by (simp_all add: cond_repr_def)
  have "m_stack_size c \<noteq> 0" using sz l of_nat_u32_eq [of "length bs + 1" 0] by simp
  then have a: "0 < m_stack_size c" by (simp add: word_neq_0_conv)
  have m: "m_stack_size c - 1 = of_nat (length bs)" using sz by simp
  have "m_first_false_pos c = of_nat (length bs) \<longleftrightarrow> False \<notin> set bs \<and> \<not> b"
  proof (cases "False \<in> set bs")
    case True
    then show ?thesis using first_false_less [OF True] l of_nat_u32_eq [of "length (takeWhile id (rev bs))" "length bs"]
      by (simp add: ff first_false_Cons)
  next
    case False
    then show ?thesis using pos_not_NO_FALSE [of "length bs"] l by (auto simp: ff first_false_Cons)
  qed
  then show ?thesis using a l
    by (auto simp: cond_pop_back_def cond_repr_def Let_def cxx_assert_def m ff first_false_Cons split: if_splits)
qed

lemma cond_repr_toggle:
  assumes "cond_repr c (b # bs)"
  shows "\<exists>c'. toggle_top c = Inr c' \<and> cond_repr c' ((\<not> b) # bs)"
proof -
  have l: "length bs + 1 < 2 ^ 32 - 1" and sz: "m_stack_size c = of_nat (length bs + 1)"
    and ff: "m_first_false_pos c = (if False \<in> set (b # bs) then of_nat (length (takeWhile id (rev (b # bs)))) else NO_FALSE)"
    using assms by (simp_all add: cond_repr_def)
  have "m_stack_size c \<noteq> 0" using sz l of_nat_u32_eq [of "length bs + 1" 0] by simp
  then have a: "0 < m_stack_size c" by (simp add: word_neq_0_conv)
  have m: "m_stack_size c - 1 = of_nat (length bs)" using sz by simp
  have n: "(of_nat (length bs) :: u32) \<noteq> NO_FALSE" using pos_not_NO_FALSE l by simp
  show ?thesis
  proof (cases "False \<in> set bs")
    case True
    note t = first_false_less [OF True]
    have "(of_nat (length (takeWhile id (rev bs))) :: u32) \<noteq> NO_FALSE" using pos_not_NO_FALSE l t by simp
    moreover have "(of_nat (length (takeWhile id (rev bs))) :: u32) \<noteq> of_nat (length bs)"
      using of_nat_u32_eq l t by simp
    ultimately show ?thesis using a l True by (simp add: toggle_top_def cond_repr_def cxx_assert_def m ff first_false_Cons sz)
  next
    case False
    then show ?thesis using a l n by (simp add: toggle_top_def cond_repr_def cxx_assert_def m ff first_false_Cons sz)
  qed
qed

subsection \<open>Runs are safe and stay within their limits\<close>

text \<open>
  A result that satisfies a predicate, or an error the source reports: the only failure of the C++ code
  that may occur is the exception the loop catches.
\<close>

definition safeP :: "('a \<Rightarrow> bool) \<Rightarrow> 'a script \<Rightarrow> bool" where
  "safeP P r \<longleftrightarrow> (case r of Inr a \<Rightarrow> P a | Inl (Cxx_Error e) \<Rightarrow> e = Runtime_Error | Inl _ \<Rightarrow> True)"

definition small :: "nat \<Rightarrow> valtype list \<Rightarrow> bool" where
  "small lim xs \<longleftrightarrow> (\<forall>x\<in>set xs. length x \<le> lim)"

definition exec_ok :: "script_ctx \<Rightarrow> ScriptExecutionData \<Rightarrow> bool" where
  "exec_ok ctx d \<longleftrightarrow> (sc_sigversion ctx = TAPSCRIPT \<or> sc_sigversion ctx = P2MR \<longrightarrow>
    m_annex_init d \<and> m_tapleaf_hash_init d \<and> m_codeseparator_pos_init d \<and> m_validation_weight_left_init d \<and> 0 \<le> m_validation_weight_left d)"

text \<open>What a checker must do when it is called as the machine calls it.\<close>

definition signs_safely :: "(ScriptExecutionData \<Rightarrow> ScriptExecutionData script) \<Rightarrow> bool" where
  "signs_safely f \<longleftrightarrow> (\<forall>d. m_annex_init d \<and> m_tapleaf_hash_init d \<and> m_codeseparator_pos_init d \<longrightarrow>
    safeP (\<lambda>d'. \<exists>h. d' = d\<lparr>m_output_hash := h\<rparr>) (f d))"

definition checker_total :: "SigVersion \<Rightarrow> BaseSignatureChecker \<Rightarrow> bool" where
  "checker_total sv ck \<longleftrightarrow>
    (sv = BASE \<or> sv = WITNESS_V0 \<longrightarrow> (\<forall>sig key code. \<exists>b. CheckECDSASignature ck sig key code sv = Inr b)) \<and>
    (sv = TAPSCRIPT \<longrightarrow> (\<forall>sig key. length key = 32 \<longrightarrow> signs_safely (CheckSchnorrSignature ck sig key TAPSCRIPT))) \<and>
    (sv = P2MR \<longrightarrow> (\<forall>sig key. length key = 32 \<longrightarrow> signs_safely (CheckPQCSignature ck sig key P2MR)) \<and>
       (\<forall>x. length x = 32 \<longrightarrow> safeP (\<lambda>_. True) (CheckTemplateVerifyHash ck x)))"

definition hashes_sized :: "script_ctx \<Rightarrow> bool" where
  "hashes_sized ctx \<longleftrightarrow> (\<forall>x. length (sc_ripemd160 ctx x) = 20 \<and> length (sc_sha1 ctx x) = 20 \<and> length (sc_sha256 ctx x) = 32)"

definition state_ok :: "script_ctx \<Rightarrow> nat \<Rightarrow> eval_state \<Rightarrow> bool" where
  "state_ok ctx lim st \<longleftrightarrow> small lim (es_stack st) \<and> small lim (es_altstack st) \<and>
    0 \<le> es_nOpCount st \<and> es_nOpCount st \<le> MAX_OPS_PER_SCRIPT \<and> exec_ok ctx (es_execdata st)"

lemma safeP_simps [simp]:
  "safeP P (Inr a) \<longleftrightarrow> P a" "safeP P (set_error e)" "safeP P (Inl Error_Unset)" "safeP P (Inl (Script_Error e))"
  "safeP P (Inl (Cxx_Error x)) \<longleftrightarrow> x = Runtime_Error" "safeP P (cxx (Inl x)) \<longleftrightarrow> x = Runtime_Error"
  by (simp_all add: safeP_def set_error_def cxx_def)

lemma safeP_bind: "safeP P r \<Longrightarrow> (\<And>a. P a \<Longrightarrow> safeP Q (f a)) \<Longrightarrow> safeP Q (bindE r f)"
  by (cases r) (simp_all add: safeP_def bindE_def split: script_fail.splits)

lemma safeP_if: "(b \<Longrightarrow> safeP P x) \<Longrightarrow> (\<not> b \<Longrightarrow> safeP P y) \<Longrightarrow> safeP P (if b then x else y)"
  by simp

lemma safeP_mono: "safeP P r \<Longrightarrow> (\<And>a. P a \<Longrightarrow> Q a) \<Longrightarrow> safeP Q r"
  by (auto simp: safeP_def split: sum.splits script_fail.splits)

lemma small_simps [simp]: "small lim []" "small lim (x # xs) \<longleftrightarrow> length x \<le> lim \<and> small lim xs"
  "small lim (xs @ ys) \<longleftrightarrow> small lim xs \<and> small lim ys"
  by (auto simp: small_def)

lemma small_sub: "small lim xs \<Longrightarrow> small lim (take n xs)" "small lim xs \<Longrightarrow> small lim (drop n xs)"
    "small lim xs \<Longrightarrow> n < length xs \<Longrightarrow> length (xs ! n) \<le> lim"
  by (auto simp: small_def dest: in_set_takeD in_set_dropD)

lemma length_scriptnum: "length (scriptnum_serialize v) \<le> 9"
proof -
  let ?n = "unat (of_int \<bar>v\<bar> :: u64)"
  have "?n < 256 ^ 8" using unat_u64_less [of "of_int \<bar>v\<bar>"] by simp
  then have "length (abs_bytes ?n) \<le> 8" by (rule length_abs_bytes)
  then show ?thesis by (auto simp: scriptnum_serialize_def Let_def)
qed

lemma scriptnum_small: "520 \<le> lim \<Longrightarrow> length (scriptnum_serialize v) \<le> lim"
  using length_scriptnum [of v] by linarith

text \<open>A script number of at most five bytes has a modest value.\<close>

lemma CScriptNum_safe:
  assumes "n \<le> 5"
  shows "safeP (\<lambda>v. \<bar>v\<bar> < 2 ^ 40) (cxx (CScriptNum vch m n))"
proof (cases vch rule: rev_cases)
  case Nil
  then show ?thesis by (simp add: CScriptNum_def set_vch_def cxx_def)
next
  case (snoc ws b)
  show ?thesis
  proof (cases "length ws < n")
    case True
    define a where "a = bval ws + 2 ^ (8 * length ws) * (unat b mod 128)"
    have "a < 2 ^ (8 * length ws) + 2 ^ (8 * length ws) * (unat b mod 128)" using bval_less [of ws] by (simp add: a_def)
    also have "\<dots> = 2 ^ (8 * length ws) * (unat b mod 128 + 1)" by simp
    also have "\<dots> \<le> 2 ^ (8 * length ws) * 2 ^ 8" by (intro mult_le_mono2) (simp add: Suc_leI)
    also have "\<dots> = 2 ^ (8 * length ws + 8)" by (simp only: power_add)
    also have "\<dots> \<le> 2 ^ 40" by (rule power_increasing) (use True assms in auto)
    finally have a: "a < 2 ^ 40" .
    have "n \<le> 8" "length ws \<le> 7" using True assms by auto
    then have "CScriptNum vch m n = Inl Runtime_Error \<or> CScriptNum vch m n = Inr (if 128 \<le> unat b then - int a else int a)"
      using CScriptNum_snoc [OF True, of b m] set_vch_snoc [of ws b] unfolding snoc a_def Let_def by presburger
    then show ?thesis using a by (auto simp: cxx_def)
  next
    case False
    then show ?thesis by (simp add: snoc CScriptNum_def)
  qed
qed

lemma script_num_safe: "safeP (\<lambda>v. \<bar>v\<bar> < 2 ^ 40) (script_num ctx x)"
  unfolding script_num_def by (rule CScriptNum_safe) simp

lemma stack_op_safe:
  assumes l: "520 \<le> lim" and s: "small lim stack" "small lim alt"
  shows "safeP (\<lambda>(s, a). small lim s \<and> small lim a) (stack_op ctx opcode stack alt)"
proof (cases "opcode = OP_PICK \<or> opcode = OP_ROLL")
  case True
  show ?thesis
  proof (cases "\<exists>x y r. stack = x # y # r")
    case T: True
    then obtain x y r where st: "stack = x # y # r" by blast
    have "safeP (\<lambda>(s, a). small lim s \<and> small lim a) (let n = scriptnum_getint v; s1 = y # r in
        if n < 0 \<or> n \<ge> int (length s1) then bad_stack
        else let vch = s1 ! nat n in Inr (vch # (if opcode = OP_ROLL then take (nat n) s1 @ drop (nat n + 1) s1 else s1), alt))" for v
      using s small_sub [of lim "y # r"] by (auto simp: st Let_def nat_less_iff small_sub)
    then have "safeP (\<lambda>(s, a). small lim s \<and> small lim a) (bindE (script_num ctx x) (\<lambda>v. let n = scriptnum_getint v; s1 = y # r in
        if n < 0 \<or> n \<ge> int (length s1) then bad_stack
        else let vch = s1 ! nat n in Inr (vch # (if opcode = OP_ROLL then take (nat n) s1 @ drop (nat n + 1) s1 else s1), alt)))"
      by (intro safeP_bind [OF script_num_safe])
    then show ?thesis using True by (auto simp: stack_op_def st all_opcode_defs)
  next
    case False
    then show ?thesis using True by (auto simp: stack_op_def all_opcode_defs split: list.split)
  qed
next
  case False
  then show ?thesis using s scriptnum_small [OF l]
    unfolding stack_op_def by (intro safeP_if) (auto split: list.split)
qed

lemma op_locktime_safe:
  assumes "checker_total (sc_sigversion ctx) (sc_checker ctx)"
  shows "safeP (\<lambda>_. True) (op_checklocktimeverify ctx stack)" "safeP (\<lambda>_. True) (op_checksequenceverify ctx stack)"
    "safeP (\<lambda>_. True) (op_checktemplateverify ctx stack)"
proof -
  note n = safeP_bind [OF CScriptNum_safe [of 5]]
  show "safeP (\<lambda>_. True) (op_checklocktimeverify ctx stack)" "safeP (\<lambda>_. True) (op_checksequenceverify ctx stack)"
    unfolding op_checklocktimeverify_def op_checksequenceverify_def
    by (cases stack; simp; intro impI n; simp)+
  show "safeP (\<lambda>_. True) (op_checktemplateverify ctx stack)"
    using assms unfolding op_checktemplateverify_def checker_total_def by (cases stack) simp_all
qed

lemma op_if_safe: "small lim stack \<Longrightarrow> safeP (\<lambda>(s, c). small lim s) (op_if ctx opcode fExec stack cond)"
  unfolding op_if_def check_minimal_if_def
  by (auto simp: Let_def bindE_def safeP_def set_error_def split: list.split)

lemma op_else_endif_safe: "safeP (\<lambda>_. True) (op_else_endif opcode cond)"
  by (simp add: op_else_endif_def cond_empty_def toggle_top_def cond_pop_back_def cxx_assert_def cxx_def Let_def word_neq_0_conv)

lemma bool_vch_small [simp]: "520 \<le> lim \<Longrightarrow> length (bool_vch b) \<le> lim"
  by (simp add: bool_vch_def)

lemma op_equal_safe: "520 \<le> lim \<Longrightarrow> small lim stack \<Longrightarrow> safeP (small lim) (op_equal opcode stack)"
  unfolding op_equal_def by (auto simp: Let_def split: list.split)

lemma returns_if: "(b \<Longrightarrow> \<exists>r. x = Inr r) \<Longrightarrow> (\<not> b \<Longrightarrow> \<exists>r. y = Inr r) \<Longrightarrow> \<exists>r. (if b then x else y) = Inr r"
  by simp

lemma unary_num_safe:
  assumes "opcode \<in> set [OP_1ADD, OP_1SUB, OP_NEGATE, OP_ABS, OP_NOT, OP_0NOTEQUAL]" "\<bar>v\<bar> < 2 ^ 40"
  shows "\<exists>r. unary_num opcode v = Inr r"
  unfolding unary_num_def
  by (intro returns_if) (use assms in \<open>auto simp: num_add_assign_def num_sub_assign_def num_negate_def cxx_assert_def i64_def i64_range_def\<close>)

lemma binary_num_safe:
  assumes "opcode \<in> set [OP_ADD, OP_SUB, OP_BOOLAND, OP_BOOLOR, OP_NUMEQUAL, OP_NUMEQUALVERIFY, OP_NUMNOTEQUAL, OP_LESSTHAN,
         OP_GREATERTHAN, OP_LESSTHANOREQUAL, OP_GREATERTHANOREQUAL, OP_MIN, OP_MAX]" "\<bar>v\<bar> < 2 ^ 40" "\<bar>w\<bar> < 2 ^ 40"
  shows "\<exists>r. binary_num opcode v w = Inr r"
  unfolding binary_num_def by (intro returns_if) (use assms in \<open>auto simp: i64_def i64_range_def\<close>)

lemma op_unary_safe:
  assumes l: "520 \<le> lim" and s: "small lim stack" and o: "opcode \<in> set [OP_1ADD, OP_1SUB, OP_NEGATE, OP_ABS, OP_NOT, OP_0NOTEQUAL]"
  shows "safeP (small lim) (op_unary ctx opcode stack)"
proof (cases stack)
  case (Cons x r)
  have "safeP (small lim) (bindE (cxx (unary_num opcode v)) (\<lambda>y. Inr (scriptnum_serialize y # r)))" if "\<bar>v\<bar> < 2 ^ 40" for v
    using unary_num_safe [OF o that] scriptnum_small [OF l] s by (auto simp: Cons cxx_def)
  then show ?thesis unfolding op_unary_def Cons list.case by (rule safeP_bind [OF script_num_safe])
qed (simp add: op_unary_def)

lemma op_binary_safe:
  assumes l: "520 \<le> lim" and s: "small lim stack" and o: "opcode \<in> set [OP_ADD, OP_SUB, OP_BOOLAND, OP_BOOLOR, OP_NUMEQUAL, OP_NUMEQUALVERIFY, OP_NUMNOTEQUAL, OP_LESSTHAN,
         OP_GREATERTHAN, OP_LESSTHANOREQUAL, OP_GREATERTHANOREQUAL, OP_MIN, OP_MAX]"
  shows "safeP (small lim) (op_binary ctx opcode stack)"
proof (cases "\<exists>x2 x1 r. stack = x2 # x1 # r")
  case True
  then obtain x2 x1 r where st: "stack = x2 # x1 # r" by blast
  have "safeP (small lim) (bindE (cxx (binary_num opcode v w)) (\<lambda>bn. let vch = scriptnum_serialize bn in
      if opcode = OP_NUMEQUALVERIFY then (if CastToBool vch then Inr r else set_error SCRIPT_ERR_NUMEQUALVERIFY) else Inr (vch # r)))"
    if "\<bar>v\<bar> < 2 ^ 40" "\<bar>w\<bar> < 2 ^ 40" for v w
    using binary_num_safe [OF o that] scriptnum_small [OF l] s by (auto simp: st cxx_def Let_def)
  then show ?thesis unfolding op_binary_def st list.case by (intro safeP_bind [OF script_num_safe])
next
  case False
  then show ?thesis by (auto simp: op_binary_def split: list.split)
qed

lemma op_within_safe: "520 \<le> lim \<Longrightarrow> small lim stack \<Longrightarrow> safeP (small lim) (op_within ctx stack)"
  unfolding op_within_def by (auto intro!: safeP_bind [OF script_num_safe] split: list.split)

lemma op_hashing_safe: "520 \<le> lim \<Longrightarrow> hashes_sized ctx \<Longrightarrow> small lim stack \<Longrightarrow> safeP (small lim) (op_hashing ctx opcode stack)"
  unfolding op_hashing_def hashes_sized_def by (auto split: list.split)

lemma encoding_safe: "safeP (\<lambda>_. True) (CheckSignatureEncoding ctx sig)" "safeP (\<lambda>_. True) (CheckPubKeyEncoding ctx key)"
  by (simp_all add: CheckSignatureEncoding_def CheckPubKeyEncoding_def IsLowDERSignature_def bindE_def safeP_def set_error_def)

lemma ecdsa_safe:
  assumes "checker_total (sc_sigversion ctx) (sc_checker ctx)" "pre_tapscript ctx"
  shows "safeP (\<lambda>_. True) (cxx (CheckECDSASignature (sc_checker ctx) sig key code (sc_sigversion ctx)))"
proof -
  obtain b where "CheckECDSASignature (sc_checker ctx) sig key code (sc_sigversion ctx) = Inr b"
    using assms unfolding checker_total_def pre_tapscript_def by metis
  then show ?thesis by (simp add: cxx_def)
qed

lemma EvalChecksigPreTapscript_safe:
  assumes "checker_total (sc_sigversion ctx) (sc_checker ctx)" "pre_tapscript ctx"
  shows "safeP (\<lambda>_. True) (EvalChecksigPreTapscript ctx sig key ch)"
proof -
  have "safeP (\<lambda>_. True) (if sc_sigversion ctx = BASE then
      (case FindAndDelete ch (push_data sig) of (code, found) \<Rightarrow>
        if found > 0 \<and> flag ctx SCRIPT_VERIFY_CONST_SCRIPTCODE then set_error SCRIPT_ERR_SIG_FINDANDDELETE else Inr code) else Inr ch)"
    by (simp split: prod.split)
  then show ?thesis unfolding EvalChecksigPreTapscript_def
    by (intro safeP_bind [OF encoding_safe(1)] safeP_bind [OF encoding_safe(2)] safeP_bind [OF ecdsa_safe [OF assms]] safeP_bind [where P = "\<lambda>_. True"])
      (simp_all add: assms(2) cxx_assert_def cxx_def)
qed

lemma spend_weight_safe:
  assumes "exec_ok ctx d" "\<not> pre_tapscript ctx" "sc_sigversion ctx \<noteq> TAPROOT"
  shows "safeP (exec_ok ctx) (spend_weight cost e b d)"
proof -
  have "sc_sigversion ctx = TAPSCRIPT \<or> sc_sigversion ctx = P2MR"
    using assms(2,3) by (cases "sc_sigversion ctx") (simp_all add: pre_tapscript_def)
  then show ?thesis using assms(1) by (auto simp: spend_weight_def exec_ok_def cxx_assert_def cxx_def Let_def)
qed

lemma exec_ok_output_hash [simp]: "exec_ok ctx (d\<lparr>m_output_hash := h\<rparr>) = exec_ok ctx d"
  by (simp add: exec_ok_def)

lemma EvalChecksigTapscript_safe:
  assumes c: "checker_total (sc_sigversion ctx) (sc_checker ctx)" and d: "exec_ok ctx d" and v: "sc_sigversion ctx = TAPSCRIPT"
  shows "safeP (\<lambda>(b, d). exec_ok ctx d) (EvalChecksigTapscript ctx sig key d)"
proof -
  have k: "safeP (exec_ok ctx) (if b then CheckSchnorrSignature (sc_checker ctx) sig key (sc_sigversion ctx) e else Inr e)"
    if "exec_ok ctx e" "length key = 32" for b e
  proof -
    have "signs_safely (CheckSchnorrSignature (sc_checker ctx) sig key TAPSCRIPT)" using c that(2) v by (simp add: checker_total_def)
    then have "safeP (\<lambda>d'. \<exists>h. d' = e\<lparr>m_output_hash := h\<rparr>) (CheckSchnorrSignature (sc_checker ctx) sig key (sc_sigversion ctx) e)"
      using that(1) v by (simp add: signs_safely_def exec_ok_def)
    then show ?thesis using that(1) by (auto elim: safeP_mono)
  qed
  have "\<not> pre_tapscript ctx" using v by (simp add: pre_tapscript_def)
  then show ?thesis unfolding EvalChecksigTapscript_def Let_def
    by (intro safeP_bind [where P = "\<lambda>_. True"] safeP_bind [OF spend_weight_safe [OF d]] safeP_if safeP_bind [OF k])
      (simp_all add: v cxx_assert_def cxx_def)
qed

lemma EvalChecksigP2MR_safe:
  assumes c: "checker_total (sc_sigversion ctx) (sc_checker ctx)" and d: "exec_ok ctx d" and v: "sc_sigversion ctx = P2MR"
  shows "safeP (\<lambda>(b, d). exec_ok ctx d) (EvalChecksigP2MR ctx sig key d)"
proof -
  have k: "safeP (exec_ok ctx) (if b then CheckPQCSignature (sc_checker ctx) sig key (sc_sigversion ctx) e else Inr e)"
    if "exec_ok ctx e" "length key = 32" for b e
  proof -
    have "signs_safely (CheckPQCSignature (sc_checker ctx) sig key P2MR)" using c that(2) v by (simp add: checker_total_def)
    then have "safeP (\<lambda>d'. \<exists>h. d' = e\<lparr>m_output_hash := h\<rparr>) (CheckPQCSignature (sc_checker ctx) sig key (sc_sigversion ctx) e)"
      using that(1) v by (simp add: signs_safely_def exec_ok_def)
    then show ?thesis using that(1) by (auto elim: safeP_mono)
  qed
  have "\<not> pre_tapscript ctx" using v by (simp add: pre_tapscript_def)
  then show ?thesis unfolding EvalChecksigP2MR_def Let_def
    by (intro safeP_bind [where P = "\<lambda>_. True"] safeP_bind [OF spend_weight_safe [OF d]] safeP_if safeP_bind [OF k])
      (simp_all add: v cxx_assert_def cxx_def)
qed

lemma EvalCheckDataSigPQC_safe:
  assumes d: "exec_ok ctx d" and v: "sc_sigversion ctx = P2MR"
  shows "safeP (\<lambda>(b, d). exec_ok ctx d) (EvalCheckDataSigPQC ctx sig h key d)"
proof -
  have "\<not> pre_tapscript ctx" "sc_sigversion ctx \<noteq> TAPROOT" using v by (simp_all add: pre_tapscript_def)
  then show ?thesis unfolding EvalCheckDataSigPQC_def Let_def
    by (intro safeP_bind [OF spend_weight_safe [OF d]] safeP_if)
      (simp_all add: ComputeQbitDataSigPQCHash_def cxx_assert_def cxx_def)
qed

lemma EvalChecksig_safe:
  assumes c: "checker_total (sc_sigversion ctx) (sc_checker ctx)" and d: "exec_ok ctx d" and v: "sc_sigversion ctx \<noteq> TAPROOT"
  shows "safeP (\<lambda>(b, d). exec_ok ctx d) (EvalChecksig ctx sig key ch d)"
proof (cases "pre_tapscript ctx")
  case True
  have "safeP (\<lambda>(b, d). exec_ok ctx d) (bindE (EvalChecksigPreTapscript ctx sig key ch) (\<lambda>b. Inr (b, d)))"
    by (rule safeP_bind [OF EvalChecksigPreTapscript_safe [OF c True]]) (simp add: d)
  then show ?thesis using True by (cases "sc_sigversion ctx") (simp_all add: EvalChecksig_def pre_tapscript_def)
next
  case False
  then show ?thesis using EvalChecksigTapscript_safe [OF c d] EvalChecksigP2MR_safe [OF c d] v
    by (cases "sc_sigversion ctx") (simp_all add: EvalChecksig_def pre_tapscript_def)
qed

lemma op_checksig_safe:
  assumes l: "520 \<le> lim" "small lim stack" and c: "checker_total (sc_sigversion ctx) (sc_checker ctx)" and d: "exec_ok ctx d" and v: "sc_sigversion ctx \<noteq> TAPROOT"
  shows "safeP (\<lambda>(s, d). small lim s \<and> exec_ok ctx d) (op_checksig ctx opcode ch stack d)"
    "safeP (\<lambda>(s, d). small lim s \<and> exec_ok ctx d) (op_checksigadd ctx ch stack d)"
proof -
  note e = safeP_bind [OF EvalChecksig_safe [OF c d v]]
  show "safeP (\<lambda>(s, d). small lim s \<and> exec_ok ctx d) (op_checksig ctx opcode ch stack d)"
    unfolding op_checksig_def using l by (auto intro!: safeP_if e split: list.split)
  have i: "safeP (\<lambda>(s, d). small lim s \<and> exec_ok ctx d) (bindE (cxx (i64 (num + of_bool b))) (\<lambda>r. Inr (scriptnum_serialize r # s, e)))"
    if "\<bar>num\<bar> < 2 ^ 40" "small lim s" "exec_ok ctx e" for num b s e
    using that scriptnum_small [OF l(1)] by (auto simp: i64_def i64_range_def cxx_def)
  show "safeP (\<lambda>(s, d). small lim s \<and> exec_ok ctx d) (op_checksigadd ctx ch stack d)"
    unfolding op_checksigadd_def using l by (auto intro!: safeP_if safeP_bind [OF script_num_safe] e i split: list.split)
qed

lemma op_checkdatasig_safe:
  assumes l: "520 \<le> lim" "small lim stack" and d: "exec_ok ctx d"
  shows "safeP (\<lambda>(s, d). small lim s \<and> exec_ok ctx d) (op_checkdatasig ctx stack d)"
    "safeP (\<lambda>(s, d). small lim s \<and> exec_ok ctx d) (op_checkdatasigadd ctx stack d)"
proof -
  note e = safeP_bind [OF EvalCheckDataSigPQC_safe [OF d]]
  show "safeP (\<lambda>(s, d). small lim s \<and> exec_ok ctx d) (op_checkdatasig ctx stack d)"
    unfolding op_checkdatasig_def using l by (auto intro!: safeP_if e split: list.split)
  have i: "safeP (\<lambda>(s, d). small lim s \<and> exec_ok ctx d) (bindE (cxx (i64 (num + of_bool b))) (\<lambda>r. Inr (scriptnum_serialize r # s, e)))"
    if "\<bar>num\<bar> < 2 ^ 40" "small lim s" "exec_ok ctx e" for num b s e
    using that scriptnum_small [OF l(1)] by (auto simp: i64_def i64_range_def cxx_def)
  show "safeP (\<lambda>(s, d). small lim s \<and> exec_ok ctx d) (op_checkdatasigadd ctx stack d)"
    unfolding op_checkdatasigadd_def using l by (auto intro!: safeP_if safeP_bind [OF script_num_safe] e i split: list.split)
qed

lemma drop_signatures_safe: "safeP (\<lambda>_. True) (drop_signatures ctx sigs code)"
  by (induction sigs arbitrary: code) (auto split: prod.split)

lemma multisig_loop_safe:
  assumes "checker_total (sc_sigversion ctx) (sc_checker ctx)" "pre_tapscript ctx"
  shows "safeP (\<lambda>_. True) (multisig_loop ctx code sigs keys)"
proof (induction keys arbitrary: sigs)
  case Nil
  show ?case by (cases sigs) simp_all
next
  case (Cons key keys)
  show ?case
  proof (cases sigs)
    case (Cons sig sigs')
    show ?thesis unfolding Cons multisig_loop.simps
      by (intro safeP_bind [OF encoding_safe(1)] safeP_bind [OF encoding_safe(2)] safeP_bind [OF ecdsa_safe [OF assms]] safeP_if)
        (simp_all add: Cons.IH del: list.size)
  qed simp
qed

lemma op_checkmultisig_safe:
  assumes l: "520 \<le> lim" "small lim stack" and c: "checker_total (sc_sigversion ctx) (sc_checker ctx)" and v: "sc_sigversion ctx \<noteq> TAPROOT"
    and n: "0 \<le> n" "n \<le> MAX_OPS_PER_SCRIPT"
  shows "safeP (\<lambda>(s, m). small lim s \<and> 0 \<le> m \<and> m \<le> MAX_OPS_PER_SCRIPT) (op_checkmultisig ctx opcode ch n stack)"
proof (cases "sc_sigversion ctx = TAPSCRIPT \<or> sc_sigversion ctx = P2MR")
  case False
  then have p: "pre_tapscript ctx" using v by (cases "sc_sigversion ctx") (simp_all add: pre_tapscript_def)
  have V: "safeP (small lim) (multisig_verdict ctx opcode ch sigs keys r)" if "small lim r" for sigs keys r
    unfolding multisig_verdict_def
    by (intro safeP_bind [OF drop_signatures_safe] safeP_bind [OF multisig_loop_safe [OF c p]] safeP_if)
      (use that l in \<open>auto split: list.split\<close>)
  show ?thesis
  proof (cases stack)
    case (Cons x r)
    then show ?thesis unfolding op_checkmultisig_def Cons list.case Let_def
      by (intro safeP_if safeP_bind [OF script_num_safe] safeP_bind [OF V])
        (use l n in \<open>auto simp: Cons small_sub\<close>)
  qed (use False in \<open>simp add: op_checkmultisig_def\<close>)
qed (auto simp: op_checkmultisig_def)

lemma exec_opcode_safe:
  assumes l: "520 \<le> lim" and c: "checker_total (sc_sigversion ctx) (sc_checker ctx)" and h: "hashes_sized ctx"
    and v: "sc_sigversion ctx \<noteq> TAPROOT" and st: "state_ok ctx lim st"
  shows "safeP (state_ok ctx lim) (exec_opcode ctx opcode pc fExec st)"
proof -
  have S: "small lim (es_stack st)" "small lim (es_altstack st)" "0 \<le> es_nOpCount st" "es_nOpCount st \<le> MAX_OPS_PER_SCRIPT"
    "exec_ok ctx (es_execdata st)"
    using st by (simp_all add: state_ok_def)
  have on: "safeP (small lim) r \<Longrightarrow> safeP (state_ok ctx lim) (on_stack st r)" for r
    unfolding on_stack_def by (erule safeP_bind) (use S in \<open>simp add: state_ok_def\<close>)
  have ex: "safeP (\<lambda>(s, d). small lim s \<and> exec_ok ctx d) r \<Longrightarrow> safeP (state_ok ctx lim) (with_execdata st r)" for r
    unfolding with_execdata_def by (erule safeP_bind) (use S in \<open>auto simp: state_ok_def\<close>)
  show ?thesis unfolding exec_opcode_def
    by (intro safeP_if safeP_bind [OF op_locktime_safe(1) [OF c]] safeP_bind [OF op_locktime_safe(2) [OF c]]
        safeP_bind [OF op_locktime_safe(3) [OF c]] safeP_bind [OF op_if_safe [OF S(1)]] safeP_bind [OF op_else_endif_safe]
        safeP_bind [OF stack_op_safe [OF l S(1,2)]] on op_equal_safe [OF l S(1)] op_unary_safe [OF l S(1)] op_binary_safe [OF l S(1)]
        op_within_safe [OF l S(1)] op_hashing_safe [OF l h S(1)] ex op_checksig_safe [OF l S(1) c S(5) v] op_checkdatasig_safe [OF l S(1,5)]
        safeP_bind [OF op_checkmultisig_safe [OF l S(1) c v S(3,4)]])
      (use st scriptnum_small [OF l] in \<open>auto simp: state_ok_def exec_ok_def\<close>)
qed

lemma eval_instr_safe:
  assumes l: "520 \<le> lim" and c: "checker_total (sc_sigversion ctx) (sc_checker ctx)" and h: "hashes_sized ctx"
    and v: "sc_sigversion ctx \<noteq> TAPROOT" and st: "state_ok ctx lim st"
  shows "safeP (\<lambda>st'. state_ok ctx lim st' \<and> length (es_stack st') + length (es_altstack st') \<le> MAX_STACK_SIZE) (eval_instr ctx opcode vch pc st)"
proof -
  have n: "safeP (state_ok ctx lim) (count_op ctx opcode st)"
    using st by (auto simp: count_op_def state_ok_def Let_def)
  have p: "safeP (state_ok ctx lim) (bindE (if require_minimal ctx then cxx (CheckMinimalPush vch opcode) else Inr True)
      (\<lambda>m. if \<not> m then set_error SCRIPT_ERR_MINIMALDATA else Inr (a\<lparr>es_stack := vch # es_stack a\<rparr>)))"
    if "state_ok ctx lim a" "opcode \<le> OP_PUSHDATA4" "length vch \<le> 520" for a
    using that l by (auto simp: CheckMinimalPush_def cxx_assert_def cxx_def state_ok_def)
  have m: "MAX_SCRIPT_ELEMENT_SIZE = 520" by (simp add: MAX_SCRIPT_ELEMENT_SIZE_def)
  show ?thesis unfolding eval_instr_def Let_def m
    by (intro safeP_if safeP_bind [OF n] safeP_bind [where P = "state_ok ctx lim"] p exec_opcode_safe [OF l c h v])
      (auto simp: state_ok_def)
qed

lemma eval_loop_safe:
  assumes l: "520 \<le> lim" and c: "checker_total (sc_sigversion ctx) (sc_checker ctx)" and h: "hashes_sized ctx" and v: "sc_sigversion ctx \<noteq> TAPROOT"
  shows "state_ok ctx lim st \<Longrightarrow> length (es_stack st) + length (es_altstack st) \<le> MAX_STACK_SIZE \<Longrightarrow>
    safeP (\<lambda>st'. state_ok ctx lim st' \<and> length (es_stack st') + length (es_altstack st') \<le> MAX_STACK_SIZE) (eval_loop ctx pc st)"
proof (induction pc arbitrary: st rule: length_induct)
  case (1 pc)
  show ?case
  proof (cases "GetScriptOp pc")
    case None
    then show ?thesis using 1 by (simp add: eval_loop.simps)
  next
    case (Some p)
    obtain opcode vch rest where p: "p = (opcode, vch, rest)" using prod_cases3 by blast
    then have "length rest < length pc" using Some GetScriptOp_progress by blast
    then have "safeP (\<lambda>st'. state_ok ctx lim st' \<and> length (es_stack st') + length (es_altstack st') \<le> MAX_STACK_SIZE)
        (bindE (eval_instr ctx opcode vch rest st) (eval_loop ctx rest))"
      using safeP_bind [OF eval_instr_safe [OF l c h v 1(2)]] 1(1) by blast
    then show ?thesis using 1(2,3) Some p by (simp add: eval_loop.simps [of _ pc])
  qed
qed

text \<open>
  Hence a run ends with a stack within its limits or with an error of the script, and never fails in
  another way.
\<close>

lemma EvalScript_safe:
  assumes l: "520 \<le> lim" and c: "checker_total (sc_sigversion ctx) (sc_checker ctx)" and h: "hashes_sized ctx" and v: "sc_sigversion ctx \<noteq> TAPROOT"
    and s: "length stack \<le> MAX_STACK_SIZE" "small lim stack" and d: "exec_ok ctx (d\<lparr>m_codeseparator_pos_init := True\<rparr>)"
  shows "case EvalScript ctx script stack d of
      Inr (stack', d') \<Rightarrow> length stack' \<le> MAX_STACK_SIZE \<and> small lim stack' \<and> exec_ok ctx d'
    | Inl e \<Rightarrow> \<exists>err. e = Script_Error err"
proof -
  let ?P = "\<lambda>st'. state_ok ctx lim st' \<and> length (es_stack st') + length (es_altstack st') \<le> MAX_STACK_SIZE"
  have "state_ok ctx lim (init_state script stack d)"
    using d s by (auto simp: init_state_def state_ok_def exec_ok_def MAX_OPS_PER_SCRIPT_def)
  then have "safeP ?P (eval_loop ctx script (init_state script stack d))"
    using eval_loop_safe [OF l c h v] s(1) by (simp add: init_state_def)
  then have "case catch_all (eval_loop ctx script (init_state script stack d)) of Inr st \<Rightarrow> ?P st | Inl e \<Rightarrow> \<exists>err. e = Script_Error err"
    by (auto simp: safeP_def catch_all_def set_error_def split: sum.splits script_fail.splits)
  then show ?thesis unfolding EvalScript_def using v
    by (auto simp: cxx_assert_def cxx_def set_error_def state_ok_def bindE_def split: sum.splits)
qed

text \<open>An error that the script is told about.\<close>

definition clean :: "'a script \<Rightarrow> bool" where
  "clean r \<longleftrightarrow> (\<forall>e. r = Inl e \<longrightarrow> (\<exists>err. e = Script_Error err))"

lemma clean_simps [simp]: "clean (Inr a)" "clean (set_error e)"
  by (simp_all add: clean_def set_error_def)

lemma clean_bind: "clean r \<Longrightarrow> (\<And>a. r = Inr a \<Longrightarrow> clean (f a)) \<Longrightarrow> clean (bindE r f)"
  by (auto simp: clean_def bindE_def split: sum.splits)

lemma clean_if: "(b \<Longrightarrow> clean x) \<Longrightarrow> (\<not> b \<Longrightarrow> clean y) \<Longrightarrow> clean (if b then x else y)"
  by simp

lemma small_max: "\<exists>lim\<ge>520. small lim xs"
proof (induction xs)
  case (Cons x xs)
  then obtain lim where "520 \<le> lim" "small lim xs" by blast
  then have "520 \<le> max lim (length x)" "small (max lim (length x)) (x # xs)" by (auto simp: small_def)
  then show ?case by blast
qed (auto simp: small_def)

text \<open>A run is safe even on a stack that is too large from the start.\<close>

lemma EvalScript_clean:
  assumes c: "checker_total (sc_sigversion ctx) (sc_checker ctx)" and h: "hashes_sized ctx" and v: "sc_sigversion ctx \<noteq> TAPROOT"
    and d: "exec_ok ctx (d\<lparr>m_codeseparator_pos_init := True\<rparr>)"
  shows "clean (EvalScript ctx script stack d)"
proof -
  obtain lim where l: "520 \<le> lim" "small lim stack" using small_max by blast
  let ?P = "\<lambda>st'. state_ok ctx lim st' \<and> length (es_stack st') + length (es_altstack st') \<le> MAX_STACK_SIZE"
  let ?st = "init_state script stack d"
  have st: "state_ok ctx lim ?st"
    using d l by (auto simp: init_state_def state_ok_def exec_ok_def MAX_OPS_PER_SCRIPT_def)
  have "safeP (\<lambda>_. True) (eval_loop ctx script ?st)"
  proof (cases "GetScriptOp script")
    case None
    then show ?thesis by (simp add: eval_loop.simps)
  next
    case (Some p)
    obtain opcode vch rest where p: "p = (opcode, vch, rest)" using prod_cases3 by blast
    have "safeP (\<lambda>_. True) (bindE (eval_instr ctx opcode vch rest ?st) (eval_loop ctx rest))"
      by (rule safeP_bind [OF eval_instr_safe [OF l(1) c h v st]], rule safeP_mono [OF eval_loop_safe [OF l(1) c h v]]) simp_all
    then show ?thesis using Some p by (simp add: eval_loop.simps [of _ script])
  qed
  then have "clean (catch_all (eval_loop ctx script ?st))"
    by (auto simp: safeP_def catch_all_def set_error_def clean_def split: sum.splits script_fail.splits)
  then show ?thesis unfolding EvalScript_def using v
    by (auto simp: cxx_assert_def cxx_def intro!: clean_bind)
qed

text \<open>Sequences of operations on the condition stack, and what they mean on a list of booleans.\<close>

datatype cond_call = Cond_Push bool | Cond_Pop | Cond_Toggle

fun run_conds :: "cond_call list \<Rightarrow> ConditionStack \<Rightarrow> ConditionStack cxx" where
  "run_conds [] c = Inr c"
| "run_conds (Cond_Push b # xs) c = run_conds xs (cond_push_back b c)"
| "run_conds (Cond_Pop # xs) c = bindE (cond_pop_back c) (run_conds xs)"
| "run_conds (Cond_Toggle # xs) c = bindE (toggle_top c) (run_conds xs)"

fun spec_conds :: "cond_call list \<Rightarrow> bool list \<Rightarrow> bool list option" where
  "spec_conds [] bs = Some bs"
| "spec_conds (Cond_Push b # xs) bs = spec_conds xs (b # bs)"
| "spec_conds (Cond_Pop # xs) bs = (case bs of [] \<Rightarrow> None | _ # r \<Rightarrow> spec_conds xs r)"
| "spec_conds (Cond_Toggle # xs) bs = (case bs of [] \<Rightarrow> None | b # r \<Rightarrow> spec_conds xs ((\<not> b) # r))"

lemma run_conds_refine:
  "cond_repr c bs \<Longrightarrow> length bs + length xs < 2 ^ 32 - 1 \<Longrightarrow> spec_conds xs bs = Some bs' \<Longrightarrow>
    \<exists>c'. run_conds xs c = Inr c' \<and> cond_repr c' bs'"
proof (induction xs bs arbitrary: c rule: spec_conds.induct)
  case (2 b xs bs)
  then show ?case using cond_repr_push [of c bs b] by simp
next
  case (3 xs bs)
  then obtain b r where bs: "bs = b # r" by (cases bs) auto
  obtain c1 where "cond_pop_back c = Inr c1" "cond_repr c1 r" using cond_repr_pop 3(2) bs by blast
  then show ?case using 3(1) [OF bs] 3(3,4) bs by simp
next
  case (4 xs bs)
  then obtain b r where bs: "bs = b # r" by (cases bs) auto
  obtain c1 where "toggle_top c = Inr c1" "cond_repr c1 ((\<not> b) # r)" using cond_repr_toggle 4(2) bs by blast
  then show ?case using 4(1) [OF bs] 4(3,4) bs by simp
qed simp

end
