(* ===== verification/Sig_Hash.thy ===== *)
theory Sig_Hash
  imports Script_Flags Script_Safety
begin

text \<open>
  What signatures sign, and the checker that the script machine asks about them: the signature hashes
  of \<^verbatim>\<open>src/src/script/interpreter.cpp\<close> for bare scripts, for version 0 witnesses and for Taproot and P2MR, with
  their caches, the template hash, the lock times and the transaction checker. The hash function and
  the three verification routines are parameters.
\<close>

unbundle bit_operations_syntax

subsection \<open>Serialization for bare scripts\<close>

definition SIGHASH_DEFAULT :: byte where "SIGHASH_DEFAULT = 0"
definition SIGHASH_ALL :: byte where "SIGHASH_ALL = 1"
definition SIGHASH_NONE :: byte where "SIGHASH_NONE = 2"
definition SIGHASH_SINGLE :: byte where "SIGHASH_SINGLE = 3"
definition SIGHASH_OUTPUT_MASK :: byte where "SIGHASH_OUTPUT_MASK = 3"
definition SIGHASH_INPUT_MASK :: byte where "SIGHASH_INPUT_MASK = 0x80"

lemmas sighash_defs = SIGHASH_DEFAULT_def SIGHASH_ALL_def SIGHASH_NONE_def SIGHASH_SINGLE_def SIGHASH_OUTPUT_MASK_def
  SIGHASH_INPUT_MASK_def SIGHASH_ANYONECANPAY_def

text \<open>A hash type is an \<^verbatim>\<open>int32_t\<close>, kept as its bits.\<close>

definition fAnyoneCanPay :: "u32 \<Rightarrow> bool" where
  "fAnyoneCanPay nHashType \<longleftrightarrow> nHashType AND ucast SIGHASH_ANYONECANPAY \<noteq> 0"

definition fHashSingle :: "u32 \<Rightarrow> bool" where
  "fHashSingle nHashType \<longleftrightarrow> nHashType AND 0x1f = ucast SIGHASH_SINGLE"

definition fHashNone :: "u32 \<Rightarrow> bool" where
  "fHashNone nHashType \<longleftrightarrow> nHashType AND 0x1f = ucast SIGHASH_NONE"

text \<open>Where \<^verbatim>\<open>GetOp\<close> leaves its iterator when it fails.\<close>

definition GetScriptOp_stop :: "bytes \<Rightarrow> bytes" where
  "GetScriptOp_stop pc = (case pc of [] \<Rightarrow> []
     | opcode # r \<Rightarrow> if opcode \<le> OP_PUSHDATA4 then (case push_size opcode r of None \<Rightarrow> r | Some (nSize, r1) \<Rightarrow> r1) else r)"

function count_separators :: "bytes \<Rightarrow> nat" where
  "count_separators it = (case GetScriptOp it of None \<Rightarrow> 0
     | Some (opcode, _, rest) \<Rightarrow> (if opcode = OP_CODESEPARATOR then 1 else 0) + count_separators rest)"
  by pat_completeness auto
termination by (relation "measure length") (auto dest: GetScriptOp_progress)

function write_code :: "bytes \<Rightarrow> bytes \<Rightarrow> bytes" where
  "write_code itBegin it = (case GetScriptOp it of
       None \<Rightarrow> if itBegin \<noteq> [] then take (length itBegin - length (GetScriptOp_stop it)) itBegin else []
     | Some (opcode, _, rest) \<Rightarrow>
        if opcode = OP_CODESEPARATOR then take (length itBegin - length rest - 1) itBegin @ write_code rest rest
        else write_code itBegin rest)"
  by pat_completeness auto
termination by (relation "measure (length \<circ> snd)") (auto dest: GetScriptOp_progress)

declare count_separators.simps [simp del] write_code.simps [simp del]

definition SerializeScriptCode :: "CScript \<Rightarrow> bytes" where
  "SerializeScriptCode scriptCode =
    WriteCompactSize (of_nat (length scriptCode - count_separators scriptCode)) @ write_code scriptCode scriptCode"

definition SerializeInput :: "CTransaction \<Rightarrow> CScript \<Rightarrow> nat \<Rightarrow> u32 \<Rightarrow> nat \<Rightarrow> bytes" where
  "SerializeInput txTo scriptCode nIn nHashType nInput0 =
    (let nInput = (if fAnyoneCanPay nHashType then nIn else nInput0) in
     ser_COutPoint (txin_prevout (tx_vin txTo ! nInput)) @
     (if nInput \<noteq> nIn then ser_bytes [] else SerializeScriptCode scriptCode) @
     (if nInput \<noteq> nIn \<and> (fHashSingle nHashType \<or> fHashNone nHashType) then ser_writedata32 0
      else ser_writedata32 (txin_nSequence (tx_vin txTo ! nInput))))"

definition SerializeOutput :: "CTransaction \<Rightarrow> nat \<Rightarrow> u32 \<Rightarrow> nat \<Rightarrow> bytes" where
  "SerializeOutput txTo nIn nHashType nOutput =
    (if fHashSingle nHashType \<and> nOutput \<noteq> nIn then ser_CTxOut CTxOut_null else ser_CTxOut (tx_vout txTo ! nOutput))"

definition SerializeForSignature :: "CTransaction \<Rightarrow> CScript \<Rightarrow> nat \<Rightarrow> u32 \<Rightarrow> bytes" where
  "SerializeForSignature txTo scriptCode nIn nHashType =
    (let nInputs = (if fAnyoneCanPay nHashType then 1 else length (tx_vin txTo));
         nOutputs = (if fHashNone nHashType then 0 else if fHashSingle nHashType then nIn + 1 else length (tx_vout txTo)) in
     ser_writedata32 (tx_version txTo) @
     WriteCompactSize (of_nat nInputs) @ concat (map (SerializeInput txTo scriptCode nIn nHashType) [0..<nInputs]) @
     WriteCompactSize (of_nat nOutputs) @ concat (map (SerializeOutput txTo nIn nHashType) [0..<nOutputs]) @
     ser_writedata32 (tx_nLockTime txTo))"

subsection \<open>Precomputed data\<close>

definition GetHash :: "(bytes \<Rightarrow> bytes) \<Rightarrow> HashWriter \<Rightarrow> uint256" where
  "GetHash sha w = sha (sha w)"

definition SHA256Uint256 :: "(bytes \<Rightarrow> bytes) \<Rightarrow> uint256 \<Rightarrow> uint256" where
  "SHA256Uint256 sha input = sha input"

definition GetPrevoutsSHA256 :: "(bytes \<Rightarrow> bytes) \<Rightarrow> CTransaction \<Rightarrow> uint256" where
  "GetPrevoutsSHA256 sha txTo = GetSHA256 sha (concat (map (\<lambda>txin. ser_COutPoint (txin_prevout txin)) (tx_vin txTo)))"

definition GetSequencesSHA256 :: "(bytes \<Rightarrow> bytes) \<Rightarrow> CTransaction \<Rightarrow> uint256" where
  "GetSequencesSHA256 sha txTo = GetSHA256 sha (concat (map (\<lambda>txin. ser_writedata32 (txin_nSequence txin)) (tx_vin txTo)))"

definition GetScriptSigsSHA256 :: "(bytes \<Rightarrow> bytes) \<Rightarrow> CTransaction \<Rightarrow> uint256" where
  "GetScriptSigsSHA256 sha txTo = GetSHA256 sha (concat (map (\<lambda>txin. ser_bytes (txin_scriptSig txin)) (tx_vin txTo)))"

definition HasNonEmptyScriptSigs :: "CTransaction \<Rightarrow> bool" where
  "HasNonEmptyScriptSigs txTo \<longleftrightarrow> list_ex (\<lambda>txin. txin_scriptSig txin \<noteq> []) (tx_vin txTo)"

definition GetOutputsSHA256 :: "(bytes \<Rightarrow> bytes) \<Rightarrow> CTransaction \<Rightarrow> uint256" where
  "GetOutputsSHA256 sha txTo = GetSHA256 sha (concat (map ser_CTxOut (tx_vout txTo)))"

definition GetSpentAmountsSHA256 :: "(bytes \<Rightarrow> bytes) \<Rightarrow> CTxOut list \<Rightarrow> uint256" where
  "GetSpentAmountsSHA256 sha outputs_spent = GetSHA256 sha (concat (map (\<lambda>txout. ser_i64 (txout_nValue txout)) outputs_spent))"

definition GetSpentScriptsSHA256 :: "(bytes \<Rightarrow> bytes) \<Rightarrow> CTxOut list \<Rightarrow> uint256" where
  "GetSpentScriptsSHA256 sha outputs_spent = GetSHA256 sha (concat (map (\<lambda>txout. ser_bytes (txout_scriptPubKey txout)) outputs_spent))"

record PrecomputedTransactionData =
  m_prevouts_single_hash :: uint256
  m_sequences_single_hash :: uint256
  m_outputs_single_hash :: uint256
  m_spent_amounts_single_hash :: uint256
  m_spent_scripts_single_hash :: uint256
  m_bip341_taproot_ready :: bool
  m_ctv_script_sigs_single_hash :: uint256
  m_ctv_has_nonempty_script_sigs :: bool
  m_ctv_ready :: bool
  hashPrevouts :: uint256
  hashSequence :: uint256
  hashOutputs :: uint256
  m_bip143_segwit_ready :: bool
  m_spent_outputs :: "CTxOut list"
  m_spent_outputs_ready :: bool

definition new_txdata :: PrecomputedTransactionData where
  "new_txdata = \<lparr>m_prevouts_single_hash = uint256_null, m_sequences_single_hash = uint256_null,
     m_outputs_single_hash = uint256_null, m_spent_amounts_single_hash = uint256_null,
     m_spent_scripts_single_hash = uint256_null, m_bip341_taproot_ready = False,
     m_ctv_script_sigs_single_hash = uint256_null, m_ctv_has_nonempty_script_sigs = False, m_ctv_ready = False,
     hashPrevouts = uint256_null, hashSequence = uint256_null, hashOutputs = uint256_null,
     m_bip143_segwit_ready = False, m_spent_outputs = [], m_spent_outputs_ready = False\<rparr>"

text \<open>The features an input uses: version 0, Taproot style, template.\<close>

type_synonym features = "bool \<times> bool \<times> bool"

definition input_features :: "CTxIn \<Rightarrow> CTxOut option \<Rightarrow> features \<Rightarrow> features" where
  "input_features txin spent f = (case f of (segwit, taproot, ctv) \<Rightarrow>
    if txin_witness txin = [] then f
    else case (case spent of None \<Rightarrow> None | Some out \<Rightarrow> IsWitnessProgram (txout_scriptPubKey out)) of
       Some (v, program) \<Rightarrow>
         if (v = 1 \<and> length program = 32) \<or> (v = 2 \<and> length program = 32) then (segwit, True, ctv \<or> v = 2)
         else (True, taproot, ctv)
     | None \<Rightarrow> (True, taproot, ctv))"

fun scan_features :: "CTxIn list \<Rightarrow> CTxOut option list \<Rightarrow> features \<Rightarrow> features" where
  "scan_features (txin # vin) (spent # outs) f =
    (if fst f \<and> fst (snd f) \<and> snd (snd f) then f else scan_features vin outs (input_features txin spent f))"
| "scan_features _ _ f = f"

definition txdata_Init :: "(bytes \<Rightarrow> bytes) \<Rightarrow> PrecomputedTransactionData \<Rightarrow> CTransaction \<Rightarrow> CTxOut list \<Rightarrow> bool \<Rightarrow> PrecomputedTransactionData cxx" where
  "txdata_Init sha d txTo spent_outputs force =
    bindE (cxx_assert (\<not> m_spent_outputs_ready d)) (\<lambda>_.
    bindE (if spent_outputs \<noteq> [] then cxx_assert (length spent_outputs = length (tx_vin txTo)) else Inr ()) (\<lambda>_.
    let ready = (spent_outputs \<noteq> []);
        d1 = d\<lparr>m_spent_outputs := spent_outputs, m_spent_outputs_ready := ready\<rparr>;
        outs = (if ready then map Some spent_outputs else map (\<lambda>_. None) (tx_vin txTo)) in
    case scan_features (tx_vin txTo) outs (force, force, force) of (uses_bip143_segwit, uses_bip341_taproot, uses_ctv) \<Rightarrow>
    let d2 = (if uses_bip143_segwit \<or> uses_bip341_taproot \<or> uses_ctv
              then d1\<lparr>m_prevouts_single_hash := GetPrevoutsSHA256 sha txTo, m_sequences_single_hash := GetSequencesSHA256 sha txTo,
                m_outputs_single_hash := GetOutputsSHA256 sha txTo\<rparr> else d1);
        d3 = (if uses_bip143_segwit
              then d2\<lparr>hashPrevouts := SHA256Uint256 sha (m_prevouts_single_hash d2), hashSequence := SHA256Uint256 sha (m_sequences_single_hash d2),
                hashOutputs := SHA256Uint256 sha (m_outputs_single_hash d2), m_bip143_segwit_ready := True\<rparr> else d2);
        d4 = (if uses_bip341_taproot \<and> ready
              then d3\<lparr>m_spent_amounts_single_hash := GetSpentAmountsSHA256 sha spent_outputs,
                m_spent_scripts_single_hash := GetSpentScriptsSHA256 sha spent_outputs, m_bip341_taproot_ready := True\<rparr> else d3);
        d5 = (if uses_ctv
              then (let n = HasNonEmptyScriptSigs txTo in
                (if n then d4\<lparr>m_ctv_script_sigs_single_hash := GetScriptSigsSHA256 sha txTo\<rparr> else d4)
                  \<lparr>m_ctv_has_nonempty_script_sigs := n, m_ctv_ready := True\<rparr>) else d4) in
    Inr d5))"

subsection \<open>Template hash\<close>

definition GetDefaultCheckTemplateVerifyHash ::
  "(bytes \<Rightarrow> bytes) \<Rightarrow> CTransaction \<Rightarrow> u32 \<Rightarrow> PrecomputedTransactionData \<Rightarrow> uint256 cxx" where
  "GetDefaultCheckTemplateVerifyHash sha tx_to input_index cache =
    bindE (cxx_assert (unat input_index < length (tx_vin tx_to))) (\<lambda>_.
    bindE (cxx_assert (length (tx_vin tx_to) \<le> 2 ^ 32 - 1)) (\<lambda>_.
    bindE (cxx_assert (length (tx_vout tx_to) \<le> 2 ^ 32 - 1)) (\<lambda>_.
    bindE (cxx_assert (m_ctv_ready cache)) (\<lambda>_.
    Inr (GetSHA256 sha (ser_writedata32 (tx_version tx_to) @ ser_writedata32 (tx_nLockTime tx_to) @
      (if m_ctv_has_nonempty_script_sigs cache then m_ctv_script_sigs_single_hash cache else []) @
      ser_writedata32 (of_nat (length (tx_vin tx_to))) @ m_sequences_single_hash cache @
      ser_writedata32 (of_nat (length (tx_vout tx_to))) @ m_outputs_single_hash cache @
      ser_writedata32 input_index))))))"

subsection \<open>Taproot and P2MR signature hashes\<close>

datatype MissingDataBehavior = ASSERT_FAIL | FAIL

definition HandleMissingData :: "MissingDataBehavior \<Rightarrow> bool cxx" where
  "HandleMissingData mdb = (case mdb of ASSERT_FAIL \<Rightarrow> Inl Assert_Failure | FAIL \<Rightarrow> Inr False)"

text \<open>
  The transaction part and the input part of the message; None where the code returns false. The output
  hash is kept in the execution data for later calls.
\<close>

definition schnorr_tx_data :: "CTransaction \<Rightarrow> byte \<Rightarrow> PrecomputedTransactionData \<Rightarrow> byte \<Rightarrow> byte \<Rightarrow> bytes" where
  "schnorr_tx_data tx_to hash_type cache input_type output_type =
    [0] @ [hash_type] @ ser_writedata32 (tx_version tx_to) @ ser_writedata32 (tx_nLockTime tx_to) @
    (if input_type \<noteq> SIGHASH_ANYONECANPAY
     then m_prevouts_single_hash cache @ m_spent_amounts_single_hash cache @ m_spent_scripts_single_hash cache @ m_sequences_single_hash cache
     else []) @
    (if output_type = SIGHASH_ALL then m_outputs_single_hash cache else [])"

definition schnorr_input_data :: "CTransaction \<Rightarrow> u32 \<Rightarrow> PrecomputedTransactionData \<Rightarrow> ScriptExecutionData \<Rightarrow> byte \<Rightarrow> byte \<Rightarrow> bytes" where
  "schnorr_input_data tx_to in_pos cache execdata ext_flag input_type =
    [push_bit 1 ext_flag + (if m_annex_present execdata then 1 else 0)] @
    (if input_type = SIGHASH_ANYONECANPAY
     then ser_COutPoint (txin_prevout (tx_vin tx_to ! unat in_pos)) @ ser_CTxOut (m_spent_outputs cache ! unat in_pos) @
       ser_writedata32 (txin_nSequence (tx_vin tx_to ! unat in_pos))
     else ser_writedata32 in_pos) @
    (if m_annex_present execdata then m_annex_hash execdata else [])"

definition schnorr_output_hash :: "(bytes \<Rightarrow> bytes) \<Rightarrow> CTransaction \<Rightarrow> u32 \<Rightarrow> ScriptExecutionData \<Rightarrow> uint256" where
  "schnorr_output_hash sha tx_to in_pos execdata = (case m_output_hash execdata of
     Some h \<Rightarrow> h | None \<Rightarrow> GetSHA256 sha (ser_CTxOut (tx_vout tx_to ! unat in_pos)))"

definition schnorr_script_data :: "SigVersion \<Rightarrow> ScriptExecutionData \<Rightarrow> bytes cxx" where
  "schnorr_script_data sigversion execdata =
    (if sigversion = TAPSCRIPT \<or> sigversion = P2MR
     then bindE (cxx_assert (m_tapleaf_hash_init execdata)) (\<lambda>_.
       bindE (cxx_assert (m_codeseparator_pos_init execdata)) (\<lambda>_.
       Inr (m_tapleaf_hash execdata @ [0] @ ser_writedata32 (m_codeseparator_pos execdata))))
     else Inr [])"

definition SignatureHashSchnorrCommon ::
  "(bytes \<Rightarrow> bytes) \<Rightarrow> ScriptExecutionData \<Rightarrow> CTransaction \<Rightarrow> u32 \<Rightarrow> byte \<Rightarrow> SigVersion \<Rightarrow> PrecomputedTransactionData \<Rightarrow>
   MissingDataBehavior \<Rightarrow> HashWriter \<Rightarrow> (uint256 \<times> ScriptExecutionData) option cxx" where
  "SignatureHashSchnorrCommon sha execdata tx_to in_pos hash_type sigversion cache mdb sighash_hasher =
    bindE (case sigversion of TAPROOT \<Rightarrow> Inr 0 | TAPSCRIPT \<Rightarrow> Inr 1 | P2MR \<Rightarrow> Inr 1 | _ \<Rightarrow> Inl Assert_Failure) (\<lambda>ext_flag.
    bindE (cxx_assert (unat in_pos < length (tx_vin tx_to))) (\<lambda>_.
    if \<not> (m_bip341_taproot_ready cache \<and> m_spent_outputs_ready cache) then bindE (HandleMissingData mdb) (\<lambda>_. Inr None)
    else
      let output_type = (if hash_type = SIGHASH_DEFAULT then SIGHASH_ALL else hash_type AND SIGHASH_OUTPUT_MASK);
          input_type = hash_type AND SIGHASH_INPUT_MASK in
      if \<not> (hash_type \<le> 0x03 \<or> (hash_type \<ge> 0x81 \<and> hash_type \<le> 0x83)) then Inr None
      else bindE (cxx_assert (m_annex_init execdata)) (\<lambda>_.
        if output_type = SIGHASH_SINGLE \<and> unat in_pos \<ge> length (tx_vout tx_to) then Inr None
        else
          let execdata1 = (if output_type = SIGHASH_SINGLE
                then execdata\<lparr>m_output_hash := Some (schnorr_output_hash sha tx_to in_pos execdata)\<rparr> else execdata) in
          bindE (schnorr_script_data sigversion execdata1) (\<lambda>script_data.
          Inr (Some (GetSHA256 sha (sighash_hasher @ schnorr_tx_data tx_to hash_type cache input_type output_type @
              schnorr_input_data tx_to in_pos cache execdata ext_flag input_type @
              (if output_type = SIGHASH_SINGLE then schnorr_output_hash sha tx_to in_pos execdata else []) @ script_data), execdata1))))))"

definition SignatureHashSchnorr ::
  "(bytes \<Rightarrow> bytes) \<Rightarrow> ScriptExecutionData \<Rightarrow> CTransaction \<Rightarrow> u32 \<Rightarrow> byte \<Rightarrow> SigVersion \<Rightarrow> PrecomputedTransactionData \<Rightarrow>
   MissingDataBehavior \<Rightarrow> (uint256 \<times> ScriptExecutionData) option cxx" where
  "SignatureHashSchnorr sha execdata tx_to in_pos hash_type sigversion cache mdb =
    bindE (cxx_assert (sigversion = TAPROOT \<or> sigversion = TAPSCRIPT)) (\<lambda>_.
    SignatureHashSchnorrCommon sha execdata tx_to in_pos hash_type sigversion cache mdb (TaggedHash sha ''TapSighash''))"

definition SignatureHashP2MR ::
  "(bytes \<Rightarrow> bytes) \<Rightarrow> ScriptExecutionData \<Rightarrow> CTransaction \<Rightarrow> u32 \<Rightarrow> byte \<Rightarrow> PrecomputedTransactionData \<Rightarrow>
   MissingDataBehavior \<Rightarrow> (uint256 \<times> ScriptExecutionData) option cxx" where
  "SignatureHashP2MR sha execdata tx_to in_pos hash_type cache mdb =
    SignatureHashSchnorrCommon sha execdata tx_to in_pos hash_type P2MR cache mdb (TaggedHash sha ''P2MRSighash'')"

subsection \<open>Signature hashes with a cache of midstates\<close>

type_synonym SigHashCache = "(CScript \<times> HashWriter) option list"

definition new_SigHashCache :: SigHashCache where
  "new_SigHashCache = replicate 6 None"

definition CacheIndex :: "u32 \<Rightarrow> nat" where
  "CacheIndex hash_type = 3 * of_bool (fAnyoneCanPay hash_type) + 2 * of_bool (fHashSingle hash_type) + 1 * of_bool (fHashNone hash_type)"

definition SigHashCache_Load :: "SigHashCache \<Rightarrow> u32 \<Rightarrow> CScript \<Rightarrow> HashWriter option" where
  "SigHashCache_Load entries hash_type script_code = (case entries ! CacheIndex hash_type of
     Some (code, w) \<Rightarrow> if script_code = code then Some w else None | None \<Rightarrow> None)"

definition SigHashCache_Store :: "SigHashCache \<Rightarrow> u32 \<Rightarrow> CScript \<Rightarrow> HashWriter \<Rightarrow> SigHashCache" where
  "SigHashCache_Store entries hash_type script_code writer = entries[CacheIndex hash_type := Some (script_code, writer)]"

definition uint256_ONE :: uint256 where
  "uint256_ONE = 1 # replicate 31 0"

text \<open>What is hashed before the hash type, for version 0 witnesses and for bare scripts.\<close>

definition witness_v0_message ::
  "(bytes \<Rightarrow> bytes) \<Rightarrow> CScript \<Rightarrow> CTransaction \<Rightarrow> u32 \<Rightarrow> u32 \<Rightarrow> CAmount \<Rightarrow> PrecomputedTransactionData option \<Rightarrow> bytes" where
  "witness_v0_message sha scriptCode txTo nIn nHashType amount cache =
    (let cacheready = (case cache of None \<Rightarrow> False | Some d \<Rightarrow> m_bip143_segwit_ready d);
         all = (\<not> fHashSingle nHashType \<and> \<not> fHashNone nHashType);
         prevouts = (if \<not> fAnyoneCanPay nHashType
           then (if cacheready then hashPrevouts (the cache) else SHA256Uint256 sha (GetPrevoutsSHA256 sha txTo)) else uint256_null);
         sequences = (if \<not> fAnyoneCanPay nHashType \<and> all
           then (if cacheready then hashSequence (the cache) else SHA256Uint256 sha (GetSequencesSHA256 sha txTo)) else uint256_null);
         outputs = (if all then (if cacheready then hashOutputs (the cache) else SHA256Uint256 sha (GetOutputsSHA256 sha txTo))
           else if fHashSingle nHashType \<and> unat nIn < length (tx_vout txTo) then GetHash sha (ser_CTxOut (tx_vout txTo ! unat nIn))
           else uint256_null) in
     ser_writedata32 (tx_version txTo) @ prevouts @ sequences @ ser_COutPoint (txin_prevout (tx_vin txTo ! unat nIn)) @
     ser_bytes scriptCode @ ser_i64 amount @ ser_writedata32 (txin_nSequence (tx_vin txTo ! unat nIn)) @ outputs @
     ser_writedata32 (tx_nLockTime txTo))"

definition signature_message ::
  "(bytes \<Rightarrow> bytes) \<Rightarrow> CScript \<Rightarrow> CTransaction \<Rightarrow> u32 \<Rightarrow> u32 \<Rightarrow> CAmount \<Rightarrow> SigVersion \<Rightarrow> PrecomputedTransactionData option \<Rightarrow> bytes" where
  "signature_message sha scriptCode txTo nIn nHashType amount sigversion cache =
    (if sigversion = WITNESS_V0 then witness_v0_message sha scriptCode txTo nIn nHashType amount cache
     else SerializeForSignature txTo scriptCode (unat nIn) nHashType)"

definition SignatureHash ::
  "(bytes \<Rightarrow> bytes) \<Rightarrow> CScript \<Rightarrow> CTransaction \<Rightarrow> u32 \<Rightarrow> u32 \<Rightarrow> CAmount \<Rightarrow> SigVersion \<Rightarrow> PrecomputedTransactionData option \<Rightarrow>
   SigHashCache option \<Rightarrow> (uint256 \<times> SigHashCache option) cxx" where
  "SignatureHash sha scriptCode txTo nIn nHashType amount sigversion cache sighash_cache =
    bindE (cxx_assert (unat nIn < length (tx_vin txTo))) (\<lambda>_.
    if sigversion \<noteq> WITNESS_V0 \<and> fHashSingle nHashType \<and> unat nIn \<ge> length (tx_vout txTo) then Inr (uint256_ONE, sighash_cache)
    else case (case sighash_cache of None \<Rightarrow> None | Some c \<Rightarrow> SigHashCache_Load c nHashType scriptCode) of
      Some ss \<Rightarrow> Inr (GetHash sha (ss @ ser_writedata32 nHashType), sighash_cache)
    | None \<Rightarrow>
      let ss = signature_message sha scriptCode txTo nIn nHashType amount sigversion cache in
      Inr (GetHash sha (ss @ ser_writedata32 nHashType), map_option (\<lambda>c. SigHashCache_Store c nHashType scriptCode ss) sighash_cache))"

subsection \<open>The transaction checker\<close>

text \<open>The verification routines take the key, the hash and the signature. The transaction is always given.\<close>

record checker_crypto =
  cc_sha256 :: "bytes \<Rightarrow> bytes"
  VerifyECDSASignature :: "bytes \<Rightarrow> uint256 \<Rightarrow> bytes \<Rightarrow> bool"
  VerifySchnorrSignature :: "bytes \<Rightarrow> uint256 \<Rightarrow> bytes \<Rightarrow> bool"
  VerifyPQCSignature :: "bytes \<Rightarrow> uint256 \<Rightarrow> bytes \<Rightarrow> bool"

record GenericTransactionSignatureChecker =
  gc_txTo :: CTransaction
  gc_mdb :: MissingDataBehavior
  gc_nIn :: u32
  gc_amount :: CAmount
  gc_txdata :: "PrecomputedTransactionData option"

definition GetLen :: "byte \<Rightarrow> nat" where
  "GetLen chHeader = (if chHeader = 2 \<or> chHeader = 3 then 33 else if chHeader = 4 \<or> chHeader = 6 \<or> chHeader = 7 then 65 else 0)"

definition CPubKey_IsValid :: "bytes \<Rightarrow> bool" where
  "CPubKey_IsValid vch \<longleftrightarrow> vch \<noteq> [] \<and> GetLen (vch ! 0) \<noteq> 0 \<and> GetLen (vch ! 0) = length vch"

definition gc_CheckECDSASignature ::
  "checker_crypto \<Rightarrow> GenericTransactionSignatureChecker \<Rightarrow> SigHashCache \<Rightarrow> valtype \<Rightarrow> valtype \<Rightarrow> CScript \<Rightarrow> SigVersion \<Rightarrow>
   (bool \<times> SigHashCache) cxx" where
  "gc_CheckECDSASignature cc g m_sighash_cache vchSigIn vchPubKey scriptCode sigversion =
    (if \<not> CPubKey_IsValid vchPubKey then Inr (False, m_sighash_cache)
     else if vchSigIn = [] then Inr (False, m_sighash_cache)
     else if sigversion = WITNESS_V0 \<and> gc_amount g < 0 then bindE (HandleMissingData (gc_mdb g)) (\<lambda>r. Inr (r, m_sighash_cache))
     else bindE (SignatureHash (cc_sha256 cc) scriptCode (gc_txTo g) (gc_nIn g) (ucast (last vchSigIn)) (gc_amount g) sigversion
         (gc_txdata g) (Some m_sighash_cache)) (\<lambda>(sighash, c).
       Inr (VerifyECDSASignature cc vchPubKey sighash (butlast vchSigIn), the c)))"

definition gc_CheckSchnorrSignature ::
  "checker_crypto \<Rightarrow> GenericTransactionSignatureChecker \<Rightarrow> valtype \<Rightarrow> valtype \<Rightarrow> SigVersion \<Rightarrow> ScriptExecutionData \<Rightarrow> ScriptExecutionData script" where
  "gc_CheckSchnorrSignature cc g sig0 pubkey_in sigversion execdata =
    bindE (cxx (cxx_assert (sigversion = TAPROOT \<or> sigversion = TAPSCRIPT))) (\<lambda>_.
    bindE (cxx (cxx_assert (length pubkey_in = 32))) (\<lambda>_.
    if length sig0 \<noteq> 64 \<and> length sig0 \<noteq> 65 then set_error SCRIPT_ERR_SCHNORR_SIG_SIZE
    else
      let sig = (if length sig0 = 65 then butlast sig0 else sig0);
          hashtype = (if length sig0 = 65 then last sig0 else SIGHASH_DEFAULT) in
      if length sig0 = 65 \<and> hashtype = SIGHASH_DEFAULT then set_error SCRIPT_ERR_SCHNORR_SIG_HASHTYPE
      else case gc_txdata g of None \<Rightarrow> bindE (cxx (HandleMissingData (gc_mdb g))) (\<lambda>_. Inl Error_Unset)
      | Some txdata \<Rightarrow>
        bindE (cxx (SignatureHashSchnorr (cc_sha256 cc) execdata (gc_txTo g) (gc_nIn g) hashtype sigversion txdata (gc_mdb g))) (\<lambda>r.
        case r of None \<Rightarrow> set_error SCRIPT_ERR_SCHNORR_SIG_HASHTYPE
        | Some (sighash, execdata1) \<Rightarrow>
          if \<not> VerifySchnorrSignature cc pubkey_in sighash sig then set_error SCRIPT_ERR_SCHNORR_SIG else Inr execdata1)))"

definition gc_CheckPQCSignature ::
  "checker_crypto \<Rightarrow> GenericTransactionSignatureChecker \<Rightarrow> valtype \<Rightarrow> valtype \<Rightarrow> SigVersion \<Rightarrow> ScriptExecutionData \<Rightarrow> ScriptExecutionData script" where
  "gc_CheckPQCSignature cc g sig0 pubkey_in sigversion execdata =
    bindE (cxx (cxx_assert (sigversion = P2MR))) (\<lambda>_.
    bindE (cxx (cxx_assert (length pubkey_in = PQC_PUBKEY_SIZE))) (\<lambda>_.
    if length sig0 \<noteq> PQC_SIG_SIZE \<and> length sig0 \<noteq> PQC_SIG_SIZE + 1 then set_error SCRIPT_ERR_P2MR_SIG_SIZE
    else
      let sig = (if length sig0 = PQC_SIG_SIZE + 1 then butlast sig0 else sig0);
          hashtype = (if length sig0 = PQC_SIG_SIZE + 1 then last sig0 else SIGHASH_DEFAULT) in
      if length sig0 = PQC_SIG_SIZE + 1 \<and> hashtype = SIGHASH_DEFAULT then set_error SCRIPT_ERR_P2MR_SIG_HASHTYPE
      else case gc_txdata g of None \<Rightarrow> bindE (cxx (HandleMissingData (gc_mdb g))) (\<lambda>_. Inl Error_Unset)
      | Some txdata \<Rightarrow>
        bindE (cxx (SignatureHashP2MR (cc_sha256 cc) execdata (gc_txTo g) (gc_nIn g) hashtype txdata (gc_mdb g))) (\<lambda>r.
        case r of None \<Rightarrow> set_error SCRIPT_ERR_P2MR_SIG_HASHTYPE
        | Some (sighash, execdata1) \<Rightarrow>
          if \<not> VerifyPQCSignature cc pubkey_in sighash sig then set_error SCRIPT_ERR_P2MR_SIG else Inr execdata1)))"

definition gc_CheckTemplateVerifyHash :: "checker_crypto \<Rightarrow> GenericTransactionSignatureChecker \<Rightarrow> valtype \<Rightarrow> unit script" where
  "gc_CheckTemplateVerifyHash cc g expected =
    bindE (cxx (cxx_assert (length expected = 32))) (\<lambda>_.
    if (case gc_txdata g of None \<Rightarrow> True | Some d \<Rightarrow> \<not> m_ctv_ready d) \<or> unat (gc_nIn g) \<ge> length (tx_vin (gc_txTo g))
    then bindE (cxx (HandleMissingData (gc_mdb g))) (\<lambda>_. Inl Error_Unset)
    else bindE (cxx (GetDefaultCheckTemplateVerifyHash (cc_sha256 cc) (gc_txTo g) (gc_nIn g) (the (gc_txdata g)))) (\<lambda>actual.
      if expected \<noteq> actual then set_error SCRIPT_ERR_TEMPLATE_MISMATCH else Inr ()))"

definition LOCKTIME_THRESHOLD :: int where "LOCKTIME_THRESHOLD = 500000000"
definition SEQUENCE_FINAL :: u32 where "SEQUENCE_FINAL = 0xffffffff"
definition SEQUENCE_LOCKTIME_TYPE_FLAG :: u32 where "SEQUENCE_LOCKTIME_TYPE_FLAG = push_bit 22 1"
definition SEQUENCE_LOCKTIME_MASK :: u32 where "SEQUENCE_LOCKTIME_MASK = 0x0000ffff"

definition gc_CheckLockTime :: "GenericTransactionSignatureChecker \<Rightarrow> int \<Rightarrow> bool" where
  "gc_CheckLockTime g nLockTime =
    (let txLockTime = uint (tx_nLockTime (gc_txTo g)) in
     if \<not> ((txLockTime < LOCKTIME_THRESHOLD \<and> nLockTime < LOCKTIME_THRESHOLD) \<or>
           (txLockTime \<ge> LOCKTIME_THRESHOLD \<and> nLockTime \<ge> LOCKTIME_THRESHOLD)) then False
     else if nLockTime > txLockTime then False
     else if SEQUENCE_FINAL = txin_nSequence (tx_vin (gc_txTo g) ! unat (gc_nIn g)) then False
     else True)"

definition gc_CheckSequence :: "GenericTransactionSignatureChecker \<Rightarrow> int \<Rightarrow> bool" where
  "gc_CheckSequence g nSequence =
    (let txToSequence = uint (txin_nSequence (tx_vin (gc_txTo g) ! unat (gc_nIn g)));
         nLockTimeMask = uint (SEQUENCE_LOCKTIME_TYPE_FLAG OR SEQUENCE_LOCKTIME_MASK);
         typ = uint SEQUENCE_LOCKTIME_TYPE_FLAG in
     if tx_version (gc_txTo g) < 2 then False
     else if txToSequence AND uint SEQUENCE_LOCKTIME_DISABLE_FLAG \<noteq> 0 then False
     else
       let txToSequenceMasked = txToSequence AND nLockTimeMask; nSequenceMasked = nSequence AND nLockTimeMask in
       if \<not> ((txToSequenceMasked < typ \<and> nSequenceMasked < typ) \<or> (txToSequenceMasked \<ge> typ \<and> nSequenceMasked \<ge> typ)) then False
       else if nSequenceMasked > txToSequenceMasked then False
       else True)"

text \<open>
  The checker as the script machine sees it. Every call starts from an empty cache of midstates; the
  lemmas below show that the cache a real object carries along changes no answer.
\<close>

definition TransactionSignatureChecker :: "checker_crypto \<Rightarrow> GenericTransactionSignatureChecker \<Rightarrow> BaseSignatureChecker" where
  "TransactionSignatureChecker cc g = \<lparr>
     CheckECDSASignature = (\<lambda>sig key code sv. bindE (gc_CheckECDSASignature cc g new_SigHashCache sig key code sv) (\<lambda>(b, _). Inr b)),
     CheckSchnorrSignature = gc_CheckSchnorrSignature cc g,
     CheckPQCSignature = gc_CheckPQCSignature cc g,
     CheckTemplateVerifyHash = gc_CheckTemplateVerifyHash cc g,
     CheckLockTime = gc_CheckLockTime g,
     CheckSequence = gc_CheckSequence g\<rparr>"

subsection \<open>The caches change no signature hash\<close>

lemma CacheIndex_less: "CacheIndex ht < 6"
  by (cases "fHashSingle ht") (auto simp: CacheIndex_def fHashSingle_def fHashNone_def sighash_defs of_bool_def)

lemma CacheIndex_mode:
  assumes "CacheIndex a = CacheIndex b"
  shows "fAnyoneCanPay a = fAnyoneCanPay b" "fHashSingle a = fHashSingle b" "fHashNone a = fHashNone b"
proof -
  have "\<not> (fHashSingle x \<and> fHashNone x)" for x by (auto simp: fHashSingle_def fHashNone_def sighash_defs)
  then show "fAnyoneCanPay a = fAnyoneCanPay b" "fHashSingle a = fHashSingle b" "fHashNone a = fHashNone b"
    using assms by (auto simp: CacheIndex_def of_bool_def split: if_splits)
qed

lemma signature_message_mode:
  assumes "CacheIndex a = CacheIndex b"
  shows "signature_message sha code tx n a amt sv pre = signature_message sha code tx n b amt sv pre"
  by (simp add: signature_message_def witness_v0_message_def SerializeForSignature_def SerializeInput_def [abs_def]
    SerializeOutput_def [abs_def] CacheIndex_mode [OF assms])

definition cache_ok :: "(CScript \<Rightarrow> u32 \<Rightarrow> bytes) \<Rightarrow> SigHashCache \<Rightarrow> bool" where
  "cache_ok msg c \<longleftrightarrow> length c = 6 \<and> (\<forall>code w ht. c ! CacheIndex ht = Some (code, w) \<longrightarrow> w = msg code ht)"

lemma cache_ok_new: "cache_ok msg new_SigHashCache"
  by (simp add: cache_ok_def new_SigHashCache_def CacheIndex_less)

lemma SignatureHash_cached:
  assumes c: "cache_ok (\<lambda>code ht. signature_message sha code tx n ht amt sv pre) c" and n: "unat n < length (tx_vin tx)"
  shows "\<exists>h c'. SignatureHash sha code tx n ht amt sv pre None = Inr (h, None) \<and>
    SignatureHash sha code tx n ht amt sv pre (Some c) = Inr (h, Some c') \<and>
    cache_ok (\<lambda>code ht. signature_message sha code tx n ht amt sv pre) c'"
proof (cases "SigHashCache_Load c ht code")
  case None
  have "cache_ok (\<lambda>code ht. signature_message sha code tx n ht amt sv pre)
      (SigHashCache_Store c ht code (signature_message sha code tx n ht amt sv pre))"
    using c by (auto simp: cache_ok_def SigHashCache_Store_def nth_list_update CacheIndex_less intro: signature_message_mode)
  then show ?thesis using None n c by (auto simp: SignatureHash_def cxx_assert_def Let_def)
next
  case (Some w)
  then have "w = signature_message sha code tx n ht amt sv pre"
    using c by (auto simp: SigHashCache_Load_def cache_ok_def split: option.splits if_splits)
  then show ?thesis using Some n c by (auto simp: SignatureHash_def cxx_assert_def Let_def)
qed

text \<open>
  The checks of one input thread the cache of the checker. Their answers are those of checks that each
  start from an empty cache.
\<close>

fun ecdsa_checks ::
  "checker_crypto \<Rightarrow> GenericTransactionSignatureChecker \<Rightarrow> SigVersion \<Rightarrow> SigHashCache \<Rightarrow> (valtype \<times> valtype \<times> CScript) list \<Rightarrow> bool list cxx" where
  "ecdsa_checks cc g sv c [] = Inr []"
| "ecdsa_checks cc g sv c ((sig, key, code) # qs) =
    bindE (gc_CheckECDSASignature cc g c sig key code sv) (\<lambda>(b, c'). bindE (ecdsa_checks cc g sv c' qs) (\<lambda>bs. Inr (b # bs)))"

lemma gc_CheckECDSASignature_cached:
  fixes cc g sv
  defines "msg \<equiv> \<lambda>code ht. signature_message (cc_sha256 cc) code (gc_txTo g) (gc_nIn g) ht (gc_amount g) sv (gc_txdata g)"
  assumes c: "cache_ok msg c" and n: "unat (gc_nIn g) < length (tx_vin (gc_txTo g))" and a: "sv = WITNESS_V0 \<Longrightarrow> 0 \<le> gc_amount g"
  shows "\<exists>b c'. CheckECDSASignature (TransactionSignatureChecker cc g) sig key code sv = Inr b \<and>
    gc_CheckECDSASignature cc g c sig key code sv = Inr (b, c') \<and> cache_ok msg c'"
proof -
  have ok: "cache_ok (\<lambda>code ht. signature_message (cc_sha256 cc) code (gc_txTo g) (gc_nIn g) ht (gc_amount g) sv (gc_txdata g)) x" if "cache_ok msg x" for x
    using that by (simp add: msg_def)
  obtain h d where h: "SignatureHash (cc_sha256 cc) code (gc_txTo g) (gc_nIn g) (ucast (last sig)) (gc_amount g) sv (gc_txdata g) (Some c) = Inr (h, Some d)"
    "SignatureHash (cc_sha256 cc) code (gc_txTo g) (gc_nIn g) (ucast (last sig)) (gc_amount g) sv (gc_txdata g) None = Inr (h, None)" "cache_ok msg d"
    using SignatureHash_cached [OF ok [OF c] n, of code "ucast (last sig)"] by (auto simp: msg_def)
  obtain e where "SignatureHash (cc_sha256 cc) code (gc_txTo g) (gc_nIn g) (ucast (last sig)) (gc_amount g) sv (gc_txdata g) (Some new_SigHashCache) = Inr (h, Some e)"
    using SignatureHash_cached [OF ok [OF cache_ok_new] n, of code "ucast (last sig)"] h(2) by auto
  then show ?thesis using h a c by (auto simp: TransactionSignatureChecker_def gc_CheckECDSASignature_def)
qed

lemma ecdsa_checks_uncached:
  assumes "cache_ok (\<lambda>code ht. signature_message (cc_sha256 cc) code (gc_txTo g) (gc_nIn g) ht (gc_amount g) sv (gc_txdata g)) c"
    "unat (gc_nIn g) < length (tx_vin (gc_txTo g))" "sv = WITNESS_V0 \<Longrightarrow> 0 \<le> gc_amount g"
  shows "\<exists>bs. ecdsa_checks cc g sv c qs = Inr bs \<and>
    map Inr bs = map (\<lambda>(sig, key, code). CheckECDSASignature (TransactionSignatureChecker cc g) sig key code sv) qs"
  using assms
proof (induction qs arbitrary: c)
  case (Cons q qs)
  obtain sig key code where q: "q = (sig, key, code)" by (rule prod_cases3)
  obtain b c' where b: "CheckECDSASignature (TransactionSignatureChecker cc g) sig key code sv = Inr b"
      "gc_CheckECDSASignature cc g c sig key code sv = Inr (b, c')"
      "cache_ok (\<lambda>code ht. signature_message (cc_sha256 cc) code (gc_txTo g) (gc_nIn g) ht (gc_amount g) sv (gc_txdata g)) c'"
    using gc_CheckECDSASignature_cached [OF Cons.prems, of sig key code] by blast
  obtain bs where "ecdsa_checks cc g sv c' qs = Inr bs" "map Inr bs = map (\<lambda>(sig, key, code). CheckECDSASignature (TransactionSignatureChecker cc g) sig key code sv) qs"
    using Cons.IH [OF b(3) Cons.prems(2,3)] by blast
  then show ?case using b q by auto
qed simp

text \<open>Precomputed data are what the message would compute.\<close>

lemma txdata_Init_returns:
  assumes "length outs = length (tx_vin tx)"
  shows "\<exists>d. txdata_Init sha new_txdata tx outs force = Inr d"
proof -
  obtain a b c where s: "scan_features (tx_vin tx) (if outs \<noteq> [] then map Some outs else map (\<lambda>_. None) (tx_vin tx)) (force, force, force) = (a, b, c)"
    by (rule prod_cases3)
  have "(if outs \<noteq> [] then cxx_assert (length outs = length (tx_vin tx)) else Inr ()) = Inr ()" "cxx_assert (\<not> m_spent_outputs_ready new_txdata) = Inr ()"
    using assms by (simp_all add: cxx_assert_def new_txdata_def)
  then show ?thesis unfolding txdata_Init_def Let_def s prod.case by (simp only: bindE_simps) blast
qed

lemma txdata_Init_segwit:
  assumes "txdata_Init sha new_txdata tx outs force = Inr d" "m_bip143_segwit_ready d"
  shows "hashPrevouts d = SHA256Uint256 sha (GetPrevoutsSHA256 sha tx)" "hashSequence d = SHA256Uint256 sha (GetSequencesSHA256 sha tx)"
    "hashOutputs d = SHA256Uint256 sha (GetOutputsSHA256 sha tx)"
  using assms by (auto simp: txdata_Init_def cxx_assert_def new_txdata_def Let_def split: if_splits prod.splits)

lemma witness_v0_message_precomputed:
  assumes "txdata_Init sha new_txdata tx outs force = Inr d"
  shows "witness_v0_message sha code tx n ht amt (Some d) = witness_v0_message sha code tx n ht amt None"
  using txdata_Init_segwit [OF assms] by (cases "m_bip143_segwit_ready d") (simp_all add: witness_v0_message_def)

subsection \<open>The validation weight is not signed\<close>

lemma SignatureHashSchnorrCommon_weight:
  "SignatureHashSchnorrCommon sha (d\<lparr>m_validation_weight_left := w\<rparr>) tx n ht sv pre mdb hh =
    bindE (SignatureHashSchnorrCommon sha d tx n ht sv pre mdb hh) (\<lambda>r. Inr (map_option (\<lambda>(h, e). (h, e\<lparr>m_validation_weight_left := w\<rparr>)) r))"
  by (cases sv) (simp_all add: SignatureHashSchnorrCommon_def schnorr_input_data_def schnorr_output_hash_def schnorr_script_data_def
    cxx_assert_def HandleMissingData_def Let_def split: MissingDataBehavior.split)

lemma more_weight_eq: "more_weight d d' \<Longrightarrow> \<exists>w. d = d'\<lparr>m_validation_weight_left := w\<rparr> \<and> m_validation_weight_left d' \<le> w"
  by (auto simp: more_weight_def)

text \<open>Nothing a checker does touches the weight.\<close>

lemma output_hash_same [simp]: "\<exists>x. (e :: ScriptExecutionData) = e\<lparr>m_output_hash := x\<rparr>"
  by (rule exI [of _ "m_output_hash e"]) simp

lemma SignatureHashSchnorrCommon_keeps:
  "SignatureHashSchnorrCommon sha d tx n ht sv pre mdb hh = Inr (Some (h, e)) \<Longrightarrow> \<exists>x. e = d\<lparr>m_output_hash := x\<rparr>"
  by (cases sv) (auto simp: SignatureHashSchnorrCommon_def schnorr_script_data_def cxx_assert_def Let_def
    HandleMissingData_def bindE_def split: if_splits sum.splits MissingDataBehavior.splits)

lemma allows_signed:
  assumes e: "r = bindE r' (\<lambda>x. Inr (map_option (\<lambda>(h, e). (h, e\<lparr>m_validation_weight_left := w\<rparr>)) x))"
    and k: "\<And>h e. r' = Inr (Some (h, e)) \<Longrightarrow> m_validation_weight_left e \<le> w"
  shows "allows more_weight (bindE (cxx r) (\<lambda>x. case x of None \<Rightarrow> set_error err | Some (h, e) \<Rightarrow> if \<not> P h then set_error err' else Inr e))
    (bindE (cxx r') (\<lambda>x. case x of None \<Rightarrow> set_error err | Some (h, e) \<Rightarrow> if \<not> P h then set_error err' else Inr e))"
proof (cases r')
  case (Inr x)
  then show ?thesis using k by (cases x) (auto simp: e cxx_def allows_def set_error_def intro!: more_weightI split: if_splits)
qed (simp add: cxx_def allows_def)

lemma SignatureHash_weight:
  "SignatureHashSchnorr sha (d\<lparr>m_validation_weight_left := w\<rparr>) tx n ht sv pre mdb =
    bindE (SignatureHashSchnorr sha d tx n ht sv pre mdb) (\<lambda>r. Inr (map_option (\<lambda>(h, e). (h, e\<lparr>m_validation_weight_left := w\<rparr>)) r))"
  "SignatureHashP2MR sha (d\<lparr>m_validation_weight_left := w\<rparr>) tx n ht pre mdb =
    bindE (SignatureHashP2MR sha d tx n ht pre mdb) (\<lambda>r. Inr (map_option (\<lambda>(h, e). (h, e\<lparr>m_validation_weight_left := w\<rparr>)) r))"
  by (simp_all add: SignatureHashSchnorr_def SignatureHashP2MR_def cxx_assert_def SignatureHashSchnorrCommon_weight)

lemma SignatureHash_keeps:
  "SignatureHashSchnorr sha d tx n ht sv pre mdb = Inr (Some (h, e)) \<Longrightarrow> \<exists>x. e = d\<lparr>m_output_hash := x\<rparr>"
  "SignatureHashP2MR sha d tx n ht pre mdb = Inr (Some (h, e)) \<Longrightarrow> \<exists>x. e = d\<lparr>m_output_hash := x\<rparr>"
  by (auto simp: SignatureHashSchnorr_def SignatureHashP2MR_def cxx_assert_def split: if_splits dest: SignatureHashSchnorrCommon_keeps)

lemma gc_CheckSchnorrSignature_weight:
  assumes "more_weight d d'"
  shows "allows more_weight (gc_CheckSchnorrSignature cc g sig key sv d) (gc_CheckSchnorrSignature cc g sig key sv d')"
proof -
  obtain w where w: "d = d'\<lparr>m_validation_weight_left := w\<rparr>" "m_validation_weight_left d' \<le> w" using more_weight_eq [OF assms] by blast
  show ?thesis unfolding gc_CheckSchnorrSignature_def Let_def w(1)
    by (cases "gc_txdata g"; simp only: option.case;
      intro allows_bind_eq [OF allows_eq] allows_if allows_error allows_signed [OF SignatureHash_weight(1)])
      (use w(2) in \<open>auto dest: SignatureHash_keeps\<close>)
qed

lemma gc_CheckPQCSignature_weight:
  assumes "more_weight d d'"
  shows "allows more_weight (gc_CheckPQCSignature cc g sig key sv d) (gc_CheckPQCSignature cc g sig key sv d')"
proof -
  obtain w where w: "d = d'\<lparr>m_validation_weight_left := w\<rparr>" "m_validation_weight_left d' \<le> w" using more_weight_eq [OF assms] by blast
  show ?thesis unfolding gc_CheckPQCSignature_def Let_def w(1)
    by (cases "gc_txdata g"; simp only: option.case;
      intro allows_bind_eq [OF allows_eq] allows_if allows_error allows_signed [OF SignatureHash_weight(2)])
      (use w(2) in \<open>auto dest: SignatureHash_keeps\<close>)
qed

interpretation tx_checker: signature_checker "TransactionSignatureChecker cc g" for cc g
  by unfold_locales (simp_all add: TransactionSignatureChecker_def gc_CheckSchnorrSignature_weight gc_CheckPQCSignature_weight)

lemma ecdsa_checks_plain:
  assumes i: "txdata_Init (cc_sha256 cc) new_txdata tx outs force = Inr txdata" and n: "unat nIn < length (tx_vin tx)"
    and a: "sv = WITNESS_V0 \<Longrightarrow> 0 \<le> amount"
  shows "ecdsa_checks cc \<lparr>gc_txTo = tx, gc_mdb = mdb, gc_nIn = nIn, gc_amount = amount, gc_txdata = Some txdata\<rparr> sv new_SigHashCache qs =
    Inr (map (\<lambda>(sig, key, code). CPubKey_IsValid key \<and> sig \<noteq> [] \<and>
      (\<exists>h. SignatureHash (cc_sha256 cc) code tx nIn (ucast (last sig)) amount sv None None = Inr (h, None) \<and>
        VerifyECDSASignature cc key h (butlast sig))) qs)"
proof -
  let ?g = "\<lparr>gc_txTo = tx, gc_mdb = mdb, gc_nIn = nIn, gc_amount = amount, gc_txdata = Some txdata\<rparr>"
  let ?f = "\<lambda>(sig, key, code). CPubKey_IsValid key \<and> sig \<noteq> [] \<and>
      (\<exists>h. SignatureHash (cc_sha256 cc) code tx nIn (ucast (last sig)) amount sv None None = Inr (h, None) \<and>
        VerifyECDSASignature cc key h (butlast sig))"
  have m: "signature_message sha code tx nIn ht amount sv (Some txdata) = signature_message sha code tx nIn ht amount sv None"
    if "sha = cc_sha256 cc" for sha code ht
    using witness_v0_message_precomputed [OF i] that by (simp add: signature_message_def)
  have h: "SignatureHash (cc_sha256 cc) code tx nIn ht amount sv (Some txdata) None = SignatureHash (cc_sha256 cc) code tx nIn ht amount sv None None" for code ht
    by (simp add: SignatureHash_def m)
  have c: "CheckECDSASignature (TransactionSignatureChecker cc ?g) sig key code sv = Inr (?f (sig, key, code))" for sig key code
  proof -
    obtain x c' where "SignatureHash (cc_sha256 cc) code tx nIn (ucast (last sig)) amount sv None None = Inr (x, None)"
      "SignatureHash (cc_sha256 cc) code tx nIn (ucast (last sig)) amount sv (Some txdata) (Some new_SigHashCache) = Inr (x, Some c')"
      using SignatureHash_cached [OF cache_ok_new n, of "cc_sha256 cc" code "ucast (last sig)" amount sv "Some txdata"] h by auto
    then show ?thesis using a by (auto simp: TransactionSignatureChecker_def gc_CheckECDSASignature_def)
  qed
  obtain bs where bs: "ecdsa_checks cc ?g sv new_SigHashCache qs = Inr bs"
    "map Inr bs = map (\<lambda>(sig, key, code). CheckECDSASignature (TransactionSignatureChecker cc ?g) sig key code sv) qs"
    using ecdsa_checks_uncached [OF cache_ok_new, of ?g sv cc qs] n a by auto
  have "map (Inr :: bool \<Rightarrow> cxx_error + bool) bs = map Inr (map ?f qs)" unfolding bs(2) map_map by (rule map_cong) (auto simp: c)
  then have "bs = map ?f qs" by (simp only: inj_map_eq_map inj_Inr)
  then show ?thesis using bs(1) by simp
qed

end
