(* ===== verification/Tx_Consensus.thy ===== *)
theory Tx_Consensus
  imports Utxo_Update Sig_Hash
begin

text \<open>
  The consensus rules on a single transaction: \<^verbatim>\<open>CheckTransaction\<close> of \<^verbatim>\<open>src/src/consensus/tx_check.cpp\<close>, the lock
  times, the signature-operation cost and \<^verbatim>\<open>CheckTxInputs\<close> of \<^verbatim>\<open>src/src/consensus/tx_verify.cpp\<close>, and the
  outputs allowed by \<^verbatim>\<open>src/src/consensus/restricted_outputs.h\<close>. The theory shows what an accepted transaction
  satisfies, that reading coins through the cache changes no coin, what a relative lock time demands of
  the block, and that an accepted transaction moves no more value out than it takes in.
\<close>

unbundle bit_operations_syntax

subsection \<open>Verdicts\<close>

datatype TxValidationResult =
    TX_RESULT_UNSET | TX_CONSENSUS | TX_INPUTS_NOT_STANDARD | TX_NOT_STANDARD | TX_MISSING_INPUTS | TX_PREMATURE_SPEND
  | TX_WITNESS_MUTATED | TX_WITNESS_STRIPPED | TX_CONFLICT | TX_MEMPOOL_POLICY | TX_NO_MEMPOOL | TX_RECONSIDERABLE | TX_UNKNOWN

text \<open>A failed check leaves its result and reject reason in the validation state.\<close>

type_synonym 'a tx_verdict = "(TxValidationResult \<times> string) + 'a"

definition WITNESS_SCALE_FACTOR :: nat where "WITNESS_SCALE_FACTOR = 1"
definition MAX_BLOCK_WEIGHT :: nat where "MAX_BLOCK_WEIGHT = 2000000"
definition MAX_BLOCK_SIGOPS_COST :: int where "MAX_BLOCK_SIGOPS_COST = 80000"
definition COINBASE_MATURITY :: int where "COINBASE_MATURITY = 1000"
definition LOCKTIME_VERIFY_SEQUENCE :: u32 where "LOCKTIME_VERIFY_SEQUENCE = 1"
definition SEQUENCE_LOCKTIME_GRANULARITY :: nat where "SEQUENCE_LOCKTIME_GRANULARITY = 9"

subsection \<open>Checks without context\<close>

text \<open>The loop over the outputs; \<open>nValueOut\<close> is the running sum.\<close>

fun check_outputs :: "CAmount \<Rightarrow> CTxOut list \<Rightarrow> unit tx_verdict cxx" where
  "check_outputs nValueOut [] = Inr (Inr ())"
| "check_outputs nValueOut (txout # vout) =
    (if txout_nValue txout < 0 then Inr (Inl (TX_CONSENSUS, ''bad-txns-vout-negative''))
     else if txout_nValue txout > MAX_MONEY then Inr (Inl (TX_CONSENSUS, ''bad-txns-vout-toolarge''))
     else bindE (i64 (nValueOut + txout_nValue txout)) (\<lambda>nValueOut'.
       if \<not> MoneyRange nValueOut' then Inr (Inl (TX_CONSENSUS, ''bad-txns-txouttotal-toolarge''))
       else check_outputs nValueOut' vout))"

fun duplicate_input :: "COutPoint set \<Rightarrow> CTxIn list \<Rightarrow> bool" where
  "duplicate_input vInOutPoints [] = False"
| "duplicate_input vInOutPoints (txin # vin) =
    (if txin_prevout txin \<in> vInOutPoints then True else duplicate_input (insert (txin_prevout txin) vInOutPoints) vin)"

definition CheckTransaction :: "CTransaction \<Rightarrow> unit tx_verdict cxx" where
  "CheckTransaction tx =
    (if tx_vin tx = [] then Inr (Inl (TX_CONSENSUS, ''bad-txns-vin-empty''))
     else if tx_vout tx = [] then Inr (Inl (TX_CONSENSUS, ''bad-txns-vout-empty''))
     else if length (SerializeTransaction False tx) * WITNESS_SCALE_FACTOR > MAX_BLOCK_WEIGHT
     then Inr (Inl (TX_CONSENSUS, ''bad-txns-oversize''))
     else bindE (check_outputs 0 (tx_vout tx)) (\<lambda>outputs.
       case outputs of Inl e \<Rightarrow> Inr (Inl e) | Inr _ \<Rightarrow>
       if duplicate_input {} (tx_vin tx) then Inr (Inl (TX_CONSENSUS, ''bad-txns-inputs-duplicate''))
       else if IsCoinBase tx then
         (let n = length (txin_scriptSig (tx_vin tx ! 0)) in
          if n < 2 \<or> n > 100 then Inr (Inl (TX_CONSENSUS, ''bad-cb-length'')) else Inr (Inr ()))
       else if list_ex (\<lambda>txin. COutPoint_IsNull (txin_prevout txin)) (tx_vin tx)
       then Inr (Inl (TX_CONSENSUS, ''bad-txns-prevout-null''))
       else Inr (Inr ())))"

fun value_out :: "CAmount \<Rightarrow> CTxOut list \<Rightarrow> CAmount cxx" where
  "value_out nValueOut [] = Inr nValueOut"
| "value_out nValueOut (tx_out # vout) =
    (if \<not> MoneyRange (txout_nValue tx_out) then Inl Runtime_Error
     else bindE (i64 (nValueOut + txout_nValue tx_out)) (\<lambda>s.
       if \<not> MoneyRange s then Inl Runtime_Error else value_out s vout))"

definition GetValueOut :: "CTransaction \<Rightarrow> CAmount cxx" where
  "GetValueOut tx = bindE (value_out 0 (tx_vout tx)) (\<lambda>nValueOut. bindE (cxx_assert (MoneyRange nValueOut)) (\<lambda>_. Inr nValueOut))"

subsection \<open>Lock times\<close>

definition IsFinalTx :: "CTransaction \<Rightarrow> int \<Rightarrow> int \<Rightarrow> bool" where
  "IsFinalTx tx nBlockHeight nBlockTime =
    (if tx_nLockTime tx = 0 then True
     else if uint (tx_nLockTime tx) < (if uint (tx_nLockTime tx) < LOCKTIME_THRESHOLD then nBlockHeight else nBlockTime) then True
     else list_all (\<lambda>txin. txin_nSequence txin = SEQUENCE_FINAL) (tx_vin tx))"

text \<open>The times of the last blocks, the oldest first.\<close>

fun median_times :: "BlockMap \<Rightarrow> nat \<Rightarrow> bptr option \<Rightarrow> int list cxx" where
  "median_times st 0 pindex = Inr []"
| "median_times st (Suc n) None = Inr []"
| "median_times st (Suc n) (Some p) =
    bindE (deref (st p)) (\<lambda>b. bindE (median_times st n (bi_pprev b)) (\<lambda>ts. Inr (ts @ [bi_GetBlockTime b])))"

definition nMedianTimeSpan :: nat where "nMedianTimeSpan = 11"

definition GetMedianTimePast :: "BlockMap \<Rightarrow> bptr \<Rightarrow> int cxx" where
  "GetMedianTimePast st this =
    bindE (median_times st nMedianTimeSpan (Some this)) (\<lambda>ts. Inr (sort ts ! (length ts div 2)))"

text \<open>The loop over the inputs returns the lock and the heights, with those of inputs without a lock set to zero.\<close>

definition input_lock :: "BlockMap \<Rightarrow> bptr \<Rightarrow> CTxIn \<Rightarrow> int \<Rightarrow> int \<times> int \<Rightarrow> (int \<times> int) cxx" where
  "input_lock st block txin nCoinHeight = (\<lambda>(nMinHeight, nMinTime).
    if txin_nSequence txin AND SEQUENCE_LOCKTIME_TYPE_FLAG \<noteq> 0 then
      bindE (i32 (nCoinHeight - 1)) (\<lambda>h.
      bindE (GetAncestor st block (max h 0)) (\<lambda>a.
      bindE (cxx_assert (a \<noteq> None)) (\<lambda>_.
      bindE (GetMedianTimePast st (the a)) (\<lambda>nCoinTime.
      bindE (i64 (nCoinTime + uint (push_bit SEQUENCE_LOCKTIME_GRANULARITY (txin_nSequence txin AND SEQUENCE_LOCKTIME_MASK)))) (\<lambda>t.
      bindE (i64 (t - 1)) (\<lambda>t'. Inr (nMinHeight, max nMinTime t')))))))
    else
      bindE (i32 (nCoinHeight + uint (txin_nSequence txin AND SEQUENCE_LOCKTIME_MASK))) (\<lambda>h.
      bindE (i32 (h - 1)) (\<lambda>h'. Inr (max nMinHeight h', nMinTime))))"

fun sequence_locks :: "BlockMap \<Rightarrow> bptr \<Rightarrow> CTxIn list \<Rightarrow> int list \<Rightarrow> int \<times> int \<Rightarrow> ((int \<times> int) \<times> int list) cxx" where
  "sequence_locks st block (txin # vin) (nCoinHeight # prevHeights) lock =
    (if txin_nSequence txin AND SEQUENCE_LOCKTIME_DISABLE_FLAG \<noteq> 0 then
       bindE (sequence_locks st block vin prevHeights lock) (\<lambda>(lock', hs). Inr (lock', 0 # hs))
     else
       bindE (input_lock st block txin nCoinHeight lock) (\<lambda>lock1.
       bindE (sequence_locks st block vin prevHeights lock1) (\<lambda>(lock', hs). Inr (lock', nCoinHeight # hs))))"
| "sequence_locks st block vin prevHeights lock = Inr (lock, prevHeights)"

definition CalculateSequenceLocks :: "BlockMap \<Rightarrow> CTransaction \<Rightarrow> u32 \<Rightarrow> int list \<Rightarrow> bptr \<Rightarrow> ((int \<times> int) \<times> int list) cxx" where
  "CalculateSequenceLocks st tx flags prevHeights block =
    bindE (cxx_assert (length prevHeights = length (tx_vin tx))) (\<lambda>_.
    let fEnforceBIP68 = (tx_version tx \<ge> 2 \<and> flags AND LOCKTIME_VERIFY_SEQUENCE \<noteq> 0) in
    if \<not> fEnforceBIP68 then Inr ((- 1, - 1), prevHeights)
    else sequence_locks st block (tx_vin tx) prevHeights (- 1, - 1))"

definition EvaluateSequenceLocks :: "BlockMap \<Rightarrow> bptr \<Rightarrow> int \<times> int \<Rightarrow> bool cxx" where
  "EvaluateSequenceLocks st block lockPair =
    bindE (deref (st block)) (\<lambda>b.
    bindE (cxx_assert (bi_pprev b \<noteq> None)) (\<lambda>_.
    bindE (GetMedianTimePast st (the (bi_pprev b))) (\<lambda>nBlockTime.
    Inr (\<not> (fst lockPair \<ge> bi_nHeight b \<or> snd lockPair \<ge> nBlockTime)))))"

definition SequenceLocks :: "BlockMap \<Rightarrow> CTransaction \<Rightarrow> u32 \<Rightarrow> int list \<Rightarrow> bptr \<Rightarrow> bool cxx" where
  "SequenceLocks st tx flags prevHeights block =
    bindE (CalculateSequenceLocks st tx flags prevHeights block) (\<lambda>(lock, _). EvaluateSequenceLocks st block lock)"

subsection \<open>Signature operations\<close>

definition GetLegacySigOpCount :: "CTransaction \<Rightarrow> u32" where
  "GetLegacySigOpCount tx =
    fold (\<lambda>txout n. n + GetSigOpCount False (txout_scriptPubKey txout)) (tx_vout tx)
      (fold (\<lambda>txin n. n + GetSigOpCount False (txin_scriptSig txin)) (tx_vin tx) 0)"

fun p2sh_sigops ::
  "(CScript \<Rightarrow> u64) \<Rightarrow> (COutPoint \<Rightarrow> Coin option) \<Rightarrow> CTxIn list \<Rightarrow> u32 \<Rightarrow> CCoinsViewCache \<Rightarrow> (u32 \<times> CCoinsViewCache) cxx" where
  "p2sh_sigops mu base [] nSigOps inputs = Inr (nSigOps, inputs)"
| "p2sh_sigops mu base (txin # vin) nSigOps inputs =
    (case AccessCoin mu base (txin_prevout txin) inputs of (coin, inputs') \<Rightarrow>
     bindE (cxx_assert (\<not> Coin_IsSpent coin)) (\<lambda>_.
     let pubKey = txout_scriptPubKey (coin_out coin) in
     p2sh_sigops mu base vin
       (if IsPayToScriptHash pubKey then nSigOps + GetSigOpCount_P2SH pubKey (txin_scriptSig txin) else nSigOps) inputs'))"

definition GetP2SHSigOpCount ::
  "(CScript \<Rightarrow> u64) \<Rightarrow> (COutPoint \<Rightarrow> Coin option) \<Rightarrow> CTransaction \<Rightarrow> CCoinsViewCache \<Rightarrow> (u32 \<times> CCoinsViewCache) cxx" where
  "GetP2SHSigOpCount mu base tx inputs = (if IsCoinBase tx then Inr (0, inputs) else p2sh_sigops mu base (tx_vin tx) 0 inputs)"

fun witness_sigops ::
  "(CScript \<Rightarrow> u64) \<Rightarrow> (COutPoint \<Rightarrow> Coin option) \<Rightarrow> u32 \<Rightarrow> CTxIn list \<Rightarrow> int \<Rightarrow> CCoinsViewCache \<Rightarrow> (int \<times> CCoinsViewCache) cxx" where
  "witness_sigops mu base flags [] nSigOps inputs = Inr (nSigOps, inputs)"
| "witness_sigops mu base flags (txin # vin) nSigOps inputs =
    (case AccessCoin mu base (txin_prevout txin) inputs of (coin, inputs') \<Rightarrow>
     bindE (cxx_assert (\<not> Coin_IsSpent coin)) (\<lambda>_.
     bindE (CountWitnessSigOps (txin_scriptSig txin) (txout_scriptPubKey (coin_out coin)) (txin_witness txin) flags) (\<lambda>n.
     bindE (i64 (nSigOps + int n)) (\<lambda>nSigOps'. witness_sigops mu base flags vin nSigOps' inputs'))))"

definition GetTransactionSigOpCost ::
  "(CScript \<Rightarrow> u64) \<Rightarrow> (COutPoint \<Rightarrow> Coin option) \<Rightarrow> CTransaction \<Rightarrow> CCoinsViewCache \<Rightarrow> u32 \<Rightarrow> (int \<times> CCoinsViewCache) cxx" where
  "GetTransactionSigOpCost mu base tx inputs flags =
    (let nSigOps = uint (GetLegacySigOpCount tx * of_nat WITNESS_SCALE_FACTOR) in
     if IsCoinBase tx then Inr (nSigOps, inputs)
     else
       bindE (if flags AND SCRIPT_VERIFY_P2SH \<noteq> 0
              then bindE (GetP2SHSigOpCount mu base tx inputs) (\<lambda>(n, inputs').
                   bindE (i64 (nSigOps + uint (n * of_nat WITNESS_SCALE_FACTOR))) (\<lambda>s. Inr (s, inputs')))
              else Inr (nSigOps, inputs)) (\<lambda>(nSigOps', inputs').
       witness_sigops mu base flags (tx_vin tx) nSigOps' inputs'))"

subsection \<open>Inputs\<close>

fun check_inputs ::
  "(CScript \<Rightarrow> u64) \<Rightarrow> (COutPoint \<Rightarrow> Coin option) \<Rightarrow> int \<Rightarrow> CTxIn list \<Rightarrow> CAmount \<Rightarrow> CCoinsViewCache
    \<Rightarrow> (CAmount tx_verdict \<times> CCoinsViewCache) cxx" where
  "check_inputs mu base nSpendHeight [] nValueIn inputs = Inr (Inr nValueIn, inputs)"
| "check_inputs mu base nSpendHeight (txin # vin) nValueIn inputs =
    (case AccessCoin mu base (txin_prevout txin) inputs of (coin, inputs') \<Rightarrow>
     bindE (cxx_assert (\<not> Coin_IsSpent coin)) (\<lambda>_.
     bindE (if coin_fCoinBase coin
            then bindE (i32 (nSpendHeight - uint (coin_nHeight coin))) (\<lambda>depth. Inr (depth < COINBASE_MATURITY))
            else Inr False) (\<lambda>premature.
     if premature
     then Inr (Inl (TX_PREMATURE_SPEND, ''bad-txns-premature-spend-of-coinbase''), inputs')
     else
       bindE (i64 (nValueIn + txout_nValue (coin_out coin))) (\<lambda>nValueIn'.
       if \<not> MoneyRange (txout_nValue (coin_out coin)) \<or> \<not> MoneyRange nValueIn'
       then Inr (Inl (TX_CONSENSUS, ''bad-txns-inputvalues-outofrange''), inputs')
       else check_inputs mu base nSpendHeight vin nValueIn' inputs'))))"

definition CheckTxInputs ::
  "(CScript \<Rightarrow> u64) \<Rightarrow> (COutPoint \<Rightarrow> Coin option) \<Rightarrow> CTransaction \<Rightarrow> CCoinsViewCache \<Rightarrow> int
    \<Rightarrow> (CAmount tx_verdict \<times> CCoinsViewCache) cxx" where
  "CheckTxInputs mu base tx inputs nSpendHeight =
    (case HaveInputs mu base tx inputs of (have, inputs1) \<Rightarrow>
     if \<not> have then Inr (Inl (TX_MISSING_INPUTS, ''bad-txns-inputs-missingorspent''), inputs1)
     else
       bindE (check_inputs mu base nSpendHeight (tx_vin tx) 0 inputs1) (\<lambda>(v, inputs2).
       case v of Inl e \<Rightarrow> Inr (Inl e, inputs2) | Inr nValueIn \<Rightarrow>
       bindE (GetValueOut tx) (\<lambda>value_out.
       if nValueIn < value_out then Inr (Inl (TX_CONSENSUS, ''bad-txns-in-belowout''), inputs2)
       else
         bindE (i64 (nValueIn - value_out)) (\<lambda>txfee_aux.
         if \<not> MoneyRange txfee_aux then Inr (Inl (TX_CONSENSUS, ''bad-txns-fee-outofrange''), inputs2)
         else Inr (Inr txfee_aux, inputs2)))))"

subsection \<open>Outputs of the restricted mode\<close>

definition IsRestrictedOutputModeP2MROutput :: "CScript \<Rightarrow> bool" where
  "IsRestrictedOutputModeP2MROutput s =
    (case IsWitnessProgram s of None \<Rightarrow> False | Some (v, program) \<Rightarrow> v = 2 \<and> length program = 32)"

definition IsRestrictedOutputModeExemptOutput :: "CScript \<Rightarrow> bool" where
  "IsRestrictedOutputModeExemptOutput s \<longleftrightarrow> (s \<noteq> [] \<and> s ! 0 = OP_RETURN) \<or> IsPayToAnchor s"

definition IsRestrictedOutputModeConsensusOutput :: "CScript \<Rightarrow> Params \<Rightarrow> int \<Rightarrow> bool" where
  "IsRestrictedOutputModeConsensusOutput s consensus height \<longleftrightarrow>
    IsRestrictedOutputModeP2MROutput s \<or>
    (OuterReservedWitnessActiveAtHeight consensus height \<and> IsReservedFutureWitnessOutput s) \<or>
    IsRestrictedOutputModeExemptOutput s"

definition HasOnlyRestrictedOutputModeOutputs :: "CTransaction \<Rightarrow> Params \<Rightarrow> int \<Rightarrow> bool" where
  "HasOnlyRestrictedOutputModeOutputs tx consensus height =
    list_all (\<lambda>txout. IsRestrictedOutputModeConsensusOutput (txout_scriptPubKey txout) consensus height) (tx_vout tx)"

subsection \<open>What an accepted transaction satisfies\<close>

abbreviation values_of :: "CTxOut list \<Rightarrow> CAmount" where
  "values_of outs \<equiv> sum_list (map txout_nValue outs)"

definition tx_sane :: "CTransaction \<Rightarrow> bool" where
  "tx_sane tx \<longleftrightarrow> tx_vin tx \<noteq> [] \<and> tx_vout tx \<noteq> [] \<and>
    length (SerializeTransaction False tx) \<le> MAX_BLOCK_WEIGHT \<and>
    (\<forall>out\<in>set (tx_vout tx). 0 \<le> txout_nValue out) \<and> values_of (tx_vout tx) \<le> MAX_MONEY \<and>
    distinct (map txin_prevout (tx_vin tx)) \<and>
    (if IsCoinBase tx then length (txin_scriptSig (tx_vin tx ! 0)) \<in> {2..100}
     else \<forall>txin\<in>set (tx_vin tx). \<not> COutPoint_IsNull (txin_prevout txin))"

lemma money_i64: "MoneyRange a \<Longrightarrow> MoneyRange b \<Longrightarrow> i64_range (a + b) \<and> i64_range (a - b)"
  by (simp add: MoneyRange_def i64_range_def MAX_MONEY_def COIN_def)

lemma values_of_nonneg: "\<forall>out\<in>set outs. 0 \<le> txout_nValue out \<Longrightarrow> 0 \<le> values_of outs"
  by (induction outs) auto

lemma check_outputs_iff:
  "MoneyRange n \<Longrightarrow> \<exists>v. check_outputs n outs = Inr v \<and>
    (v = Inr () \<longleftrightarrow> (\<forall>out\<in>set outs. 0 \<le> txout_nValue out) \<and> n + values_of outs \<le> MAX_MONEY)"
proof (induction outs arbitrary: n)
  case (Cons out outs)
  let ?v = "txout_nValue out"
  have nn: "0 \<le> values_of outs" if "\<forall>out\<in>set outs. 0 \<le> txout_nValue out" using values_of_nonneg that by simp
  show ?case
  proof (cases "MoneyRange ?v")
    case True
    then have r: "i64 (n + ?v) = Inr (n + ?v)" using Cons.prems money_i64 by simp
    show ?thesis
    proof (cases "MoneyRange (n + ?v)")
      case m: True
      then show ?thesis using Cons.IH [OF m] True r by (auto simp: MoneyRange_def add.assoc)
    next
      case False
      then show ?thesis using True r Cons.prems nn by (fastforce simp: MoneyRange_def)
    qed
  next
    case False
    then show ?thesis using nn Cons.prems by (fastforce simp: MoneyRange_def)
  qed
qed (simp add: MoneyRange_def)

lemma check_outputs_reason: "check_outputs n outs = Inr (Inl e) \<Longrightarrow> fst e = TX_CONSENSUS"
  by (induction outs arbitrary: n) (auto simp: bindE_Inr_iff split: if_splits)

lemma duplicate_input_iff:
  "duplicate_input S vin \<longleftrightarrow> \<not> (distinct (map txin_prevout vin) \<and> set (map txin_prevout vin) \<inter> S = {})"
  by (induction vin arbitrary: S) auto

lemma money_zero [simp]: "MoneyRange 0"
  by (simp add: MoneyRange_def MAX_MONEY_def COIN_def)

lemma CheckTransaction_iff:
  "\<exists>v. CheckTransaction tx = Inr v \<and> (v = Inr () \<longleftrightarrow> tx_sane tx) \<and> (\<forall>e. v = Inl e \<longrightarrow> fst e = TX_CONSENSUS)"
proof -
  obtain v where v: "check_outputs 0 (tx_vout tx) = Inr v"
    "v = Inr () \<longleftrightarrow> (\<forall>out\<in>set (tx_vout tx). 0 \<le> txout_nValue out) \<and> values_of (tx_vout tx) \<le> MAX_MONEY"
    using check_outputs_iff [OF money_zero, of "tx_vout tx"] by auto
  show ?thesis
  proof (cases v)
    case (Inl e)
    then have "\<not> tx_sane tx" using v(2) by (auto simp: tx_sane_def)
    moreover have "fst e = TX_CONSENSUS" using check_outputs_reason v(1) Inl by simp
    ultimately show ?thesis using v(1) Inl by (cases e) (simp add: CheckTransaction_def)
  next
    case (Inr u)
    then show ?thesis using v
      by (auto simp: CheckTransaction_def tx_sane_def duplicate_input_iff list_ex_iff WITNESS_SCALE_FACTOR_def Let_def not_le)
  qed
qed

lemma CheckTransaction_sane: "CheckTransaction tx = Inr (Inr ()) \<longleftrightarrow> tx_sane tx"
  using CheckTransaction_iff [of tx] by auto

lemma value_out_sum:
  "MoneyRange n \<Longrightarrow> \<forall>out\<in>set outs. 0 \<le> txout_nValue out \<Longrightarrow> n + values_of outs \<le> MAX_MONEY \<Longrightarrow>
    value_out n outs = Inr (n + values_of outs)"
proof (induction outs arbitrary: n)
  case (Cons out outs)
  have "0 \<le> values_of outs" using values_of_nonneg Cons.prems(2) by simp
  then have m: "MoneyRange (txout_nValue out)" "MoneyRange (n + txout_nValue out)"
    using Cons.prems by (auto simp: MoneyRange_def)
  then show ?case using Cons.IH [OF m(2)] Cons.prems money_i64 [OF Cons.prems(1) m(1)] by (simp add: add.assoc)
qed simp

lemma GetValueOut_sane:
  assumes "tx_sane tx"
  shows "GetValueOut tx = Inr (values_of (tx_vout tx))" "0 \<le> values_of (tx_vout tx)"
proof -
  show n: "0 \<le> values_of (tx_vout tx)" using assms values_of_nonneg by (simp add: tx_sane_def)
  show "GetValueOut tx = Inr (values_of (tx_vout tx))"
    using assms value_out_sum [OF money_zero, of "tx_vout tx"] n by (simp add: GetValueOut_def tx_sane_def MoneyRange_def)
qed

lemma vout_size: "length (tx_vout tx) \<le> length (SerializeTransaction False tx)"
proof -
  have "length outs \<le> length (concat (map ser_CTxOut outs))" for outs
    by (induction outs) (auto simp: ser_CTxOut_def ser_i64_def ser_writedata64_def WriteLE64_def)
  then have "length (tx_vout tx) \<le> length (concat (map ser_CTxOut (tx_vout tx)))" .
  then show ?thesis by (simp add: SerializeTransaction_def ser_vector_def Let_def)
qed

subsection \<open>Inputs of an accepted transaction\<close>

text \<open>Reading coins through a cache keeps the cache consistent and every coin as it is.\<close>

definition same_coins :: "(CScript \<Rightarrow> u64) \<Rightarrow> (COutPoint \<Rightarrow> Coin option) \<Rightarrow> CCoinsViewCache \<Rightarrow> CCoinsViewCache \<Rightarrow> bool" where
  "same_coins mu B c c' \<longleftrightarrow> cache_inv mu B c' \<and> cache_view B c' = cache_view B c \<and> cc_hashBlock c' = cc_hashBlock c"

lemma same_coins_refl [intro]: "cache_inv mu B c \<Longrightarrow> same_coins mu B c c"
  by (simp add: same_coins_def)

lemma same_coins_trans [trans]: "same_coins mu B c c1 \<Longrightarrow> same_coins mu B c1 c2 \<Longrightarrow> same_coins mu B c c2"
  by (simp add: same_coins_def)

lemma same_coins_inv: "same_coins mu B c c' \<Longrightarrow> cache_inv mu B c'" "same_coins mu B c c' \<Longrightarrow> cache_view B c' = cache_view B c"
  by (simp_all add: same_coins_def)

lemma AccessCoin_same:
  assumes "cache_inv mu B c" "base_ok B" "AccessCoin mu B op c = (coin, c')"
  shows "same_coins mu B c c'" "\<not> Coin_IsSpent coin \<Longrightarrow> cache_view B c op = Some coin"
  using AccessCoin_ok [OF assms] by (simp_all add: same_coins_def)

lemma have_inputs_same:
  assumes "base_ok B"
  shows "cache_inv mu B c \<Longrightarrow> have_inputs mu B is c = (r, c') \<Longrightarrow> same_coins mu B c c'"
proof (induction "is" arbitrary: c)
  case (Cons i "is")
  obtain b c1 where h: "HaveCoin mu B (txin_prevout i) c = (b, c1)" by force
  note H = HaveCoin_ok [OF Cons.prems(1) assms h]
  have s: "same_coins mu B c c1" using H by (simp add: same_coins_def)
  then show ?case using Cons h same_coins_trans [OF s] by (auto split: if_splits dest: same_coins_inv)
qed auto

lemma HaveInputs_same:
  assumes "cache_inv mu B c" "base_ok B" "HaveInputs mu B tx c = (r, c')"
  shows "same_coins mu B c c'" "r \<Longrightarrow> \<not> IsCoinBase tx \<Longrightarrow> \<forall>i\<in>set (tx_vin tx). cache_view B c (txin_prevout i) \<noteq> None"
  using assms have_inputs_same [OF assms(2,1)] have_inputs_ok [OF assms(2,1)]
  by (auto simp: HaveInputs_def split: if_splits)

abbreviation input_value :: "(COutPoint \<Rightarrow> Coin option) \<Rightarrow> CTxIn \<Rightarrow> CAmount" where
  "input_value V txin \<equiv> txout_nValue (coin_out (the (V (txin_prevout txin))))"

lemma check_inputs_value:
  assumes B: "base_ok B"
  shows "cache_inv mu B c \<Longrightarrow> check_inputs mu B h vin n c = Inr (r, c') \<Longrightarrow> same_coins mu B c c' \<and>
    (\<forall>v. r = Inr v \<longrightarrow> v = n + sum_list (map (input_value (cache_view B c)) vin) \<and> (MoneyRange n \<longrightarrow> MoneyRange v) \<and>
      (\<forall>i\<in>set vin. \<exists>coin. cache_view B c (txin_prevout i) = Some coin \<and>
        (coin_fCoinBase coin \<longrightarrow> COINBASE_MATURITY \<le> h - uint (coin_nHeight coin))))"
proof (induction vin arbitrary: n c)
  case (Cons i vin)
  obtain coin c1 where a: "AccessCoin mu B (txin_prevout i) c = (coin, c1)" by force
  have ns: "\<not> Coin_IsSpent coin" using Cons.prems(2) a by (auto simp: bindE_Inr_iff)
  note A = AccessCoin_same [OF Cons.prems(1) B a]
  note V = A(2) [OF ns] same_coins_inv(2) [OF A(1)]
  show ?case
  proof (cases "(coin_fCoinBase coin \<and> h - uint (coin_nHeight coin) < COINBASE_MATURITY) \<or>
      \<not> MoneyRange (txout_nValue (coin_out coin)) \<or> \<not> MoneyRange (n + txout_nValue (coin_out coin))")
    case True
    then have "c' = c1" "\<exists>e. r = Inl e" using Cons.prems(2) a ns by (auto simp: bindE_Inr_iff split: if_splits)
    then show ?thesis using A(1) by auto
  next
    case False
    then have c1: "check_inputs mu B h vin (n + txout_nValue (coin_out coin)) c1 = Inr (r, c')"
      using Cons.prems(2) a ns by (auto simp: bindE_Inr_iff split: if_splits)
    note IH = Cons.IH [OF same_coins_inv(1) [OF A(1)] c1]
    show ?thesis using IH False V same_coins_trans [OF A(1)] by (auto simp: add.assoc)
  qed
qed (auto simp: same_coins_def)

lemma CheckTxInputs_value:
  assumes inv: "cache_inv mu B c" and B: "base_ok B" and ck: "CheckTxInputs mu B tx c h = Inr (r, c')"
  shows "same_coins mu B c c'"
    "r = Inr fee \<Longrightarrow> tx_sane tx \<Longrightarrow> fee = sum_list (map (input_value (cache_view B c)) (tx_vin tx)) - values_of (tx_vout tx) \<and>
      MoneyRange fee \<and> (\<forall>i\<in>set (tx_vin tx). \<exists>coin. cache_view B c (txin_prevout i) = Some coin \<and>
        (coin_fCoinBase coin \<longrightarrow> COINBASE_MATURITY \<le> h - uint (coin_nHeight coin)))"
proof -
  obtain ok c1 where hi: "HaveInputs mu B tx c = (ok, c1)" by force
  note S = HaveInputs_same [OF inv B hi]
  show "same_coins mu B c c'"
  proof (cases ok)
    case True
    then obtain v c2 where ci: "check_inputs mu B h (tx_vin tx) 0 c1 = Inr (v, c2)"
      using ck hi by (auto simp: CheckTxInputs_def bindE_Inr_iff)
    then have "c' = c2" using ck hi True by (auto simp: CheckTxInputs_def bindE_Inr_iff split: sum.splits if_splits)
    then show ?thesis using same_coins_trans [OF S(1)] check_inputs_value [OF B same_coins_inv(1) [OF S(1)] ci] by blast
  next
    case False
    then show ?thesis using ck hi S(1) by (simp add: CheckTxInputs_def)
  qed
  assume r: "r = Inr fee" and tx: "tx_sane tx"
  have ok: ok using ck hi r by (auto simp: CheckTxInputs_def split: if_splits)
  then obtain w c2 where ci: "check_inputs mu B h (tx_vin tx) 0 c1 = Inr (w, c2)"
    using ck hi by (auto simp: CheckTxInputs_def bindE_Inr_iff)
  obtain v where "w = Inr v" using ck hi r ok ci by (cases w) (auto simp: CheckTxInputs_def)
  then have ci: "check_inputs mu B h (tx_vin tx) 0 c1 = Inr (Inr v, c2)" "fee = v - values_of (tx_vout tx)" "MoneyRange fee"
    using ck hi r ok ci GetValueOut_sane [OF tx] by (auto simp: CheckTxInputs_def bindE_Inr_iff split: if_splits)
  then show "fee = sum_list (map (input_value (cache_view B c)) (tx_vin tx)) - values_of (tx_vout tx) \<and>
      MoneyRange fee \<and> (\<forall>i\<in>set (tx_vin tx). \<exists>coin. cache_view B c (txin_prevout i) = Some coin \<and>
        (coin_fCoinBase coin \<longrightarrow> COINBASE_MATURITY \<le> h - uint (coin_nHeight coin)))"
    using check_inputs_value [OF B same_coins_inv(1) [OF S(1)] ci(1)] same_coins_inv(2) [OF S(1)] by auto
qed

subsection \<open>The value of a set of coins\<close>

abbreviation coin_value :: "Coin \<Rightarrow> CAmount" where
  "coin_value coin \<equiv> txout_nValue (coin_out coin)"

definition total_value :: "(COutPoint \<Rightarrow> Coin option) \<Rightarrow> CAmount" where
  "total_value V = (\<Sum>op\<in>dom V. coin_value (the (V op)))"

lemma total_value_empty [simp]: "total_value Map.empty = 0"
  by (simp add: total_value_def)

lemma total_value_add:
  assumes "finite (dom V)" "finite (dom W)" "dom V \<inter> dom W = {}"
  shows "total_value (V ++ W) = total_value V + total_value W"
proof -
  have "(\<Sum>op\<in>dom V. coin_value (the ((V ++ W) op))) = total_value V"
    unfolding total_value_def using assms(3) by (intro sum.cong) (auto simp: map_add_def split: option.splits)
  moreover have "(\<Sum>op\<in>dom W. coin_value (the ((V ++ W) op))) = total_value W"
    unfolding total_value_def by (intro sum.cong) (auto simp: map_add_def)
  ultimately show ?thesis
    using assms sum.union_disjoint [of "dom V" "dom W" "\<lambda>op. coin_value (the ((V ++ W) op))"]
    by (simp add: total_value_def Un_commute)
qed

lemma total_value_restrict:
  assumes "finite (dom V)" "S \<subseteq> dom V"
  shows "total_value (V |` (- S)) = total_value V - (\<Sum>op\<in>S. coin_value (the (V op)))"
proof -
  have "total_value (V |` (- S)) = (\<Sum>op\<in>dom V - S. coin_value (the (V op)))"
    unfolding total_value_def by (intro sum.cong) (auto simp: restrict_map_def split: if_splits)
  then show ?thesis using assms by (simp add: total_value_def sum_diff)
qed

lemma dom_created: "dom (created txid h cb n outs) \<subseteq> (\<lambda>k. outpoint txid k) ` {n..<n + length outs}"
proof
  fix op assume "op \<in> dom (created txid h cb n outs)"
  then have "op_hash op = txid" "n \<le> unat (op_n op)" "unat (op_n op) < n + length outs"
    by (auto simp: created_def Let_def split: if_splits)
  then show "op \<in> (\<lambda>k. outpoint txid k) ` {n..<n + length outs}"
    using outpoint_eq [of op txid] by (intro image_eqI [of _ _ "unat (op_n op)"]) auto
qed

lemma finite_created [simp, intro]: "finite (dom (created txid h cb n outs))"
  using dom_created by (rule finite_subset) simp

lemma total_value_created:
  assumes "n + length outs < 2 ^ 32"
  shows "total_value (created txid h cb n outs) = values_of (filter (\<lambda>out. \<not> IsUnspendable (txout_scriptPubKey out)) outs)"
  using assms
proof (induction outs arbitrary: n)
  case (Cons out outs)
  let ?one = "if IsUnspendable (txout_scriptPubKey out) then Map.empty else [outpoint txid n \<mapsto> Coin_make out h cb]"
  have "outpoint txid n \<notin> dom (created txid h cb (Suc n) outs)"
    using Cons.prems by (auto simp: created_def Let_def split: if_splits)
  then have "total_value (?one ++ created txid h cb (Suc n) outs) = total_value ?one + total_value (created txid h cb (Suc n) outs)"
    by (intro total_value_add) auto
  moreover have "total_value ?one = (if IsUnspendable (txout_scriptPubKey out) then 0 else txout_nValue out)"
    by (simp add: total_value_def)
  ultimately show ?case using created_Cons [OF Cons.prems] Cons.IH [of "Suc n"] Cons.prems by simp
qed simp

lemma created_fresh:
  assumes "\<forall>k<length outs. V (outpoint txid k) = None"
  shows "dom V \<inter> dom (created txid h cb 0 outs) = {}"
  using assms dom_created [of txid h cb 0 outs] by fastforce

lemma spendable_values:
  "\<forall>out\<in>set outs. 0 \<le> txout_nValue out \<Longrightarrow> values_of (filter P outs) \<le> values_of outs \<and> 0 \<le> values_of (filter P outs)"
  by (induction outs) auto

lemma total_value_tx_effect:
  assumes V: "finite (dom V)" and tx: "tx_connectable H tx V"
  shows "total_value (tx_effect H h tx V) = total_value V - (if IsCoinBase tx then 0 else sum_list (map (input_value V) (tx_vin tx))) +
      values_of (filter (\<lambda>out. \<not> IsUnspendable (txout_scriptPubKey out)) (tx_vout tx))"
    "finite (dom (tx_effect H h tx V))"
proof -
  let ?C = "created (tx_GetHash H tx) h (IsCoinBase tx) 0 (tx_vout tx)"
  have sub: "spent_by tx \<subseteq> dom V" using tx by (auto simp: tx_connectable_def spent_by_def)
  have inputs: "(\<Sum>op\<in>spent_by tx. coin_value (the (V op))) = (if IsCoinBase tx then 0 else sum_list (map (input_value V) (tx_vin tx)))"
    using tx sum.distinct_set_conv_list [of "map txin_prevout (tx_vin tx)" "\<lambda>op. coin_value (the (V op))"]
    by (auto simp: spent_by_def tx_connectable_def comp_def)
  have fin: "finite (dom (V |` (- spent_by tx)))" using V by simp
  have "dom V \<inter> dom ?C = {}" using tx by (intro created_fresh) (simp add: tx_connectable_def)
  then have "dom (V |` (- spent_by tx)) \<inter> dom ?C = {}" by auto
  then show "total_value (tx_effect H h tx V) = total_value V - (if IsCoinBase tx then 0 else sum_list (map (input_value V) (tx_vin tx))) +
      values_of (filter (\<lambda>out. \<not> IsUnspendable (txout_scriptPubKey out)) (tx_vout tx))"
    using total_value_add [OF fin finite_created] total_value_restrict [OF V sub] inputs tx
    by (simp add: tx_effect_def total_value_created tx_connectable_def)
  show "finite (dom (tx_effect H h tx V))" using fin by (simp add: tx_effect_def)
qed

lemma sane_connectable:
  assumes "tx_sane tx" "\<not> IsCoinBase tx \<Longrightarrow> \<forall>i\<in>set (tx_vin tx). V (txin_prevout i) \<noteq> None"
    "\<forall>k. V (outpoint (tx_GetHash H tx) k) = None"
  shows "tx_connectable H tx V"
proof -
  have "length (tx_vout tx) < 2 ^ 32" using assms(1) vout_size [of tx] by (simp add: tx_sane_def MAX_BLOCK_WEIGHT_def)
  moreover have "txout_nValue out \<noteq> - 1" if "out \<in> set (tx_vout tx)" for out using assms(1) that by (auto simp: tx_sane_def)
  ultimately show ?thesis using assms by (auto simp: tx_connectable_def tx_sane_def)
qed

lemma accepted_tx_value:
  assumes inv: "cache_inv mu B c" and B: "base_ok B" and mu: "mu [] = 0" and fin: "finite (dom (cache_view B c))"
    and tx: "tx_sane tx" and ck: "\<not> IsCoinBase tx \<Longrightarrow> CheckTxInputs mu B tx c0 nh = Inr (Inr fee, c1)"
    and c0: "same_coins mu B c0 c" "cache_inv mu B c0"
    and new: "\<forall>k. cache_view B c (outpoint (tx_GetHash H tx) k) = None"
  obtains c' where "UpdateCoins H mu B tx c [] h = Inr (undo_of tx (cache_view B c), c')" "cache_inv mu B c'" "tx_connectable H tx (cache_view B c)"
    "cache_view B c' = tx_effect H h tx (cache_view B c)" "cc_hashBlock c' = cc_hashBlock c" "finite (dom (cache_view B c'))"
    "total_value (cache_view B c') \<le> total_value (cache_view B c) + (if IsCoinBase tx then values_of (tx_vout tx) else - fee)"
proof -
  let ?V = "cache_view B c"
  have fee: "fee = sum_list (map (input_value ?V) (tx_vin tx)) - values_of (tx_vout tx)"
      "\<forall>i\<in>set (tx_vin tx). ?V (txin_prevout i) \<noteq> None" if n: "\<not> IsCoinBase tx"
    using CheckTxInputs_value(2) [OF c0(2) B ck [OF n] refl tx] same_coins_inv(2) [OF c0(1)] by fastforce+
  have con: "tx_connectable H tx ?V" using sane_connectable [OF tx] fee(2) new by blast
  note T = total_value_tx_effect [OF fin con, of h]
  have "values_of (filter (\<lambda>out. \<not> IsUnspendable (txout_scriptPubKey out)) (tx_vout tx)) \<le> values_of (tx_vout tx)"
    using tx spendable_values by (simp add: tx_sane_def)
  then have le: "total_value (tx_effect H h tx ?V) \<le> total_value ?V + (if IsCoinBase tx then values_of (tx_vout tx) else - fee)"
    using T(1) fee(1) by auto
  show thesis
  proof (rule UpdateCoins_ok [OF inv B mu con, of h])
    fix c' assume "UpdateCoins H mu B tx c [] h = Inr (if IsCoinBase tx then [] else map (\<lambda>i. the (?V (txin_prevout i))) (tx_vin tx), c')"
      "cache_inv mu B c'" "cache_view B c' = tx_effect H h tx ?V" "cc_hashBlock c' = cc_hashBlock c"
    then show thesis using that con le T(2) by (auto simp: undo_of_def)
  qed
qed

subsection \<open>Relative lock times\<close>

definition coin_time :: "BlockMap \<Rightarrow> bptr \<Rightarrow> int \<Rightarrow> int cxx" where
  "coin_time st block nCoinHeight =
    bindE (GetAncestor st block (max (nCoinHeight - 1) 0)) (\<lambda>a.
    bindE (cxx_assert (a \<noteq> None)) (\<lambda>_. GetMedianTimePast st (the a)))"

text \<open>
  What BIP 68 demands of one input, for a block at height \<open>height\<close> whose predecessor has the median
  time \<open>time\<close>: units of blocks count from the height of the coin, units of 512 seconds from the median
  time of the block before it.
\<close>

definition lock_met :: "BlockMap \<Rightarrow> bptr \<Rightarrow> int \<Rightarrow> int \<Rightarrow> CTxIn \<Rightarrow> int \<Rightarrow> bool" where
  "lock_met st block height time txin nCoinHeight \<longleftrightarrow>
    (let s = txin_nSequence txin; n = uint (s AND SEQUENCE_LOCKTIME_MASK) in
     s AND SEQUENCE_LOCKTIME_DISABLE_FLAG \<noteq> 0 \<or>
     (if s AND SEQUENCE_LOCKTIME_TYPE_FLAG \<noteq> 0
      then \<exists>t. coin_time st block nCoinHeight = Inr t \<and> t + n * 512 \<le> time
      else nCoinHeight + n \<le> height))"

lemma granularity: "uint (push_bit SEQUENCE_LOCKTIME_GRANULARITY (s AND SEQUENCE_LOCKTIME_MASK)) = uint (s AND SEQUENCE_LOCKTIME_MASK) * 512"
proof -
  have "uint (s AND SEQUENCE_LOCKTIME_MASK) \<le> uint SEQUENCE_LOCKTIME_MASK" unfolding uint_and by (rule AND_upper2) simp
  then have "uint (s AND SEQUENCE_LOCKTIME_MASK) \<le> 65535" by (simp add: SEQUENCE_LOCKTIME_MASK_def)
  then show ?thesis
    using uint_mult_lem [of "s AND SEQUENCE_LOCKTIME_MASK" 512]
    by (simp add: SEQUENCE_LOCKTIME_GRANULARITY_def push_bit_eq_mult del: push_bit_and)
qed

lemma input_lock_met:
  assumes "input_lock st block txin h lock = Inr lock'" "txin_nSequence txin AND SEQUENCE_LOCKTIME_DISABLE_FLAG = 0"
  shows "fst lock' < height \<and> snd lock' < time \<longleftrightarrow> fst lock < height \<and> snd lock < time \<and> lock_met st block height time txin h"
  using assms
  by (cases lock) (auto simp: input_lock_def lock_met_def coin_time_def Let_def bindE_Inr_iff granularity simp del: push_bit_and split: if_splits)

lemma sequence_locks_met:
  "sequence_locks st block vin hs lock = Inr (lock', hs') \<Longrightarrow> length hs = length vin \<Longrightarrow>
    fst lock' < height \<and> snd lock' < time \<longleftrightarrow>
      fst lock < height \<and> snd lock < time \<and> (\<forall>(txin, h)\<in>set (zip vin hs). lock_met st block height time txin h)"
proof (induction st block vin hs lock arbitrary: lock' hs' rule: sequence_locks.induct)
  case (1 st block txin vin h hs lock)
  show ?case
  proof (cases "txin_nSequence txin AND SEQUENCE_LOCKTIME_DISABLE_FLAG = 0")
    case True
    then obtain lock1 where "input_lock st block txin h lock = Inr lock1" "\<exists>hs1. sequence_locks st block vin hs lock1 = Inr (lock', hs1)"
      using 1(3) by (auto simp: bindE_Inr_iff)
    then show ?thesis using 1(2) [of lock1 lock'] 1(4) True input_lock_met by fastforce
  next
    case False
    then have "lock_met st block height time txin h" by (simp add: lock_met_def Let_def)
    moreover obtain hs1 where "sequence_locks st block vin hs lock = Inr (lock', hs1)"
      using False 1(3) by (auto simp: bindE_Inr_iff)
    ultimately show ?thesis using 1(1) [OF False, of lock' hs1] 1(4) by auto
  qed
qed auto

subsection \<open>Time locks in scripts\<close>

text \<open>
  A script that demanded a lock time of its transaction, absolute or relative, holds the transaction
  back: a final transaction is in a block after the absolute one, and one whose sequence locks are met
  is in a block that is old enough for the relative one.
\<close>

lemma CheckLockTime_enforced:
  assumes "gc_CheckLockTime g n" "IsFinalTx (gc_txTo g) nBlockHeight nBlockTime"
    "unat (gc_nIn g) < length (tx_vin (gc_txTo g))" "0 < n"
  shows "n < (if n < LOCKTIME_THRESHOLD then nBlockHeight else nBlockTime)"
proof -
  let ?i = "tx_vin (gc_txTo g) ! unat (gc_nIn g)"
  have "?i \<in> set (tx_vin (gc_txTo g))" using assms(3) by simp
  moreover have "txin_nSequence ?i \<noteq> SEQUENCE_FINAL" using assms(1) by (auto simp: gc_CheckLockTime_def Let_def split: if_splits)
  ultimately have "\<not> list_all (\<lambda>txin. txin_nSequence txin = SEQUENCE_FINAL) (tx_vin (gc_txTo g))"
    unfolding list_all_iff by blast
  then show ?thesis using assms(1,2,4)
    by (auto simp: gc_CheckLockTime_def IsFinalTx_def Let_def split: if_splits)
qed

lemma and_power_of_two: "x AND 2 ^ n = (if bit x n then 2 ^ n else 0 :: int)"
  by (rule bit_eqI) (auto simp: bit_simps)

lemma masked_sequence:
  "x AND uint (SEQUENCE_LOCKTIME_TYPE_FLAG OR SEQUENCE_LOCKTIME_MASK) = (if bit x 22 then 2 ^ 22 else 0) + (x AND 65535 :: int)"
proof -
  have m: "uint (SEQUENCE_LOCKTIME_TYPE_FLAG OR SEQUENCE_LOCKTIME_MASK) = 2 ^ 22 OR 65535"
    by (simp add: SEQUENCE_LOCKTIME_TYPE_FLAG_def SEQUENCE_LOCKTIME_MASK_def push_bit_eq_mult)
  have d: "(x AND 2 ^ 22) AND (x AND 65535) = (x AND x) AND (2 ^ 22 AND 65535)" by (simp only: ac_simps)
  have "(x AND 2 ^ 22) AND (x AND 65535) = 0" unfolding d by simp
  then have "(x AND 2 ^ 22) + (x AND 65535) = (x AND 2 ^ 22) OR (x AND 65535)" by (rule disjunctive_add_eq_or)
  then show ?thesis unfolding m by (simp only: bit.conj_disj_distrib and_power_of_two)
qed

lemma masked_bounds: "0 \<le> x AND (65535 :: int)" "x AND (65535 :: int) < 2 ^ 22"
  using AND_upper2 [of 65535 x] by simp_all

lemma sequence_parts:
  "s AND SEQUENCE_LOCKTIME_TYPE_FLAG \<noteq> 0 \<longleftrightarrow> bit (uint s) 22"
  "uint (s AND SEQUENCE_LOCKTIME_MASK) = uint s AND 65535"
  "uint SEQUENCE_LOCKTIME_TYPE_FLAG = 2 ^ 22"
  by (simp_all add: SEQUENCE_LOCKTIME_TYPE_FLAG_def SEQUENCE_LOCKTIME_MASK_def uint_and push_bit_eq_mult bit_uint_iff
      and_exp_eq_0_iff_not_bit [of s 22, simplified])

lemma CheckSequence_enforced:
  assumes ck: "gc_CheckSequence g n"
    and met: "lock_met st block height time (tx_vin (gc_txTo g) ! unat (gc_nIn g)) h"
  shows "if bit n 22 then \<exists>t. coin_time st block h = Inr t \<and> t + (n AND 65535) * 512 \<le> time else h + (n AND 65535) \<le> height"
proof -
  define s where "s = txin_nSequence (tx_vin (gc_txTo g) ! unat (gc_nIn g))"
  have en: "s AND SEQUENCE_LOCKTIME_DISABLE_FLAG = 0"
    using ck unfolding gc_CheckSequence_def Let_def s_def [symmetric] uint_and [symmetric]
    by (auto simp: uint_0_iff split: if_splits)
  let ?m = "\<lambda>x. (if bit x 22 then 2 ^ 22 else 0) + (x AND 65535 :: int)"
  have "(?m (uint s) < 2 ^ 22 \<longleftrightarrow> ?m n < 2 ^ 22) \<and> ?m n \<le> ?m (uint s)"
    using ck unfolding gc_CheckSequence_def Let_def s_def [symmetric] masked_sequence sequence_parts(3)
    by (auto simp only: if_splits not_less)
  then have "(bit (uint s) 22 \<longleftrightarrow> bit n 22) \<and> n AND 65535 \<le> uint s AND 65535"
    using masked_bounds [of n] masked_bounds [of "uint s"]
    by (cases "bit n 22"; cases "bit (uint s) 22"; simp only: if_True if_False; linarith)
  then show ?thesis using met en unfolding lock_met_def Let_def s_def [symmetric] sequence_parts
    by (auto split: if_splits)
qed

lemma p2sh_sigops_same:
  "cache_inv mu B c \<Longrightarrow> base_ok B \<Longrightarrow> p2sh_sigops mu B vin n c = Inr (n', c') \<Longrightarrow> same_coins mu B c c'"
proof (induction vin arbitrary: n c)
  case (Cons i vin)
  obtain coin c1 where a: "AccessCoin mu B (txin_prevout i) c = (coin, c1)" by force
  note A = AccessCoin_same(1) [OF Cons.prems(1,2) a]
  show ?case using Cons.IH [OF same_coins_inv(1) [OF A] Cons.prems(2)] Cons.prems(3) a same_coins_trans [OF A]
    by (auto simp: bindE_Inr_iff Let_def split: if_splits)
qed auto

lemma witness_sigops_same:
  "cache_inv mu B c \<Longrightarrow> base_ok B \<Longrightarrow> witness_sigops mu B F vin n c = Inr (n', c') \<Longrightarrow> same_coins mu B c c'"
proof (induction vin arbitrary: n c)
  case (Cons i vin)
  obtain coin c1 where a: "AccessCoin mu B (txin_prevout i) c = (coin, c1)" by force
  note A = AccessCoin_same(1) [OF Cons.prems(1,2) a]
  show ?case using Cons.IH [OF same_coins_inv(1) [OF A] Cons.prems(2)] Cons.prems(3) a same_coins_trans [OF A]
    by (auto simp: bindE_Inr_iff)
qed auto

lemma GetTransactionSigOpCost_same:
  assumes "cache_inv mu B c" "base_ok B" "GetTransactionSigOpCost mu B tx c F = Inr (n, c')"
  shows "same_coins mu B c c'"
proof (cases "IsCoinBase tx")
  case True
  then show ?thesis using assms by (auto simp: GetTransactionSigOpCost_def)
next
  case False
  then obtain m c1 where c1: "(if F AND SCRIPT_VERIFY_P2SH \<noteq> 0 then \<exists>k. p2sh_sigops mu B (tx_vin tx) 0 c = Inr (k, c1) else c1 = c)"
      "witness_sigops mu B F (tx_vin tx) m c1 = Inr (n, c')"
    using assms(3) by (auto simp: GetTransactionSigOpCost_def GetP2SHSigOpCount_def Let_def bindE_Inr_iff split: if_splits)
  then have s: "same_coins mu B c c1" using p2sh_sigops_same [OF assms(1,2)] assms(1) by (auto split: if_splits)
  show ?thesis using witness_sigops_same [OF same_coins_inv(1) [OF s] assms(2) c1(2)] same_coins_trans [OF s] by blast
qed

end
