(* ===== verification/Script_Verify.thy ===== *)
theory Script_Verify
  imports Sig_Hash Merkle
begin

text \<open>
  Verification of an input, \<^verbatim>\<open>VerifyScript\<close> of \<^verbatim>\<open>src/src/script/interpreter.cpp\<close>, with the witness programs: version 0
  keys and scripts, Taproot, and the P2MR programs of this chain, which commit to a tree of scripts and
  are spent with post-quantum signatures. A witness stack is a list with its first element first.
\<close>

unbundle bit_operations_syntax

subsection \<open>Commitments to script trees\<close>

definition TAPROOT_LEAF_MASK :: byte where "TAPROOT_LEAF_MASK = 0xfe"
definition TAPROOT_LEAF_TAPSCRIPT :: byte where "TAPROOT_LEAF_TAPSCRIPT = 0xc0"
definition TAPROOT_CONTROL_BASE_SIZE :: nat where "TAPROOT_CONTROL_BASE_SIZE = 33"
definition TAPROOT_CONTROL_NODE_SIZE :: nat where "TAPROOT_CONTROL_NODE_SIZE = 32"
definition TAPROOT_CONTROL_MAX_SIZE :: nat where "TAPROOT_CONTROL_MAX_SIZE = 33 + 32 * 128"
definition P2MR_CONTROL_BASE_SIZE :: nat where "P2MR_CONTROL_BASE_SIZE = 1"
definition P2MR_CONTROL_NODE_SIZE :: nat where "P2MR_CONTROL_NODE_SIZE = 32"
definition P2MR_CONTROL_MAX_SIZE :: nat where "P2MR_CONTROL_MAX_SIZE = 1 + 32 * 128"
definition P2MR_LEAF_VERSION_V1 :: byte where "P2MR_LEAF_VERSION_V1 = 0xc0"
definition ANNEX_TAG :: byte where "ANNEX_TAG = 0x50"
definition VALIDATION_WEIGHT_OFFSET :: int where "VALIDATION_WEIGHT_OFFSET = 50"
definition MAX_P2MR_V1_STACK_ITEM_SIZE :: nat where "MAX_P2MR_V1_STACK_ITEM_SIZE = 16 * 1024"
definition MAX_P2MR_V1_TOTAL_INITIAL_STACK_BYTES :: nat where "MAX_P2MR_V1_TOTAL_INITIAL_STACK_BYTES = 128 * 1024"

definition ComputeTapleafHash :: "(bytes \<Rightarrow> bytes) \<Rightarrow> byte \<Rightarrow> bytes \<Rightarrow> uint256" where
  "ComputeTapleafHash sha leaf_version script =
    GetSHA256 sha (TaggedHash sha ''TapLeaf'' @ [leaf_version] @ WriteCompactSize (of_nat (length script)) @ script)"

definition ComputeP2MRLeafHash :: "(bytes \<Rightarrow> bytes) \<Rightarrow> byte \<Rightarrow> bytes \<Rightarrow> uint256" where
  "ComputeP2MRLeafHash sha leaf_version script =
    GetSHA256 sha (TaggedHash sha ''P2MRLeaf'' @ [leaf_version] @ WriteCompactSize (of_nat (length script)) @ script)"

fun lexicographical_less :: "bytes \<Rightarrow> bytes \<Rightarrow> bool" where
  "lexicographical_less [] [] = False"
| "lexicographical_less [] (b # bs) = True"
| "lexicographical_less (a # as) [] = False"
| "lexicographical_less (a # as) (b # bs) = (a < b \<or> (a = b \<and> lexicographical_less as bs))"

definition ComputeTapbranchHash :: "(bytes \<Rightarrow> bytes) \<Rightarrow> bytes \<Rightarrow> bytes \<Rightarrow> uint256" where
  "ComputeTapbranchHash sha a b =
    GetSHA256 sha (TaggedHash sha ''TapBranch'' @ (if lexicographical_less a b then a @ b else b @ a))"

definition ComputeP2MRBranchHash :: "(bytes \<Rightarrow> bytes) \<Rightarrow> bytes \<Rightarrow> bytes \<Rightarrow> uint256" where
  "ComputeP2MRBranchHash sha a b =
    GetSHA256 sha (TaggedHash sha ''P2MRBranch'' @ (if lexicographical_less a b then a @ b else b @ a))"

definition control_node :: "nat \<Rightarrow> bytes \<Rightarrow> nat \<Rightarrow> bytes" where
  "control_node base control i = take 32 (drop (base + 32 * i) control)"

definition ComputeTaprootMerkleRoot :: "(bytes \<Rightarrow> bytes) \<Rightarrow> bytes \<Rightarrow> uint256 \<Rightarrow> uint256 cxx" where
  "ComputeTaprootMerkleRoot sha control tapleaf_hash =
    bindE (cxx_assert (length control \<ge> TAPROOT_CONTROL_BASE_SIZE)) (\<lambda>_.
    bindE (cxx_assert (length control \<le> TAPROOT_CONTROL_MAX_SIZE)) (\<lambda>_.
    bindE (cxx_assert ((length control - TAPROOT_CONTROL_BASE_SIZE) mod TAPROOT_CONTROL_NODE_SIZE = 0)) (\<lambda>_.
    let path_len = (length control - TAPROOT_CONTROL_BASE_SIZE) div TAPROOT_CONTROL_NODE_SIZE in
    Inr (fold (\<lambda>i k. ComputeTapbranchHash sha k (control_node TAPROOT_CONTROL_BASE_SIZE control i)) [0..<path_len] tapleaf_hash))))"

definition ComputeP2MRMerkleRoot :: "(bytes \<Rightarrow> bytes) \<Rightarrow> bytes \<Rightarrow> uint256 \<Rightarrow> uint256 cxx" where
  "ComputeP2MRMerkleRoot sha control tapleaf_hash =
    bindE (cxx_assert (length control \<ge> P2MR_CONTROL_BASE_SIZE)) (\<lambda>_.
    bindE (cxx_assert (length control \<le> P2MR_CONTROL_MAX_SIZE)) (\<lambda>_.
    bindE (cxx_assert ((length control - P2MR_CONTROL_BASE_SIZE) mod P2MR_CONTROL_NODE_SIZE = 0)) (\<lambda>_.
    let path_len = (length control - P2MR_CONTROL_BASE_SIZE) div P2MR_CONTROL_NODE_SIZE in
    Inr (fold (\<lambda>i k. ComputeP2MRBranchHash sha k (control_node P2MR_CONTROL_BASE_SIZE control i)) [0..<path_len] tapleaf_hash))))"

definition VerifyP2MRCommitment :: "(bytes \<Rightarrow> bytes) \<Rightarrow> bytes \<Rightarrow> bytes \<Rightarrow> uint256 \<Rightarrow> bool cxx" where
  "VerifyP2MRCommitment sha control program leaf_hash =
    bindE (cxx_assert (length control \<ge> P2MR_CONTROL_BASE_SIZE)) (\<lambda>_.
    bindE (cxx_assert (length program = 32)) (\<lambda>_.
    bindE (ComputeP2MRMerkleRoot sha control leaf_hash) (\<lambda>merkle_root. Inr (merkle_root = program))))"

definition VerifyTaprootCommitment :: "script_ctx \<Rightarrow> bytes \<Rightarrow> bytes \<Rightarrow> uint256 \<Rightarrow> bool cxx" where
  "VerifyTaprootCommitment ctx control program tapleaf_hash =
    bindE (cxx_assert (length control \<ge> TAPROOT_CONTROL_BASE_SIZE)) (\<lambda>_.
    bindE (cxx_assert (length program \<ge> 32)) (\<lambda>_.
    bindE (ComputeTaprootMerkleRoot (sc_sha256 ctx) control tapleaf_hash) (\<lambda>merkle_root.
    Inr (sc_CheckTapTweak ctx program (take 32 (drop 1 control)) merkle_root (control ! 0 AND 1 \<noteq> 0)))))"

subsection \<open>Running a witness script\<close>

text \<open>True when an unknown opcode makes the script succeed at once.\<close>

function scan_op_success :: "script_ctx \<Rightarrow> bytes \<Rightarrow> bool script" where
  "scan_op_success ctx pc =
    (if pc = [] then Inr False
     else case GetScriptOp pc of None \<Rightarrow> set_error SCRIPT_ERR_BAD_OPCODE
     | Some (opcode, _, rest) \<Rightarrow>
        if opcode = OP_CHECKTEMPLATEVERIFY \<and> sc_sigversion ctx = P2MR then scan_op_success ctx rest
        else if IsOpSuccess opcode then
          (if sc_sigversion ctx = P2MR \<and> (opcode = OP_CHECKDATASIGPQC \<or> opcode = OP_CHECKDATASIGADDPQC)
           then scan_op_success ctx rest
           else if flag ctx SCRIPT_VERIFY_DISCOURAGE_OP_SUCCESS then set_error SCRIPT_ERR_DISCOURAGE_OP_SUCCESS
           else Inr True)
        else scan_op_success ctx rest)"
  by pat_completeness auto
termination by (relation "measure (\<lambda>(ctx, pc). length pc)") (auto dest: GetScriptOp_progress)

declare scan_op_success.simps [simp del]

definition ExecuteWitnessScript :: "script_ctx \<Rightarrow> valtype list \<Rightarrow> CScript \<Rightarrow> ScriptExecutionData \<Rightarrow> unit script" where
  "ExecuteWitnessScript ctx stack_span exec_script execdata =
    bindE (if sc_sigversion ctx = TAPSCRIPT \<or> sc_sigversion ctx = P2MR then
             bindE (scan_op_success ctx exec_script) (\<lambda>success.
             if success then Inr True
             else if length stack_span > MAX_STACK_SIZE then set_error SCRIPT_ERR_STACK_SIZE else Inr False)
           else Inr False) (\<lambda>done.
    if done then Inr ()
    else if sc_sigversion ctx \<noteq> P2MR \<and> list_ex (\<lambda>elem. length elem > MAX_SCRIPT_ELEMENT_SIZE) stack_span
    then set_error SCRIPT_ERR_PUSH_SIZE
    else bindE (EvalScript ctx exec_script (rev stack_span) execdata) (\<lambda>(stack, _).
      case stack of [x] \<Rightarrow> if CastToBool x then Inr () else set_error SCRIPT_ERR_EVAL_FALSE
      | _ \<Rightarrow> set_error SCRIPT_ERR_CLEANSTACK))"

fun stack_bytes_ok :: "valtype list \<Rightarrow> nat \<Rightarrow> bool" where
  "stack_bytes_ok [] total_bytes = True"
| "stack_bytes_ok (elem # stack) total_bytes =
    (if length elem > MAX_P2MR_V1_STACK_ITEM_SIZE then False
     else if total_bytes + length elem > MAX_P2MR_V1_TOTAL_INITIAL_STACK_BYTES then False
     else stack_bytes_ok stack (total_bytes + length elem))"

definition CheckP2MRV1InitialStackResourceLimits :: "valtype list \<Rightarrow> unit script" where
  "CheckP2MRV1InitialStackResourceLimits stack =
    (if length stack > MAX_STACK_SIZE then set_error SCRIPT_ERR_STACK_SIZE
     else if \<not> stack_bytes_ok stack 0 then set_error SCRIPT_ERR_PUSH_SIZE else Inr ())"

subsection \<open>Witness programs\<close>

text \<open>Taking off the annex.\<close>

definition drop_annex :: "(bytes \<Rightarrow> bytes) \<Rightarrow> valtype list \<Rightarrow> ScriptExecutionData \<Rightarrow> valtype list \<times> ScriptExecutionData" where
  "drop_annex sha stack execdata =
    (if length stack \<ge> 2 \<and> last stack \<noteq> [] \<and> last stack ! 0 = ANNEX_TAG
     then (butlast stack, execdata\<lparr>m_annex_hash := GetSHA256 sha (ser_bytes (last stack)), m_annex_present := True, m_annex_init := True\<rparr>)
     else (stack, execdata\<lparr>m_annex_present := False, m_annex_init := True\<rparr>))"

definition verify_v0 :: "script_ctx \<Rightarrow> valtype list \<Rightarrow> bytes \<Rightarrow> unit script" where
  "verify_v0 ctx stack program =
    (let ctx0 = ctx\<lparr>sc_sigversion := WITNESS_V0\<rparr> in
     if length program = 32 then
       (if length stack = 0 then set_error SCRIPT_ERR_WITNESS_PROGRAM_WITNESS_EMPTY
        else if sc_sha256 ctx (last stack) \<noteq> program then set_error SCRIPT_ERR_WITNESS_PROGRAM_MISMATCH
        else ExecuteWitnessScript ctx0 (butlast stack) (last stack) new_execdata)
     else if length program = 20 then
       (if length stack \<noteq> 2 then set_error SCRIPT_ERR_WITNESS_PROGRAM_MISMATCH
        else ExecuteWitnessScript ctx0 stack ([OP_DUP, OP_HASH160] @ push_data program @ [OP_EQUALVERIFY, OP_CHECKSIG]) new_execdata)
     else set_error SCRIPT_ERR_WITNESS_PROGRAM_WRONG_LENGTH)"

definition start_weight :: "valtype list \<Rightarrow> ScriptExecutionData \<Rightarrow> ScriptExecutionData" where
  "start_weight witness execdata = execdata\<lparr>
     m_validation_weight_left := int (length (ser_vector ser_bytes witness)) + VALIDATION_WEIGHT_OFFSET,
     m_validation_weight_left_init := True\<rparr>"

definition verify_taproot :: "script_ctx \<Rightarrow> valtype list \<Rightarrow> bytes \<Rightarrow> unit script" where
  "verify_taproot ctx witness program =
    (if \<not> flag ctx SCRIPT_VERIFY_TAPROOT then Inr ()
     else if length witness = 0 then set_error SCRIPT_ERR_WITNESS_PROGRAM_WITNESS_EMPTY
     else case drop_annex (sc_sha256 ctx) witness new_execdata of (stack, execdata) \<Rightarrow>
       if length stack = 1 then
         bindE (CheckSchnorrSignature (sc_checker ctx) (hd stack) program TAPROOT execdata) (\<lambda>_. Inr ())
       else
         let control = last stack; script = last (butlast stack); stack1 = butlast (butlast stack) in
         if length control < TAPROOT_CONTROL_BASE_SIZE \<or> length control > TAPROOT_CONTROL_MAX_SIZE \<or>
           (length control - TAPROOT_CONTROL_BASE_SIZE) mod TAPROOT_CONTROL_NODE_SIZE \<noteq> 0
         then set_error SCRIPT_ERR_TAPROOT_WRONG_CONTROL_SIZE
         else
           let leaf = ComputeTapleafHash (sc_sha256 ctx) (control ! 0 AND TAPROOT_LEAF_MASK) script in
           bindE (cxx (VerifyTaprootCommitment ctx control program leaf)) (\<lambda>ok.
           if \<not> ok then set_error SCRIPT_ERR_WITNESS_PROGRAM_MISMATCH
           else let execdata1 = execdata\<lparr>m_tapleaf_hash := leaf, m_tapleaf_hash_init := True\<rparr> in
             if control ! 0 AND TAPROOT_LEAF_MASK = TAPROOT_LEAF_TAPSCRIPT
             then ExecuteWitnessScript (ctx\<lparr>sc_sigversion := TAPSCRIPT\<rparr>) stack1 script (start_weight witness execdata1)
             else if flag ctx SCRIPT_VERIFY_DISCOURAGE_UPGRADABLE_TAPROOT_VERSION
             then set_error SCRIPT_ERR_DISCOURAGE_UPGRADABLE_TAPROOT_VERSION
             else Inr ()))"

definition verify_p2mr :: "script_ctx \<Rightarrow> valtype list \<Rightarrow> bytes \<Rightarrow> unit script" where
  "verify_p2mr ctx witness program =
    (if \<not> flag ctx SCRIPT_VERIFY_P2MR_RULES then Inr ()
     else if length witness = 0 then set_error SCRIPT_ERR_WITNESS_PROGRAM_WITNESS_EMPTY
     else case drop_annex (sc_sha256 ctx) witness new_execdata of (stack, execdata) \<Rightarrow>
       if length stack < 2 then set_error SCRIPT_ERR_WITNESS_PROGRAM_WITNESS_EMPTY
       else
         let control = last stack; script = last (butlast stack); stack1 = butlast (butlast stack) in
         if length control < P2MR_CONTROL_BASE_SIZE \<or> length control > P2MR_CONTROL_MAX_SIZE \<or>
           (length control - P2MR_CONTROL_BASE_SIZE) mod P2MR_CONTROL_NODE_SIZE \<noteq> 0
         then set_error SCRIPT_ERR_P2MR_WRONG_CONTROL_SIZE
         else if control ! 0 AND 1 \<noteq> 1 then set_error SCRIPT_ERR_P2MR_CONTROL_BIT0
         else
           let leaf_version = control ! 0 AND TAPROOT_LEAF_MASK; leaf = ComputeP2MRLeafHash (sc_sha256 ctx) leaf_version script in
           bindE (cxx (VerifyP2MRCommitment (sc_sha256 ctx) control program leaf)) (\<lambda>ok.
           if \<not> ok then set_error SCRIPT_ERR_WITNESS_PROGRAM_MISMATCH
           else let execdata1 = execdata\<lparr>m_tapleaf_hash := leaf, m_tapleaf_hash_init := True\<rparr> in
             if leaf_version = P2MR_LEAF_VERSION_V1
             then bindE (CheckP2MRV1InitialStackResourceLimits stack1) (\<lambda>_.
               ExecuteWitnessScript (ctx\<lparr>sc_sigversion := P2MR\<rparr>) stack1 script (start_weight witness execdata1))
             else if flag ctx SCRIPT_VERIFY_DISCOURAGE_UPGRADABLE_TAPROOT_VERSION
             then set_error SCRIPT_ERR_DISCOURAGE_UPGRADABLE_TAPROOT_VERSION
             else Inr ()))"

definition is_anchor_program :: "int \<Rightarrow> bytes \<Rightarrow> bool" where
  "is_anchor_program version program \<longleftrightarrow> version = 1 \<and> length program = 2 \<and> program ! 0 = 0x4e \<and> program ! 1 = 0x73"

definition VerifyWitnessProgram :: "script_ctx \<Rightarrow> valtype list \<Rightarrow> int \<Rightarrow> bytes \<Rightarrow> bool \<Rightarrow> unit script" where
  "VerifyWitnessProgram ctx witness witversion program is_p2sh =
    (if witversion = 0 then verify_v0 ctx witness program
     else if witversion = 1 \<and> length program = 32 \<and> \<not> is_p2sh then verify_taproot ctx witness program
     else if witversion = 2 \<and> length program = 32 \<and> \<not> is_p2sh then verify_p2mr ctx witness program
     else if \<not> is_p2sh \<and> is_anchor_program witversion program then Inr ()
     else if flag ctx SCRIPT_VERIFY_DISCOURAGE_UPGRADABLE_WITNESS_PROGRAM
     then set_error SCRIPT_ERR_DISCOURAGE_UPGRADABLE_WITNESS_PROGRAM
     else Inr ())"

subsection \<open>Verifying an input\<close>

definition base_ctx :: "script_ctx \<Rightarrow> script_ctx" where
  "base_ctx ctx = ctx\<lparr>sc_sigversion := BASE\<rparr>"

definition eval_true :: "valtype list \<Rightarrow> unit script" where
  "eval_true stack = (if stack = [] then set_error SCRIPT_ERR_EVAL_FALSE
     else if \<not> CastToBool (hd stack) then set_error SCRIPT_ERR_EVAL_FALSE else Inr ())"

text \<open>The two witness checks return whether there was a witness program, and the stack left.\<close>

definition bare_witness ::
  "script_ctx \<Rightarrow> CScript \<Rightarrow> CScript \<Rightarrow> valtype list \<Rightarrow> valtype list \<Rightarrow> (bool \<times> valtype list) script" where
  "bare_witness ctx scriptSig scriptPubKey witness stack =
    (if flag ctx SCRIPT_VERIFY_WITNESS then
       (case IsWitnessProgram scriptPubKey of None \<Rightarrow> Inr (False, stack)
        | Some (witnessversion, witnessprogram) \<Rightarrow>
          if length scriptSig \<noteq> 0 then set_error SCRIPT_ERR_WITNESS_MALLEATED
          else bindE (VerifyWitnessProgram ctx witness witnessversion witnessprogram False) (\<lambda>_. Inr (True, [last stack])))
     else Inr (False, stack))"

definition p2sh_witness ::
  "script_ctx \<Rightarrow> CScript \<Rightarrow> CScript \<Rightarrow> valtype list \<Rightarrow> bool \<Rightarrow> valtype list \<Rightarrow> (bool \<times> valtype list) script" where
  "p2sh_witness ctx scriptSig pubKey2 witness hadWitness stack =
    (if flag ctx SCRIPT_VERIFY_WITNESS then
       (case IsWitnessProgram pubKey2 of None \<Rightarrow> Inr (hadWitness, stack)
        | Some (witnessversion, witnessprogram) \<Rightarrow>
          if scriptSig \<noteq> push_data pubKey2 then set_error SCRIPT_ERR_WITNESS_MALLEATED_P2SH
          else bindE (VerifyWitnessProgram ctx witness witnessversion witnessprogram True) (\<lambda>_. Inr (True, [last stack])))
     else Inr (hadWitness, stack))"

definition p2sh_redeem ::
  "script_ctx \<Rightarrow> CScript \<Rightarrow> valtype list \<Rightarrow> valtype list \<Rightarrow> bool \<Rightarrow> (bool \<times> valtype list) script" where
  "p2sh_redeem ctx scriptSig witness stackCopy hadWitness =
    (if \<not> IsPushOnly scriptSig then set_error SCRIPT_ERR_SIG_PUSHONLY
     else bindE (cxx (cxx_assert (stackCopy \<noteq> []))) (\<lambda>_.
     let pubKey2 = hd stackCopy in
     bindE (EvalScript (base_ctx ctx) pubKey2 (tl stackCopy) new_execdata) (\<lambda>(stack, _).
     bindE (eval_true stack) (\<lambda>_. p2sh_witness ctx scriptSig pubKey2 witness hadWitness stack))))"

definition check_leftovers :: "script_ctx \<Rightarrow> valtype list \<Rightarrow> bool \<Rightarrow> valtype list \<Rightarrow> unit script" where
  "check_leftovers ctx witness hadWitness stack =
    bindE (if flag ctx SCRIPT_VERIFY_CLEANSTACK then
             bindE (cxx (cxx_assert (flag ctx SCRIPT_VERIFY_P2SH))) (\<lambda>_.
             bindE (cxx (cxx_assert (flag ctx SCRIPT_VERIFY_WITNESS))) (\<lambda>_.
             if length stack \<noteq> 1 then set_error SCRIPT_ERR_CLEANSTACK else Inr ()))
           else Inr ()) (\<lambda>_.
    if flag ctx SCRIPT_VERIFY_WITNESS then
      bindE (cxx (cxx_assert (flag ctx SCRIPT_VERIFY_P2SH))) (\<lambda>_.
      if \<not> hadWitness \<and> witness \<noteq> [] then set_error SCRIPT_ERR_WITNESS_UNEXPECTED else Inr ())
    else Inr ())"

definition VerifyScript :: "script_ctx \<Rightarrow> CScript \<Rightarrow> CScript \<Rightarrow> valtype list \<Rightarrow> unit script" where
  "VerifyScript ctx scriptSig scriptPubKey witness =
    (if flag ctx SCRIPT_VERIFY_SIGPUSHONLY \<and> \<not> IsPushOnly scriptSig then set_error SCRIPT_ERR_SIG_PUSHONLY
     else
     bindE (EvalScript (base_ctx ctx) scriptSig [] new_execdata) (\<lambda>(stackCopy, _).
     bindE (EvalScript (base_ctx ctx) scriptPubKey stackCopy new_execdata) (\<lambda>(stack, _).
     bindE (eval_true stack) (\<lambda>_.
     bindE (bare_witness ctx scriptSig scriptPubKey witness stack) (\<lambda>(hadWitness, stack1).
     bindE (if flag ctx SCRIPT_VERIFY_P2SH \<and> IsPayToScriptHash scriptPubKey
            then p2sh_redeem ctx scriptSig witness stackCopy hadWitness else Inr (hadWitness, stack1)) (\<lambda>(hadWitness, stack2).
     check_leftovers ctx witness hadWitness stack2))))))"

subsection \<open>Flags are soft forks\<close>

lemma stricter_sigversion: "stricter ctx' ctx \<Longrightarrow> stricter (ctx'\<lparr>sc_sigversion := v\<rparr>) (ctx\<lparr>sc_sigversion := v\<rparr>)"
  unfolding stricter_def by (metis script_ctx.select_convs(1) script_ctx.surjective script_ctx.update_convs(1,2))

lemmas flag_on = not_True_eq_False if_True if_False

lemma scan_op_success_allows:
  assumes s: "stricter ctx' ctx"
  shows "allows (=) (scan_op_success ctx pc) (scan_op_success ctx' pc)"
proof (induction pc rule: length_induct)
  case (1 pc)
  show ?case
  proof (cases "GetScriptOp pc")
    case None
    then show ?thesis by (simp add: scan_op_success.simps)
  next
    case (Some p)
    obtain opcode vch rest where p: "p = (opcode, vch, rest)" using prod_cases3 by blast
    then have "allows (=) (scan_op_success ctx rest) (scan_op_success ctx' rest)" using Some GetScriptOp_progress 1 by blast
    then show ?thesis using Some p stricter_flag [OF s] unfolding scan_op_success.simps [of _ pc] stricterD [OF s]
      by (auto intro!: allows_if)
  qed
qed

context signature_checker
begin

lemma ExecuteWitnessScript_allows:
  assumes s: "stricter ctx' ctx" and c: "sc_checker ctx = ck"
  shows "allows (\<lambda>_ _. True) (ExecuteWitnessScript ctx stack script d) (ExecuteWitnessScript ctx' stack script d)"
proof -
  have e: "allows more_weight_pair (EvalScript ctx script (rev stack) d) (EvalScript ctx' script (rev stack) d)"
    using EvalScript_allows [OF s c] by simp
  show ?thesis unfolding ExecuteWitnessScript_def stricterD [OF s]
    by (intro allows_bind_eq allows_if scan_op_success_allows s allows_eq allows_error allows_bind [OF e] | simp only: allows_Inr)+
      (auto simp: more_weight_pair_def set_error_def allows_def split: list.split)
qed

lemma verify_v0_allows:
  assumes s: "stricter ctx' ctx" and c: "sc_checker ctx = ck"
  shows "allows (\<lambda>_ _. True) (verify_v0 ctx stack program) (verify_v0 ctx' stack program)"
  unfolding verify_v0_def Let_def stricterD [OF s]
  by (intro allows_if allows_error ExecuteWitnessScript_allows stricter_sigversion s) (simp_all add: c)

lemma verify_taproot_allows:
  assumes s: "stricter ctx' ctx" and c: "sc_checker ctx = ck"
  shows "allows (\<lambda>_ _. True) (verify_taproot ctx stack program) (verify_taproot ctx' stack program)"
proof (cases "flag ctx SCRIPT_VERIFY_TAPROOT")
  case True
  obtain w d where a: "drop_annex (sc_sha256 ctx) stack new_execdata = (w, d)" by fastforce
  have t: "flag ctx' SCRIPT_VERIFY_TAPROOT" using True stricter_flag [OF s] by simp
  show ?thesis unfolding verify_taproot_def Let_def VerifyTaprootCommitment_def stricterD [OF s] a prod.case
    by (simp only: True t flag_on, intro allows_if allows_error allows_bind_eq [OF allows_eq] allows_reject
      ExecuteWitnessScript_allows stricter_sigversion s) (simp_all add: c stricter_flag [OF s])
qed (simp add: verify_taproot_def allows_def)

lemma verify_p2mr_allows:
  assumes s: "stricter ctx' ctx" and c: "sc_checker ctx = ck"
  shows "allows (\<lambda>_ _. True) (verify_p2mr ctx stack program) (verify_p2mr ctx' stack program)"
proof (cases "flag ctx SCRIPT_VERIFY_P2MR_RULES")
  case True
  obtain w d where a: "drop_annex (sc_sha256 ctx) stack new_execdata = (w, d)" by fastforce
  have t: "flag ctx' SCRIPT_VERIFY_P2MR_RULES" using True stricter_flag [OF s] by simp
  show ?thesis unfolding verify_p2mr_def Let_def stricterD [OF s] a prod.case
    by (simp only: True t flag_on, intro allows_if allows_error allows_bind_eq [OF allows_eq] allows_reject
      ExecuteWitnessScript_allows stricter_sigversion s) (simp_all add: c stricter_flag [OF s])
qed (simp add: verify_p2mr_def allows_def)

lemma VerifyWitnessProgram_allows:
  assumes s: "stricter ctx' ctx" and c: "sc_checker ctx = ck"
  shows "allows (\<lambda>_ _. True) (VerifyWitnessProgram ctx w v p is_p2sh) (VerifyWitnessProgram ctx' w v p is_p2sh)"
  unfolding VerifyWitnessProgram_def
  by (intro allows_if verify_v0_allows verify_taproot_allows verify_p2mr_allows s c allows_reject stricter_flag [OF s]) simp_all

text \<open>The witness steps agree when the weaker flags include the witness rules.\<close>

lemma bare_witness_allows:
  assumes s: "stricter ctx' ctx" and c: "sc_checker ctx = ck"
  shows "allows (\<lambda>r r'. flag ctx SCRIPT_VERIFY_WITNESS \<longrightarrow> r = r') (bare_witness ctx sg pk w stack) (bare_witness ctx' sg pk w stack)"
proof (cases "flag ctx SCRIPT_VERIFY_WITNESS")
  case True
  then have t: "flag ctx' SCRIPT_VERIFY_WITNESS" using stricter_flag [OF s] by simp
  show ?thesis
  proof (cases "IsWitnessProgram pk")
    case (Some p)
    obtain v prog where p: "p = (v, prog)" by fastforce
    show ?thesis unfolding bare_witness_def Some option.case p prod.case
      by (simp only: True t flag_on, intro allows_if allows_error allows_bind [OF VerifyWitnessProgram_allows [OF s c]]) simp_all
  qed (use True t in \<open>simp add: bare_witness_def\<close>)
qed (auto simp: bare_witness_def allows_def)

lemma p2sh_witness_allows:
  assumes s: "stricter ctx' ctx" and c: "sc_checker ctx = ck" and h: "flag ctx SCRIPT_VERIFY_WITNESS \<Longrightarrow> had = had'"
  shows "allows (\<lambda>r r'. flag ctx SCRIPT_VERIFY_WITNESS \<longrightarrow> r = r') (p2sh_witness ctx sg pk w had st) (p2sh_witness ctx' sg pk w had' st)"
proof (cases "flag ctx SCRIPT_VERIFY_WITNESS")
  case True
  then have t: "flag ctx' SCRIPT_VERIFY_WITNESS" using stricter_flag [OF s] by simp
  show ?thesis
  proof (cases "IsWitnessProgram pk")
    case (Some p)
    obtain v prog where p: "p = (v, prog)" by fastforce
    show ?thesis unfolding p2sh_witness_def Some option.case p prod.case
      by (simp only: True t flag_on, intro allows_if allows_error allows_bind [OF VerifyWitnessProgram_allows [OF s c]]) simp_all
  qed (use True t h in \<open>simp add: p2sh_witness_def\<close>)
qed (auto simp: p2sh_witness_def allows_def)

lemma base_EvalScript_allows:
  assumes s: "stricter ctx' ctx" and c: "sc_checker ctx = ck"
  shows "allows (\<lambda>r r'. fst r = fst r') (EvalScript (base_ctx ctx) pk st new_execdata) (EvalScript (base_ctx ctx') pk st new_execdata)"
proof -
  have "allows more_weight_pair (EvalScript (base_ctx ctx) pk st new_execdata) (EvalScript (base_ctx ctx') pk st new_execdata)"
    using EvalScript_allows [of "base_ctx ctx'" "base_ctx ctx"] stricter_sigversion [OF s] c by (simp add: base_ctx_def)
  then show ?thesis by (auto simp: allows_def more_weight_pair_def)
qed

lemma p2sh_redeem_allows:
  assumes s: "stricter ctx' ctx" and c: "sc_checker ctx = ck" and h: "flag ctx SCRIPT_VERIFY_WITNESS \<Longrightarrow> had = had'"
  shows "allows (\<lambda>r r'. flag ctx SCRIPT_VERIFY_WITNESS \<longrightarrow> r = r') (p2sh_redeem ctx sg w stack had) (p2sh_redeem ctx' sg w stack had')"
  unfolding p2sh_redeem_def Let_def split_beta
proof (intro allows_if allows_error allows_bind_eq [OF allows_eq] allows_bind [OF base_EvalScript_allows [OF s c]])
  fix a a' :: "valtype list \<times> ScriptExecutionData"
  assume a: "fst a = fst a'"
  show "allows (\<lambda>r r'. flag ctx SCRIPT_VERIFY_WITNESS \<longrightarrow> r = r')
      (bindE (eval_true (fst a)) (\<lambda>_. p2sh_witness ctx sg (hd stack) w had (fst a)))
      (bindE (eval_true (fst a')) (\<lambda>_. p2sh_witness ctx' sg (hd stack) w had' (fst a')))"
    unfolding a by (intro allows_bind_eq [OF allows_eq] p2sh_witness_allows s c h)
qed

lemma check_leftovers_allows:
  assumes s: "stricter ctx' ctx" and f: "flag ctx SCRIPT_VERIFY_CLEANSTACK \<Longrightarrow> flag ctx SCRIPT_VERIFY_WITNESS"
      "flag ctx SCRIPT_VERIFY_WITNESS \<Longrightarrow> flag ctx SCRIPT_VERIFY_P2SH"
    and r: "flag ctx SCRIPT_VERIFY_WITNESS \<Longrightarrow> had = had' \<and> st = st'"
  shows "allows (\<lambda>_ _. True) (check_leftovers ctx w had st) (check_leftovers ctx' w had' st')"
proof (cases "flag ctx SCRIPT_VERIFY_WITNESS")
  case True
  then have "flag ctx SCRIPT_VERIFY_P2SH" "flag ctx' SCRIPT_VERIFY_P2SH" "flag ctx' SCRIPT_VERIFY_WITNESS" "had = had'" "st = st'"
    using f r stricter_flag [OF s] by auto
  then show ?thesis using True stricter_flag [OF s, of SCRIPT_VERIFY_CLEANSTACK]
    by (auto simp: check_leftovers_def allows_def cxx_assert_def cxx_def set_error_def)
next
  case False
  then have "\<not> flag ctx SCRIPT_VERIFY_CLEANSTACK" using f(1) by blast
  then show ?thesis using False by (simp add: check_leftovers_def allows_def)
qed

lemma VerifyScript_allows:
  assumes s: "stricter ctx' ctx" and c: "sc_checker ctx = ck"
    and f: "flag ctx SCRIPT_VERIFY_CLEANSTACK \<Longrightarrow> flag ctx SCRIPT_VERIFY_WITNESS"
      "flag ctx SCRIPT_VERIFY_WITNESS \<Longrightarrow> flag ctx SCRIPT_VERIFY_P2SH"
  shows "allows (\<lambda>_ _. True) (VerifyScript ctx sg pk w) (VerifyScript ctx' sg pk w)"
proof -
  let ?R = "\<lambda>r r'. flag ctx SCRIPT_VERIFY_WITNESS \<longrightarrow> r = (r' :: bool \<times> valtype list)"
  have p: "allows ?R
      (if flag ctx SCRIPT_VERIFY_P2SH \<and> IsPayToScriptHash pk then p2sh_redeem ctx sg w st (fst r) else Inr r)
      (if flag ctx' SCRIPT_VERIFY_P2SH \<and> IsPayToScriptHash pk then p2sh_redeem ctx' sg w st (fst r') else Inr r')"
    if "?R r r'" for st r r'
  proof (cases "flag ctx SCRIPT_VERIFY_P2SH")
    case True
    then have "flag ctx' SCRIPT_VERIFY_P2SH" using stricter_flag [OF s] by simp
    then show ?thesis using True that by (auto intro!: p2sh_redeem_allows s c)
  qed (use f(2) in \<open>auto simp: allows_def\<close>)
  have l: "allows (\<lambda>_ _. True) (check_leftovers ctx w (fst r) (snd r)) (check_leftovers ctx' w (fst r') (snd r'))" if "?R r r'" for r r'
    by (rule check_leftovers_allows [OF s f]) (use that in auto)
  have b: "allows (\<lambda>_ _. True)
      (bindE (bare_witness ctx sg pk w st) (\<lambda>r.
       bindE (if flag ctx SCRIPT_VERIFY_P2SH \<and> IsPayToScriptHash pk then p2sh_redeem ctx sg w cp (fst r) else Inr r)
        (\<lambda>r. check_leftovers ctx w (fst r) (snd r))))
      (bindE (bare_witness ctx' sg pk w st) (\<lambda>r.
       bindE (if flag ctx' SCRIPT_VERIFY_P2SH \<and> IsPayToScriptHash pk then p2sh_redeem ctx' sg w cp (fst r) else Inr r)
        (\<lambda>r. check_leftovers ctx' w (fst r) (snd r))))" for st cp
    by (intro allows_bind [OF bare_witness_allows [OF s c]] allows_bind [OF p] l)
  show ?thesis unfolding VerifyScript_def split_beta prod.collapse
    by (intro allows_reject conj_mono impI conjI allows_bind [OF base_EvalScript_allows [OF s c]])
      (auto simp only: intro!: stricter_flag [OF s] allows_bind [OF base_EvalScript_allows [OF s c]] allows_bind_eq [OF allows_eq] b)
qed

end

subsection \<open>No assertion is reached\<close>

definition exec_init :: "ScriptExecutionData \<Rightarrow> bool" where
  "exec_init d \<longleftrightarrow> m_annex_init d \<and> m_tapleaf_hash_init d \<and> m_validation_weight_left_init d \<and> 0 \<le> m_validation_weight_left d"

lemma scan_op_success_clean: "clean (scan_op_success ctx pc)"
proof (induction pc rule: length_induct)
  case (1 pc)
  show ?case
  proof (cases "GetScriptOp pc")
    case (Some p)
    obtain opcode vch rest where p: "p = (opcode, vch, rest)" using prod_cases3 by blast
    then have "clean (scan_op_success ctx rest)" using Some GetScriptOp_progress 1 by blast
    then show ?thesis using Some p unfolding scan_op_success.simps [of _ pc] by (auto intro!: clean_if)
  qed (simp add: scan_op_success.simps)
qed

lemma ExecuteWitnessScript_clean:
  assumes c: "checker_total (sc_sigversion ctx) (sc_checker ctx)" "hashes_sized ctx" "sc_sigversion ctx \<noteq> TAPROOT"
    and d: "sc_sigversion ctx = WITNESS_V0 \<or> exec_init d"
  shows "clean (ExecuteWitnessScript ctx stack script d)"
proof -
  have e: "exec_ok ctx (d\<lparr>m_codeseparator_pos_init := True\<rparr>)" using d by (auto simp: exec_ok_def exec_init_def)
  have r: "clean (case s of [x] \<Rightarrow> if CastToBool x then Inr () else set_error SCRIPT_ERR_EVAL_FALSE | _ \<Rightarrow> set_error SCRIPT_ERR_CLEANSTACK)" for s
    by (simp split: list.split)
  show ?thesis unfolding ExecuteWitnessScript_def split_beta
    by (intro clean_bind clean_if scan_op_success_clean EvalScript_clean c e r) simp_all
qed

lemma verify_v0_clean:
  assumes "checker_total WITNESS_V0 (sc_checker ctx)" "hashes_sized ctx"
  shows "clean (verify_v0 ctx stack program)"
  using assms unfolding verify_v0_def Let_def by (intro clean_if clean_simps ExecuteWitnessScript_clean) (simp_all add: hashes_sized_def)

lemma drop_annex_init: "drop_annex sha w d = (s, e) \<Longrightarrow> m_annex_init e"
  by (auto simp: drop_annex_def split: if_splits)

lemma start_weight_init: "m_annex_init d \<Longrightarrow> m_tapleaf_hash_init d \<Longrightarrow> exec_init (start_weight w d)"
  by (simp add: start_weight_def exec_init_def VALIDATION_WEIGHT_OFFSET_def)

lemma commitments_clean:
  assumes "\<not> (length control < TAPROOT_CONTROL_BASE_SIZE \<or> length control > TAPROOT_CONTROL_MAX_SIZE \<or>
     (length control - TAPROOT_CONTROL_BASE_SIZE) mod TAPROOT_CONTROL_NODE_SIZE \<noteq> 0)" "length program = 32"
  shows "clean (cxx (VerifyTaprootCommitment ctx control program leaf))"
  using assms by (simp add: VerifyTaprootCommitment_def ComputeTaprootMerkleRoot_def cxx_assert_def cxx_def Let_def)

lemma p2mr_commitments_clean:
  assumes "\<not> (length control < P2MR_CONTROL_BASE_SIZE \<or> length control > P2MR_CONTROL_MAX_SIZE \<or>
     (length control - P2MR_CONTROL_BASE_SIZE) mod P2MR_CONTROL_NODE_SIZE \<noteq> 0)" "length program = 32"
  shows "clean (cxx (VerifyP2MRCommitment sha control program leaf))"
  using assms by (simp add: VerifyP2MRCommitment_def ComputeP2MRMerkleRoot_def cxx_assert_def cxx_def Let_def)

lemma verify_taproot_clean:
  assumes c: "w \<noteq> [] \<Longrightarrow> checker_total TAPSCRIPT (sc_checker ctx)" "hashes_sized ctx" and l: "length program = 32"
    and k: "\<And>sig d. w \<noteq> [] \<Longrightarrow> m_annex_init d \<Longrightarrow> clean (CheckSchnorrSignature (sc_checker ctx) sig program TAPROOT d)"
  shows "clean (verify_taproot ctx w program)"
proof (cases "w = []")
  case False
  obtain s d where a: "drop_annex (sc_sha256 ctx) w new_execdata = (s, d)" by fastforce
  show ?thesis unfolding verify_taproot_def a prod.case Let_def
    by (intro clean_bind clean_if clean_simps k False drop_annex_init [OF a] commitments_clean l ExecuteWitnessScript_clean disjI2 start_weight_init)
      (use c False drop_annex_init [OF a] in \<open>auto simp: hashes_sized_def\<close>)
qed (simp add: verify_taproot_def)

lemma verify_p2mr_clean:
  assumes c: "w \<noteq> [] \<Longrightarrow> checker_total P2MR (sc_checker ctx)" "hashes_sized ctx" and l: "length program = 32"
  shows "clean (verify_p2mr ctx w program)"
proof (cases "w = []")
  case False
  obtain s d where a: "drop_annex (sc_sha256 ctx) w new_execdata = (s, d)" by fastforce
  have r: "clean (CheckP2MRV1InitialStackResourceLimits st)" for st by (simp add: CheckP2MRV1InitialStackResourceLimits_def)
  show ?thesis unfolding verify_p2mr_def a prod.case Let_def
    by (intro clean_bind clean_if clean_simps drop_annex_init [OF a] p2mr_commitments_clean l r ExecuteWitnessScript_clean disjI2 start_weight_init)
      (use c False drop_annex_init [OF a] in \<open>auto simp: hashes_sized_def\<close>)
qed (simp add: verify_p2mr_def)

lemma VerifyWitnessProgram_clean:
  assumes c: "checker_total WITNESS_V0 (sc_checker ctx)" "hashes_sized ctx"
    and t: "\<not> p2sh \<Longrightarrow> length program = 32 \<Longrightarrow> v = 1 \<Longrightarrow> w \<noteq> [] \<Longrightarrow> checker_total TAPSCRIPT (sc_checker ctx) \<and>
      (\<forall>sig d. m_annex_init d \<longrightarrow> clean (CheckSchnorrSignature (sc_checker ctx) sig program TAPROOT d))"
    and m: "\<not> p2sh \<Longrightarrow> length program = 32 \<Longrightarrow> v = 2 \<Longrightarrow> w \<noteq> [] \<Longrightarrow> checker_total P2MR (sc_checker ctx)"
  shows "clean (VerifyWitnessProgram ctx w v program p2sh)"
  unfolding VerifyWitnessProgram_def
  by (intro clean_if verify_v0_clean verify_taproot_clean verify_p2mr_clean clean_simps) (use assms in auto)

text \<open>A script that hashes the top element cannot run on an empty stack, as the comment in the code says.\<close>

lemma p2sh_needs_stack:
  assumes "IsPayToScriptHash pk"
  shows "EvalScript ctx pk [] d \<noteq> Inr r"
proof -
  obtain rest where pk: "pk = OP_HASH160 # rest" using assms by (cases pk) (auto simp: IsPayToScriptHash_def)
  have g: "GetScriptOp pk = Some (OP_HASH160, [], rest)" by (simp add: pk GetScriptOp_def opcode_defs)
  have x: "exec_opcode ctx OP_HASH160 rest True st = bad_stack" if "es_stack st = []" for st
    using that by (simp add: exec_opcode_def op_hashing_def on_stack_def set_error_def stack_opcodes_def all_opcode_defs opcode_defs)
  have i: "eval_instr ctx OP_HASH160 [] rest st \<noteq> Inr st'" if "es_stack st = []" "all_true (es_cond st)" for st st'
    using that x [of st] x [of "st\<lparr>es_nOpCount := es_nOpCount st + 1\<rparr>"]
    by (simp add: eval_instr_def count_op_def Let_def set_error_def opcode_defs OP_HASH160_def)
  have "eval_loop ctx pk s = bindE (eval_instr ctx OP_HASH160 [] rest s) (eval_loop ctx rest)" for s
    by (subst eval_loop.simps) (simp add: g, simp add: pk)
  then have "eval_loop ctx pk (init_state pk [] d) \<noteq> Inr st" for st
    using i [of "init_state pk [] d"] by (auto simp: init_state_def all_true_def new_ConditionStack_def bindE_def split: sum.splits)
  then show ?thesis by (auto simp: EvalScript_def catch_all_def cxx_assert_def cxx_def set_error_def bindE_def split: sum.splits if_splits script_fail.splits cxx_error.splits)
qed

lemma VerifyScript_clean:
  assumes h: "hashes_sized ctx" and f: "flag ctx SCRIPT_VERIFY_CLEANSTACK \<Longrightarrow> flag ctx SCRIPT_VERIFY_WITNESS"
      "flag ctx SCRIPT_VERIFY_WITNESS \<Longrightarrow> flag ctx SCRIPT_VERIFY_P2SH"
    and c: "checker_total BASE (sc_checker ctx)" "checker_total WITNESS_V0 (sc_checker ctx)"
    and t: "\<And>program. IsWitnessProgram pk = Some (1, program) \<Longrightarrow> length program = 32 \<Longrightarrow> w \<noteq> [] \<Longrightarrow> checker_total TAPSCRIPT (sc_checker ctx) \<and>
      (\<forall>sig d. m_annex_init d \<longrightarrow> clean (CheckSchnorrSignature (sc_checker ctx) sig program TAPROOT d))"
    and m: "\<And>program. IsWitnessProgram pk = Some (2, program) \<Longrightarrow> length program = 32 \<Longrightarrow> w \<noteq> [] \<Longrightarrow> checker_total P2MR (sc_checker ctx)"
  shows "clean (VerifyScript ctx sg pk w)"
proof -
  have e: "clean (EvalScript (base_ctx ctx) scr st new_execdata)" for scr st
    using c h by (intro EvalScript_clean) (simp_all add: base_ctx_def hashes_sized_def exec_ok_def)
  have et: "clean (eval_true st)" for st by (simp add: eval_true_def)
  have b: "clean (bare_witness ctx sg pk w st)" for st
    unfolding bare_witness_def
    by (auto intro!: clean_bind clean_if VerifyWitnessProgram_clean c h m dest: t split: option.split)
  have q: "clean (p2sh_witness ctx sg rs w had st)" for rs had st
    unfolding p2sh_witness_def
    by (auto intro!: clean_bind clean_if VerifyWitnessProgram_clean c h split: option.split)
  have p: "clean (p2sh_redeem ctx sg w st had)" if "st \<noteq> []" for st had
    unfolding p2sh_redeem_def Let_def split_beta using that
    by (intro clean_bind clean_if clean_simps e et q) (simp_all add: cxx_assert_def cxx_def)
  have l: "clean (check_leftovers ctx w had st)" for had st
    using f by (auto simp: check_leftovers_def cxx_assert_def cxx_def intro!: clean_bind clean_if)
  show ?thesis unfolding VerifyScript_def split_beta
  proof (intro clean_if clean_bind clean_simps e et b l p)
    fix a r
    assume "EvalScript (base_ctx ctx) pk (fst a) new_execdata = Inr r" "flag ctx SCRIPT_VERIFY_P2SH \<and> IsPayToScriptHash pk"
    then show "fst a \<noteq> []" using p2sh_needs_stack by metis
  qed
qed

subsection \<open>Checking the scripts of an input\<close>

text \<open>
  The check of one input, \<^verbatim>\<open>CScriptCheck\<close> of \<^verbatim>\<open>src/src/validation.cpp\<close>: the checker has the precomputed data and
  treats missing data as a failed assertion.
\<close>

definition input_checker :: "CTxOut \<Rightarrow> CTransaction \<Rightarrow> u32 \<Rightarrow> PrecomputedTransactionData \<Rightarrow> GenericTransactionSignatureChecker" where
  "input_checker tx_out tx nIn txdata = \<lparr>gc_txTo = tx, gc_mdb = ASSERT_FAIL, gc_nIn = nIn, gc_amount = txout_nValue tx_out,
     gc_txdata = Some txdata\<rparr>"

definition CScriptCheck_call :: "script_ctx \<Rightarrow> checker_crypto \<Rightarrow> u32 \<Rightarrow> CTxOut \<Rightarrow> CTransaction \<Rightarrow> u32 \<Rightarrow> PrecomputedTransactionData \<Rightarrow> unit script" where
  "CScriptCheck_call ctx cc nFlags tx_out tx nIn txdata =
    (let txin = tx_vin tx ! unat nIn in
     VerifyScript (ctx\<lparr>sc_flags := nFlags, sc_checker := TransactionSignatureChecker cc (input_checker tx_out tx nIn txdata)\<rparr>)
       (txin_scriptSig txin) (txout_scriptPubKey tx_out) (txin_witness txin))"

definition flags_consistent :: "u32 \<Rightarrow> bool" where
  "flags_consistent F \<longleftrightarrow> (has_flag F SCRIPT_VERIFY_CLEANSTACK \<longrightarrow> has_flag F SCRIPT_VERIFY_WITNESS) \<and>
    (has_flag F SCRIPT_VERIFY_WITNESS \<longrightarrow> has_flag F SCRIPT_VERIFY_P2SH)"

lemma ecdsa_total:
  assumes n: "unat (gc_nIn g) < length (tx_vin (gc_txTo g))" and a: "0 \<le> gc_amount g"
  shows "checker_total BASE (TransactionSignatureChecker cc g)" "checker_total WITNESS_V0 (TransactionSignatureChecker cc g)"
proof -
  have "\<exists>b. CheckECDSASignature (TransactionSignatureChecker cc g) sig key code sv = Inr b" for sig key code sv
    using gc_CheckECDSASignature_cached [OF cache_ok_new n, of sv cc sig key code] a by blast
  then show "checker_total BASE (TransactionSignatureChecker cc g)" "checker_total WITNESS_V0 (TransactionSignatureChecker cc g)"
    by (simp_all add: checker_total_def)
qed

lemma SignatureHashSchnorrCommon_total:
  assumes "unat n < length (tx_vin tx)" "m_bip341_taproot_ready pre" "m_spent_outputs_ready pre" "m_annex_init d"
    and "sv = TAPROOT \<or> (sv = TAPSCRIPT \<or> sv = P2MR) \<and> m_tapleaf_hash_init d \<and> m_codeseparator_pos_init d"
  shows "\<exists>r. SignatureHashSchnorrCommon sha d tx n ht sv pre mdb hh = Inr r"
  using assms by (auto simp: SignatureHashSchnorrCommon_def schnorr_script_data_def cxx_assert_def Let_def)

lemma signed_safe:
  assumes "\<exists>r. s = Inr r" "\<And>h e. s = Inr (Some (h, e)) \<Longrightarrow> \<exists>x. e = d\<lparr>m_output_hash := x\<rparr>"
  shows "safeP (\<lambda>d'. \<exists>x. d' = d\<lparr>m_output_hash := x\<rparr>)
      (bindE (cxx s) (\<lambda>x. case x of None \<Rightarrow> set_error err | Some (h, e) \<Rightarrow> if \<not> P h then set_error err' else Inr e))"
    "clean (bindE (cxx s) (\<lambda>x. case x of None \<Rightarrow> set_error err | Some (h, e) \<Rightarrow> if \<not> P h then set_error err' else Inr e))"
proof -
  obtain r where "s = Inr r" using assms(1) by blast
  then show "safeP (\<lambda>d'. \<exists>x. d' = d\<lparr>m_output_hash := x\<rparr>)
      (bindE (cxx s) (\<lambda>x. case x of None \<Rightarrow> set_error err | Some (h, e) \<Rightarrow> if \<not> P h then set_error err' else Inr e))"
    "clean (bindE (cxx s) (\<lambda>x. case x of None \<Rightarrow> set_error err | Some (h, e) \<Rightarrow> if \<not> P h then set_error err' else Inr e))"
    using assms(2) by (cases r; force simp: cxx_def)+
qed

text \<open>The checker is ready for Taproot and P2MR.\<close>

definition schnorr_ready :: "GenericTransactionSignatureChecker \<Rightarrow> bool" where
  "schnorr_ready g \<longleftrightarrow> unat (gc_nIn g) < length (tx_vin (gc_txTo g)) \<and>
    (case gc_txdata g of None \<Rightarrow> False | Some d \<Rightarrow> m_bip341_taproot_ready d \<and> m_spent_outputs_ready d)"

lemma schnorr_clean:
  assumes r: "schnorr_ready g" and k: "length key = 32"
  shows "checker_total TAPSCRIPT (TransactionSignatureChecker cc g)"
    "m_annex_init d \<Longrightarrow> clean (CheckSchnorrSignature (TransactionSignatureChecker cc g) sig key TAPROOT d)"
proof -
  obtain pre where p: "gc_txdata g = Some pre" "m_bip341_taproot_ready pre" "m_spent_outputs_ready pre"
    "unat (gc_nIn g) < length (tx_vin (gc_txTo g))"
    using r by (auto simp: schnorr_ready_def split: option.splits)
  have t: "\<exists>r. SignatureHashSchnorr (cc_sha256 cc) d (gc_txTo g) (gc_nIn g) ht sv pre mdb = Inr r"
    if "m_annex_init d" "sv = TAPROOT \<or> sv = TAPSCRIPT \<and> m_tapleaf_hash_init d \<and> m_codeseparator_pos_init d" for d ht sv mdb
    using that p SignatureHashSchnorrCommon_total [of "gc_nIn g" "gc_txTo g" pre d sv]
    by (auto simp: SignatureHashSchnorr_def cxx_assert_def)
  have "signs_safely (CheckSchnorrSignature (TransactionSignatureChecker cc g) sig key TAPSCRIPT)" if "length key = 32" for sig key
    unfolding signs_safely_def TransactionSignatureChecker_def BaseSignatureChecker.simps gc_CheckSchnorrSignature_def p(1) option.case Let_def
    using that by (auto simp: cxx_assert_def cxx_def [of "Inr ()"] intro!: safeP_if signed_safe(1) t SignatureHash_keeps(1))
  then show "checker_total TAPSCRIPT (TransactionSignatureChecker cc g)" by (simp add: checker_total_def)
  show "clean (CheckSchnorrSignature (TransactionSignatureChecker cc g) sig key TAPROOT d)" if "m_annex_init d"
    unfolding TransactionSignatureChecker_def BaseSignatureChecker.simps gc_CheckSchnorrSignature_def p(1) option.case Let_def
    using that k by (auto simp: cxx_assert_def cxx_def [of "Inr ()"] intro!: clean_if signed_safe(2) t SignatureHash_keeps(1))
qed

lemma pqc_total:
  assumes r: "schnorr_ready g" and c: "\<exists>d. gc_txdata g = Some d \<and> m_ctv_ready d"
    and l: "length (tx_vin (gc_txTo g)) < 2 ^ 32" "length (tx_vout (gc_txTo g)) < 2 ^ 32"
  shows "checker_total P2MR (TransactionSignatureChecker cc g)"
proof -
  obtain pre where p: "gc_txdata g = Some pre" "m_bip341_taproot_ready pre" "m_spent_outputs_ready pre" "m_ctv_ready pre"
    "unat (gc_nIn g) < length (tx_vin (gc_txTo g))"
    using r c by (auto simp: schnorr_ready_def split: option.splits)
  have t: "\<exists>r. SignatureHashP2MR (cc_sha256 cc) d (gc_txTo g) (gc_nIn g) ht pre mdb = Inr r"
    if "m_annex_init d" "m_tapleaf_hash_init d" "m_codeseparator_pos_init d" for d ht mdb
    using that p SignatureHashSchnorrCommon_total [of "gc_nIn g" "gc_txTo g" pre d P2MR] by (simp add: SignatureHashP2MR_def)
  have s: "signs_safely (CheckPQCSignature (TransactionSignatureChecker cc g) sig key P2MR)" if "length key = 32" for sig key
    unfolding signs_safely_def TransactionSignatureChecker_def BaseSignatureChecker.simps gc_CheckPQCSignature_def p(1) option.case Let_def
    using that by (auto simp: PQC_PUBKEY_SIZE_def cxx_assert_def cxx_def [of "Inr ()"] intro!: safeP_if signed_safe(1) t SignatureHash_keeps(2))
  have "safeP (\<lambda>_. True) (CheckTemplateVerifyHash (TransactionSignatureChecker cc g) x)" if "length x = 32" for x
    using that p l by (simp add: TransactionSignatureChecker_def gc_CheckTemplateVerifyHash_def GetDefaultCheckTemplateVerifyHash_def cxx_assert_def cxx_def)
  then show ?thesis using s by (simp add: checker_total_def)
qed

text \<open>Precomputation finds every input that spends a Taproot or P2MR output with a witness.\<close>

lemma input_features_mono:
  "input_features i s (a, b, c) = (a', b', c') \<Longrightarrow> (a \<longrightarrow> a') \<and> (b \<longrightarrow> b') \<and> (c \<longrightarrow> c')"
  by (auto simp: input_features_def split: if_splits option.splits prod.splits)

lemma scan_features_mono:
  "scan_features vin outs (a, b, c) = (a', b', c') \<Longrightarrow> (a \<longrightarrow> a') \<and> (b \<longrightarrow> b') \<and> (c \<longrightarrow> c')"
proof (induction vin outs "(a, b, c)" arbitrary: a b c rule: scan_features.induct)
  case (1 i vin s outs)
  obtain x y z where x: "input_features i s (a, b, c) = (x, y, z)" by (rule prod_cases3)
  show ?case using 1 input_features_mono [OF x] by (auto simp: x split: if_splits)
qed auto

lemma scan_features_finds:
  assumes "scan_features vin outs f = (x, t, m)" "k < length vin" "length outs = length vin" "outs ! k = Some out"
    "txin_witness (vin ! k) \<noteq> []" "IsWitnessProgram (txout_scriptPubKey out) = Some (v, program)" "length program = 32" "v = 1 \<or> v = 2"
  shows "t \<and> (v = 2 \<longrightarrow> m)"
  using assms
proof (induction vin outs f arbitrary: k rule: scan_features.induct)
  case (1 i vin s outs f)
  obtain a b c where f: "f = (a, b, c)" by (rule prod_cases3)
  obtain a' b' c' where f': "input_features i s f = (a', b', c')" by (rule prod_cases3)
  show ?case
  proof (cases k)
    case 0
    then have "b' \<and> (v = 2 \<longrightarrow> c')" using 1 f f' by (auto simp: input_features_def)
    then show ?thesis using 1(2) f f' scan_features_mono [of vin outs a' b' c' x t m] by (auto split: if_splits)
  next
    case (Suc j)
    then show ?thesis using 1 f by (auto split: if_splits)
  qed
qed auto

lemma txdata_Init_ready:
  assumes i: "txdata_Init sha new_txdata tx outs False = Inr d" and k: "k < length (tx_vin tx)" "outs \<noteq> []"
    and w: "txin_witness (tx_vin tx ! k) \<noteq> []" "IsWitnessProgram (txout_scriptPubKey (outs ! k)) = Some (v, program)"
      "length program = 32" "v = 1 \<or> v = 2"
  shows "m_bip341_taproot_ready d" "m_spent_outputs_ready d" "v = 2 \<Longrightarrow> m_ctv_ready d"
proof -
  obtain x t m where s: "scan_features (tx_vin tx) (map Some outs) (False, False, False) = (x, t, m)" by (rule prod_cases3)
  have l: "length outs = length (tx_vin tx)" using i k(2) by (simp add: txdata_Init_def cxx_assert_def new_txdata_def split: if_splits)
  have "t \<and> (v = 2 \<longrightarrow> m)" using scan_features_finds [OF s k(1) _ _ w] l k(1) by simp
  then show "m_bip341_taproot_ready d" "m_spent_outputs_ready d" "v = 2 \<Longrightarrow> m_ctv_ready d"
    using i s k(2) by (auto simp: txdata_Init_def cxx_assert_def new_txdata_def Let_def split: if_splits)
qed

text \<open>
  Hence the check of an input ends with acceptance or with a script error: the assertions of the
  interpreter and of the checker, among them the one on missing data, are not reached.
\<close>

lemma CScriptCheck_clean:
  assumes h: "hashes_sized ctx" and f: "flags_consistent F"
    and i: "txdata_Init sha new_txdata tx outs False = Inr d" and n: "unat nIn < length (tx_vin tx)" "outs \<noteq> []"
    and l: "length (tx_vin tx) < 2 ^ 32" "length (tx_vout tx) < 2 ^ 32" and a: "0 \<le> txout_nValue (outs ! unat nIn)"
  shows "clean (CScriptCheck_call ctx cc F (outs ! unat nIn) tx nIn d)"
proof -
  let ?g = "input_checker (outs ! unat nIn) tx nIn d"
  have g: "gc_txTo ?g = tx" "gc_nIn ?g = nIn" "gc_txdata ?g = Some d" "gc_amount ?g = txout_nValue (outs ! unat nIn)"
    by (simp_all add: input_checker_def)
  have r: "schnorr_ready ?g" if "txin_witness (tx_vin tx ! unat nIn) \<noteq> []" "length program = 32" "v = 1 \<or> v = 2"
      "IsWitnessProgram (txout_scriptPubKey (outs ! unat nIn)) = Some (v, program)" for v program
    using txdata_Init_ready [OF i n that(1) that(4) that(2,3)] n(1) g by (simp add: schnorr_ready_def)
  have m: "m_ctv_ready d" if "txin_witness (tx_vin tx ! unat nIn) \<noteq> []" "length program = 32"
      "IsWitnessProgram (txout_scriptPubKey (outs ! unat nIn)) = Some (2, program)" for program
    using txdata_Init_ready(3) [OF i n that(1,3,2)] by simp
  show ?thesis unfolding CScriptCheck_call_def Let_def
    by (intro VerifyScript_clean) (use h f n(1) a l g m in \<open>auto simp: hashes_sized_def flags_consistent_def flag_def
      intro!: ecdsa_total schnorr_clean pqc_total dest: r\<close>)
qed

subsection \<open>A P2MR output commits to a tree of scripts\<close>

datatype script_tree = Leaf byte CScript | Branch script_tree script_tree

fun tree_root :: "(bytes \<Rightarrow> bytes) \<Rightarrow> script_tree \<Rightarrow> uint256" where
  "tree_root sha (Leaf v s) = ComputeP2MRLeafHash sha v s"
| "tree_root sha (Branch l r) = ComputeP2MRBranchHash sha (tree_root sha l) (tree_root sha r)"

fun leaves :: "script_tree \<Rightarrow> (byte \<times> CScript) list" where
  "leaves (Leaf v s) = [(v, s)]"
| "leaves (Branch l r) = leaves l @ leaves r"

text \<open>The leaves with their siblings, from the leaf upwards.\<close>

fun paths :: "(bytes \<Rightarrow> bytes) \<Rightarrow> script_tree \<Rightarrow> ((byte \<times> CScript) \<times> uint256 list) list" where
  "paths sha (Leaf v s) = [((v, s), [])]"
| "paths sha (Branch l r) = map (\<lambda>(x, p). (x, p @ [tree_root sha r])) (paths sha l) @ map (\<lambda>(x, p). (x, p @ [tree_root sha l])) (paths sha r)"

definition control_block :: "byte \<Rightarrow> uint256 list \<Rightarrow> bytes" where
  "control_block v path = (v OR 1) # concat path"

text \<open>What is hashed on the way from a leaf to the root, and in the whole tree.\<close>

definition tags :: "bytes set" where
  "tags = {ascii ''P2MRLeaf'', ascii ''P2MRBranch''}"

definition leaf_input :: "(bytes \<Rightarrow> bytes) \<Rightarrow> byte \<Rightarrow> CScript \<Rightarrow> bytes" where
  "leaf_input sha v s = TaggedHash sha ''P2MRLeaf'' @ [v] @ ser_bytes s"

definition branch_input :: "(bytes \<Rightarrow> bytes) \<Rightarrow> bytes \<Rightarrow> bytes \<Rightarrow> bytes" where
  "branch_input sha a b = TaggedHash sha ''P2MRBranch'' @ (if lexicographical_less a b then a @ b else b @ a)"

abbreviation climb :: "(bytes \<Rightarrow> bytes) \<Rightarrow> uint256 list \<Rightarrow> uint256 \<Rightarrow> uint256" where
  "climb sha path leaf \<equiv> fold (\<lambda>node k. ComputeP2MRBranchHash sha k node) path leaf"

fun tree_inputs :: "(bytes \<Rightarrow> bytes) \<Rightarrow> script_tree \<Rightarrow> bytes set" where
  "tree_inputs sha (Leaf v s) = insert (leaf_input sha v s) tags"
| "tree_inputs sha (Branch l r) = insert (branch_input sha (tree_root sha l) (tree_root sha r)) (tree_inputs sha l \<union> tree_inputs sha r)"

definition climb_inputs :: "(bytes \<Rightarrow> bytes) \<Rightarrow> byte \<Rightarrow> CScript \<Rightarrow> uint256 list \<Rightarrow> bytes set" where
  "climb_inputs sha v s path = tags \<union> {leaf_input sha v s} \<union>
    (\<lambda>i. branch_input sha (climb sha (take i path) (ComputeP2MRLeafHash sha v s)) (path ! i)) ` {..<length path}"

lemma leaf_hash: "ComputeP2MRLeafHash sha v s = sha (leaf_input sha v s)"
  by (simp add: ComputeP2MRLeafHash_def leaf_input_def GetSHA256_def ser_bytes_def)

lemma branch_hash: "ComputeP2MRBranchHash sha a b = sha (branch_input sha a b)"
  by (simp add: ComputeP2MRBranchHash_def branch_input_def GetSHA256_def)

lemma climb_inputs_snoc:
  "climb_inputs sha v s (p @ [n]) = insert (branch_input sha (climb sha p (ComputeP2MRLeafHash sha v s)) n) (climb_inputs sha v s p)"
proof -
  have "(\<lambda>i. branch_input sha (climb sha (take i (p @ [n])) (ComputeP2MRLeafHash sha v s)) ((p @ [n]) ! i)) ` {..<length p} =
      (\<lambda>i. branch_input sha (climb sha (take i p) (ComputeP2MRLeafHash sha v s)) (p ! i)) ` {..<length p}"
    by (rule image_cong) (auto simp: nth_append)
  then show ?thesis by (auto simp: climb_inputs_def lessThan_Suc nth_append)
qed

lemma tags_in: "tags \<subseteq> tree_inputs sha t" "tags \<subseteq> climb_inputs sha v s p" "leaf_input sha v s \<in> climb_inputs sha v s p"
  by (induction t) (auto simp: climb_inputs_def)

lemma lexicographical_less_total: "length a = length b \<Longrightarrow> a \<noteq> b \<Longrightarrow> lexicographical_less a b \<noteq> lexicographical_less b a"
  by (induction a b rule: lexicographical_less.induct) auto

lemma branch_commutes:
  assumes "length a = length b"
  shows "ComputeP2MRBranchHash sha a b = ComputeP2MRBranchHash sha b a"
  using lexicographical_less_total [OF assms] by (cases "a = b") (auto simp: ComputeP2MRBranchHash_def)

lemma branch_injective:
  assumes "branch_input sha a b = branch_input sha c d"
    and l: "length a = 32" "length b = 32" "length c = 32" "length d = 32"
  shows "a = c \<or> a = d"
  using assms by (auto simp: branch_input_def split: if_splits)

lemma leaf_injective:
  assumes "leaf_input sha v s = leaf_input sha v' s'" "length s \<le> MAX_SIZE" "length s' \<le> MAX_SIZE"
  shows "v = v' \<and> s = s'"
  using assms byte_vector.ser_inj [of s s'] by (auto simp: leaf_input_def)

lemma leaf_not_branch:
  assumes h: "\<And>x. length (sha x) = 32" and e: "leaf_input sha v s = branch_input sha a b"
  shows "collision sha tags tags"
proof -
  have "sha (ascii ''P2MRLeaf'') = sha (ascii ''P2MRBranch'')"
    using e h by (auto simp: leaf_input_def branch_input_def TaggedHash_def Let_def)
  moreover have "ascii ''P2MRLeaf'' \<noteq> ascii ''P2MRBranch''" by (simp add: ascii_def)
  ultimately show ?thesis by (auto simp: collision_def tags_def)
qed

lemma tree_root_length: "(\<And>x. length (sha x) = 32) \<Longrightarrow> length (tree_root sha t) = 32"
  by (cases t) (simp_all add: ComputeP2MRLeafHash_def ComputeP2MRBranchHash_def GetSHA256_def)

lemma branch_length: "(\<And>x. length (sha x) = 32) \<Longrightarrow> length (ComputeP2MRBranchHash sha a b) = 32"
  by (simp add: ComputeP2MRBranchHash_def GetSHA256_def)

lemma leaf_length: "(\<And>x. length (sha x) = 32) \<Longrightarrow> length (ComputeP2MRLeafHash sha v s) = 32"
  by (simp add: ComputeP2MRLeafHash_def GetSHA256_def)

lemma climb_length: "(\<And>x. length (sha x) = 32) \<Longrightarrow> length k = 32 \<Longrightarrow> length (climb sha path k) = 32"
  by (induction path arbitrary: k) (simp_all add: branch_length)

text \<open>Only the leaves of the tree reach its root.\<close>

lemma collides: "sha x = sha y \<Longrightarrow> x \<in> X \<Longrightarrow> y \<in> Y \<Longrightarrow> x = y \<or> collision sha X Y"
  by (auto simp: collision_def)

lemma climb_sound:
  assumes h: "\<And>x. length (sha x) = 32" and s: "length s \<le> MAX_SIZE"
  shows "list_all (\<lambda>(v, s). length s \<le> MAX_SIZE) (leaves t) \<Longrightarrow> list_all (\<lambda>n. length n = 32) path \<Longrightarrow>
    climb sha path (ComputeP2MRLeafHash sha v s) = tree_root sha t \<Longrightarrow>
    (v, s) \<in> set (leaves t) \<or> collision sha (climb_inputs sha v s path) (tree_inputs sha t)"
proof (induction t arbitrary: path)
  case (Leaf v' s')
  show ?case
  proof (cases path rule: rev_cases)
    case Nil
    then have "leaf_input sha v s = leaf_input sha v' s' \<or> collision sha (climb_inputs sha v s path) (tree_inputs sha (Leaf v' s'))"
      using Leaf tags_in(3) by (intro collides) (simp_all add: leaf_hash)
    then show ?thesis using leaf_injective [OF _ s] Leaf by auto
  next
    case (snoc p n)
    then have "branch_input sha (climb sha p (ComputeP2MRLeafHash sha v s)) n = leaf_input sha v' s' \<or>
        collision sha (climb_inputs sha v s path) (tree_inputs sha (Leaf v' s'))"
      using Leaf.prems by (intro collides) (simp_all add: leaf_hash [of sha v' s'] branch_hash climb_inputs_snoc)
    then have "leaf_input sha v' s' = branch_input sha (climb sha p (ComputeP2MRLeafHash sha v s)) n \<or>
        collision sha (climb_inputs sha v s path) (tree_inputs sha (Leaf v' s'))" by auto
    then show ?thesis using leaf_not_branch [where sha = sha, OF h] collision_mono [OF _ tags_in(2,1)] by blast
  qed
next
  case (Branch l r)
  show ?case
  proof (cases path rule: rev_cases)
    case Nil
    then have "leaf_input sha v s = branch_input sha (tree_root sha l) (tree_root sha r) \<or>
        collision sha (climb_inputs sha v s path) (tree_inputs sha (Branch l r))"
      using Branch tags_in(3) by (intro collides) (simp_all add: leaf_hash branch_hash)
    then show ?thesis using leaf_not_branch [where sha = sha, OF h] collision_mono [OF _ tags_in(2,1)] by blast
  next
    case (snoc p n)
    let ?k = "climb sha p (ComputeP2MRLeafHash sha v s)"
    have "branch_input sha ?k n = branch_input sha (tree_root sha l) (tree_root sha r) \<or>
        collision sha (climb_inputs sha v s path) (tree_inputs sha (Branch l r))"
      using Branch.prems snoc by (intro collides) (simp_all add: branch_hash climb_inputs_snoc)
    moreover have "?k = tree_root sha l \<or> ?k = tree_root sha r" if "branch_input sha ?k n = branch_input sha (tree_root sha l) (tree_root sha r)"
      using that Branch.prems snoc by (intro branch_injective) (auto simp: climb_length tree_root_length leaf_length h)
    moreover have "collision sha (climb_inputs sha v s path) (tree_inputs sha (Branch l r))"
      if "collision sha (climb_inputs sha v s p) (tree_inputs sha l) \<or> collision sha (climb_inputs sha v s p) (tree_inputs sha r)"
      using that by (elim disjE; elim collision_mono) (auto simp: snoc climb_inputs_snoc)
    ultimately show ?thesis using Branch.IH [of p] Branch.prems snoc by auto
  qed
qed

text \<open>And every leaf reaches it, with its siblings.\<close>

lemma climb_complete:
  assumes h: "\<And>x. length (sha x) = 32"
  shows "((v, s), p) \<in> set (paths sha t) \<Longrightarrow> climb sha p (ComputeP2MRLeafHash sha v s) = tree_root sha t \<and> list_all (\<lambda>n. length n = 32) p"
proof (induction t arbitrary: p)
  case (Branch l r)
  then show ?case using branch_commutes [of "tree_root sha l" "tree_root sha r"] by (auto simp: tree_root_length h)
qed simp

lemma paths_leaves: "map fst (paths sha t) = leaves t"
  by (induction t) (simp_all add: comp_def split_beta)

text \<open>The loop of the code climbs the nodes of the control block.\<close>

lemma P2MRMerkleRoot_climb:
  assumes "length control = 1 + 32 * m" "m \<le> 128"
  shows "ComputeP2MRMerkleRoot sha control leaf = Inr (climb sha (map (control_node 1 control) [0..<m]) leaf)"
  using assms by (simp add: ComputeP2MRMerkleRoot_def cxx_assert_def P2MR_CONTROL_BASE_SIZE_def P2MR_CONTROL_MAX_SIZE_def
    P2MR_CONTROL_NODE_SIZE_def Let_def fold_map comp_def)

lemma concat_nodes:
  "list_all (\<lambda>n. length n = 32) path \<Longrightarrow> map (control_node 1 (b # concat path)) [0..<length path] = path"
proof (induction path)
  case (Cons n path)
  have "map (control_node 1 (b # n @ concat path)) [Suc 0..<Suc (length path)] = map (control_node 1 (b # concat path)) [0..<length path]"
    unfolding map_Suc_upt [symmetric] using Cons.prems by (auto simp: control_node_def drop_Cons' algebra_simps)
  moreover have "control_node 1 (b # n @ concat path) 0 = n" using Cons.prems by (simp add: control_node_def)
  ultimately show ?case using Cons by (simp add: upt_conv_Cons del: upt_Suc)
qed simp

lemma length_concat_nodes: "list_all (\<lambda>n. length n = 32) path \<Longrightarrow> length (concat path) = 32 * length path"
  by (induction path) auto

definition control_path :: "bytes \<Rightarrow> uint256 list" where
  "control_path control = map (control_node P2MR_CONTROL_BASE_SIZE control)
    [0..<(length control - P2MR_CONTROL_BASE_SIZE) div P2MR_CONTROL_NODE_SIZE]"

lemma VerifyP2MRCommitment_sound:
  assumes h: "\<And>x. length (sha x) = 32" and s: "length s \<le> MAX_SIZE"
    and t: "list_all (\<lambda>(v, s). length s \<le> MAX_SIZE) (leaves t)"
    and v: "VerifyP2MRCommitment sha control (tree_root sha t) (ComputeP2MRLeafHash sha v s) = Inr True"
  shows "(v, s) \<in> set (leaves t) \<or> collision sha (climb_inputs sha v s (control_path control)) (tree_inputs sha t)"
proof -
  have m: "1 \<le> length control" "length control \<le> 4097" "(length control - 1) mod 32 = 0"
    using v by (auto simp: VerifyP2MRCommitment_def ComputeP2MRMerkleRoot_def cxx_assert_def P2MR_CONTROL_BASE_SIZE_def
      P2MR_CONTROL_MAX_SIZE_def P2MR_CONTROL_NODE_SIZE_def split: if_splits)
  define k where "k = (length control - 1) div 32"
  have k: "length control = 1 + 32 * k" "k \<le> 128" using m by (auto simp: k_def)
  have p: "control_path control = map (control_node 1 control) [0..<k]"
    by (simp add: control_path_def P2MR_CONTROL_BASE_SIZE_def P2MR_CONTROL_NODE_SIZE_def k_def)
  have "climb sha (control_path control) (ComputeP2MRLeafHash sha v s) = tree_root sha t"
    using v by (auto simp: VerifyP2MRCommitment_def P2MRMerkleRoot_climb [OF k] cxx_assert_def p split: if_splits)
  moreover have "list_all (\<lambda>n. length n = 32) (control_path control)"
    using k by (auto simp: p list_all_iff control_node_def)
  ultimately show ?thesis using climb_sound [where sha = sha, OF h s t] by blast
qed

lemma VerifyP2MRCommitment_complete:
  assumes h: "\<And>x. length (sha x) = 32" and p: "((v, s), p) \<in> set (paths sha t)" and l: "length p \<le> 128"
  shows "VerifyP2MRCommitment sha (control_block v p) (tree_root sha t) (ComputeP2MRLeafHash sha v s) = Inr True"
proof -
  note c = climb_complete [OF h p]
  have "length (control_block v p) = 1 + 32 * length p" using c by (simp add: control_block_def length_concat_nodes)
  then show ?thesis using c l concat_nodes [of p "v OR 1"]
    by (simp add: VerifyP2MRCommitment_def P2MRMerkleRoot_climb cxx_assert_def tree_root_length h P2MR_CONTROL_BASE_SIZE_def control_block_def)
qed

text \<open>A spend of the output therefore runs one of its scripts.\<close>

lemma drop_annex_stack: "drop_annex sha w d = (s, e) \<Longrightarrow> s = w \<or> s = butlast w"
  by (auto simp: drop_annex_def split: if_splits)

definition spent_leaf :: "(bytes \<Rightarrow> bytes) \<Rightarrow> valtype list \<Rightarrow> byte \<times> CScript \<times> bytes" where
  "spent_leaf sha witness = (case drop_annex sha witness new_execdata of (stack, _) \<Rightarrow>
     (last stack ! 0 AND TAPROOT_LEAF_MASK, last (butlast stack), last stack))"

lemma verify_p2mr_committed:
  assumes h: "\<And>x. length (sc_sha256 ctx x) = 32"
    and w: "list_all (\<lambda>x. length x \<le> MAX_SIZE) witness" and t: "list_all (\<lambda>(v, s). length s \<le> MAX_SIZE) (leaves t)"
    and f: "flag ctx SCRIPT_VERIFY_P2MR_RULES" and v: "verify_p2mr ctx witness (tree_root (sc_sha256 ctx) t) = Inr ()"
    and l: "spent_leaf (sc_sha256 ctx) witness = (ver, script, control)"
  shows "(ver, script) \<in> set (leaves t) \<or>
    collision (sc_sha256 ctx) (climb_inputs (sc_sha256 ctx) ver script (control_path control)) (tree_inputs (sc_sha256 ctx) t)"
proof -
  obtain stack e where d: "drop_annex (sc_sha256 ctx) witness new_execdata = (stack, e)" by fastforce
  have x: "ver = last stack ! 0 AND TAPROOT_LEAF_MASK" "script = last (butlast stack)" "control = last stack"
    using l by (auto simp: spent_leaf_def d)
  have n: "\<not> length stack < 2" using v d f by (auto simp: verify_p2mr_def set_error_def split: if_splits)
  then have "butlast stack \<noteq> []" by (cases stack rule: rev_cases) auto
  then have "script \<in> set stack" using x(2) in_set_butlastD last_in_set by metis
  then have "length script \<le> MAX_SIZE" using w drop_annex_stack [OF d] by (auto simp: list_all_iff dest: in_set_butlastD)
  moreover have "VerifyP2MRCommitment (sc_sha256 ctx) control (tree_root (sc_sha256 ctx) t) (ComputeP2MRLeafHash (sc_sha256 ctx) ver script) = Inr True"
    using v f n unfolding x by (auto simp: verify_p2mr_def d Let_def set_error_def cxx_def bindE_def split: if_splits sum.splits)
  ultimately show ?thesis using VerifyP2MRCommitment_sound [where sha = "sc_sha256 ctx", OF h _ t] by blast
qed

end
