(* ===== verification/Block_Check.thy ===== *)
theory Block_Check
  imports Tx_Consensus Script_Verify Auxpow
begin

text \<open>
  The checks of a block that need no chain: \<^verbatim>\<open>CheckBlock\<close> of \<^verbatim>\<open>src/src/validation.cpp\<close> with the header and merkle
  checks it calls, and the block solutions of \<^verbatim>\<open>src/src/signet.cpp\<close>. A block carries flags in memory that
  remember the checks it has passed; they are a record of their own, read and returned. The theory
  shows that a block that passed has one coinbase, in front, and only transactions that pass their
  own checks.
\<close>

subsection \<open>Environment\<close>

text \<open>
  What the checks take from elsewhere: the hash functions, the memory usage of a script, the script
  context, the signature routines, whether the build is for fuzzing, and the consensus parameters.
\<close>

record node_env =
  ne_hash :: "bytes \<Rightarrow> uint256"
  ne_sha256 :: "bytes \<Rightarrow> bytes"
  ne_usage :: "CScript \<Rightarrow> u64"
  ne_script :: script_ctx
  ne_crypto :: checker_crypto
  ne_fuzz :: bool
  ne_params :: Params

datatype BlockValidationResult =
    BLOCK_RESULT_UNSET | BLOCK_CONSENSUS | BLOCK_CACHED_INVALID | BLOCK_INVALID_HEADER | BLOCK_MUTATED
  | BLOCK_MISSING_PREV | BLOCK_INVALID_PREV | BLOCK_TIME_FUTURE | BLOCK_HEADER_LOW_WORK

type_synonym block_verdict = "(BlockValidationResult \<times> string) + unit"

record block_memo =
  fChecked :: bool
  m_checked_merkle_root :: bool

subsection \<open>Signet solutions\<close>

definition MINIMUM_WITNESS_COMMITMENT :: nat where "MINIMUM_WITNESS_COMMITMENT = 38"

definition NO_WITNESS_COMMITMENT :: int where "NO_WITNESS_COMMITMENT = - 1"

definition GetWitnessCommitmentIndex :: "CBlock \<Rightarrow> int" where
  "GetWitnessCommitmentIndex block =
    (case blk_vtx block of [] \<Rightarrow> NO_WITNESS_COMMITMENT
     | coinbase # _ \<Rightarrow>
        fold (\<lambda>(o', vout) commitpos.
          let s = txout_scriptPubKey vout in
          if length s \<ge> MINIMUM_WITNESS_COMMITMENT \<and> s ! 0 = OP_RETURN \<and> s ! 1 = 0x24 \<and> s ! 2 = 0xaa \<and> s ! 3 = 0x21 \<and>
             s ! 4 = 0xa9 \<and> s ! 5 = 0xed
          then int o' else commitpos) (enumerate 0 (tx_vout coinbase)) NO_WITNESS_COMMITMENT)"

definition SIGNET_HEADER :: bytes where "SIGNET_HEADER = [0xec, 0xc7, 0xda, 0xa2]"

definition BLOCK_SCRIPT_VERIFY_FLAGS :: u32 where
  "BLOCK_SCRIPT_VERIFY_FLAGS = SCRIPT_VERIFY_P2SH OR SCRIPT_VERIFY_WITNESS OR SCRIPT_VERIFY_DERSIG OR SCRIPT_VERIFY_NULLDUMMY"

definition carries_header :: "bytes \<Rightarrow> bytes \<Rightarrow> bool" where
  "carries_header header pushdata \<longleftrightarrow> length pushdata > length header \<and> take (length header) pushdata = header"

function fetch_section :: "bytes \<Rightarrow> bytes \<Rightarrow> bool \<Rightarrow> bytes \<Rightarrow> bytes \<Rightarrow> bool \<times> bytes \<times> bytes" where
  "fetch_section header pc found_header replacement result =
    (case GetScriptOp pc of None \<Rightarrow> (found_header, replacement, result)
     | Some (opcode, pushdata, rest) \<Rightarrow>
        if length pushdata > 0 then
          if \<not> found_header \<and> carries_header header pushdata
          then fetch_section header rest True (replacement @ push_data (take (length header) pushdata))
                 (result @ drop (length header) pushdata)
          else fetch_section header rest found_header (replacement @ push_data pushdata) result
        else fetch_section header rest found_header (replacement @ [opcode]) result)"
  by pat_completeness auto
termination by (relation "measure (\<lambda>(h, pc, f, r, s). length pc)") (auto dest: GetScriptOp_progress)

declare fetch_section.simps [simp del]

definition FetchAndClearCommitmentSection :: "bytes \<Rightarrow> CScript \<Rightarrow> bool \<times> CScript \<times> bytes" where
  "FetchAndClearCommitmentSection header witness_commitment =
    (case fetch_section header witness_commitment False [] [] of (found_header, replacement, result) \<Rightarrow>
     (found_header, if found_header then replacement else witness_commitment, result))"

definition ComputeModifiedMerkleRoot :: "(bytes \<Rightarrow> uint256) \<Rightarrow> CTransaction \<Rightarrow> CBlock \<Rightarrow> uint256" where
  "ComputeModifiedMerkleRoot H cb block = fst (ComputeMerkleRoot H (tx_GetHash H cb # map (tx_GetHash H) (tl (blk_vtx block))))"

definition signet_input :: "CScript \<Rightarrow> CTxIn" where
  "signet_input scriptSig =
    \<lparr>txin_prevout = \<lparr>op_hash = uint256_null, op_n = NULL_INDEX\<rparr>, txin_scriptSig = scriptSig, txin_nSequence = 0, txin_witness = []\<rparr>"

text \<open>Reading the solution: the script and the witness of the spending input; extra data and read errors fail.\<close>

definition read_solution :: "bytes \<Rightarrow> (CScript \<times> bytes list) option" where
  "read_solution signet_solution =
    (case bindE (unser_bytes signet_solution) (\<lambda>(sig, v). bindE (unser_vector unser_bytes sizeof_vector v) (\<lambda>(stack, v'). Inr (sig, stack, v'))) of
       Inl _ \<Rightarrow> None
     | Inr (sig, stack, v') \<Rightarrow> if v' \<noteq> [] then None else Some (sig, stack))"

definition SignetTxs_Create :: "(bytes \<Rightarrow> uint256) \<Rightarrow> CBlock \<Rightarrow> CScript \<Rightarrow> (CTransaction \<times> CTransaction) option" where
  "SignetTxs_Create H block challenge =
    (case blk_vtx block of [] \<Rightarrow> None
     | cb # _ \<Rightarrow>
        let cidx = GetWitnessCommitmentIndex block in
        if cidx = NO_WITNESS_COMMITMENT then None
        else
          let out = tx_vout cb ! nat cidx in
          (case FetchAndClearCommitmentSection SIGNET_HEADER (txout_scriptPubKey out) of (found, cleared, solution) \<Rightarrow>
           let modified_cb = cb\<lparr>tx_vout := (tx_vout cb)[nat cidx := out\<lparr>txout_scriptPubKey := cleared\<rparr>]\<rparr> in
           (case (if found then read_solution solution else Some ([], [])) of None \<Rightarrow> None
            | Some (sig, stack) \<Rightarrow>
               let signet_merkle = ComputeModifiedMerkleRoot H modified_cb block;
                   block_data = ser_writedata32 (hdr_nVersion block) @ ser_uint256 (hdr_hashPrevBlock block) @
                     ser_uint256 signet_merkle @ ser_writedata32 (hdr_nTime block);
                   tx_to_spend = \<lparr>tx_vin = [signet_input (OP_0 # push_data block_data)],
                     tx_vout = [\<lparr>txout_nValue = 0, txout_scriptPubKey = challenge\<rparr>], tx_version = 0, tx_nLockTime = 0\<rparr>;
                   tx_spending = \<lparr>tx_vin = [(signet_input sig)\<lparr>txin_prevout := \<lparr>op_hash = tx_GetHash H tx_to_spend, op_n = 0\<rparr>,
                       txin_witness := stack\<rparr>],
                     tx_vout = [\<lparr>txout_nValue = 0, txout_scriptPubKey = [OP_RETURN]\<rparr>], tx_version = 0, tx_nLockTime = 0\<rparr> in
               Some (tx_to_spend, tx_spending))))"

text \<open>The outcome of a script run as its caller sees it: accepted or not, or a failure of the program.\<close>

definition script_accepts :: "unit script \<Rightarrow> bool cxx" where
  "script_accepts r = (case r of Inr _ \<Rightarrow> Inr True | Inl (Cxx_Error e) \<Rightarrow> Inl e | Inl _ \<Rightarrow> Inr False)"

definition CheckSignetBlockSolution :: "node_env \<Rightarrow> CBlock \<Rightarrow> bool cxx" where
  "CheckSignetBlockSolution env block =
    (if header_GetHash (ne_hash env) block = cp_hashGenesisBlock (ne_params env) then Inr True
     else case SignetTxs_Create (ne_hash env) block (cp_signet_challenge (ne_params env)) of None \<Rightarrow> Inr False
       | Some (to_spend, to_sign) \<Rightarrow>
          bindE (txdata_Init (ne_sha256 env) new_txdata to_sign [tx_vout to_spend ! 0] False) (\<lambda>txdata.
          script_accepts (VerifyScript
            ((ne_script env)\<lparr>sc_flags := BLOCK_SCRIPT_VERIFY_FLAGS,
               sc_checker := TransactionSignatureChecker (ne_crypto env) (input_checker (tx_vout to_spend ! 0) to_sign 0 txdata)\<rparr>)
            (txin_scriptSig (tx_vin to_sign ! 0)) (txout_scriptPubKey (tx_vout to_spend ! 0)) (txin_witness (tx_vin to_sign ! 0)))))"

subsection \<open>The block\<close>

definition CheckBlockHeader :: "node_env \<Rightarrow> CBlock \<Rightarrow> bool \<Rightarrow> block_verdict" where
  "CheckBlockHeader env block fCheckPOW =
    (case auxpow_Validate (ne_hash env) (ne_fuzz env) block (ne_params env) fCheckPOW EITHER of
       Some reject_reason \<Rightarrow> Inl (BLOCK_INVALID_HEADER, reject_reason)
     | None \<Rightarrow> Inr ())"

definition CheckMerkleRoot :: "node_env \<Rightarrow> CBlock \<Rightarrow> block_memo \<Rightarrow> block_verdict \<times> block_memo" where
  "CheckMerkleRoot env block memo =
    (if m_checked_merkle_root memo then (Inr (), memo)
     else case BlockMerkleRoot (ne_hash env) block of (merkle_root, mutated) \<Rightarrow>
       if hdr_hashMerkleRoot block \<noteq> merkle_root then (Inl (BLOCK_MUTATED, ''bad-txnmrklroot''), memo)
       else if mutated then (Inl (BLOCK_MUTATED, ''bad-txns-duplicate''), memo)
       else (Inr (), memo\<lparr>m_checked_merkle_root := True\<rparr>))"

definition block_size_no_witness :: "CBlock \<Rightarrow> nat cxx" where
  "block_size_no_witness block =
    bindE (ser_CBlockHeader block) (\<lambda>h. Inr (length (h @ ser_vector (SerializeTransaction False) (blk_vtx block))))"

definition GetBlockWeight :: "CBlock \<Rightarrow> nat cxx" where
  "GetBlockWeight block =
    bindE (block_size_no_witness block) (\<lambda>base. bindE (ser_CBlock block) (\<lambda>full.
      Inr (base * (WITNESS_SCALE_FACTOR - 1) + length full)))"

definition CheckBlockWeight :: "CBlock \<Rightarrow> block_verdict cxx" where
  "CheckBlockWeight block =
    bindE (GetBlockWeight block) (\<lambda>w. Inr (if w > MAX_BLOCK_WEIGHT then Inl (BLOCK_CONSENSUS, ''bad-blk-weight'') else Inr ()))"

fun check_transactions :: "CTransaction list \<Rightarrow> block_verdict cxx" where
  "check_transactions [] = Inr (Inr ())"
| "check_transactions (tx # vtx) =
    bindE (CheckTransaction tx) (\<lambda>tx_state.
    case tx_state of Inl (result, reason) \<Rightarrow> bindE (cxx_assert (result = TX_CONSENSUS)) (\<lambda>_. Inr (Inl (BLOCK_CONSENSUS, reason)))
      | Inr _ \<Rightarrow> check_transactions vtx)"

definition CheckBlock :: "node_env \<Rightarrow> CBlock \<Rightarrow> block_memo \<Rightarrow> bool \<Rightarrow> bool \<Rightarrow> (block_verdict \<times> block_memo) cxx" where
  "CheckBlock env block memo fCheckPOW fCheckMerkleRoot =
    (if fChecked memo then Inr (Inr (), memo)
     else case CheckBlockHeader env block fCheckPOW of Inl e \<Rightarrow> Inr (Inl e, memo) | Inr _ \<Rightarrow>
       bindE (if cp_signet_blocks (ne_params env) \<and> fCheckPOW then CheckSignetBlockSolution env block else Inr True) (\<lambda>solved.
       if \<not> solved then Inr (Inl (BLOCK_CONSENSUS, ''bad-signet-blksig''), memo)
       else case (if fCheckMerkleRoot then CheckMerkleRoot env block memo else (Inr (), memo)) of (Inl e, memo') \<Rightarrow> Inr (Inl e, memo')
         | (Inr _, memo') \<Rightarrow>
       let vtx = blk_vtx block in
       bindE (if vtx = [] \<or> length vtx * WITNESS_SCALE_FACTOR > MAX_BLOCK_WEIGHT then Inr True
              else bindE (block_size_no_witness block) (\<lambda>n. Inr (n * WITNESS_SCALE_FACTOR > MAX_BLOCK_WEIGHT))) (\<lambda>too_long.
       if too_long then Inr (Inl (BLOCK_CONSENSUS, ''bad-blk-length''), memo')
       else if vtx = [] \<or> \<not> IsCoinBase (vtx ! 0) then Inr (Inl (BLOCK_CONSENSUS, ''bad-cb-missing''), memo')
       else if list_ex IsCoinBase (tl vtx) then Inr (Inl (BLOCK_CONSENSUS, ''bad-cb-multiple''), memo')
       else
         bindE (check_transactions vtx) (\<lambda>v.
         case v of Inl e \<Rightarrow> Inr (Inl e, memo') | Inr _ \<Rightarrow>
         let nSigOps = fold (\<lambda>tx n. n + GetLegacySigOpCount tx) vtx 0 in
         if uint (nSigOps * of_nat WITNESS_SCALE_FACTOR) > MAX_BLOCK_SIGOPS_COST
         then Inr (Inl (BLOCK_CONSENSUS, ''bad-blk-sigops''), memo')
         else Inr (Inr (), if fCheckPOW \<and> fCheckMerkleRoot then memo'\<lparr>fChecked := True\<rparr> else memo')))))"

subsection \<open>What a checked block satisfies\<close>

definition block_sane :: "CBlock \<Rightarrow> bool" where
  "block_sane block \<longleftrightarrow> (\<exists>coinbase vtx. blk_vtx block = coinbase # vtx \<and> IsCoinBase coinbase \<and> (\<forall>tx\<in>set vtx. \<not> IsCoinBase tx)) \<and>
    (\<forall>tx\<in>set (blk_vtx block). tx_sane tx)"

lemma check_transactions_sane: "check_transactions vtx = Inr (Inr ()) \<longleftrightarrow> (\<forall>tx\<in>set vtx. tx_sane tx)"
proof (induction vtx)
  case (Cons tx vtx)
  obtain v where v: "CheckTransaction tx = Inr v" "v = Inr () \<longleftrightarrow> tx_sane tx" using CheckTransaction_iff [of tx] by blast
  show ?case using Cons v by (cases v) (auto simp: bindE_Inr_iff split: prod.splits)
qed simp

text \<open>The flag promises that the block has passed before.\<close>

definition memo_ok :: "CBlock \<Rightarrow> block_memo \<Rightarrow> bool" where
  "memo_ok block memo \<longleftrightarrow> (fChecked memo \<longrightarrow> block_sane block)"

lemma CheckBlock_sane:
  assumes "CheckBlock env block memo p m = Inr (Inr (), memo')" "memo_ok block memo"
  shows "block_sane block" "memo_ok block memo'"
proof -
  show "block_sane block"
  proof (cases "fChecked memo")
    case True
    then show ?thesis using assms(2) by (simp add: memo_ok_def)
  next
    case False
    have "check_transactions (blk_vtx block) = Inr (Inr ())"
    proof (cases "check_transactions (blk_vtx block)")
      case (Inr v)
      then show ?thesis using assms(1) False
        by (cases v) (auto simp: CheckBlock_def bindE_Inr_iff Let_def split: sum.splits prod.splits if_splits)
    qed (use assms(1) False in \<open>auto simp: CheckBlock_def bindE_Inr_iff Let_def split: sum.splits prod.splits if_splits\<close>)
    moreover have "blk_vtx block \<noteq> []" "IsCoinBase (blk_vtx block ! 0)" "\<not> list_ex IsCoinBase (tl (blk_vtx block))"
      using assms(1) False by (auto simp: CheckBlock_def bindE_Inr_iff Let_def split: sum.splits prod.splits if_splits)
    ultimately show ?thesis unfolding block_sane_def check_transactions_sane by (cases "blk_vtx block") (auto simp: list_ex_iff)
  qed
  then show "memo_ok block memo'" by (simp add: memo_ok_def)
qed

end
