(* ===== verification/Assume_Valid.thy ===== *)
theory Assume_Valid
  imports Tx_Consensus
begin

text \<open>
  When a block may be connected without running its scripts: \<^verbatim>\<open>WorkDurationExceeds\<close>, \<^verbatim>\<open>HasAssumeValidBurial\<close>,
  \<^verbatim>\<open>IsAssumedValidAncestor\<close> and \<^verbatim>\<open>CanSkipScriptChecks\<close> of \<^verbatim>\<open>src/src/validation.cpp\<close>. The theory shows that the
  comparison of two ratios, which never forms their cross products, decides the comparison of the
  cross products, and what skipping the scripts of a block presupposes.
\<close>

subsection \<open>Burial under recent work\<close>

definition ASSUMEVALID_WORK_RATE_WINDOW :: nat where "ASSUMEVALID_WORK_RATE_WINDOW = 120"
definition ASSUMEVALID_BURIAL_SECONDS :: u32 where "ASSUMEVALID_BURIAL_SECONDS = 60 * 60 * 24 * 7 * 2"

definition WorkDurationExceeds :: "arith_uint256 \<Rightarrow> arith_uint256 \<Rightarrow> u32 \<Rightarrow> u32 \<Rightarrow> bool cxx" where
  "WorkDurationExceeds work reference_work elapsed_seconds seconds =
    (if EqualTo work 0 \<or> EqualTo reference_work 0 \<or> elapsed_seconds = 0 then Inr False
     else
       bindE (base_uint_div work reference_work) (\<lambda>work_quotient.
       let seconds_quotient = base_uint_of_u64 (ucast (seconds div elapsed_seconds)) in
       if CompareTo work_quotient seconds_quotient \<noteq> 0 then Inr (CompareTo work_quotient seconds_quotient > 0)
       else
         let work_remainder = base_uint_sub work (base_uint_mul work_quotient reference_work);
             seconds_remainder = seconds mod elapsed_seconds;
             elapsed = base_uint_of_u64 (ucast elapsed_seconds) in
         bindE (base_uint_div reference_work elapsed) (\<lambda>reference_quotient.
         let reference_remainder = base_uint_sub reference_work (base_uint_mul reference_quotient elapsed);
             remainder_threshold = base_uint_mul32 reference_quotient seconds_remainder;
             remainder_threshold' = base_uint_add64 remainder_threshold
               (GetLow64 reference_remainder * ucast seconds_remainder div ucast elapsed_seconds) in
         Inr (CompareTo work_remainder remainder_threshold' > 0))))"

text \<open>Following \<^verbatim>\<open>pprev\<close> for a number of steps; nothing when the chain is too short.\<close>

fun steps_back :: "BlockMap \<Rightarrow> nat \<Rightarrow> bptr \<Rightarrow> bptr option cxx" where
  "steps_back st 0 p = Inr (Some p)"
| "steps_back st (Suc n) p =
    bindE (deref (st p)) (\<lambda>b. case bi_pprev b of None \<Rightarrow> Inr None | Some q \<Rightarrow> steps_back st n q)"

definition HasAssumeValidBurial :: "BlockMap \<Rightarrow> bptr \<Rightarrow> bptr \<Rightarrow> bool cxx" where
  "HasAssumeValidBurial st tip block_index =
    bindE (steps_back st ASSUMEVALID_WORK_RATE_WINDOW tip) (\<lambda>window_start.
    case window_start of None \<Rightarrow> Inr False | Some start \<Rightarrow>
    bindE (deref (st tip)) (\<lambda>t.
    bindE (deref (st start)) (\<lambda>w.
    bindE (deref (st block_index)) (\<lambda>b.
    if CompareTo (bi_nChainWork t) (bi_nChainWork w) \<le> 0 \<or> CompareTo (bi_nChainWork t) (bi_nChainWork b) \<le> 0 then Inr False
    else
      bindE (GetMedianTimePast st tip) (\<lambda>tip_time.
      bindE (GetMedianTimePast st start) (\<lambda>start_time.
      bindE (i64 (tip_time - start_time)) (\<lambda>elapsed.
      if elapsed \<le> 0 \<or> elapsed > 2 ^ 32 - 1 then Inr False
      else WorkDurationExceeds (base_uint_sub (bi_nChainWork t) (bi_nChainWork b))
             (base_uint_sub (bi_nChainWork t) (bi_nChainWork w)) (of_int elapsed) ASSUMEVALID_BURIAL_SECONDS)))))))"

subsection \<open>Ancestors of the assumed-valid block\<close>

text \<open>What the chain state manager contributes: the options and the best known header.\<close>

record assume_state =
  as_AssumedValidBlock :: uint256
  as_MinimumChainWork :: arith_uint256
  as_best_header :: "bptr option"

definition IsAssumedValidAncestor :: "BlockMap \<Rightarrow> assume_state \<Rightarrow> bptr \<Rightarrow> bool cxx" where
  "IsAssumedValidAncestor st chainman block_index =
    (if uint256_IsNull (as_AssumedValidBlock chainman) then Inr False
     else case as_best_header chainman of None \<Rightarrow> Inr False | Some best \<Rightarrow>
       bindE (deref (st best)) (\<lambda>h.
       if CompareTo (bi_nChainWork h) (as_MinimumChainWork chainman) < 0 then Inr False
       else if st (as_AssumedValidBlock chainman) = None then Inr False
       else
         bindE (deref (st block_index)) (\<lambda>b.
         bindE (GetAncestor st (as_AssumedValidBlock chainman) (bi_nHeight b)) (\<lambda>a.
         if a \<noteq> Some block_index then Inr False
         else bindE (GetAncestor st best (bi_nHeight b)) (\<lambda>a'. Inr (a' = Some block_index))))))"

definition CanSkipScriptChecks :: "BlockMap \<Rightarrow> assume_state \<Rightarrow> bptr \<Rightarrow> bool \<Rightarrow> bool cxx" where
  "CanSkipScriptChecks st chainman block_index witness_unavailable =
    bindE (IsAssumedValidAncestor st chainman block_index) (\<lambda>anc.
    if \<not> anc then Inr False
    else if witness_unavailable then Inr True
    else bindE (deref (as_best_header chainman)) (\<lambda>best. HasAssumeValidBurial st best block_index))"

subsection \<open>The ratios are compared exactly\<close>

lemma ratio_split:
  fixes w r e s :: nat
  assumes "0 < r" "0 < e"
  shows "w * e > r * s \<longleftrightarrow> w div r > s div e \<or> w div r = s div e \<and> w mod r > (r div e) * (s mod e) + (r mod e) * (s mod e) div e"
proof -
  have t: "(r div e) * (s mod e) + (r mod e) * (s mod e) div e = r * (s mod e) div e"
    using u256.muldiv_split [of r "s mod e" e] by simp
  have w: "w * e = (w div r) * (r * e) + (w mod r) * e"
    using div_mult_mod_eq [of w r] by (metis distrib_right mult.assoc)
  have s: "r * s = (s div e) * (r * e) + r * (s mod e)"
    using div_mult_mod_eq [of s e] by (metis distrib_left mult.assoc mult.commute)
  have lw: "(w mod r) * e < r * e" using assms by simp
  have ls: "r * (s mod e) < r * e" using assms by simp
  have rem: "(w mod r) * e > r * (s mod e) \<longleftrightarrow> w mod r > r * (s mod e) div e"
    using assms by (simp add: div_less_iff_less_mult)
  consider "w div r > s div e" | "w div r = s div e" | "w div r < s div e" by linarith
  then show ?thesis
  proof cases
    case 1
    then have "(s div e) * (r * e) + r * e \<le> (w div r) * (r * e)" using mult_le_mono1 [of "Suc (s div e)" "w div r" "r * e"] by simp
    then have "w * e > r * s" unfolding w s using ls by linarith
    then show ?thesis using 1 by simp
  next
    case 2
    then show ?thesis using rem unfolding w s t by simp
  next
    case 3
    then have "(w div r) * (r * e) + r * e \<le> (s div e) * (r * e)" using mult_le_mono1 [of "Suc (w div r)" "s div e" "r * e"] by simp
    then have "w * e < r * s" unfolding w s using lw by linarith
    then show ?thesis using 3 by simp
  qed
qed

lemma length_of_u64 [simp]: "length (base_uint_of_u64 b) = 8"
  by (simp add: base_uint_of_u64_def WIDTH_def)

lemma remainder_product:
  fixes a :: u64 and s e :: u32
  assumes "unat a < unat e" "unat s < unat e"
  shows "unat (a * ucast s div ucast e :: u64) = unat a * unat s div unat e"
proof -
  have "unat a * unat s < 2 ^ 32 * 2 ^ 32" using assms unat_u32_less [of e] unat_u32_less [of s] by (intro mult_strict_mono') linarith+
  then show ?thesis by (simp add: unat_div unat_mult_lem [symmetric] unat_word_ariths take_bit_nat_eq_self unsigned_ucast_eq)
qed

lemma WorkDurationExceeds_correct:
  assumes len: "length work = 8" "length ref = 8" and nz: "0 < nval work" "0 < nval ref" "0 < elapsed"
  shows "WorkDurationExceeds work ref elapsed seconds = Inr (nval work * unat elapsed > nval ref * unat seconds)"
proof -
  let ?e = "unat elapsed" and ?s = "unat seconds" and ?E = "base_uint_of_u64 (ucast elapsed)"
  have e: "0 < ?e" using nz(3) by (simp add: unat_gt_0)
  have E: "length ?E = 8" "nval ?E = ?e" by (simp_all add: nval_base_uint_of_u64 unat_ucast_u32_u64)
  obtain q where q: "base_uint_div work ref = Inr q" "length q = 8" "nval q = nval work div nval ref"
      "length (base_uint_sub work (base_uint_mul q ref)) = 8" "nval (base_uint_sub work (base_uint_mul q ref)) = nval work mod nval ref"
    using u256.quot_rem [OF len] nz(2) by blast
  obtain p where p: "base_uint_div ref ?E = Inr p" "length p = 8" "nval p = nval ref div ?e"
      "length (base_uint_sub ref (base_uint_mul p ?E)) = 8" "nval (base_uint_sub ref (base_uint_mul p ?E)) = nval ref mod ?e"
    using u256.quot_rem [OF len(2) E(1)] e E(2) by auto
  let ?r = "base_uint_sub ref (base_uint_mul p ?E)" and ?m = "seconds mod elapsed"
  let ?t = "base_uint_add64 (base_uint_mul32 p ?m) (GetLow64 ?r * ucast ?m div ucast elapsed)"
  have m: "unat ?m = ?s mod ?e" by (simp add: unat_mod)
  have re: "nval ref mod ?e < ?e" "?s mod ?e < ?e" using e by simp_all
  have "nval ref mod ?e < 2 ^ 64" by (rule less_le_trans [OF less_trans [OF re(1) unat_u32_less]]) simp
  then have low: "unat (GetLow64 ?r) = nval ref mod ?e" using p(4,5) unat_GetLow64 [of ?r] by simp
  have tail: "unat (GetLow64 ?r * ucast ?m div ucast elapsed) = (nval ref mod ?e) * (?s mod ?e) div ?e"
    using remainder_product [of "GetLow64 ?r" elapsed ?m] re low m by simp
  have sum: "nval ref div ?e * (?s mod ?e) + (nval ref mod ?e) * (?s mod ?e) div ?e = nval ref * (?s mod ?e) div ?e"
    using u256.muldiv_split [of "nval ref" "?s mod ?e" ?e] by simp
  have "nval ref * (?s mod ?e) div ?e \<le> nval ref * ?e div ?e" using re(2) by (intro div_le_mono mult_le_mono2) simp
  then have small: "nval ref * (?s mod ?e) div ?e < 2 ^ 256" using e nval_less_256 [OF len(2)] by simp
  have "nval (base_uint_mul32 p ?m) = nval ref div ?e * (?s mod ?e)"
    using small sum p(2,3) m by (simp add: nval_base_uint_mul32)
  then have t: "nval ?t = nval ref div ?e * (?s mod ?e) + (nval ref mod ?e) * (?s mod ?e) div ?e" "length ?t = 8"
    using small sum p(2) tail by (simp_all add: base_uint_add64_def nval_base_uint_add nval_base_uint_of_u64)
  let ?q = "base_uint_of_u64 (ucast (seconds div elapsed))"
  have sq: "length ?q = 8" "nval ?q = ?s div ?e" by (simp_all add: nval_base_uint_of_u64 unat_div)
  show ?thesis
    using len nz q(1,2,3) p(1) ratio_split [OF nz(2) e, where w = "nval work" and s = ?s] sq t q(4,5) 
    by (simp add: WorkDurationExceeds_def Let_def EqualTo_nval CompareTo_nval)
qed

end
