(* ===== verification/Block_Connect.thy ===== *)
theory Block_Connect
  imports Block_Check Assume_Valid Subsidy
begin

text \<open>
  Connecting a block: \<^verbatim>\<open>CheckInputScripts\<close>, \<^verbatim>\<open>GetBlockScriptFlags\<close> and \<^verbatim>\<open>Chainstate::ConnectBlock\<close> of
  \<^verbatim>\<open>src/src/validation.cpp\<close>, with the texts of \<^verbatim>\<open>src/src/script/script_error.cpp\<close>. Writing the undo data to disk is an
  argument, the message of the failure if it failed, and timing and log output are left out. The theory shows
  that a connected block applies the effect of its transactions to the coins, pays its miner no more
  than the fees and the subsidy, and never raises the value of all coins by more than the subsidy.
\<close>

unbundle bit_operations_syntax

subsection \<open>Texts of script errors\<close>

definition ScriptErrorString :: "ScriptError \<Rightarrow> string" where
  "ScriptErrorString serror = (case serror of
      SCRIPT_ERR_OK \<Rightarrow> ''No error''
    | SCRIPT_ERR_EVAL_FALSE \<Rightarrow> ''Script evaluated without error but finished with a false/empty top stack element''
    | SCRIPT_ERR_VERIFY \<Rightarrow> ''Script failed an OP_VERIFY operation''
    | SCRIPT_ERR_EQUALVERIFY \<Rightarrow> ''Script failed an OP_EQUALVERIFY operation''
    | SCRIPT_ERR_CHECKMULTISIGVERIFY \<Rightarrow> ''Script failed an OP_CHECKMULTISIGVERIFY operation''
    | SCRIPT_ERR_CHECKSIGVERIFY \<Rightarrow> ''Script failed an OP_CHECKSIGVERIFY operation''
    | SCRIPT_ERR_NUMEQUALVERIFY \<Rightarrow> ''Script failed an OP_NUMEQUALVERIFY operation''
    | SCRIPT_ERR_SCRIPT_SIZE \<Rightarrow> ''Script is too big''
    | SCRIPT_ERR_PUSH_SIZE \<Rightarrow> ''Push value size limit exceeded''
    | SCRIPT_ERR_OP_COUNT \<Rightarrow> ''Operation limit exceeded''
    | SCRIPT_ERR_STACK_SIZE \<Rightarrow> ''Stack size limit exceeded''
    | SCRIPT_ERR_SIG_COUNT \<Rightarrow> ''Signature count negative or greater than pubkey count''
    | SCRIPT_ERR_PUBKEY_COUNT \<Rightarrow> ''Pubkey count negative or limit exceeded''
    | SCRIPT_ERR_BAD_OPCODE \<Rightarrow> ''Opcode missing or not understood''
    | SCRIPT_ERR_DISABLED_OPCODE \<Rightarrow> ''Attempted to use a disabled opcode''
    | SCRIPT_ERR_INVALID_STACK_OPERATION \<Rightarrow> ''Operation not valid with the current stack size''
    | SCRIPT_ERR_INVALID_ALTSTACK_OPERATION \<Rightarrow> ''Operation not valid with the current altstack size''
    | SCRIPT_ERR_OP_RETURN \<Rightarrow> ''OP_RETURN was encountered''
    | SCRIPT_ERR_UNBALANCED_CONDITIONAL \<Rightarrow> ''Invalid OP_IF construction''
    | SCRIPT_ERR_NEGATIVE_LOCKTIME \<Rightarrow> ''Negative locktime''
    | SCRIPT_ERR_UNSATISFIED_LOCKTIME \<Rightarrow> ''Locktime requirement not satisfied''
    | SCRIPT_ERR_SIG_HASHTYPE \<Rightarrow> ''Signature hash type missing or not understood''
    | SCRIPT_ERR_SIG_DER \<Rightarrow> ''Non-canonical DER signature''
    | SCRIPT_ERR_MINIMALDATA \<Rightarrow> ''Data push larger than necessary''
    | SCRIPT_ERR_SIG_PUSHONLY \<Rightarrow> ''Only push operators allowed in signatures''
    | SCRIPT_ERR_SIG_HIGH_S \<Rightarrow> ''Non-canonical signature: S value is unnecessarily high''
    | SCRIPT_ERR_SIG_NULLDUMMY \<Rightarrow> ''Dummy CHECKMULTISIG argument must be zero''
    | SCRIPT_ERR_MINIMALIF \<Rightarrow> ''OP_IF/NOTIF argument must be minimal''
    | SCRIPT_ERR_SIG_NULLFAIL \<Rightarrow> ''Signature must be zero for failed CHECK(MULTI)SIG operation''
    | SCRIPT_ERR_DISCOURAGE_UPGRADABLE_NOPS \<Rightarrow> ''NOPx reserved for soft-fork upgrades''
    | SCRIPT_ERR_DISCOURAGE_UPGRADABLE_WITNESS_PROGRAM \<Rightarrow> ''Witness version reserved for soft-fork upgrades''
    | SCRIPT_ERR_DISCOURAGE_UPGRADABLE_TAPROOT_VERSION \<Rightarrow> ''Taproot version reserved for soft-fork upgrades''
    | SCRIPT_ERR_DISCOURAGE_OP_SUCCESS \<Rightarrow> ''OP_SUCCESSx reserved for soft-fork upgrades''
    | SCRIPT_ERR_DISCOURAGE_UPGRADABLE_PUBKEYTYPE \<Rightarrow> ''Public key version reserved for soft-fork upgrades''
    | SCRIPT_ERR_PUBKEYTYPE \<Rightarrow> ''Public key is neither compressed or uncompressed''
    | SCRIPT_ERR_CLEANSTACK \<Rightarrow> ''Stack size must be exactly one after execution''
    | SCRIPT_ERR_WITNESS_PROGRAM_WRONG_LENGTH \<Rightarrow> ''Witness program has incorrect length''
    | SCRIPT_ERR_WITNESS_PROGRAM_WITNESS_EMPTY \<Rightarrow> ''Witness program was passed an empty witness''
    | SCRIPT_ERR_WITNESS_PROGRAM_MISMATCH \<Rightarrow> ''Witness program hash mismatch''
    | SCRIPT_ERR_WITNESS_MALLEATED \<Rightarrow> ''Witness requires empty scriptSig''
    | SCRIPT_ERR_WITNESS_MALLEATED_P2SH \<Rightarrow> ''Witness requires only-redeemscript scriptSig''
    | SCRIPT_ERR_WITNESS_UNEXPECTED \<Rightarrow> ''Witness provided for non-witness script''
    | SCRIPT_ERR_WITNESS_PUBKEYTYPE \<Rightarrow> ''Using non-compressed keys in segwit''
    | SCRIPT_ERR_SCHNORR_SIG_SIZE \<Rightarrow> ''Invalid Schnorr signature size''
    | SCRIPT_ERR_SCHNORR_SIG_HASHTYPE \<Rightarrow> ''Invalid Schnorr signature hash type''
    | SCRIPT_ERR_SCHNORR_SIG \<Rightarrow> ''Invalid Schnorr signature''
    | SCRIPT_ERR_TAPROOT_WRONG_CONTROL_SIZE \<Rightarrow> ''Invalid Taproot control block size''
    | SCRIPT_ERR_TAPSCRIPT_VALIDATION_WEIGHT \<Rightarrow> ''Too much signature validation relative to witness weight''
    | SCRIPT_ERR_TAPSCRIPT_CHECKMULTISIG \<Rightarrow> ''OP_CHECKMULTISIG(VERIFY) is not available in tapscript''
    | SCRIPT_ERR_TAPSCRIPT_MINIMALIF \<Rightarrow> ''OP_IF/NOTIF argument must be minimal in tapscript''
    | SCRIPT_ERR_P2MR_WRONG_CONTROL_SIZE \<Rightarrow> ''Invalid P2MR control block size''
    | SCRIPT_ERR_P2MR_CONTROL_BIT0 \<Rightarrow> ''P2MR control byte bit 0 must be set''
    | SCRIPT_ERR_P2MR_VALIDATION_WEIGHT \<Rightarrow> ''Too much signature validation relative to witness weight''
    | SCRIPT_ERR_P2MR_SIG_SIZE \<Rightarrow> ''Invalid PQC signature size''
    | SCRIPT_ERR_P2MR_SIG \<Rightarrow> ''PQC signature verification failed''
    | SCRIPT_ERR_P2MR_SIG_HASHTYPE \<Rightarrow> ''Invalid PQC signature hash type''
    | SCRIPT_ERR_P2MR_CHECKSIG \<Rightarrow> ''OP_CHECKSIG(VERIFY) is not available in P2MR''
    | SCRIPT_ERR_TEMPLATE_MISMATCH \<Rightarrow> ''Transaction template hash does not match''
    | SCRIPT_ERR_OP_CODESEPARATOR \<Rightarrow> ''Using OP_CODESEPARATOR in non-witness script''
    | SCRIPT_ERR_SIG_FINDANDDELETE \<Rightarrow> ''Signature is found in scriptCode''
    | SCRIPT_ERR_UNKNOWN_ERROR \<Rightarrow> ''unknown error'')"

subsection \<open>Scripts of a transaction\<close>

text \<open>
  The cache of scripts known to succeed is a lossy set with salted keys. The model keeps every entry;
  an entry that is lost only makes a script run again.
\<close>

record ValidationCache =
  vc_nonce :: uint256
  vc_script_execution_cache :: "uint256 \<Rightarrow> bool"

definition MANDATORY_SCRIPT_VERIFY_FLAGS :: u32 where
  "MANDATORY_SCRIPT_VERIFY_FLAGS = SCRIPT_VERIFY_P2SH OR SCRIPT_VERIFY_DERSIG OR SCRIPT_VERIFY_NULLDUMMY OR
    SCRIPT_VERIFY_CHECKLOCKTIMEVERIFY OR SCRIPT_VERIFY_CHECKSEQUENCEVERIFY OR SCRIPT_VERIFY_WITNESS OR SCRIPT_VERIFY_TAPROOT OR
    SCRIPT_VERIFY_P2MR_RULES"

definition STANDARD_SCRIPT_VERIFY_FLAGS :: u32 where
  "STANDARD_SCRIPT_VERIFY_FLAGS = MANDATORY_SCRIPT_VERIFY_FLAGS OR SCRIPT_VERIFY_STRICTENC OR SCRIPT_VERIFY_MINIMALDATA OR
    SCRIPT_VERIFY_DISCOURAGE_UPGRADABLE_NOPS OR SCRIPT_VERIFY_CLEANSTACK OR SCRIPT_VERIFY_MINIMALIF OR SCRIPT_VERIFY_NULLFAIL OR
    SCRIPT_VERIFY_LOW_S OR SCRIPT_VERIFY_DISCOURAGE_UPGRADABLE_WITNESS_PROGRAM OR SCRIPT_VERIFY_WITNESS_PUBKEYTYPE OR
    SCRIPT_VERIFY_CONST_SCRIPTCODE OR SCRIPT_VERIFY_DISCOURAGE_UPGRADABLE_TAPROOT_VERSION OR SCRIPT_VERIFY_DISCOURAGE_OP_SUCCESS OR
    SCRIPT_VERIFY_DISCOURAGE_UPGRADABLE_PUBKEYTYPE"

definition STANDARD_NOT_MANDATORY_VERIFY_FLAGS :: u32 where
  "STANDARD_NOT_MANDATORY_VERIFY_FLAGS = STANDARD_SCRIPT_VERIFY_FLAGS AND NOT MANDATORY_SCRIPT_VERIFY_FLAGS"

text \<open>The value of one script check: nothing, or the script error.\<close>

definition check_result :: "unit script \<Rightarrow> ScriptError option cxx" where
  "check_result r = (case r of Inr _ \<Rightarrow> Inr None | Inl (Script_Error e) \<Rightarrow> Inr (Some e)
     | Inl Error_Unset \<Rightarrow> Inr (Some SCRIPT_ERR_UNKNOWN_ERROR) | Inl (Cxx_Error e) \<Rightarrow> Inl e)"

fun first_failure :: "unit script list \<Rightarrow> ScriptError option cxx" where
  "first_failure [] = Inr None"
| "first_failure (c # cs) = bindE (check_result c) (\<lambda>r. case r of Some e \<Rightarrow> Inr (Some e) | None \<Rightarrow> first_failure cs)"

fun spent_coins ::
  "(CScript \<Rightarrow> u64) \<Rightarrow> (COutPoint \<Rightarrow> Coin option) \<Rightarrow> CTxIn list \<Rightarrow> CTxOut list \<Rightarrow> CCoinsViewCache \<Rightarrow> (CTxOut list \<times> CCoinsViewCache) cxx" where
  "spent_coins mu base [] spent_outputs inputs = Inr (spent_outputs, inputs)"
| "spent_coins mu base (txin # vin) spent_outputs inputs =
    (case AccessCoin mu base (txin_prevout txin) inputs of (coin, inputs') \<Rightarrow>
     bindE (cxx_assert (\<not> Coin_IsSpent coin)) (\<lambda>_. spent_coins mu base vin (spent_outputs @ [coin_out coin]) inputs'))"

definition script_cache_entry :: "node_env \<Rightarrow> ValidationCache \<Rightarrow> CTransaction \<Rightarrow> u32 \<Rightarrow> uint256" where
  "script_cache_entry env vc tx flags =
    ne_sha256 env (vc_nonce vc @ vc_nonce vc @ tx_GetWitnessHash (ne_hash env) tx @ ser_writedata32 flags)"

text \<open>
  The checks of all inputs, run in place or handed back to be queued. The result is the verdict with
  the queued checks, the view and the cache.
\<close>

definition CheckInputScripts ::
  "node_env \<Rightarrow> (COutPoint \<Rightarrow> Coin option) \<Rightarrow> CTransaction \<Rightarrow> CCoinsViewCache \<Rightarrow> u32 \<Rightarrow> bool \<Rightarrow> PrecomputedTransactionData
    \<Rightarrow> ValidationCache \<Rightarrow> bool \<Rightarrow> (unit script list tx_verdict \<times> CCoinsViewCache \<times> ValidationCache) cxx" where
  "CheckInputScripts env base tx inputs flags cacheFullScriptStore txdata vc queued =
    (if IsCoinBase tx then Inr (Inr [], inputs, vc)
     else
       let hashCacheEntry = script_cache_entry env vc tx flags in
       if vc_script_execution_cache vc hashCacheEntry then Inr (Inr [], inputs, vc)
       else
         bindE (if \<not> m_spent_outputs_ready txdata
                then bindE (spent_coins (ne_usage env) base (tx_vin tx) [] inputs) (\<lambda>(spent_outputs, inputs').
                     bindE (txdata_Init (ne_sha256 env) txdata tx spent_outputs False) (\<lambda>txdata'. Inr (txdata', inputs')))
                else Inr (txdata, inputs)) (\<lambda>(txdata', inputs').
         bindE (cxx_assert (length (m_spent_outputs txdata') = length (tx_vin tx))) (\<lambda>_.
         let checks = map (\<lambda>i. CScriptCheck_call (ne_script env) (ne_crypto env) flags (m_spent_outputs txdata' ! i) tx (of_nat i) txdata')
               [0..<length (tx_vin tx)] in
         if queued then Inr (Inr checks, inputs', vc)
         else
           bindE (first_failure checks) (\<lambda>failed.
           case failed of
             Some e \<Rightarrow>
               if flags AND STANDARD_NOT_MANDATORY_VERIFY_FLAGS \<noteq> 0
               then Inr (Inl (TX_NOT_STANDARD, ''mempool-script-verify-flag-failed ('' @ ScriptErrorString e @ '')''), inputs', vc)
               else Inr (Inl (TX_CONSENSUS, ''block-script-verify-flag-failed ('' @ ScriptErrorString e @ '')''), inputs', vc)
           | None \<Rightarrow>
               Inr (Inr [], inputs',
                 if cacheFullScriptStore
                 then vc\<lparr>vc_script_execution_cache := (vc_script_execution_cache vc)(hashCacheEntry := True)\<rparr> else vc)))))"

subsection \<open>Rules by height\<close>

definition DeploymentActiveAt :: "CBlockIndex \<Rightarrow> Params \<Rightarrow> BuriedDeployment \<Rightarrow> bool" where
  "DeploymentActiveAt index params dep \<longleftrightarrow> bi_nHeight index \<ge> DeploymentHeight params dep"

definition DeploymentActiveAfter :: "CBlockIndex option \<Rightarrow> Params \<Rightarrow> BuriedDeployment \<Rightarrow> bool cxx" where
  "DeploymentActiveAfter pindexPrev params dep =
    bindE (case pindexPrev of None \<Rightarrow> Inr 0 | Some p \<Rightarrow> i32 (bi_nHeight p + 1)) (\<lambda>h. Inr (h \<ge> DeploymentHeight params dep))"

definition GetBlockScriptFlags :: "CBlockIndex \<Rightarrow> Params \<Rightarrow> u32 cxx" where
  "GetBlockScriptFlags block_index consensusparams =
    (let flags = SCRIPT_VERIFY_P2SH OR SCRIPT_VERIFY_WITNESS OR SCRIPT_VERIFY_TAPROOT;
         flags1 = (if bi_nHeight block_index \<ge> cp_P2MRHeight consensusparams
                   then (let f = flags OR SCRIPT_VERIFY_P2MR_RULES in
                     if \<not> P2MRValidationWeightV2ActiveAtHeight consensusparams (bi_nHeight block_index)
                     then f OR SCRIPT_VERIFY_P2MR_LEGACY_VALIDATION_WEIGHT else f)
                   else flags) in
     bindE (cxx_assert (bi_phashBlock block_index \<noteq> None)) (\<lambda>_.
     let flags2 = (case cp_script_flag_exceptions consensusparams (the (bi_phashBlock block_index)) of None \<Rightarrow> flags1 | Some f \<Rightarrow> f);
         flags3 = (if DeploymentActiveAt block_index consensusparams DEPLOYMENT_DERSIG then flags2 OR SCRIPT_VERIFY_DERSIG else flags2);
         flags4 = (if DeploymentActiveAt block_index consensusparams DEPLOYMENT_CLTV then flags3 OR SCRIPT_VERIFY_CHECKLOCKTIMEVERIFY else flags3);
         flags5 = (if DeploymentActiveAt block_index consensusparams DEPLOYMENT_CSV then flags4 OR SCRIPT_VERIFY_CHECKSEQUENCEVERIFY else flags4) in
     Inr (if DeploymentActiveAt block_index consensusparams DEPLOYMENT_SEGWIT then flags5 OR SCRIPT_VERIFY_NULLDUMMY else flags5)))"

definition IsBIP30Repeat :: "CBlockIndex \<Rightarrow> bool cxx" where
  "IsBIP30Repeat block_index =
    (if bi_nHeight block_index = 91842 then
       bindE (bi_GetBlockHash block_index) (\<lambda>h. Inr (h = uint256_of_hex 0x00000000000a4d0a398161ffc163c503763b1f4360639393e0e4c8e300e0caec))
     else if bi_nHeight block_index = 91880 then
       bindE (bi_GetBlockHash block_index) (\<lambda>h. Inr (h = uint256_of_hex 0x00000000000743f190a18c5577a3c2d2a1f610ae9601ac046a38084ccb7cd721))
     else Inr False)"

definition BIP34_IMPLIES_BIP30_LIMIT :: int where "BIP34_IMPLIES_BIP30_LIMIT = 1983702"

definition enforce_bip30 :: "BlockMap \<Rightarrow> CBlockIndex \<Rightarrow> Params \<Rightarrow> bool cxx" where
  "enforce_bip30 st pindex params =
    bindE (IsBIP30Repeat pindex) (\<lambda>repeated.
    bindE (cxx_assert (bi_pprev pindex \<noteq> None)) (\<lambda>_.
    bindE (GetAncestor st (the (bi_pprev pindex)) (cp_BIP34Height params)) (\<lambda>pindexBIP34height.
    bindE (if repeated then Inr False
           else case pindexBIP34height of None \<Rightarrow> Inr True
             | Some p \<Rightarrow> bindE (deref (st p)) (\<lambda>a. bindE (bi_GetBlockHash a) (\<lambda>h. Inr (h \<noteq> cp_BIP34Hash params)))) (\<lambda>fEnforceBIP30.
    Inr (fEnforceBIP30 \<or> bi_nHeight pindex \<ge> BIP34_IMPLIES_BIP30_LIMIT)))))"

fun overwrites_output :: "(CScript \<Rightarrow> u64) \<Rightarrow> (COutPoint \<Rightarrow> Coin option) \<Rightarrow> uint256 \<Rightarrow> nat \<Rightarrow> CTxOut list \<Rightarrow> bool \<times> CCoinsViewCache \<Rightarrow> bool \<times> CCoinsViewCache" where
  "overwrites_output mu base txid o' [] (found, view) = (found, view)"
| "overwrites_output mu base txid o' (out # vout) (found, view) =
    (case HaveCoin mu base (outpoint txid o') view of (b, view') \<Rightarrow> overwrites_output mu base txid (Suc o') vout (found \<or> b, view'))"

definition overwrites_outputs ::
  "(bytes \<Rightarrow> uint256) \<Rightarrow> (CScript \<Rightarrow> u64) \<Rightarrow> (COutPoint \<Rightarrow> Coin option) \<Rightarrow> CTransaction list \<Rightarrow> CCoinsViewCache \<Rightarrow> bool \<times> CCoinsViewCache" where
  "overwrites_outputs H mu base vtx view = fold (\<lambda>tx. overwrites_output mu base (tx_GetHash H tx) 0 (tx_vout tx)) vtx (False, view)"

subsection \<open>The transactions of a block\<close>

type_synonym block_reject = "(BlockValidationResult \<times> string) option"

text \<open>What the loop of \<^verbatim>\<open>ConnectBlock\<close> changes, and what it reads.\<close>

record connect_state =
  cs_view :: CCoinsViewCache
  cs_nFees :: CAmount
  cs_nSigOpsCost :: int
  cs_vtxundo :: CBlockUndo
  cs_checks :: "unit script list"
  cs_cache :: ValidationCache

record connect_ctx =
  ct_base :: "COutPoint \<Rightarrow> Coin option"
  ct_index :: BlockMap
  ct_pindex :: bptr
  ct_nHeight :: int
  ct_flags :: u32
  ct_nLockTimeFlags :: u32
  ct_fScriptChecks :: bool
  ct_fJustCheck :: bool
  ct_control :: bool

fun coin_heights ::
  "(CScript \<Rightarrow> u64) \<Rightarrow> (COutPoint \<Rightarrow> Coin option) \<Rightarrow> CTxIn list \<Rightarrow> CCoinsViewCache \<Rightarrow> int list \<times> CCoinsViewCache" where
  "coin_heights mu base [] view = ([], view)"
| "coin_heights mu base (txin # vin) view =
    (case AccessCoin mu base (txin_prevout txin) view of (coin, view1) \<Rightarrow>
     case coin_heights mu base vin view1 of (hs, view2) \<Rightarrow> (uint (coin_nHeight coin) # hs, view2))"

definition connect_inputs :: "node_env \<Rightarrow> connect_ctx \<Rightarrow> CTransaction \<Rightarrow> connect_state \<Rightarrow> (block_reject \<times> connect_state) cxx" where
  "connect_inputs env ct tx cs =
    bindE (CheckTxInputs (ne_usage env) (ct_base ct) tx (cs_view cs) (ct_nHeight ct)) (\<lambda>(v, view1).
    case v of Inl (_, reason) \<Rightarrow> Inr (Some (BLOCK_CONSENSUS, reason), cs\<lparr>cs_view := view1\<rparr>) | Inr txfee \<Rightarrow>
    bindE (i64 (cs_nFees cs + txfee)) (\<lambda>nFees.
    let cs1 = cs\<lparr>cs_view := view1, cs_nFees := nFees\<rparr> in
    if \<not> MoneyRange nFees then Inr (Some (BLOCK_CONSENSUS, ''bad-txns-accumulated-fee-outofrange''), cs1)
    else case coin_heights (ne_usage env) (ct_base ct) (tx_vin tx) view1 of (prevheights, view2) \<Rightarrow>
      bindE (SequenceLocks (ct_index ct) tx (ct_nLockTimeFlags ct) prevheights (ct_pindex ct)) (\<lambda>final.
      Inr (if final then None else Some (BLOCK_CONSENSUS, ''bad-txns-nonfinal''), cs1\<lparr>cs_view := view2\<rparr>))))"

definition connect_scripts :: "node_env \<Rightarrow> connect_ctx \<Rightarrow> CTransaction \<Rightarrow> connect_state \<Rightarrow> (block_reject \<times> connect_state) cxx" where
  "connect_scripts env ct tx cs =
    (if IsCoinBase tx \<or> \<not> ct_fScriptChecks ct then Inr (None, cs)
     else
       bindE (CheckInputScripts env (ct_base ct) tx (cs_view cs) (ct_flags ct) (ct_fJustCheck ct) new_txdata (cs_cache cs) (ct_control ct))
         (\<lambda>(v, view, vc).
       let cs1 = cs\<lparr>cs_view := view, cs_cache := vc\<rparr> in
       Inr (case v of Inl (_, reason) \<Rightarrow> (Some (BLOCK_CONSENSUS, reason), cs1)
            | Inr checks \<Rightarrow> (None, cs1\<lparr>cs_checks := cs_checks cs @ checks\<rparr>))))"

definition connect_tx :: "node_env \<Rightarrow> connect_ctx \<Rightarrow> nat \<Rightarrow> CTransaction \<Rightarrow> connect_state \<Rightarrow> (block_reject \<times> connect_state) cxx" where
  "connect_tx env ct i tx cs =
    (if cp_fRestrictedOutputMode (ne_params env) \<and> \<not> HasOnlyRestrictedOutputModeOutputs tx (ne_params env) (ct_nHeight ct)
     then Inr (Some (BLOCK_CONSENSUS, ''bad-txns-output-not-p2mr''), cs)
     else
       bindE (if \<not> IsCoinBase tx then connect_inputs env ct tx cs else Inr (None, cs)) (\<lambda>(r1, cs1).
       if r1 \<noteq> None then Inr (r1, cs1)
       else
         bindE (GetTransactionSigOpCost (ne_usage env) (ct_base ct) tx (cs_view cs1) (ct_flags ct)) (\<lambda>(cost, view2).
         bindE (i64 (cs_nSigOpsCost cs1 + cost)) (\<lambda>nSigOpsCost.
         let cs2 = cs1\<lparr>cs_view := view2, cs_nSigOpsCost := nSigOpsCost\<rparr> in
         if nSigOpsCost > MAX_BLOCK_SIGOPS_COST then Inr (Some (BLOCK_CONSENSUS, ''bad-blk-sigops''), cs2)
         else
           bindE (connect_scripts env ct tx cs2) (\<lambda>(r3, cs3).
           if r3 \<noteq> None then Inr (r3, cs3)
           else
             bindE (UpdateCoins (ne_hash env) (ne_usage env) (ct_base ct) tx (cs_view cs3) [] (ct_nHeight ct)) (\<lambda>(txundo, view4).
             Inr (None, cs3\<lparr>cs_view := view4, cs_vtxundo := (if i > 0 then cs_vtxundo cs3 @ [txundo] else cs_vtxundo cs3)\<rparr>)))))))"

fun connect_txs :: "node_env \<Rightarrow> connect_ctx \<Rightarrow> nat \<Rightarrow> CTransaction list \<Rightarrow> block_reject \<times> connect_state \<Rightarrow> (block_reject \<times> connect_state) cxx" where
  "connect_txs env ct i [] s = Inr s"
| "connect_txs env ct i (tx # vtx) (state, cs) =
    (if state \<noteq> None then Inr (state, cs)
     else bindE (connect_tx env ct i tx cs) (\<lambda>s. connect_txs env ct (Suc i) vtx s))"

subsection \<open>Connecting a block\<close>

datatype connect_outcome = Connected | Rejected BlockValidationResult string | Fatal string

record connect_result =
  cr_outcome :: connect_outcome
  cr_view :: CCoinsViewCache
  cr_memo :: block_memo
  cr_blockman :: BlockManager
  cr_blockundo :: CBlockUndo
  cr_cache :: ValidationCache

definition connect_done :: "connect_outcome \<Rightarrow> CCoinsViewCache \<Rightarrow> block_memo \<Rightarrow> BlockManager \<Rightarrow> CBlockUndo \<Rightarrow> ValidationCache \<Rightarrow> connect_result" where
  "connect_done outcome view memo bm undo vc = \<lparr>cr_outcome = outcome, cr_view = view, cr_memo = memo, cr_blockman = bm,
     cr_blockundo = undo, cr_cache = vc\<rparr>"

definition HasAnyWitnessData :: "CBlock \<Rightarrow> bool" where
  "HasAnyWitnessData block = list_ex HasWitness (blk_vtx block)"

definition BLOCK_OPT_WITNESS_PRUNED :: u32 where "BLOCK_OPT_WITNESS_PRUNED = 512"
definition BLOCK_VALID_SCRIPTS :: u32 where "BLOCK_VALID_SCRIPTS = 5"

text \<open>
  The queue runs its checks in some order and reports one of those that failed, which \<open>pick\<close> selects.
\<close>

fun failures :: "unit script list \<Rightarrow> ScriptError list cxx" where
  "failures [] = Inr []"
| "failures (c # cs) = bindE (check_result c) (\<lambda>r. bindE (failures cs) (\<lambda>es. Inr (case r of Some e \<Rightarrow> e # es | None \<Rightarrow> es)))"

text \<open>From the check for overwritten outputs to the verdict on the block.\<close>

definition connect_verdict ::
  "node_env \<Rightarrow> connect_ctx \<Rightarrow> (ScriptError list \<Rightarrow> ScriptError) \<Rightarrow> CBlock \<Rightarrow> bool \<Rightarrow> connect_state \<Rightarrow> (block_reject \<times> connect_state) cxx" where
  "connect_verdict env ct pick block check_overwrite cs =
    (case (if check_overwrite then overwrites_outputs (ne_hash env) (ne_usage env) (ct_base ct) (blk_vtx block) (cs_view cs)
           else (False, cs_view cs)) of (overwrite, view1) \<Rightarrow>
     bindE (connect_txs env ct 0 (blk_vtx block)
       (if overwrite then Some (BLOCK_CONSENSUS, ''bad-txns-BIP30'') else None, cs\<lparr>cs_view := view1\<rparr>)) (\<lambda>(state1, cs1).
     bindE (GetBlockSubsidy (ct_nHeight ct) (ne_params env)) (\<lambda>subsidy.
     bindE (i64 (cs_nFees cs1 + subsidy)) (\<lambda>blockReward.
     bindE (GetValueOut (blk_vtx block ! 0)) (\<lambda>paid.
     let state2 = (if paid > blockReward \<and> state1 = None then Some (BLOCK_CONSENSUS, ''bad-cb-amount'') else state1) in
     bindE (if ct_control ct then failures (cs_checks cs1) else Inr []) (\<lambda>failed.
     Inr (if failed \<noteq> [] \<and> state2 = None
          then Some (BLOCK_CONSENSUS, ''block-script-verify-flag-failed ('' @ ScriptErrorString (pick failed) @ '')'')
          else state2, cs1)))))))"

definition mark_scripts_valid :: "bptr \<Rightarrow> BlockManager \<Rightarrow> BlockManager cxx" where
  "mark_scripts_valid pindex bm =
    bindE (deref (bm_block_index bm pindex)) (\<lambda>b.
    bindE (IsValid b BLOCK_VALID_SCRIPTS) (\<lambda>valid.
    if valid then Inr bm
    else bindE (RaiseValidity BLOCK_VALID_SCRIPTS b) (\<lambda>(_, b').
      Inr (bm\<lparr>bm_block_index := (bm_block_index bm)(pindex \<mapsto> b'), bm_dirty_blockindex := List.insert pindex (bm_dirty_blockindex bm)\<rparr>))))"

text \<open>The part after the checks of the block itself, for a block that is not the genesis block.\<close>

definition connect_transactions ::
  "node_env \<Rightarrow> assume_state \<Rightarrow> (COutPoint \<Rightarrow> Coin option) \<Rightarrow> bool \<Rightarrow> (ScriptError list \<Rightarrow> ScriptError) \<Rightarrow> BlockMap \<Rightarrow> CBlock
    \<Rightarrow> bptr \<Rightarrow> CBlockIndex \<Rightarrow> bool \<Rightarrow> bool \<Rightarrow> ValidationCache \<Rightarrow> CCoinsViewCache \<Rightarrow> (block_reject \<times> connect_state) cxx" where
  "connect_transactions env chainman base threads pick st block pindex b witness_unavailable fJustCheck vc view =
    bindE (CanSkipScriptChecks st chainman pindex witness_unavailable) (\<lambda>skip.
    bindE (enforce_bip30 st b (ne_params env)) (\<lambda>check_overwrite.
    bindE (GetBlockScriptFlags b (ne_params env)) (\<lambda>flags.
    connect_verdict env
      \<lparr>ct_base = base, ct_index = st, ct_pindex = pindex, ct_nHeight = bi_nHeight b, ct_flags = flags,
        ct_nLockTimeFlags = (if DeploymentActiveAt b (ne_params env) DEPLOYMENT_CSV then LOCKTIME_VERIFY_SEQUENCE else 0),
        ct_fScriptChecks = \<not> skip, ct_fJustCheck = fJustCheck, ct_control = (threads \<and> \<not> skip)\<rparr>
      pick block check_overwrite
      \<lparr>cs_view = view, cs_nFees = 0, cs_nSigOpsCost = 0, cs_vtxundo = [], cs_checks = [], cs_cache = vc\<rparr>)))"

definition connect_rest ::
  "node_env \<Rightarrow> assume_state \<Rightarrow> (COutPoint \<Rightarrow> Coin option) \<Rightarrow> bool \<Rightarrow> (ScriptError list \<Rightarrow> ScriptError) \<Rightarrow> string option \<Rightarrow> BlockManager \<Rightarrow> ValidationCache
    \<Rightarrow> CBlock \<Rightarrow> block_memo \<Rightarrow> bptr \<Rightarrow> CBlockIndex \<Rightarrow> CBlockIndex option \<Rightarrow> CCoinsViewCache \<Rightarrow> bool \<Rightarrow> connect_result cxx" where
  "connect_rest env chainman base threads pick undo_error bm vc block memo pindex b prev view fJustCheck =
    bindE (DeploymentActiveAfter prev (ne_params env) DEPLOYMENT_SEGWIT) (\<lambda>segwit.
    let block_has_witness = HasAnyWitnessData block;
        block_missing_witness = (segwit \<and> GetWitnessCommitmentIndex block \<noteq> NO_WITNESS_COMMITMENT \<and> \<not> block_has_witness);
        witness_unavailable = (block_missing_witness \<or> (bi_nStatus b AND BLOCK_OPT_WITNESS_PRUNED \<noteq> 0 \<and> \<not> block_has_witness)) in
    bindE (if block_missing_witness then Inr (Inr ()) else CheckBlockWeight block) (\<lambda>weight.
    case weight of
      Inl (res, reason) \<Rightarrow> Inr (connect_done (Rejected res reason) view memo bm [] vc)
    | Inr _ \<Rightarrow>
       bindE (connect_transactions env chainman base threads pick (bm_block_index bm) block pindex b witness_unavailable fJustCheck vc view)
         (\<lambda>(state, cs).
       case state of
         Some (res, reason) \<Rightarrow> Inr (connect_done (Rejected res reason) (cs_view cs) memo bm (cs_vtxundo cs) (cs_cache cs))
       | None \<Rightarrow>
          if fJustCheck then Inr (connect_done Connected (cs_view cs) memo bm (cs_vtxundo cs) (cs_cache cs))
          else if undo_error \<noteq> None then Inr (connect_done (Fatal (the undo_error)) (cs_view cs) memo bm (cs_vtxundo cs) (cs_cache cs))
          else
            bindE (mark_scripts_valid pindex bm) (\<lambda>bm'.
            bindE (bi_GetBlockHash b) (\<lambda>hash.
            Inr (connect_done Connected (SetBestBlock hash (cs_view cs)) memo bm' (cs_vtxundo cs) (cs_cache cs)))))))"

definition ConnectBlock ::
  "node_env \<Rightarrow> assume_state \<Rightarrow> (COutPoint \<Rightarrow> Coin option) \<Rightarrow> uint256 \<Rightarrow> bool \<Rightarrow> (ScriptError list \<Rightarrow> ScriptError) \<Rightarrow> string option \<Rightarrow> BlockManager \<Rightarrow> ValidationCache
    \<Rightarrow> CBlock \<Rightarrow> block_memo \<Rightarrow> bptr \<Rightarrow> CCoinsViewCache \<Rightarrow> bool \<Rightarrow> connect_result cxx" where
  "ConnectBlock env chainman base base_best threads pick undo_error bm vc block memo pindex view fJustCheck =
    bindE (deref (bm_block_index bm pindex)) (\<lambda>b.
    bindE (cxx_assert (bi_phashBlock b = Some (header_GetHash (ne_hash env) block))) (\<lambda>_.
    bindE (CheckBlock env block memo (\<not> fJustCheck) (\<not> fJustCheck)) (\<lambda>(checked, memo1).
    case checked of
      Inl (res, reason) \<Rightarrow>
        Inr (connect_done (if res = BLOCK_MUTATED then Fatal ''Corrupt block found indicating potential hardware failure.''
                           else Rejected res reason) view memo1 bm [] vc)
    | Inr _ \<Rightarrow>
       bindE (case bi_pprev b of None \<Rightarrow> Inr (uint256_null, None)
              | Some q \<Rightarrow> bindE (deref (bm_block_index bm q)) (\<lambda>p. bindE (bi_GetBlockHash p) (\<lambda>h. Inr (h, Some p)))) (\<lambda>(hashPrevBlock, prev).
       case GetBestBlock base_best view of (best, view1) \<Rightarrow>
       bindE (cxx_assert (hashPrevBlock = best)) (\<lambda>_.
       if header_GetHash (ne_hash env) block = cp_hashGenesisBlock (ne_params env) then
         bindE (bi_GetBlockHash b) (\<lambda>hash.
         Inr (connect_done Connected (if \<not> fJustCheck then SetBestBlock hash view1 else view1) memo1 bm [] vc))
       else connect_rest env chainman base threads pick undo_error bm vc block memo1 pindex b prev view1 fJustCheck)))))"

subsection \<open>Steps that only read coins\<close>

lemma coin_heights_same:
  assumes B: "base_ok B"
  shows "cache_inv mu B c \<Longrightarrow> coin_heights mu B vin c = (hs, c') \<Longrightarrow> same_coins mu B c c' \<and>
    ((\<forall>i\<in>set vin. cache_view B c (txin_prevout i) \<noteq> None) \<longrightarrow>
      hs = map (\<lambda>i. uint (coin_nHeight (the (cache_view B c (txin_prevout i))))) vin)"
proof (induction vin arbitrary: c hs)
  case (Cons i vin)
  obtain coin c1 where a: "AccessCoin mu B (txin_prevout i) c = (coin, c1)" by force
  obtain hs1 where h: "coin_heights mu B vin c1 = (hs1, c')" "hs = uint (coin_nHeight coin) # hs1"
    using Cons.prems(2) a by (auto split: prod.splits)
  note A = AccessCoin_same [OF Cons.prems(1) B a]
  have v: "cache_view B c (txin_prevout i) = (if Coin_IsSpent coin then None else Some coin)"
    using AccessCoin_ok [OF Cons.prems(1) B a] by simp
  note IH = Cons.IH [OF same_coins_inv(1) [OF A(1)] h(1)]
  show ?case using IH same_coins_trans [OF A(1)] same_coins_inv(2) [OF A(1)] v h(2) by auto
qed auto

lemma spent_coins_same:
  assumes B: "base_ok B"
  shows "cache_inv mu B c \<Longrightarrow> spent_coins mu B vin outs c = Inr (outs', c') \<Longrightarrow> same_coins mu B c c'"
proof (induction vin arbitrary: c outs)
  case (Cons i vin)
  obtain coin c1 where a: "AccessCoin mu B (txin_prevout i) c = (coin, c1)" by force
  note A = AccessCoin_same(1) [OF Cons.prems(1) B a]
  show ?case using Cons.IH [OF same_coins_inv(1) [OF A]] Cons.prems(2) a same_coins_trans [OF A] by (auto simp: bindE_Inr_iff)
qed auto

lemma CheckInputScripts_same:
  assumes "cache_inv (ne_usage env) B c" "base_ok B" "CheckInputScripts env B tx c F store d vc q = Inr (v, c', vc')"
  shows "same_coins (ne_usage env) B c c'"
proof (cases "IsCoinBase tx \<or> vc_script_execution_cache vc (script_cache_entry env vc tx F)")
  case True
  then have "c' = c" using assms(3) by (auto simp: CheckInputScripts_def Let_def split: if_splits)
  then show ?thesis using assms(1) by auto
next
  case False
  let ?prep = "if \<not> m_spent_outputs_ready d
      then bindE (spent_coins (ne_usage env) B (tx_vin tx) [] c) (\<lambda>(outs, c1). bindE (txdata_Init (ne_sha256 env) d tx outs False) (\<lambda>d'. Inr (d', c1)))
      else Inr (d, c)"
  obtain d1 c1 where p: "?prep = Inr (d1, c1)" using assms(3) False by (cases ?prep) (auto simp: CheckInputScripts_def Let_def)
  have "c' = c1" using assms(3) False unfolding CheckInputScripts_def Let_def p
    by (auto simp: bindE_Inr_iff split: if_splits option.splits)
  moreover have "same_coins (ne_usage env) B c c1"
    using p assms(1) spent_coins_same [OF assms(2,1)] by (auto simp: bindE_Inr_iff split: if_splits)
  ultimately show ?thesis by simp
qed

lemma overwrites_output_same:
  assumes B: "base_ok B"
  shows "cache_inv mu B c \<Longrightarrow> overwrites_output mu B txid n vout (f, c) = (f', c') \<Longrightarrow> same_coins mu B c c' \<and>
    (f' \<longleftrightarrow> f \<or> (\<exists>k. n \<le> k \<and> k < n + length vout \<and> cache_view B c (outpoint txid k) \<noteq> None))"
proof (induction vout arbitrary: n f c)
  case (Cons out vout)
  obtain b c1 where h: "HaveCoin mu B (outpoint txid n) c = (b, c1)" by force
  note H = HaveCoin_ok [OF Cons.prems(1) B h]
  have s: "same_coins mu B c c1" using H by (simp add: same_coins_def)
  have "overwrites_output mu B txid (Suc n) vout (f \<or> b, c1) = (f', c')" using Cons.prems(2) h by simp
  note IH = Cons.IH [OF H(1) this]
  have "(\<exists>k. n \<le> k \<and> k < n + length (out # vout) \<and> P k) \<longleftrightarrow> P n \<or> (\<exists>k. Suc n \<le> k \<and> k < Suc n + length vout \<and> P k)" for P
    by (auto simp: Suc_le_eq) (use le_neq_implies_less less_imp_le in \<open>blast+\<close>)
  then show ?case using IH same_coins_trans [OF s] H(2,3) by auto
qed auto

lemma overwrites_outputs_same:
  assumes B: "base_ok B"
  shows "cache_inv mu B c \<Longrightarrow> fold (\<lambda>tx. overwrites_output mu B (tx_GetHash H tx) 0 (tx_vout tx)) vtx (f, c) = (f', c') \<Longrightarrow> same_coins mu B c c' \<and>
    (\<not> f' \<longleftrightarrow> \<not> f \<and> (\<forall>tx\<in>set vtx. \<forall>k<length (tx_vout tx). cache_view B c (outpoint (tx_GetHash H tx) k) = None))"
proof (induction vtx arbitrary: f c)
  case (Cons tx vtx)
  obtain f1 c1 where o: "overwrites_output mu B (tx_GetHash H tx) 0 (tx_vout tx) (f, c) = (f1, c1)" by force
  note O = overwrites_output_same [OF B Cons.prems(1) o]
  then have inv: "cache_inv mu B c1" using same_coins_inv by blast
  have "fold (\<lambda>tx. overwrites_output mu B (tx_GetHash H tx) 0 (tx_vout tx)) vtx (f1, c1) = (f', c')" using Cons.prems(2) o by simp
  note IH = Cons.IH [OF inv this]
  show ?case using IH O same_coins_trans [of mu B c c1 c'] by (auto simp: same_coins_def)
qed auto

subsection \<open>One transaction\<close>

lemma connect_inputs_effect:
  assumes inv: "cache_inv (ne_usage env) (ct_base ct) (cs_view cs)" and B: "base_ok (ct_base ct)"
    and ok: "connect_inputs env ct tx cs = Inr (None, cs')"
  obtains fee c1 where "CheckTxInputs (ne_usage env) (ct_base ct) tx (cs_view cs) (ct_nHeight ct) = Inr (Inr fee, c1)"
    "same_coins (ne_usage env) (ct_base ct) (cs_view cs) (cs_view cs')" "cs_nFees cs' = cs_nFees cs + fee" "MoneyRange (cs_nFees cs')"
    "cs_vtxundo cs' = cs_vtxundo cs"
proof -
  obtain v c1 where ck: "CheckTxInputs (ne_usage env) (ct_base ct) tx (cs_view cs) (ct_nHeight ct) = Inr (v, c1)"
    using ok by (auto simp: connect_inputs_def bindE_Inr_iff)
  obtain fee where v: "v = Inr fee" using ok ck by (cases v) (auto simp: connect_inputs_def)
  obtain hs c2 where hs: "coin_heights (ne_usage env) (ct_base ct) (tx_vin tx) c1 = (hs, c2)" by force
  note S = CheckTxInputs_value(1) [OF inv B ck]
  have cs': "cs' = cs\<lparr>cs_view := c2, cs_nFees := cs_nFees cs + fee\<rparr>" "MoneyRange (cs_nFees cs + fee)"
    using ok ck v hs by (auto simp: connect_inputs_def bindE_Inr_iff Let_def split: if_splits)
  have "same_coins (ne_usage env) (ct_base ct) (cs_view cs) c2"
    using same_coins_trans [OF S] coin_heights_same [OF B same_coins_inv(1) [OF S] hs] by blast
  then show thesis using that ck v cs' by simp
qed

lemma connect_scripts_effect:
  assumes inv: "cache_inv (ne_usage env) (ct_base ct) (cs_view cs)" and B: "base_ok (ct_base ct)"
    and ok: "connect_scripts env ct tx cs = Inr (r, cs')"
  shows "same_coins (ne_usage env) (ct_base ct) (cs_view cs) (cs_view cs')" "cs_nFees cs' = cs_nFees cs" "cs_vtxundo cs' = cs_vtxundo cs"
proof -
  have "same_coins (ne_usage env) (ct_base ct) (cs_view cs) (cs_view cs') \<and> cs_nFees cs' = cs_nFees cs \<and> cs_vtxundo cs' = cs_vtxundo cs"
  proof (cases "IsCoinBase tx \<or> \<not> ct_fScriptChecks ct")
    case True
    then show ?thesis using ok inv by (auto simp: connect_scripts_def)
  next
    case False
    then obtain v c' vc' where c: "CheckInputScripts env (ct_base ct) tx (cs_view cs) (ct_flags ct) (ct_fJustCheck ct) new_txdata
        (cs_cache cs) (ct_control ct) = Inr (v, c', vc')"
      using ok by (auto simp: connect_scripts_def bindE_Inr_iff)
    have "cs_view cs' = c'" "cs_nFees cs' = cs_nFees cs" "cs_vtxundo cs' = cs_vtxundo cs"
      using ok False c by (auto simp: connect_scripts_def Let_def split: sum.splits)
    then show ?thesis using CheckInputScripts_same [OF inv B c] by simp
  qed
  then show "same_coins (ne_usage env) (ct_base ct) (cs_view cs) (cs_view cs')" "cs_nFees cs' = cs_nFees cs" "cs_vtxundo cs' = cs_vtxundo cs"
    by simp_all
qed

definition coins_ok :: "node_env \<Rightarrow> connect_ctx \<Rightarrow> connect_state \<Rightarrow> bool" where
  "coins_ok env ct cs \<longleftrightarrow> cache_inv (ne_usage env) (ct_base ct) (cs_view cs) \<and> finite (dom (cache_view (ct_base ct) (cs_view cs)))"

abbreviation view_coins :: "connect_ctx \<Rightarrow> connect_state \<Rightarrow> COutPoint \<Rightarrow> Coin option" where
  "view_coins ct cs \<equiv> cache_view (ct_base ct) (cs_view cs)"

text \<open>What a coinbase adds to the value of all coins and other transactions do not.\<close>

abbreviation minted :: "CTransaction \<Rightarrow> CAmount" where
  "minted tx \<equiv> (if IsCoinBase tx then values_of (tx_vout tx) else 0)"

lemma connect_tx_steps:
  assumes "connect_tx env ct i tx cs = Inr (None, cs')"
  obtains cs1 cost c2 n cs3 undo c4 where
    "if IsCoinBase tx then cs1 = cs else connect_inputs env ct tx cs = Inr (None, cs1)"
    "GetTransactionSigOpCost (ne_usage env) (ct_base ct) tx (cs_view cs1) (ct_flags ct) = Inr (cost, c2)"
    "connect_scripts env ct tx (cs1\<lparr>cs_view := c2, cs_nSigOpsCost := n\<rparr>) = Inr (None, cs3)"
    "UpdateCoins (ne_hash env) (ne_usage env) (ct_base ct) tx (cs_view cs3) [] (ct_nHeight ct) = Inr (undo, c4)"
    "cs' = cs3\<lparr>cs_view := c4, cs_vtxundo := (if i > 0 then cs_vtxundo cs3 @ [undo] else cs_vtxundo cs3)\<rparr>"
proof -
  let ?prep = "if \<not> IsCoinBase tx then connect_inputs env ct tx cs else Inr (None, cs)"
  have open_mode: "\<not> (cp_fRestrictedOutputMode (ne_params env) \<and> \<not> HasOnlyRestrictedOutputModeOutputs tx (ne_params env) (ct_nHeight ct))"
  proof
    assume "cp_fRestrictedOutputMode (ne_params env) \<and> \<not> HasOnlyRestrictedOutputModeOutputs tx (ne_params env) (ct_nHeight ct)"
    then show False using assms unfolding connect_tx_def by (simp only: if_True) simp
  qed
  note tx_def = assms [unfolded connect_tx_def if_not_P [OF open_mode]]
  obtain r1 cs1 where p: "?prep = Inr (r1, cs1)" using tx_def by (cases ?prep) auto
  then have cs1: "?prep = Inr (None, cs1)" using tx_def unfolding p by (cases r1) auto
  obtain cost c2 where c2: "GetTransactionSigOpCost (ne_usage env) (ct_base ct) tx (cs_view cs1) (ct_flags ct) = Inr (cost, c2)"
    using tx_def unfolding cs1 by (auto simp: bindE_Inr_iff)
  let ?cs2 = "cs1\<lparr>cs_view := c2, cs_nSigOpsCost := cs_nSigOpsCost cs1 + cost\<rparr>"
  have rest: "bindE (connect_scripts env ct tx ?cs2) (\<lambda>(r3, cs3). if r3 \<noteq> None then Inr (r3, cs3)
      else bindE (UpdateCoins (ne_hash env) (ne_usage env) (ct_base ct) tx (cs_view cs3) [] (ct_nHeight ct)) (\<lambda>(txundo, view4).
        Inr (None, cs3\<lparr>cs_view := view4, cs_vtxundo := (if i > 0 then cs_vtxundo cs3 @ [txundo] else cs_vtxundo cs3)\<rparr>))) = Inr (None, cs')"
    using tx_def unfolding cs1 by (simp add: c2 Let_def i64_def split: if_split_asm)
  obtain r3 cs3 where q: "connect_scripts env ct tx ?cs2 = Inr (r3, cs3)" using rest by (cases "connect_scripts env ct tx ?cs2") auto
  then have cs3: "connect_scripts env ct tx ?cs2 = Inr (None, cs3)" using rest by (cases r3) auto
  obtain undo c4 where u: "UpdateCoins (ne_hash env) (ne_usage env) (ct_base ct) tx (cs_view cs3) [] (ct_nHeight ct) = Inr (undo, c4)"
      "cs' = cs3\<lparr>cs_view := c4, cs_vtxundo := (if i > 0 then cs_vtxundo cs3 @ [undo] else cs_vtxundo cs3)\<rparr>"
    using rest unfolding cs3 by (auto simp: bindE_Inr_iff)
  show thesis using cs1 by (intro that [OF _ c2 cs3 u]) (auto split: if_splits)
qed

lemma connect_tx_effect:
  assumes cs: "coins_ok env ct cs" and B: "base_ok (ct_base ct)" and mu: "ne_usage env [] = 0" and tx: "tx_sane tx"
    and new: "\<forall>k. view_coins ct cs (outpoint (tx_GetHash (ne_hash env) tx) k) = None"
    and ok: "connect_tx env ct i tx cs = Inr (None, cs')"
  shows "coins_ok env ct cs'" "view_coins ct cs' = tx_effect (ne_hash env) (ct_nHeight ct) tx (view_coins ct cs)"
    "total_value (view_coins ct cs') + cs_nFees cs' \<le> total_value (view_coins ct cs) + cs_nFees cs + minted tx"
    "cc_hashBlock (cs_view cs') = cc_hashBlock (cs_view cs)" "tx_connectable (ne_hash env) tx (view_coins ct cs)"
    "cs_vtxundo cs' = (if i > 0 then cs_vtxundo cs @ [undo_of tx (view_coins ct cs)] else cs_vtxundo cs)"
proof -
  let ?same = "same_coins (ne_usage env) (ct_base ct)"
  have inv: "cache_inv (ne_usage env) (ct_base ct) (cs_view cs)" and fin: "finite (dom (view_coins ct cs))"
    using cs by (simp_all add: coins_ok_def)
  obtain cs1 cost c2 n cs3 undo c4 where
    s1: "if IsCoinBase tx then cs1 = cs else connect_inputs env ct tx cs = Inr (None, cs1)" and
    s2: "GetTransactionSigOpCost (ne_usage env) (ct_base ct) tx (cs_view cs1) (ct_flags ct) = Inr (cost, c2)" and
    s3: "connect_scripts env ct tx (cs1\<lparr>cs_view := c2, cs_nSigOpsCost := n\<rparr>) = Inr (None, cs3)" and
    s4: "UpdateCoins (ne_hash env) (ne_usage env) (ct_base ct) tx (cs_view cs3) [] (ct_nHeight ct) = Inr (undo, c4)"
      "cs' = cs3\<lparr>cs_view := c4, cs_vtxundo := (if i > 0 then cs_vtxundo cs3 @ [undo] else cs_vtxundo cs3)\<rparr>"
    by (rule connect_tx_steps [OF ok])
  obtain fee c1 where f: "\<not> IsCoinBase tx \<Longrightarrow> CheckTxInputs (ne_usage env) (ct_base ct) tx (cs_view cs) (ct_nHeight ct) = Inr (Inr fee, c1)"
      "?same (cs_view cs) (cs_view cs1)" "cs_nFees cs1 = cs_nFees cs + (if IsCoinBase tx then 0 else fee)" "cs_vtxundo cs1 = cs_vtxundo cs"
  proof (cases "IsCoinBase tx")
    case True
    then show thesis using that s1 inv by auto
  next
    case False
    then have ci: "connect_inputs env ct tx cs = Inr (None, cs1)" using s1 by simp
    show thesis by (rule connect_inputs_effect [OF inv B ci], rule that) (use False in simp_all)
  qed
  have c2: "?same (cs_view cs) c2"
    using same_coins_trans [OF f(2)] GetTransactionSigOpCost_same [OF same_coins_inv(1) [OF f(2)] B s2] by blast
  then have "?same c2 (cs_view cs3)" and fees: "cs_nFees cs3 = cs_nFees cs1" and u3: "cs_vtxundo cs3 = cs_vtxundo cs1"
    using connect_scripts_effect [OF _ B s3] same_coins_inv(1) [OF c2] by simp_all
  then have c3: "?same (cs_view cs) (cs_view cs3)" using same_coins_trans [OF c2] by blast
  have v3: "view_coins ct cs3 = view_coins ct cs" "cache_inv (ne_usage env) (ct_base ct) (cs_view cs3)" "cc_hashBlock (cs_view cs3) = cc_hashBlock (cs_view cs)"
    using c3 by (simp_all add: same_coins_def)
  have F: "finite (dom (view_coins ct cs3))" using fin v3(1) by simp
  have N: "\<forall>k. view_coins ct cs3 (outpoint (tx_GetHash (ne_hash env) tx) k) = None" using new v3(1) by simp
  obtain c' where A: "UpdateCoins (ne_hash env) (ne_usage env) (ct_base ct) tx (cs_view cs3) [] (ct_nHeight ct) = Inr (undo_of tx (view_coins ct cs3), c')"
      "cache_inv (ne_usage env) (ct_base ct) c'" "cache_view (ct_base ct) c' = tx_effect (ne_hash env) (ct_nHeight ct) tx (view_coins ct cs3)"
      "cc_hashBlock c' = cc_hashBlock (cs_view cs3)" "finite (dom (cache_view (ct_base ct) c'))"
      "total_value (cache_view (ct_base ct) c') \<le> total_value (view_coins ct cs3) + (if IsCoinBase tx then values_of (tx_vout tx) else - fee)"
      "tx_connectable (ne_hash env) tx (view_coins ct cs3)"
    by (rule accepted_tx_value [OF v3(2) B mu F tx f(1) c3 inv N])
  have c4: "c' = c4" "undo = undo_of tx (view_coins ct cs)" using A(1) s4(1) v3(1) by simp_all
  show "tx_connectable (ne_hash env) tx (view_coins ct cs)" using A(7) v3(1) by simp
  show "cs_vtxundo cs' = (if i > 0 then cs_vtxundo cs @ [undo_of tx (view_coins ct cs)] else cs_vtxundo cs)"
    using s4(2) c4(2) u3 f(4) by simp
  show "coins_ok env ct cs'" using A s4(2) c4 by (simp add: coins_ok_def)
  show "view_coins ct cs' = tx_effect (ne_hash env) (ct_nHeight ct) tx (view_coins ct cs)" using A(3) s4(2) c4 v3(1) by simp
  show "cc_hashBlock (cs_view cs') = cc_hashBlock (cs_view cs)" using A(4) s4(2) c4 v3(3) by simp
  show "total_value (view_coins ct cs') + cs_nFees cs' \<le> total_value (view_coins ct cs) + cs_nFees cs + minted tx"
    using A(6) s4(2) c4 v3(1) f(3) fees by (simp split: if_splits)
qed

subsection \<open>The whole block\<close>

text \<open>No transaction of the block repeats the identifier of another one, or of an unspent output.\<close>

definition fresh_txids :: "(bytes \<Rightarrow> uint256) \<Rightarrow> CTransaction list \<Rightarrow> (COutPoint \<Rightarrow> Coin option) \<Rightarrow> bool" where
  "fresh_txids H vtx V \<longleftrightarrow> distinct (map (tx_GetHash H) vtx) \<and> (\<forall>tx\<in>set vtx. \<forall>op\<in>dom V. op_hash op \<noteq> tx_GetHash H tx)"

lemma tx_effect_hashes:
  "op \<in> dom (tx_effect H h tx V) \<Longrightarrow> op \<in> dom V \<or> op_hash op = tx_GetHash H tx"
  by (auto simp: tx_effect_def map_add_def created_def Let_def restrict_map_def split: option.splits if_splits)

lemma fresh_txids_step:
  assumes "fresh_txids H (tx # vtx) V"
  shows "fresh_txids H vtx (tx_effect H h tx V)" "\<forall>k. V (outpoint (tx_GetHash H tx) k) = None"
proof -
  show "fresh_txids H vtx (tx_effect H h tx V)"
    unfolding fresh_txids_def
  proof (intro conjI ballI)
    show "distinct (map (tx_GetHash H) vtx)" using assms by (simp add: fresh_txids_def)
    fix t op assume t: "t \<in> set vtx" and op: "op \<in> dom (tx_effect H h tx V)"
    then consider "op \<in> dom V" | "op_hash op = tx_GetHash H tx" using tx_effect_hashes [OF op] by blast
    then show "op_hash op \<noteq> tx_GetHash H t" using assms t by cases (auto simp: fresh_txids_def)
  qed
  show "\<forall>k. V (outpoint (tx_GetHash H tx) k) = None"
    using assms by (auto simp: fresh_txids_def outpoint_def dom_def)
qed

lemma connect_txs_effect:
  assumes B: "base_ok (ct_base ct)" and mu: "ne_usage env [] = 0"
  shows "coins_ok env ct cs \<Longrightarrow> \<forall>tx\<in>set vtx. tx_sane tx \<Longrightarrow> fresh_txids (ne_hash env) vtx (view_coins ct cs) \<Longrightarrow>
    connect_txs env ct i vtx (None, cs) = Inr (None, cs') \<Longrightarrow>
    coins_ok env ct cs' \<and> view_coins ct cs' = fold (tx_effect (ne_hash env) (ct_nHeight ct)) vtx (view_coins ct cs) \<and>
    total_value (view_coins ct cs') + cs_nFees cs' \<le> total_value (view_coins ct cs) + cs_nFees cs + sum_list (map minted vtx) \<and>
    block_connectable (ne_hash env) (ct_nHeight ct) vtx (view_coins ct cs) \<and>
    cs_vtxundo cs' = cs_vtxundo cs @ (if i > 0 then undos (ne_hash env) (ct_nHeight ct) vtx (view_coins ct cs)
      else tl (undos (ne_hash env) (ct_nHeight ct) vtx (view_coins ct cs)))"
proof (induction vtx arbitrary: i cs)
  case (Cons tx vtx)
  obtain r cs1 where c: "connect_tx env ct i tx cs = Inr (r, cs1)" "connect_txs env ct (Suc i) vtx (r, cs1) = Inr (None, cs')"
    using Cons.prems(4) by (auto simp: bindE_Inr_iff)
  have r: "r = None" using c(2) by (cases vtx; cases r) auto
  have tx: "tx_sane tx" using Cons.prems(2) by simp
  note F = fresh_txids_step(1) [OF Cons.prems(3), of "ct_nHeight ct"] fresh_txids_step(2) [OF Cons.prems(3)]
  note E = connect_tx_effect [OF Cons.prems(1) B mu tx F(2) c(1) [unfolded r]]
  have fr: "fresh_txids (ne_hash env) vtx (view_coins ct cs1)" using F(1) E(2) by simp
  have IH: "coins_ok env ct cs' \<and> view_coins ct cs' = fold (tx_effect (ne_hash env) (ct_nHeight ct)) vtx (view_coins ct cs1) \<and>
      total_value (view_coins ct cs') + cs_nFees cs' \<le> total_value (view_coins ct cs1) + cs_nFees cs1 + sum_list (map minted vtx) \<and>
      block_connectable (ne_hash env) (ct_nHeight ct) vtx (view_coins ct cs1) \<and>
      cs_vtxundo cs' = cs_vtxundo cs1 @ (if Suc i > 0 then undos (ne_hash env) (ct_nHeight ct) vtx (view_coins ct cs1)
        else tl (undos (ne_hash env) (ct_nHeight ct) vtx (view_coins ct cs1)))"
    by (rule Cons.IH [OF E(1) _ fr c(2) [unfolded r]]) (use Cons.prems(2) in simp)
  show ?case using IH E by (auto simp: add.assoc undos_simps block_connectable_Cons)
qed (simp add: undos_simps block_connectable_def)

lemma sane_minted:
  assumes "block_sane block"
  shows "sum_list (map minted (blk_vtx block)) = values_of (tx_vout (blk_vtx block ! 0))" "tx_sane (blk_vtx block ! 0)"
proof -
  obtain cb vtx where b: "blk_vtx block = cb # vtx" "IsCoinBase cb" "\<forall>tx\<in>set vtx. \<not> IsCoinBase tx" "tx_sane cb"
    using assms by (auto simp: block_sane_def)
  have "sum_list (map minted vtx) = 0" using b(3) by (induction vtx) auto
  then show "sum_list (map minted (blk_vtx block)) = values_of (tx_vout (blk_vtx block ! 0))" "tx_sane (blk_vtx block ! 0)"
    using b by simp_all
qed

lemma connect_verdict_effect:
  assumes B: "base_ok (ct_base ct)" and mu: "ne_usage env [] = 0" and cs: "coins_ok env ct cs" "cs_nFees cs = 0"
    and sane: "block_sane block" and fresh: "fresh_txids (ne_hash env) (blk_vtx block) (view_coins ct cs)"
    and ok: "connect_verdict env ct pick block ov cs = Inr (None, cs')"
  obtains subsidy where "GetBlockSubsidy (ct_nHeight ct) (ne_params env) = Inr subsidy"
    "coins_ok env ct cs'" "view_coins ct cs' = fold (tx_effect (ne_hash env) (ct_nHeight ct)) (blk_vtx block) (view_coins ct cs)"
    "total_value (view_coins ct cs') \<le> total_value (view_coins ct cs) + subsidy"
    "values_of (tx_vout (blk_vtx block ! 0)) \<le> cs_nFees cs' + subsidy"
    "block_connectable (ne_hash env) (ct_nHeight ct) (blk_vtx block) (view_coins ct cs)"
    "cs_vtxundo cs' = cs_vtxundo cs @ tl (undos (ne_hash env) (ct_nHeight ct) (blk_vtx block) (view_coins ct cs))"
proof -
  let ?mu = "ne_usage env" and ?B = "ct_base ct"
  obtain f c1 where o: "(if ov then overwrites_outputs (ne_hash env) ?mu ?B (blk_vtx block) (cs_view cs) else (False, cs_view cs)) = (f, c1)"
    by (cases "if ov then overwrites_outputs (ne_hash env) ?mu ?B (blk_vtx block) (cs_view cs) else (False, cs_view cs)")
  have inv: "cache_inv ?mu ?B (cs_view cs)" using cs(1) by (simp add: coins_ok_def)
  have s: "same_coins ?mu ?B (cs_view cs) c1"
    using o inv overwrites_outputs_same [OF B inv, where f = False] by (auto simp: overwrites_outputs_def split: if_splits)
  let ?cs1 = "cs\<lparr>cs_view := c1\<rparr>"
  obtain r cs1 where t: "connect_txs env ct 0 (blk_vtx block) (if f then Some (BLOCK_CONSENSUS, ''bad-txns-BIP30'') else None, ?cs1) = Inr (r, cs1)"
    using ok by (auto simp: connect_verdict_def o bindE_Inr_iff)
  obtain subsidy reward paid fl where g: "GetBlockSubsidy (ct_nHeight ct) (ne_params env) = Inr subsidy" "reward = cs_nFees cs1 + subsidy"
      "GetValueOut (blk_vtx block ! 0) = Inr paid" "(if ct_control ct then failures (cs_checks cs1) else Inr []) = Inr fl"
    using ok by (auto simp: connect_verdict_def o t bindE_Inr_iff Let_def)
  have v: "r = None" "paid \<le> reward" "cs' = cs1"
    using ok g by (auto simp: connect_verdict_def o t bindE_Inr_iff Let_def split: if_splits)
  have f: "\<not> f" using t v(1) by (cases "blk_vtx block"; cases f) (use sane in \<open>auto simp: block_sane_def\<close>)
  have c1: "coins_ok env ct ?cs1" "view_coins ct ?cs1 = view_coins ct cs" "cc_hashBlock c1 = cc_hashBlock (cs_view cs)"
    using cs(1) s by (simp_all add: coins_ok_def same_coins_def)
  have E: "coins_ok env ct cs' \<and> view_coins ct cs' = fold (tx_effect (ne_hash env) (ct_nHeight ct)) (blk_vtx block) (view_coins ct ?cs1) \<and>
      total_value (view_coins ct cs') + cs_nFees cs' \<le> total_value (view_coins ct ?cs1) + cs_nFees ?cs1 + sum_list (map minted (blk_vtx block)) \<and>
      block_connectable (ne_hash env) (ct_nHeight ct) (blk_vtx block) (view_coins ct ?cs1) \<and>
      cs_vtxundo cs' = cs_vtxundo ?cs1 @ (if (0::nat) > 0 then undos (ne_hash env) (ct_nHeight ct) (blk_vtx block) (view_coins ct ?cs1)
        else tl (undos (ne_hash env) (ct_nHeight ct) (blk_vtx block) (view_coins ct ?cs1)))"
  proof (rule connect_txs_effect [OF B mu c1(1)])
    show "\<forall>tx\<in>set (blk_vtx block). tx_sane tx" using sane by (simp add: block_sane_def)
    show "fresh_txids (ne_hash env) (blk_vtx block) (view_coins ct ?cs1)" using fresh unfolding c1(2) .
    show "connect_txs env ct 0 (blk_vtx block) (None, ?cs1) = Inr (None, cs')" using t f v by simp
  qed
  have p: "paid = values_of (tx_vout (blk_vtx block ! 0))" using g(3) GetValueOut_sane(1) [OF sane_minted(2) [OF sane]] by simp
  have le: "values_of (tx_vout (blk_vtx block ! 0)) \<le> cs_nFees cs' + subsidy" using v p g(2) by simp
  have "total_value (view_coins ct cs') + cs_nFees cs' \<le> total_value (view_coins ct cs) + values_of (tx_vout (blk_vtx block ! 0))"
    using E [THEN conjunct2, THEN conjunct2, THEN conjunct1] cs(2) unfolding c1(2) sane_minted(1) [OF sane] by simp
  then have tot: "total_value (view_coins ct cs') \<le> total_value (view_coins ct cs) + subsidy" using le by linarith
  show thesis by (rule that [OF g(1) _ _ tot le]) (use E c1(1,3) in \<open>simp_all add: c1(2) [simplified]\<close>)
qed

lemma connect_done_simps [simp]:
  "cr_outcome (connect_done out view memo bm undo vc) = out" "cr_view (connect_done out view memo bm undo vc) = view"
  "cr_memo (connect_done out view memo bm undo vc) = memo" "cr_blockundo (connect_done out view memo bm undo vc) = undo"
  by (simp_all add: connect_done_def)

lemma SetBestBlock_coins [simp]:
  "cache_inv mu B (SetBestBlock h c) \<longleftrightarrow> cache_inv mu B c" "cache_view B (SetBestBlock h c) = cache_view B c"
  by (simp_all add: SetBestBlock_def cache_inv_def linked_def accounted_def cache_view_def fun_eq_iff)

lemma GetBestBlock_coins:
  assumes "GetBestBlock best c = (h, c')"
  shows "cache_inv mu B c' \<longleftrightarrow> cache_inv mu B c" "cache_view B c' = cache_view B c"
  using assms by (auto simp: GetBestBlock_def Let_def cache_inv_def linked_def accounted_def cache_view_def fun_eq_iff split: if_splits)

lemma connect_transactions_verdict:
  assumes "connect_transactions env chainman B threads pick st block pindex b wu just vc view = Inr (None, cs)"
  obtains ct cs0 ov where "connect_verdict env ct pick block ov cs0 = Inr (None, cs)" "ct_base ct = B" "ct_nHeight ct = bi_nHeight b"
    "cs_view cs0 = view" "cs_nFees cs0 = 0" "cs_vtxundo cs0 = []"
  using assms unfolding connect_transactions_def
  by (auto simp: bindE_Inr_iff intro: that [of "\<lparr>ct_base = B, ct_index = _, ct_pindex = _, ct_nHeight = _, ct_flags = _,
    ct_nLockTimeFlags = _, ct_fScriptChecks = _, ct_fJustCheck = _, ct_control = _\<rparr>"
    _ "\<lparr>cs_view = view, cs_nFees = 0, cs_nSigOpsCost = _, cs_vtxundo = [], cs_checks = _, cs_cache = _\<rparr>", simplified])

lemma connect_rest_connected:
  assumes "connect_rest env chainman B threads pick undo_error bm vc block memo pindex b prev view just = Inr r" "cr_outcome r = Connected"
  obtains wu cs where "connect_transactions env chainman B threads pick (bm_block_index bm) block pindex b wu just vc view = Inr (None, cs)"
    "cr_memo r = memo" "cr_blockundo r = cs_vtxundo cs" "just \<longrightarrow> cr_view r = cs_view cs"
    "\<not> just \<longrightarrow> (\<exists>h. bi_phashBlock b = Some h \<and> cr_view r = SetBestBlock h (cs_view cs))"
proof -
  obtain segwit where s: "DeploymentActiveAfter prev (ne_params env) DEPLOYMENT_SEGWIT = Inr segwit"
    using assms(1) by (auto simp: connect_rest_def bindE_Inr_iff)
  let ?miss = "segwit \<and> GetWitnessCommitmentIndex block \<noteq> NO_WITNESS_COMMITMENT \<and> \<not> HasAnyWitnessData block"
  let ?wu = "?miss \<or> bi_nStatus b AND BLOCK_OPT_WITNESS_PRUNED \<noteq> 0 \<and> \<not> HasAnyWitnessData block"
  note R = assms(1) [unfolded connect_rest_def s Let_def bindE_simps(2)]
  obtain w where w: "(if ?miss then Inr (Inr ()) else CheckBlockWeight block) = Inr w"
    using R by (cases "if ?miss then Inr (Inr ()) else CheckBlockWeight block") auto
  have w': "w = Inr ()" using R assms(2) unfolding w by (cases w) auto
  let ?t = "connect_transactions env chainman B threads pick (bm_block_index bm) block pindex b ?wu just vc view"
  obtain state cs where t: "?t = Inr (state, cs)" using R unfolding w w' by (cases ?t) auto
  have st: "state = None" using R assms(2) unfolding w w' t by (cases state) auto
  have "cr_memo r = memo \<and> cr_blockundo r = cs_vtxundo cs \<and> (just \<longrightarrow> cr_view r = cs_view cs) \<and>
      (\<not> just \<longrightarrow> (\<exists>h. bi_phashBlock b = Some h \<and> cr_view r = SetBestBlock h (cs_view cs)))"
    using R assms(2) unfolding w w' t st
    by (auto simp: bindE_Inr_iff bi_GetBlockHash_def split: if_splits)
  then show thesis using that [OF t [unfolded st]] by blast
qed

lemma ConnectBlock_connected:
  assumes "ConnectBlock env chainman B base_best threads pick undo_error bm vc block memo pindex view just = Inr r"
    "cr_outcome r = Connected" "header_GetHash (ne_hash env) block \<noteq> cp_hashGenesisBlock (ne_params env)"
  obtains b memo1 best view1 prev where "bm_block_index bm pindex = Some b" "bi_phashBlock b = Some (header_GetHash (ne_hash env) block)"
    "CheckBlock env block memo (\<not> just) (\<not> just) = Inr (Inr (), memo1)" "GetBestBlock base_best view = (best, view1)"
    "connect_rest env chainman B threads pick undo_error bm vc block memo1 pindex b prev view1 just = Inr r"
proof -
  obtain b where b: "bm_block_index bm pindex = Some b" using assms(1) by (cases "bm_block_index bm pindex") (auto simp: ConnectBlock_def)
  have h: "bi_phashBlock b = Some (header_GetHash (ne_hash env) block)"
    using assms(1) b by (auto simp: ConnectBlock_def bindE_Inr_iff)
  note R = assms(1) [unfolded ConnectBlock_def b deref_simps bindE_simps(2) cxx_assert_True [OF h]]
  obtain v memo1 where c: "CheckBlock env block memo (\<not> just) (\<not> just) = Inr (v, memo1)"
    using R by (cases "CheckBlock env block memo (\<not> just) (\<not> just)") auto
  have v: "v = Inr ()" using R assms(2) unfolding c by (cases v) (auto split: if_splits)
  let ?p = "case bi_pprev b of None \<Rightarrow> Inr (uint256_null, None)
    | Some q \<Rightarrow> bindE (deref (bm_block_index bm q)) (\<lambda>p. bindE (bi_GetBlockHash p) (\<lambda>h. Inr (h, Some p)))"
  obtain hash prev where p: "?p = Inr (hash, prev)" using R unfolding c v by (cases ?p) auto
  obtain best view1 where g: "GetBestBlock base_best view = (best, view1)" by force
  have "connect_rest env chainman B threads pick undo_error bm vc block memo1 pindex b prev view1 just = Inr r"
    using R assms(3) unfolding c v by (simp add: p g bindE_Inr_iff)
  then show thesis using that b h c v g by blast
qed

lemma ConnectBlock_effect:
  assumes B: "base_ok B" and mu: "ne_usage env [] = 0" and inv: "cache_inv (ne_usage env) B view" and fin: "finite (dom (cache_view B view))"
    and memo: "memo_ok block memo" and fresh: "fresh_txids (ne_hash env) (blk_vtx block) (cache_view B view)"
    and ok: "ConnectBlock env chainman B base_best threads pick undo_error bm vc block memo pindex view just = Inr r" "cr_outcome r = Connected"
    and ng: "header_GetHash (ne_hash env) block \<noteq> cp_hashGenesisBlock (ne_params env)"
  obtains b subsidy where "bm_block_index bm pindex = Some b" "GetBlockSubsidy (bi_nHeight b) (ne_params env) = Inr subsidy"
    "cache_inv (ne_usage env) B (cr_view r)" "finite (dom (cache_view B (cr_view r)))"
    "cache_view B (cr_view r) = fold (tx_effect (ne_hash env) (bi_nHeight b)) (blk_vtx block) (cache_view B view)"
    "total_value (cache_view B (cr_view r)) \<le> total_value (cache_view B view) + subsidy" "block_sane block"
    "block_connectable (ne_hash env) (bi_nHeight b) (blk_vtx block) (cache_view B view)"
    "cr_blockundo r = tl (undos (ne_hash env) (bi_nHeight b) (blk_vtx block) (cache_view B view))"
proof -
  obtain b memo1 best view1 prev where s: "bm_block_index bm pindex = Some b" "CheckBlock env block memo (\<not> just) (\<not> just) = Inr (Inr (), memo1)"
      "GetBestBlock base_best view = (best, view1)"
      "connect_rest env chainman B threads pick undo_error bm vc block memo1 pindex b prev view1 just = Inr r"
    by (rule ConnectBlock_connected [OF ok ng])
  note g = GetBestBlock_coins [OF s(3)]
  have sane: "block_sane block" by (rule CheckBlock_sane(1) [OF s(2) memo])
  obtain wu cs where t: "connect_transactions env chainman B threads pick (bm_block_index bm) block pindex b wu just vc view1 = Inr (None, cs)"
      "cr_blockundo r = cs_vtxundo cs" "just \<longrightarrow> cr_view r = cs_view cs" "\<not> just \<longrightarrow> (\<exists>h. bi_phashBlock b = Some h \<and> cr_view r = SetBestBlock h (cs_view cs))"
    by (rule connect_rest_connected [OF s(4) ok(2)])
  obtain ct cs0 ov where c: "connect_verdict env ct pick block ov cs0 = Inr (None, cs)" "ct_base ct = B" "ct_nHeight ct = bi_nHeight b"
      "cs_view cs0 = view1" "cs_nFees cs0 = 0" "cs_vtxundo cs0 = []"
    by (rule connect_transactions_verdict [OF t(1)])
  have B': "base_ok (ct_base ct)" and ok0: "coins_ok env ct cs0" and fr: "fresh_txids (ne_hash env) (blk_vtx block) (view_coins ct cs0)"
    using B inv fin fresh c g by (simp_all add: coins_ok_def)
  obtain subsidy where e: "GetBlockSubsidy (ct_nHeight ct) (ne_params env) = Inr subsidy" "coins_ok env ct cs"
      "view_coins ct cs = fold (tx_effect (ne_hash env) (ct_nHeight ct)) (blk_vtx block) (view_coins ct cs0)"
      "total_value (view_coins ct cs) \<le> total_value (view_coins ct cs0) + subsidy"
      "block_connectable (ne_hash env) (ct_nHeight ct) (blk_vtx block) (view_coins ct cs0)"
      "cs_vtxundo cs = cs_vtxundo cs0 @ tl (undos (ne_hash env) (ct_nHeight ct) (blk_vtx block) (view_coins ct cs0))"
    by (rule connect_verdict_effect [OF B' mu ok0 c(5) sane fr c(1)])
  have V: "cache_view B (cr_view r) = cache_view B (cs_view cs)" "cache_inv (ne_usage env) B (cr_view r) \<longleftrightarrow> cache_inv (ne_usage env) B (cs_view cs)"
    using t(3,4) by (cases just; auto)+
  show thesis
    by (rule that [OF s(1) _ _ _ _ _ sane, of subsidy]) (use e c g V t(2) in \<open>simp_all add: coins_ok_def\<close>)
qed

subsection \<open>Chains of blocks\<close>

text \<open>
  The sets of coins a node goes through: it starts with none, connects a block on top of the others, or
  disconnects the last one again with the undo data of its connection. A block in the list comes with
  its index entry, its undo data and the coins before it. That no two blocks share a transaction
  identifier is what the height in each coinbase is for.
\<close>

type_synonym connected_block = "CBlock \<times> CBlockIndex \<times> CBlockUndo \<times> (COutPoint \<Rightarrow> Coin option)"

definition txids :: "(bytes \<Rightarrow> uint256) \<Rightarrow> CBlock \<Rightarrow> uint256 list" where
  "txids H block = map (tx_GetHash H) (blk_vtx block)"

definition chain_txids :: "(bytes \<Rightarrow> uint256) \<Rightarrow> connected_block list \<Rightarrow> uint256 list" where
  "chain_txids H past = concat (map (\<lambda>(block, _). txids H block) past)"

inductive chain_state :: "node_env \<Rightarrow> connected_block list \<Rightarrow> (COutPoint \<Rightarrow> Coin option) \<Rightarrow> bool" for env where
  start: "chain_state env [] Map.empty"
| connect: "chain_state env past V \<Longrightarrow> base_ok B \<Longrightarrow> cache_inv (ne_usage env) B view \<Longrightarrow> cache_view B view = V \<Longrightarrow> memo_ok block memo \<Longrightarrow>
    ConnectBlock env chainman B base_best threads pick undo_error bm vc block memo pindex view False = Inr r \<Longrightarrow> cr_outcome r = Connected \<Longrightarrow>
    header_GetHash (ne_hash env) block \<noteq> cp_hashGenesisBlock (ne_params env) \<Longrightarrow>
    bm_block_index bm pindex = Some b \<Longrightarrow> bi_nHeight b = int (length past) + 1 \<Longrightarrow> i32_range (bi_nHeight b) \<Longrightarrow>
    distinct (txids (ne_hash env) block @ chain_txids (ne_hash env) past) \<Longrightarrow>
    chain_state env ((block, b, cr_blockundo r, V) # past) (cache_view B (cr_view r))"
| disconnect: "chain_state env ((block, b, undo, V0) # past) V \<Longrightarrow> base_ok B \<Longrightarrow> cache_inv (ne_usage env) B view \<Longrightarrow> cache_view B view = V \<Longrightarrow>
    DisconnectBlock (ne_hash env) (ne_usage env) B st (Some undo) (blk_vtx block) b view = Inr (res, view') \<Longrightarrow>
    chain_state env past (cache_view B view')"

lemma DisconnectBlock_restores:
  assumes inv: "cache_inv mu B c" and B: "base_ok B" and mu: "mu [] = 0" and h: "0 < bi_nHeight b" "bi_nHeight b < 2 ^ 31"
    and V: "good_view V" and con: "block_connectable H (bi_nHeight b) txs V"
    and cb: "txs \<noteq> []" "\<And>i. i < length txs \<Longrightarrow> IsCoinBase (txs ! i) \<longleftrightarrow> i = 0"
    and v: "cache_view B c = effects H (bi_nHeight b) txs V"
    and d: "DisconnectBlock H mu B st (Some (tl (undos H (bi_nHeight b) txs V))) txs b c = Inr (res, c')"
  shows "res = DISCONNECT_OK \<and> cache_inv mu B c' \<and> cache_view B c' = V"
proof -
  let ?hash = "if bi_nHeight b = 91722 \<or> bi_nHeight b = 91812 then bi_GetBlockHash b else Inr uint256_null"
  obtain hash where hash: "?hash = Inr hash"
    using d length_undos [OF cb(1), of H "bi_nHeight b" V] by (cases ?hash) (auto simp: DisconnectBlock_def)
  have v': "cache_view B c = effects H (bi_nHeight b) (take (length txs) txs) V" using v by simp
  obtain c1 where c1: "disconnect_txs H mu B (bi_nHeight b) (EnforceBIP30 (bi_nHeight b) hash) (tl (undos H (bi_nHeight b) txs V)) txs (length txs)
      (True, c) = Inr (Some True, c1)" "cache_inv mu B c1" "cache_view B c1 = V"
    using disconnect_txs_ok [OF B mu h V con cb(2) inv order.refl v'] by blast
  have "res = DISCONNECT_OK \<and> (\<exists>hp. c' = SetBestBlock hp c1)"
    using d length_undos [OF cb(1), of H "bi_nHeight b" V] unfolding DisconnectBlock_def option.case hash
    by (auto simp: c1(1) bindE_Inr_iff)
  then show ?thesis using c1 by auto
qed

text \<open>What holds of every such state, for the blocks below the tip as well.\<close>

fun history_ok :: "node_env \<Rightarrow> connected_block list \<Rightarrow> (COutPoint \<Rightarrow> Coin option) \<Rightarrow> bool" where
  "history_ok env [] V \<longleftrightarrow> V = Map.empty"
| "history_ok env ((block, b, undo, V0) # past) V \<longleftrightarrow> history_ok env past V0 \<and>
    V = effects (ne_hash env) (bi_nHeight b) (blk_vtx block) V0 \<and> undo = tl (undos (ne_hash env) (bi_nHeight b) (blk_vtx block) V0) \<and>
    block_connectable (ne_hash env) (bi_nHeight b) (blk_vtx block) V0 \<and> block_sane block \<and>
    bi_nHeight b = int (length past) + 1 \<and> bi_nHeight b < 2 ^ 31 \<and> finite (dom V) \<and>
    total_value V \<le> total_value V0 + block_subsidy (ne_params env) (length past + 1)"

lemma history_good: "history_ok env past V \<Longrightarrow> good_view V"
proof (induction env past V rule: history_ok.induct)
  case (2 env block b undo V0 past V)
  then have p: "good_view V0" "block_connectable (ne_hash env) (bi_nHeight b) (blk_vtx block) V0" "0 < bi_nHeight b" "bi_nHeight b < 2 ^ 31"
      "V = effects (ne_hash env) (bi_nHeight b) (blk_vtx block) V0" by auto
  show ?case using good_view_effects [OF p(1-4) order.refl] p(5) by simp
qed (simp add: good_view_def)

lemma effects_hashes: "op \<in> dom (effects H h txs V) \<Longrightarrow> op \<in> dom V \<or> op_hash op \<in> set (map (tx_GetHash H) txs)"
proof (induction txs arbitrary: V)
  case (Cons tx txs)
  then show ?case using tx_effect_hashes [of op H h tx V] by fastforce
qed simp

lemma history_hashes: "history_ok env past V \<Longrightarrow> op \<in> dom V \<Longrightarrow> op_hash op \<in> set (chain_txids (ne_hash env) past)"
proof (induction env past V rule: history_ok.induct)
  case (2 env block b undo V0 past V)
  then show ?case using effects_hashes [of op "ne_hash env" "bi_nHeight b" "blk_vtx block" V0]
    by (auto simp: chain_txids_def txids_def)
qed simp

lemma history_finite: "history_ok env past V \<Longrightarrow> finite (dom V)"
  by (cases past) auto

lemma history_value: "history_ok env past V \<Longrightarrow> total_value V \<le> (\<Sum>h=1..length past. block_subsidy (ne_params env) h)"
proof (induction env past V rule: history_ok.induct)
  case (2 env block b undo V0 past V)
  then have "total_value V \<le> total_value V0 + block_subsidy (ne_params env) (length past + 1)"
      "total_value V0 \<le> (\<Sum>h=1..length past. block_subsidy (ne_params env) h)" by auto
  then have "total_value V \<le> (\<Sum>h=1..length past. block_subsidy (ne_params env) h) + block_subsidy (ne_params env) (length past + 1)" by linarith
  then show ?case by simp
qed simp

lemma sane_coinbase_first:
  assumes "block_sane block" "i < length (blk_vtx block)"
  shows "IsCoinBase (blk_vtx block ! i) \<longleftrightarrow> i = 0" "blk_vtx block \<noteq> []"
  using assms by (cases i; auto simp: block_sane_def)+

lemma chain_state_history:
  assumes mu: "ne_usage env [] = 0"
  shows "chain_state env past V \<Longrightarrow> history_ok env past V"
proof (induction rule: chain_state.induct)
  case (connect past V B view block memo chainman base_best threads pick undo_error bm vc pindex r b)
  have fin: "finite (dom (cache_view B view))" using history_finite connect by blast
  have fresh: "fresh_txids (ne_hash env) (blk_vtx block) (cache_view B view)"
    using connect history_hashes [of env past V] by (fastforce simp: fresh_txids_def txids_def)
  obtain b' subsidy where e: "bm_block_index bm pindex = Some b'" "GetBlockSubsidy (bi_nHeight b') (ne_params env) = Inr subsidy"
    "finite (dom (cache_view B (cr_view r)))"
    "cache_view B (cr_view r) = fold (tx_effect (ne_hash env) (bi_nHeight b')) (blk_vtx block) (cache_view B view)"
    "total_value (cache_view B (cr_view r)) \<le> total_value (cache_view B view) + subsidy" "block_sane block"
    "block_connectable (ne_hash env) (bi_nHeight b') (blk_vtx block) (cache_view B view)"
    "cr_blockundo r = tl (undos (ne_hash env) (bi_nHeight b') (blk_vtx block) (cache_view B view))"
    by (rule ConnectBlock_effect [OF connect(2) mu connect(3) fin connect(5) fresh connect(6,7,8)])
  have h: "bi_nHeight b = int (length past + 1)" using connect.hyps by simp
  then have s: "block_subsidy (ne_params env) (length past + 1) = subsidy" using e(1,2) connect.hyps by (simp add: block_subsidy_def add.commute)
  show ?case using e s connect by (simp add: effects_def i32_range_def)
next
  case (disconnect block b undo V0 past V B view st res view')
  note H = disconnect.IH [unfolded history_ok.simps]
  have g: "good_view V0" using H history_good by blast
  have ne: "blk_vtx block \<noteq> []" using H by (auto simp: block_sane_def)
  have "cache_view B view' = V0"
    using DisconnectBlock_restores [OF disconnect(3,2) mu _ _ g _ ne, of b "ne_hash env" st res view'] H disconnect sane_coinbase_first
    by auto
  then show ?case using H by simp
qed simp

end
