(* ===== verification/Samples.thy ===== *)
theory Samples
  imports Rpc_Docs Genesis Auxpow Coins_Session Block_Connect
begin

text \<open>
  Concrete inputs: a block index with one block, a transaction, a block, a merged-mining proof, a P2MR output
  with its spend, a coin cache over a database, the first block after the genesis block of the main network and a
  reference page with two switches, each with the facts that show it meets the hypotheses of the properties it
  is used for.
\<close>

text \<open>The index that holds one block only, as it is after start-up.\<close>

lemma single_block_index:
  fixes g :: CBlockHeader
  assumes "hdr_hashPrevBlock g \<noteq> header_GetHash H g"
  obtains bm work where "reachable_index H bm" "length work = 8"
    "bm_block_index bm = [header_GetHash H g \<mapsto> linked_entry Map.empty (header_GetHash H g) g work]"
proof -
  let ?e = "\<lparr>bm_block_index = Map.empty, bm_best_header = None, bm_dirty_blockindex = []\<rparr>"
  have r: "reachable_index H ?e" by (rule reachable_index.start)
  obtain work bm where a: "AddToBlockIndex H g ?e = Inr (header_GetHash H g, bm)" "length work = 8"
    "bm_block_index bm = [header_GetHash H g \<mapsto> linked_entry Map.empty (header_GetHash H g) g work]"
    using AddToBlockIndex_new [of ?e H g] reachable_index_wf [OF r] assms by auto
  have "reachable_index H bm" using reachable_index.add [OF r _ _ a(1)] assms by simp
  then show thesis using a that by blast
qed

definition sample_genesis :: CBlockHeader where
  "sample_genesis = \<lparr>hdr_nVersion = 0x20000000, hdr_hashPrevBlock = uint256_null,
     hdr_hashMerkleRoot = uint256_null, hdr_nTime = 1784131083, hdr_nBits = 0x18109c29, hdr_nNonce = 7,
     hdr_auxpow = None\<rparr>"

definition sample_hash :: "bytes \<Rightarrow> uint256" where
  "sample_hash _ = replicate 32 1"

lemma sample_index:
  obtains bm b where "reachable_index sample_hash bm" "bm_block_index bm = [replicate 32 1 \<mapsto> b]"
    "bi_nHeight b = 0" "bi_nAuxPow b = 0" "bi_nBits b = 0x18109c29" "bi_nTime b = 1784131083" "bi_nVersion b = 0x20000000"
proof -
  have h: "header_GetHash sample_hash sample_genesis = replicate 32 1"
    by (simp add: header_GetHash_def sample_hash_def)
  have p: "hdr_hashPrevBlock sample_genesis = replicate 32 0" by (simp add: sample_genesis_def uint256_null_def)
  have ne: "hdr_hashPrevBlock sample_genesis \<noteq> header_GetHash sample_hash sample_genesis"
    unfolding h p by (simp add: replicate_eq_replicate)
  have s: "\<not> SignalsAuxpow sample_genesis"
    by (simp add: SignalsAuxpow_def sample_genesis_def IsAuxpowVersion_def block_version_masks)
  obtain bm work where "reachable_index sample_hash bm"
      "bm_block_index bm = [replicate 32 1 \<mapsto> linked_entry Map.empty (replicate 32 1) sample_genesis work]"
    by (rule single_block_index [OF ne]) (simp add: h)
  then show thesis using linked_entry_root [OF _ s, of Map.empty] that
    by (fastforce simp: linked_entry_def accumulate_def new_CBlockIndex_def Let_def sample_genesis_def)
qed

lemma start_index:
  assumes "(params, genesis) \<in> networks sample_hash"
  obtains bm work where "network_index sample_hash genesis bm"
    "bm_block_index bm = [replicate 32 1 \<mapsto> linked_entry Map.empty (replicate 32 1) genesis work]"
proof -
  let ?e = "\<lparr>bm_block_index = Map.empty, bm_best_header = None, bm_dirty_blockindex = []\<rparr>"
  have h: "header_GetHash sample_hash genesis = replicate 32 1" by (simp add: header_GetHash_def sample_hash_def)
  have ne: "hdr_hashPrevBlock genesis \<noteq> header_GetHash sample_hash genesis"
    using genesis_prev_null [OF assms] unfolding h by (simp add: uint256_null_def replicate_eq_replicate)
  have "wf_manager ?e" by (simp add: wf_manager_def wf_index_def)
  then obtain work bm where "AddToBlockIndex sample_hash genesis ?e = Inr (replicate 32 1, bm)"
      "bm_block_index bm = [replicate 32 1 \<mapsto> linked_entry Map.empty (replicate 32 1) genesis work]"
    using AddToBlockIndex_new [of ?e sample_hash genesis] ne h by auto
  then show thesis using that network_index.load [OF ne] by blast
qed

definition sample_regtest :: RegTestOptions where
  "sample_regtest = \<lparr>rt_version_bits_parameters = [], rt_activation_heights = [], rt_p2mr_activation_height = None,
     rt_p2mr_validation_weight_v2_height = None, rt_future_block_time_v2_height = None,
     rt_outer_witness_activation_height = None, rt_cadence_activation_height = Some 1000,
     rt_auxpow_display_commitment_height = None, rt_enforce_bip94 = False, rt_legacy_retarget = False,
     rt_asert = True, rt_restricted_output_mode = True\<rparr>"

definition sample_sha :: "bytes \<Rightarrow> bytes" where
  "sample_sha x = of_nat (length x) # replicate 31 7"

definition sample_crypto :: checker_crypto where
  "sample_crypto = \<lparr>cc_sha256 = sample_sha, VerifyECDSASignature = (\<lambda>key hash sig. sig = hash),
     VerifySchnorrSignature = (\<lambda>key hash sig. take 32 sig = hash), VerifyPQCSignature = (\<lambda>key hash sig. take 32 sig = hash)\<rparr>"

definition sample_tree :: script_tree where
  "sample_tree = Branch (Leaf 0xc0 [OP_1]) (Leaf 0xc0 [OP_RETURN])"

definition p2mr_output :: CTxOut where
  "p2mr_output = \<lparr>txout_nValue = 5000, txout_scriptPubKey = [0x52, 0x20] @ tree_root sample_sha sample_tree\<rparr>"

definition p2mr_witness :: "valtype list" where
  "p2mr_witness = [[OP_1], control_block 0xc0 [ComputeP2MRLeafHash sample_sha 0xc0 [OP_RETURN]]]"

definition p2mr_spend :: CTransaction where
  "p2mr_spend = \<lparr>tx_vin = [\<lparr>txin_prevout = \<lparr>op_hash = replicate 32 9, op_n = 0\<rparr>, txin_scriptSig = [],
      txin_nSequence = 5, txin_witness = p2mr_witness\<rparr>],
    tx_vout = [\<lparr>txout_nValue = 4000, txout_scriptPubKey = [OP_1]\<rparr>], tx_version = 2, tx_nLockTime = 0\<rparr>"

definition consensus_flags :: u32 where
  "consensus_flags = SCRIPT_VERIFY_P2SH OR SCRIPT_VERIFY_WITNESS OR SCRIPT_VERIFY_P2MR_RULES"

definition sample_ctx :: script_ctx where
  "sample_ctx = \<lparr>sc_flags = consensus_flags, sc_sigversion = BASE,
     sc_checker = TransactionSignatureChecker sample_crypto (input_checker p2mr_output p2mr_spend 0 new_txdata),
     sc_ripemd160 = (\<lambda>x. replicate 20 3), sc_sha1 = (\<lambda>x. replicate 20 4), sc_sha256 = sample_sha, sc_CheckLowS = (\<lambda>_. True),
     sc_pqc_verify = (\<lambda>key hash sig. take 32 sig = hash), sc_CheckTapTweak = (\<lambda>q p root parity. False)\<rparr>"

lemma sample_ctx_hashes: "hashes_sized sample_ctx"
  by (simp add: hashes_sized_def sample_ctx_def sample_sha_def)

lemma sample_flags: "flags_consistent consensus_flags" "consensus_flags AND (consensus_flags OR SCRIPT_VERIFY_CLEANSTACK) = consensus_flags"
  by (simp_all add: flags_consistent_def has_flag_def consensus_flags_def flag_defs SCRIPT_VERIFY_P2SH_def SCRIPT_VERIFY_WITNESS_def)

lemma sample_spend: "VerifyScript (sample_ctx\<lparr>sc_flags := consensus_flags OR SCRIPT_VERIFY_CLEANSTACK\<rparr>) []
    (txout_scriptPubKey p2mr_output) p2mr_witness = Inr ()"
  by code_simp

definition sample_coin :: Coin where
  "sample_coin = \<lparr>coin_out = \<lparr>txout_nValue = 50, txout_scriptPubKey = [OP_1]\<rparr>, coin_fCoinBase = False, coin_nHeight = 3\<rparr>"

definition sample_point :: COutPoint where
  "sample_point = \<lparr>op_hash = replicate 32 8, op_n = 0\<rparr>"

definition sample_db :: CCoinsViewDB where
  "sample_db = \<lparr>db_coins = [sample_point \<mapsto> sample_coin], db_best_block = Some (replicate 32 2), db_head_blocks = None\<rparr>"

definition sample_cache :: CCoinsViewCache where
  "sample_cache = new_CCoinsViewCache\<lparr>cc_hashBlock := replicate 32 2\<rparr>"

lemma sample_coin_good: "\<not> Coin_IsSpent sample_coin" "\<not> IsUnspendable (txout_scriptPubKey (coin_out sample_coin))"
  by (simp_all add: sample_coin_def Coin_IsSpent_def CTxOut_IsNull_def IsUnspendable_def OP_1_def OP_RETURN_def MAX_SCRIPT_SIZE_def)

lemma sample_cache_ok: "cache_inv (\<lambda>s. 0) B sample_cache" "cache_view B sample_cache = B"
  using new_cache_ok(1) [of "\<lambda>s. 0" B] new_cache_ok(2) [of B]
  by (simp_all add: sample_cache_def cache_inv_def linked_def accounted_def cache_view_def fun_eq_iff)

lemma sample_represents:
  "represents (\<lambda>s. 0) (sample_cache, sample_db) \<lparr>cs_coins = [sample_point \<mapsto> sample_coin], cs_tip = replicate 32 2\<rparr>"
proof -
  have g: "db_GetCoin sample_db = [sample_point \<mapsto> sample_coin]" by (simp add: sample_db_def db_GetCoin_def fun_eq_iff)
  have "GetHeadBlocks sample_db = []" "cc_hashBlock sample_cache = replicate 32 2" "\<not> uint256_IsNull (replicate 32 2)"
    by (simp_all add: sample_db_def GetHeadBlocks_def sample_cache_def uint256_IsNull_def list_all_iff)
  then show ?thesis using sample_coin_good by (simp add: represents_def g sample_cache_ok base_ok_def)
qed

definition sample_block_coins :: "CTransaction list" where
  "sample_block_coins =
    [\<lparr>tx_vin = [\<lparr>txin_prevout = \<lparr>op_hash = uint256_null, op_n = 0xffffffff\<rparr>, txin_scriptSig = [], txin_nSequence = 0, txin_witness = []\<rparr>],
       tx_vout = [], tx_version = 1, tx_nLockTime = 0\<rparr>,
     \<lparr>tx_vin = [\<lparr>txin_prevout = sample_point, txin_scriptSig = [], txin_nSequence = 0, txin_witness = []\<rparr>],
       tx_vout = [\<lparr>txout_nValue = 40, txout_scriptPubKey = [OP_1]\<rparr>], tx_version = 1, tx_nLockTime = 0\<rparr>]"

lemma sample_block_connectable:
  "block_connectable sample_hash 7 sample_block_coins [sample_point \<mapsto> sample_coin]"
  by (auto simp: block_connectable_Cons block_connectable_def [of _ _ "[]"] sample_block_coins_def tx_connectable_def IsCoinBase_def COutPoint_IsNull_def uint256_IsNull_def
    uint256_null_def NULL_INDEX_def list_all_iff tx_GetHash_def sample_hash_def outpoint_def sample_point_def tx_effect_def spent_by_def
    created_def Let_def map_add_def restrict_map_def replicate_eq_replicate)

definition sample_script :: bytes where
  "sample_script = MERGED_MINING_HEADER @ replicate 32 1 @ [1, 0, 0, 0, 0, 0, 0, 0]"

definition sample_auxpow :: CAuxPow where
  "sample_auxpow =
    \<lparr>ap_coinbase_tx = \<lparr>tx_vin = [\<lparr>txin_prevout = \<lparr>op_hash = uint256_null, op_n = 0xffffffff\<rparr>,
        txin_scriptSig = sample_script, txin_nSequence = 0, txin_witness = []\<rparr>], tx_vout = [], tx_version = 1, tx_nLockTime = 0\<rparr>,
     ap_coinbase_merkle_branch = [], ap_coinbase_branch_index = 0, ap_chain_merkle_branch = [], ap_chain_index = 0,
     ap_parent_block = \<lparr>hdr_nVersion = 1, hdr_hashPrevBlock = uint256_null, hdr_hashMerkleRoot = replicate 32 1,
       hdr_nTime = 0, hdr_nBits = 0, hdr_nNonce = 0\<rparr>\<rparr>"

definition sample_merged_block :: CBlockHeader where
  "sample_merged_block = \<lparr>hdr_nVersion = MakeVersion 47 True 0, hdr_hashPrevBlock = uint256_null,
     hdr_hashMerkleRoot = uint256_null, hdr_nTime = 0, hdr_nBits = 0, hdr_nNonce = 0, hdr_auxpow = Some sample_auxpow\<rparr>"

lemma sample_commitment: "check_commitment sample_script (replicate 32 1) 0 0 47 = Some None"
  by code_simp

lemma sample_header_found: "search_from 0 sample_script MERGED_MINING_HEADER = Some 0"
  by code_simp

lemma sample_auxpow_valid:
  "CAuxPow_Validate sample_hash False sample_auxpow (replicate 32 1) params 0 47 False INTERNAL = None"
proof -
  have "IsCoinBase (ap_coinbase_tx sample_auxpow)"
    by (simp add: IsCoinBase_def COutPoint_IsNull_def uint256_null_def uint256_IsNull_def sample_auxpow_def NULL_INDEX_def list_all_iff)
  then show ?thesis
    using sample_commitment
    by (simp add: CAuxPow_Validate_def sample_auxpow_def MAX_CHAIN_MERKLE_BRANCH_LENGTH_def
       tx_GetHash_def sample_hash_def commitments_def Let_def)
qed

definition sample_tx :: CTransaction where
  "sample_tx = \<lparr>tx_vin = [\<lparr>txin_prevout = \<lparr>op_hash = replicate 32 7, op_n = 3\<rparr>, txin_scriptSig = [1, 2],
      txin_nSequence = 5, txin_witness = [[9], []]\<rparr>],
    tx_vout = [\<lparr>txout_nValue = 1000, txout_scriptPubKey = [0x51]\<rparr>], tx_version = 2, tx_nLockTime = 17\<rparr>"

lemma sample_tx_good: "good_tx sample_tx"
  by (simp add: good_tx_def good_tx_base_def sample_tx_def good_txin_def good_txout_def good_witness_def
      good_outpoint_def MAX_SIZE_def i64_range_def)

definition sample_block :: CBlock where
  "sample_block = \<lparr>hdr_nVersion = 0x20000000, hdr_hashPrevBlock = replicate 32 4, hdr_hashMerkleRoot = replicate 32 5,
     hdr_nTime = 1784131083, hdr_nBits = 0x18109c29, hdr_nNonce = 7, hdr_auxpow = None, blk_vtx = [sample_tx]\<rparr>"

definition sample_page :: dom where
  "sample_page = \<lparr>dom_nodes =
     [\<lparr>el_class = [''rpc-show-changed-only''], el_changed = None, el_checked = True\<rparr>,
      \<lparr>el_class = [''rpc-method-card'', ''wide''], el_changed = Some ''false'', el_checked = False\<rparr>,
      \<lparr>el_class = [''rpc-method-card''], el_changed = Some ''true'', el_checked = False\<rparr>,
      \<lparr>el_class = [''note'', ''is-hidden''], el_changed = None, el_checked = True\<rparr>,
      \<lparr>el_class = [''rpc-show-changed-only''], el_changed = None, el_checked = False\<rparr>],
     dom_listeners = []\<rparr>"

definition sample_env :: node_env where
  "sample_env = \<lparr>ne_hash = sample_hash, ne_sha256 = sample_sha, ne_usage = (\<lambda>_. 0), ne_script = sample_ctx, ne_crypto = sample_crypto,
     ne_fuzz = False, ne_params = CMainParams\<rparr>"

text \<open>The first block after the genesis block, with a coinbase that pays a P2MR output.\<close>

definition first_coinbase :: CTransaction where
  "first_coinbase = \<lparr>tx_vin = [\<lparr>txin_prevout = \<lparr>op_hash = uint256_null, op_n = NULL_INDEX\<rparr>, txin_scriptSig = [1, 1],
      txin_nSequence = 0, txin_witness = []\<rparr>],
    tx_vout = [\<lparr>txout_nValue = 5000, txout_scriptPubKey = 0x52 # 0x20 # replicate 32 7\<rparr>], tx_version = 2, tx_nLockTime = 0\<rparr>"

definition first_block :: CBlock where
  "first_block = CBlockHeader.extend (sample_genesis\<lparr>hdr_hashPrevBlock := replicate 32 9\<rparr>) \<lparr>blk_vtx = [first_coinbase]\<rparr>"

definition first_index :: BlockManager where
  "first_index = \<lparr>bm_block_index =
      [replicate 32 9 \<mapsto> (new_CBlockIndex sample_genesis)\<lparr>bi_phashBlock := Some (replicate 32 9)\<rparr>,
       replicate 32 1 \<mapsto> (new_CBlockIndex sample_genesis)\<lparr>bi_phashBlock := Some (replicate 32 1), bi_pprev := Some (replicate 32 9), bi_nHeight := 1\<rparr>],
     bm_best_header = None, bm_dirty_blockindex = []\<rparr>"

definition first_view :: CCoinsViewCache where
  "first_view = new_CCoinsViewCache\<lparr>cc_hashBlock := replicate 32 9\<rparr>"

definition first_result :: "connect_result cxx" where
  "first_result = ConnectBlock sample_env \<lparr>as_AssumedValidBlock = uint256_null, as_MinimumChainWork = base_uint_zero, as_best_header = None\<rparr>
    Map.empty uint256_null False hd None first_index \<lparr>vc_nonce = uint256_null, vc_script_execution_cache = (\<lambda>_. False)\<rparr>
    first_block \<lparr>fChecked = True, m_checked_merkle_root = True\<rparr> (replicate 32 1) first_view False"

lemma main_fields:
  "cp_fRestrictedOutputMode CMainParams" "cp_BIP34Height CMainParams = 0" "cp_script_flag_exceptions CMainParams = Map.empty"
  "DeploymentHeight CMainParams d = 0" "cp_P2MRHeight CMainParams = 0" "cp_nP2MRValidationWeightV2Height CMainParams = 0"
  by (cases d; simp add: CMainParams_def Let_def)+

lemma main_genesis: "cp_hashGenesisBlock CMainParams ! 0 = 0xf2"
  by (simp add: CMainParams_def Let_def uint256_of_hex_def le_bytes_def)

lemma first_segwit: "DeploymentActiveAfter (Some (new_CBlockIndex sample_genesis\<lparr>bi_phashBlock := h\<rparr>)) CMainParams DEPLOYMENT_SEGWIT = Inr True"
  by (simp add: DeploymentActiveAfter_def main_fields new_CBlockIndex_def i32_def i32_range_def del: DeploymentHeight.simps)

lemma first_outputs: "HasOnlyRestrictedOutputModeOutputs first_coinbase CMainParams 1"
proof -
  have "IsWitnessProgram (0x52 # 0x20 # replicate 32 7) = Some (2, replicate 32 7)" by code_simp
  then show ?thesis
    by (simp add: HasOnlyRestrictedOutputModeOutputs_def IsRestrictedOutputModeConsensusOutput_def IsRestrictedOutputModeP2MROutput_def first_coinbase_def)
qed

lemma first_subsidy: "GetBlockSubsidy 1 CMainParams = Inr (210 * COIN)"
  using GetBlockSubsidy_after [OF main_subsidy_params, of 1] by (simp add: CMainParams_def Let_def)

lemma first_coinbase_is: "IsCoinBase first_coinbase"
  by (simp add: first_coinbase_def IsCoinBase_def COutPoint_IsNull_def uint256_IsNull_def uint256_null_def NULL_INDEX_def list_all_iff)

lemmas ser_defs = SerializeTransaction_def ser_vector_def ser_CTxIn_def ser_CTxOut_def ser_bytes_def
  ser_COutPoint_def ser_i64_def ser_uint256_def ser_writedata8_def ser_writedata32_def ser_writedata64_def
  WriteLE32_def WriteLE64_def WriteCompactSize_def HasWitness_def uint256_null_def

lemma first_coinbase_size: "length (SerializeTransaction False first_coinbase) < 200"
  by (simp add: first_coinbase_def ser_defs Let_def)

lemma first_weight: "CheckBlockWeight first_block = Inr (Inr ())"
  by (simp add: CheckBlockWeight_def GetBlockWeight_def block_size_no_witness_def ser_CBlock_def ser_CBlockHeader_def first_block_def
    first_coinbase_def ser_CPureBlockHeader_def ser_defs Let_def WITNESS_SCALE_FACTOR_def MAX_BLOCK_WEIGHT_def CBlockHeader.defs
    CPureBlockHeader.defs sample_genesis_def SignalsAuxpow_def IsAuxpowVersion_def BLOCK_VERSION_AUXPOW_def)

lemma first_coinbase_sane: "tx_sane first_coinbase"
  using first_coinbase_is first_coinbase_size
  by (simp add: tx_sane_def) (simp add: first_coinbase_def MAX_BLOCK_WEIGHT_def MAX_MONEY_def COIN_def)

lemma first_indexed: "bm_block_index first_index (replicate 32 1) = Some ((new_CBlockIndex sample_genesis)\<lparr>bi_phashBlock := Some (replicate 32 1), bi_pprev := Some (replicate 32 9), bi_nHeight := 1\<rparr>)"
  "bm_block_index first_index (replicate 32 9) = Some ((new_CBlockIndex sample_genesis)\<lparr>bi_phashBlock := Some (replicate 32 9)\<rparr>)"
  by (simp_all add: first_index_def replicate_eq_replicate)

lemma first_overwrite: "enforce_bip30 (bm_block_index first_index) (the (bm_block_index first_index (replicate 32 1))) CMainParams = Inr (replicate 32 9 \<noteq> cp_BIP34Hash CMainParams)"
  by (simp add: enforce_bip30_def IsBIP30Repeat_def GetAncestor_def ancestor_loop.simps main_fields first_index_def replicate_eq_replicate new_CBlockIndex_def bi_GetBlockHash_def BIP34_IMPLIES_BIP30_LIMIT_def)

lemma first_sigops: "GetTransactionSigOpCost mu base first_coinbase view flags = Inr (0, view)"
proof -
  have "GetLegacySigOpCount first_coinbase = 0" by code_simp
  then show ?thesis by (simp add: GetTransactionSigOpCost_def first_coinbase_is)
qed

lemma first_mark: "\<exists>bm. mark_scripts_valid (replicate 32 1) first_index = Inr bm"
  by (simp add: mark_scripts_valid_def first_index_def replicate_eq_replicate new_CBlockIndex_def IsValid_def RaiseValidity_def BLOCK_VALID_SCRIPTS_def BLOCK_VALID_MASK_def BLOCK_FAILED_MASK_def)

lemma first_sane: "block_sane first_block"
  using first_coinbase_is first_coinbase_sane by (simp add: block_sane_def first_block_def CBlockHeader.defs)

lemma first_flags: "bi_phashBlock b = Some h \<Longrightarrow> \<exists>f. GetBlockScriptFlags b CMainParams = Inr f"
  by (simp add: GetBlockScriptFlags_def Let_def)

lemma first_paid: "GetValueOut first_coinbase = Inr 5000"
  by (simp add: GetValueOut_def first_coinbase_def MoneyRange_def MAX_MONEY_def COIN_def i64_def i64_range_def)

lemma first_witness: "GetWitnessCommitmentIndex first_block = NO_WITNESS_COMMITMENT"
  by code_simp

lemma first_overwrites: "overwrites_outputs sample_hash (\<lambda>_. 0) Map.empty (blk_vtx first_block) first_view = (False, first_view)"
  by (simp add: overwrites_outputs_def first_block_def first_coinbase_def CBlockHeader.defs HaveCoin_def FetchCoin_def first_view_def new_CCoinsViewCache_def)

lemma first_view_ok: "cache_inv (\<lambda>_. 0) Map.empty first_view" "cache_view Map.empty first_view = Map.empty" "base_ok Map.empty"
  by (auto simp: first_view_def base_ok_def new_CCoinsViewCache_def cache_view_def cache_inv_def linked_def accounted_def map_usage_def fun_eq_iff)

lemma first_connectable: "tx_connectable H first_coinbase Map.empty"
  by (rule sane_connectable [OF first_coinbase_sane]) (simp_all add: first_coinbase_is)

lemma first_connect_transactions:
  assumes ch: "uint256_IsNull (as_AssumedValidBlock chainman)"
  shows "\<exists>cs. connect_transactions sample_env chainman Map.empty False hd (bm_block_index first_index) first_block (replicate 32 1)
      (the (bm_block_index first_index (replicate 32 1))) w False vc first_view = Inr (None, cs)"
proof -
  let ?b = "the (bm_block_index first_index (replicate 32 1))"
  obtain f where f: "GetBlockScriptFlags ?b CMainParams = Inr f" using first_flags [of ?b "replicate 32 1"] by (auto simp: first_indexed)
  obtain c where c: "UpdateCoins sample_hash (\<lambda>_. 0) Map.empty first_coinbase first_view [] 1 = Inr ([], c)"
    using UpdateCoins_ok [OF first_view_ok(1) first_view_ok(3), where tx = first_coinbase and h = 1 and H = sample_hash]
    by (auto simp: first_coinbase_is first_connectable first_view_ok(2))
  have vtx: "blk_vtx first_block = [first_coinbase]" by (simp add: first_block_def CBlockHeader.defs)
  have v: "overwrites_outputs sample_hash (\<lambda>_. 0) Map.empty [first_coinbase] first_view = (False, first_view)"
    using first_overwrites by (simp add: vtx)
  have skip: "CanSkipScriptChecks st chainman p w = Inr False" for st p
    using ch by (simp add: CanSkipScriptChecks_def IsAssumedValidAncestor_def)
  have h: "bi_nHeight ?b = 1" by (simp add: first_indexed)
  have e: "ne_hash sample_env = sample_hash" "ne_usage sample_env = (\<lambda>_. 0)" "ne_params sample_env = CMainParams" by (simp_all add: sample_env_def)
  show ?thesis
    unfolding connect_transactions_def skip e first_overwrite f h connect_verdict_def
    by (simp add: e v vtx connect_tx_def first_outputs first_coinbase_is first_sigops connect_scripts_def c first_subsidy first_paid
      i64_def i64_range_def MAX_BLOCK_SIGOPS_COST_def COIN_def)
qed

lemma first_connected: "\<exists>r. first_result = Inr r \<and> cr_outcome r = Connected"
proof -
  let ?b = "(new_CBlockIndex sample_genesis)\<lparr>bi_phashBlock := Some (replicate 32 1), bi_pprev := Some (replicate 32 9), bi_nHeight := 1\<rparr>"
  let ?g = "(new_CBlockIndex sample_genesis)\<lparr>bi_phashBlock := Some (replicate 32 9)\<rparr>"
  let ?chainman = "\<lparr>as_AssumedValidBlock = uint256_null, as_MinimumChainWork = base_uint_zero, as_best_header = None\<rparr>"
  have hh: "header_GetHash (ne_hash sample_env) first_block = replicate 32 1"
    by (simp add: sample_env_def header_GetHash_def sample_hash_def)
  have g: "replicate 32 1 \<noteq> cp_hashGenesisBlock (ne_params sample_env)"
    using main_genesis by (auto simp: sample_env_def dest: arg_cong [where f = "\<lambda>h. h ! 0"])
  have best: "GetBestBlock b first_view = (replicate 32 9, first_view)" for b
    by (simp add: GetBestBlock_def first_view_def new_CCoinsViewCache_def uint256_IsNull_def list_all_iff)
  obtain bm where bm: "mark_scripts_valid (replicate 32 1) first_index = Inr bm" using first_mark by blast
  have null: "uint256_IsNull (as_AssumedValidBlock ?chainman)" by (simp add: uint256_IsNull_def uint256_null_def list_all_iff)
  obtain cs where cs: "connect_transactions sample_env ?chainman Map.empty False hd (bm_block_index first_index) first_block (replicate 32 1)
      ?b False False \<lparr>vc_nonce = uint256_null, vc_script_execution_cache = (\<lambda>_. False)\<rparr> first_view = Inr (None, cs)"
    using first_connect_transactions [OF null] by (auto simp: first_indexed)
  have e: "ne_params sample_env = CMainParams" by (simp add: sample_env_def)
  have st: "bi_nStatus ?b AND BLOCK_OPT_WITNESS_PRUNED = 0" by (simp add: new_CBlockIndex_def)
  have rest: "\<exists>r. connect_rest sample_env ?chainman Map.empty False hd None first_index \<lparr>vc_nonce = uint256_null, vc_script_execution_cache = (\<lambda>_. False)\<rparr>
      first_block m (replicate 32 1) ?b (Some ?g) first_view False = Inr r \<and> cr_outcome r = Connected" for m
    unfolding connect_rest_def e first_segwit first_witness st
    by (simp add: first_weight cs bm bi_GetBlockHash_def connect_done_def Let_def)
  show ?thesis
    unfolding first_result_def ConnectBlock_def hh first_indexed using rest g
    by (simp add: CheckBlock_def bi_GetBlockHash_def first_indexed best)
qed

lemma first_chain: "\<exists>b undo V. chain_state sample_env [(first_block, b, undo, Map.empty)] V \<and> total_value V = 5000"
proof -
  obtain r where r: "first_result = Inr r" "cr_outcome r = Connected" using first_connected by blast
  have g: "header_GetHash (ne_hash sample_env) first_block \<noteq> cp_hashGenesisBlock (ne_params sample_env)"
    using main_genesis by (auto simp: sample_env_def header_GetHash_def sample_hash_def dest: arg_cong [where f = "\<lambda>h. h ! 0"])
  have memo: "memo_ok first_block \<lparr>fChecked = True, m_checked_merkle_root = True\<rparr>" by (simp add: memo_ok_def first_sane)
  have vtx: "blk_vtx first_block = [first_coinbase]" by (simp add: first_block_def CBlockHeader.defs)
  let ?b = "the (bm_block_index first_index (replicate 32 1))"
  have c: "chain_state sample_env [(first_block, ?b, cr_blockundo r, Map.empty)] (cache_view Map.empty (cr_view r))"
    by (rule chain_state.connect [OF chain_state.start first_view_ok(3) _ first_view_ok(2) memo r(1)[unfolded first_result_def] r(2) g])
      (simp_all add: first_indexed sample_env_def first_view_ok i32_range_def txids_def chain_txids_def vtx)
  have "ne_usage sample_env [] = 0" by (simp add: sample_env_def)
  from chain_state_history [OF this c]
  have "cache_view Map.empty (cr_view r) = tx_effect sample_hash 1 first_coinbase Map.empty"
    by (simp add: vtx sample_env_def first_indexed)
  then have "total_value (cache_view Map.empty (cr_view r)) = 5000"
    using total_value_tx_effect(1) [OF _ first_connectable, of sample_hash 1]
    by (simp add: first_coinbase_is) (simp add: first_coinbase_def IsUnspendable_def MAX_SCRIPT_SIZE_def)
  then show ?thesis using c by blast
qed

definition most_work :: arith_uint256 where
  "most_work = [0xffffffff, 0xffffffff, 0xffffffff, 0xffffffff, 0xffffffff, 0xffffffff, 0xffffffff, 0xffffffff]"

definition lock_checker :: GenericTransactionSignatureChecker where
  "lock_checker = \<lparr>gc_txTo = first_coinbase\<lparr>tx_vin := [\<lparr>txin_prevout = \<lparr>op_hash = replicate 32 5, op_n = 0\<rparr>, txin_scriptSig = [],
      txin_nSequence = 1, txin_witness = []\<rparr>], tx_nLockTime := 600000000\<rparr>, gc_mdb = ASSERT_FAIL, gc_nIn = 0, gc_amount = 0, gc_txdata = None\<rparr>"

lemma first_median: "GetMedianTimePast (bm_block_index first_index) (replicate 32 9) = Inr 1784131083"
proof -
  have none: "median_times st n None = Inr []" for st n by (cases n) simp_all
  have span: "nMedianTimeSpan = Suc 10" by (simp add: nMedianTimeSpan_def)
  show ?thesis unfolding GetMedianTimePast_def span median_times.simps
    by (simp add: first_indexed none new_CBlockIndex_def sample_genesis_def bi_GetBlockTime_def)
qed

end
