(* ===== verification/Spec2Isabelle.thy ===== *)
theory Spec2Isabelle
  imports Samples
begin

text \<open>
  A verification library for qbit, a proof-of-work chain derived from Bitcoin Core with two mining
  lanes, merged mining, ASERT difficulty and a stepped emission schedule.

  \<^bold>\<open>Conventions.\<close> Unsigned C++ integers are words of their width, so arithmetic wraps. Signed integers
  are integers with a range check where the source computes with them and the result could leave the
  range; leaving it is the failure \<open>Signed_Overflow\<close>. Counters that only move by small steps are plain
  numbers: the validation weight and the opcode count of the script machine, whose bounds are part of its
  invariant, and the numbers of inputs and outputs in the signature messages, naturals that the source
  writes as \<^verbatim>\<open>unsigned int\<close>. A function that can assert, throw, divide by zero, dereference null or
  shift too far returns a value of the type \<open>cxx\<close>, with the failure on the left. Out-parameters are
  results. A pointer into the block index is the hash the entry is stored under, and the index is an
  explicit store. Hash functions are a parameter \<open>H\<close>; where their output length matters it is a
  hypothesis. Inheritance of header classes is extension of records.

  \<^bold>\<open>Theories.\<close>
  \<^item> \<^verbatim>\<open>Qbit_Prelude\<close>: machine integers, failures, digit and byte vectors, \<^verbatim>\<open>crypto/common.h\<close>.
  \<^item> \<^verbatim>\<open>Arith256\<close>: \<^verbatim>\<open>arith_uint256.h\<close> and \<^verbatim>\<open>.cpp\<close>. Every operator of the digit arrays is shown to
    implement the operation on naturals modulo two to the 256, and the compact encoding its rounding.
  \<^item> \<^verbatim>\<open>Serialize\<close>: \<^verbatim>\<open>serialize.h\<close>. The locales \<open>codec\<close> and \<open>canonical_codec\<close> are the contract of a pair of
    serializer and deserializer; they are interpreted for every format the sources use.
  \<^item> \<^verbatim>\<open>Primitives\<close>: transactions, headers, blocks and merged-mining proofs with their wire formats and the
    layout of the block version (\<^verbatim>\<open>primitives/\<close>, \<^verbatim>\<open>auxpow.h\<close>).
  \<^item> \<^verbatim>\<open>Consensus_Params\<close>, \<^verbatim>\<open>Chain_Params\<close>: \<^verbatim>\<open>consensus/params.h\<close> and the constructors of the five networks
    in \<^verbatim>\<open>kernel/chainparams.cpp\<close>.
  \<^item> \<^verbatim>\<open>Genesis\<close>: the genesis blocks of the same file, and the pairs of parameters and genesis block a node can be
    started with (\<^const>\<open>networks\<close>), every regtest option and signet challenge included. A network that uses ASERT
    is shown to have consistent ASERT parameters, with its anchor at height zero.
  \<^item> \<^verbatim>\<open>Chain_Index\<close>: \<^verbatim>\<open>chain.h\<close>, \<^verbatim>\<open>chain.cpp\<close> and \<^verbatim>\<open>AddToBlockIndex\<close>, with the indexes that can be built as an
    inductive predicate and their well-formedness as its invariant. \<^const>\<open>network_index\<close> restricts them to the
    indexes that grow from one genesis block.
  \<^item> \<^verbatim>\<open>Pow\<close>: \<^verbatim>\<open>pow.cpp\<close>, from the helper arithmetic on nine 32-bit limbs to the header rules.
  \<^item> \<^verbatim>\<open>Subsidy\<close>: \<^verbatim>\<open>GetBlockSubsidy\<close> of \<^verbatim>\<open>validation.cpp\<close>, its closed form and the emission of the main network. Sums
    of rewards use \<^const>\<open>block_subsidy\<close>, which is the reward, or zero where \<^verbatim>\<open>GetBlockSubsidy\<close> would fail; on
    admissible parameters it does not fail.
  \<^item> \<^verbatim>\<open>Merkle\<close>: \<^verbatim>\<open>consensus/merkle.cpp\<close> and the branch check of \<^verbatim>\<open>auxpow.cpp\<close>.
  \<^item> \<^verbatim>\<open>Auxpow\<close>: \<^verbatim>\<open>auxpow.cpp\<close> and \<^verbatim>\<open>auxpow_validation.cpp\<close>.
  \<^item> \<^verbatim>\<open>Coins\<close>, \<^verbatim>\<open>Coins_DB\<close>, \<^verbatim>\<open>Coins_Session\<close>: \<^verbatim>\<open>coins.h\<close>, \<^verbatim>\<open>coins.cpp\<close> and \<^verbatim>\<open>txdb.cpp\<close>. A cache entry has its coin and
    the flags dirty and fresh; the intrusive list of flagged entries is a list of outpoints. The locale
    \<open>coins_view\<close> is what a cache relies on in the view below it; it is interpreted for another cache and for
    the database, whose batches are explicit, with every intermediate state. The database
    holds coins as values: their compressed encoding (\<^verbatim>\<open>Coin::Serialize\<close>, \<^verbatim>\<open>compressor.h\<close>) is not modelled. \<^verbatim>\<open>Coins_Session\<close> has the map of coins
    that the two together implement, for any sequence of calls.
  \<^item> \<^verbatim>\<open>Utxo_Update\<close>: what blocks do to the coins, \<^verbatim>\<open>UpdateCoins\<close>, \<^verbatim>\<open>ApplyTxInUndo\<close> and \<^verbatim>\<open>DisconnectBlock\<close> of
    \<^verbatim>\<open>validation.cpp\<close>, with the undo data.
  \<^item> \<^verbatim>\<open>Script_Core\<close>: parsing of scripts, pushes, script numbers, templates and the counting of signature
    operations (\<^verbatim>\<open>script/script.h\<close>, \<^verbatim>\<open>script.cpp\<close>).
  \<^item> \<^verbatim>\<open>Script_Interp\<close>: the script machine, \<^verbatim>\<open>EvalScript\<close> of \<^verbatim>\<open>script/interpreter.cpp\<close>, every opcode. A stack is a list
    with its top first. A result is a value, an error code of the script, or a failure of the C++ code.
  \<^item> \<^verbatim>\<open>Script_Flags\<close>: more flags accept less. The locale \<open>signature_checker\<close> says what the argument needs of a
    checker: it does not look at the validation weight.
  \<^item> \<^verbatim>\<open>Script_Safety\<close>: an invariant of the machine that every instruction keeps, from which it follows that no
    assertion, overflow or oversized stack occurs, and the condition stack as a stack of booleans.
  \<^item> \<^verbatim>\<open>Sig_Hash\<close>: the signature hashes, their caches and the transaction checker, on which the locale
    \<open>signature_checker\<close> is interpreted. The verification routines of the signature schemes are parameters.
  \<^item> \<^verbatim>\<open>Script_Verify\<close>: \<^verbatim>\<open>VerifyScript\<close> with pay-to-script-hash and all witness programs, the check of an input
    (\<^verbatim>\<open>CScriptCheck\<close> of \<^verbatim>\<open>validation.cpp\<close>) and the tree of scripts behind a P2MR output.
  \<^item> \<^verbatim>\<open>Tx_Consensus\<close>: the rules on one transaction, \<^verbatim>\<open>tx_check.cpp\<close>, \<^verbatim>\<open>tx_verify.cpp\<close> and \<^verbatim>\<open>restricted_outputs.h\<close> of
    \<^verbatim>\<open>consensus/\<close>. Its lemmas say that checks do not change coins, that an accepted transaction has the value it
    spends, and what lock times demand.
  \<^item> \<^verbatim>\<open>Block_Check\<close>: \<^verbatim>\<open>CheckBlock\<close> of \<^verbatim>\<open>validation.cpp\<close> with the flags a block remembers its checks by, and \<^verbatim>\<open>signet.cpp\<close>.
  \<^item> \<^verbatim>\<open>Assume_Valid\<close>: when script checks may be skipped, \<^verbatim>\<open>CanSkipScriptChecks\<close> of \<^verbatim>\<open>validation.cpp\<close>.
  \<^item> \<^verbatim>\<open>Block_Connect\<close>: \<^verbatim>\<open>CheckInputScripts\<close> and \<^verbatim>\<open>ConnectBlock\<close> of \<^verbatim>\<open>validation.cpp\<close>. The sequences of coin sets a node
    goes through by connecting and disconnecting blocks are the inductive predicate \<^const>\<open>chain_state\<close>, whose
    invariant bounds the value of all coins.
  \<^item> \<^verbatim>\<open>Rpc_Docs\<close>: the script of the RPC reference pages, \<^verbatim>\<open>doc/rpc/assets/rpcdocs.js\<close>, from loading to any sequence
    of changes of its switches.
  \<^item> \<^verbatim>\<open>Samples\<close>: concrete inputs for the witnesses.

  \<^bold>\<open>Loops.\<close> Loops are structural recursion or have a termination proof: the walk of \<^verbatim>\<open>GetAncestor\<close> descends
  in height. Two have fuel. The search for the last block with real difficulty has one unit per height,
  and the final sweep of the Merkle computation one per level of its 32-level counter; both are shown to
  return.

  \<^bold>\<open>Not modelled.\<close> Peer-to-peer networking, the memory pool, the choice of the best chain, the wallet, the
  RPC and graphical interfaces, storage files and databases are around the components above. Of the
  checks of a block, those that need its context (\<^verbatim>\<open>ContextualCheckBlockHeader\<close>, \<^verbatim>\<open>ContextualCheckBlock\<close>,
  \<^verbatim>\<open>CheckWitnessMalleation\<close>) and version-bits signalling are not modelled. Signature schemes and hash functions
  are external to the properties, which hold for any hash function. The cache of verified signatures
  is not modelled, a signature is always checked; the cache of verified scripts is a set that is never
  evicted. The queue of script checks is modelled by its result: all checks run and one of the failures is
  reported. Locking is not modelled: every operation is taken as atomic, which the source ensures by
  holding \<^verbatim>\<open>cs_main\<close>.
\<close>

subsection \<open>Difficulty\<close>

text \<open>
  C1. The difficulty rule never gets stuck: on every network that uses ASERT (main, the test networks,
  signet with any challenge, and regtest when the option asks for it), for every block of an index that
  starts with the genesis block of the network and grows by headers whose parent it holds,
  \<^verbatim>\<open>GetNextWorkRequired\<close> returns a compact target, and that target is one \<^verbatim>\<open>DeriveTarget\<close> accepts:
  positive, not negative, without overflow and within the limit of the network. Heights are below the
  limit of \<^verbatim>\<open>int\<close>, and no header names its own hash as its parent.
\<close>

theorem required_work_is_valid:
  assumes "(params, genesis) \<in> networks H" "cp_fPowUseASERT params" "network_index H genesis bm"
    "bm_block_index bm p = Some b" "bi_nHeight b < 2 ^ 31 - 1"
  shows "\<exists>c. GetNextWorkRequired (bm_block_index bm) (Some p) pblock params = Inr c \<and>
    DeriveTarget c (cp_powLimit params) = Some (limbs_of 8 (compact_value c)) \<and>
    0 < compact_value c \<and> compact_value c \<le> bval (cp_powLimit params)"
proof -
  note ok = asert_networks_ok [OF assms(1,2)]
  obtain c where "GetNextWorkRequired (bm_block_index bm) (Some p) pblock params = Inr c" "bits_ok (cp_powLimit params) c"
    using GetNextWorkRequired_accepted [OF network_anchored(1) [OF assms(1-3)] assms(4,5) ok(1) network_anchored(2) [OF assms(1-3)] assms(2) ok(2)]
    by metis
  then show ?thesis using bits_ok_DeriveTarget ok(3) by (auto simp: bits_ok_def)
qed

theorem required_work_is_valid_witness:
  "\<exists>bm c. network_index sample_hash (snd (main_network sample_hash)) bm \<and>
    GetNextWorkRequired (bm_block_index bm) (Some (replicate 32 1)) (Some sample_genesis) CMainParams = Inr c \<and>
    0 < compact_value c \<and> compact_value c \<le> bval (cp_powLimit CMainParams)"
proof -
  let ?g = "snd (main_network sample_hash)"
  have n: "(CMainParams, ?g) \<in> networks sample_hash" by (simp add: networks_def main_network_def)
  obtain bm work where bm: "network_index sample_hash ?g bm"
      "bm_block_index bm = [replicate 32 1 \<mapsto> linked_entry Map.empty (replicate 32 1) ?g work]"
    using start_index [OF n] .
  have "cp_fPowUseASERT CMainParams" by (simp add: CMainParams_def Let_def)
  then show ?thesis
    using required_work_is_valid [OF n _ bm(1), of "replicate 32 1" _ "Some sample_genesis"] bm
      linked_entry_root [OF _ genesis_plain [OF n], of Map.empty] by auto
qed

text \<open>
  C2. The shift-and-multiply fixed-point arithmetic of \<^verbatim>\<open>CalculateASERT\<close> computes the value of the
  formula: the reference target times two to the drift over the half-life, with the cubic approximation
  of the fractional power, rounded down and clamped to the range from one to the limit. No
  288-bit intermediate value and no shift loses a bit.
\<close>

theorem asert_is_formula:
  assumes "length refTarget = 8" "length powLimit = 8" "0 < nval refTarget" "nval refTarget \<le> nval powLimit"
    "0 \<le> nHeightDiff" "0 < nHalfLife" "i64_range (nPowTargetSpacing * nHeightDiff)"
    "\<bar>nTimeDiff - nPowTargetSpacing * nHeightDiff\<bar> < 2 ^ 47"
  shows "CalculateASERT refTarget nPowTargetSpacing nTimeDiff nHeightDiff powLimit nHalfLife =
    Inr (limbs_of 8 (max 1 (min (nval powLimit)
      (asert_value (nval refTarget) (((nTimeDiff - nPowTargetSpacing * nHeightDiff) * 65536) sdiv nHalfLife)))))"
  using CalculateASERT_correct [OF assms] by (simp add: asert_clamped_def asert_exponent_def)

theorem asert_is_formula_witness:
  "CalculateASERT (limbs_of 8 (2 ^ 200)) 60 14700 5 (limbs_of 8 (2 ^ 224)) 7200 = Inr (limbs_of 8 (2 ^ 202))"
proof -
  have "asert_value (2 ^ 200) (((14700 - 60 * 5) * 65536) sdiv 7200) = 2 ^ 200 * 2 ^ 2"
    using asert_value_half_lives(1) [of "2 ^ 200" 2] by simp
  then show ?thesis
    using asert_is_formula [of "limbs_of 8 (2 ^ 200)" "limbs_of 8 (2 ^ 224)" 5 7200 60 14700]
    by (simp add: nval_limbs_of i64_range_def)
qed

text \<open>
  C3. ASERT is path independent and self correcting: of two blocks at the same height difference the
  one with the later time never gets a harder target, and a drift of \<^verbatim>\<open>n\<close> half-lives multiplies or
  divides the unclamped target by exactly two to the \<^verbatim>\<open>n\<close>.
\<close>

theorem asert_monotone_in_time:
  assumes "length refTarget = 8" "length powLimit = 8" "0 < nval refTarget" "nval refTarget \<le> nval powLimit"
    "0 \<le> h" "0 < hl" "i64_range (sp * h)" "\<bar>t - sp * h\<bar> < 2 ^ 47" "\<bar>t' - sp * h\<bar> < 2 ^ 47" "t \<le> t'"
    "CalculateASERT refTarget sp t h powLimit hl = Inr r" "CalculateASERT refTarget sp t' h powLimit hl = Inr r'"
  shows "nval r \<le> nval r' \<and>
    (t - sp * h = int n * hl \<and> nval refTarget * 2 ^ n \<le> nval powLimit \<longrightarrow> nval r = nval refTarget * 2 ^ n) \<and>
    (t - sp * h = - int n * hl \<longrightarrow> nval r = max 1 (nval refTarget div 2 ^ n))"
proof (intro conjI impI; (elim conjE)?)
  let ?v = "\<lambda>t. asert_value (nval refTarget) (asert_exponent (t - sp * h) hl)"
  have lim: "nval powLimit < 2 ^ 256" using nval_less_256 assms(2) .
  have c: "asert_clamped (nval powLimit) x < 2 ^ 256" for x
    using lim by (auto simp: asert_clamped_def max_def min_def)
  have r: "nval r = asert_clamped (nval powLimit) (?v t)"
    using CalculateASERT_correct [OF assms(1-8)] assms(11) c by (simp add: nval_limbs_of)
  have r': "nval r' = asert_clamped (nval powLimit) (?v t')"
    using CalculateASERT_correct [OF assms(1-7,9)] assms(12) c by (simp add: nval_limbs_of)
  have "?v t \<le> ?v t'"
    by (intro asert_value_mono asert_exponent_mono) (use assms in auto)
  then show "nval r \<le> nval r'" unfolding r r' by (simp add: asert_clamped_def max_def min_def)
  show "nval r = nval refTarget * 2 ^ n" if "t - sp * h = int n * hl" "nval refTarget * 2 ^ n \<le> nval powLimit"
    using that assms(3) unfolding r that(1) asert_half_lives [OF assms(6)] asert_value_half_lives
    by (simp add: asert_clamped_def)
  show "nval r = max 1 (nval refTarget div 2 ^ n)" if "t - sp * h = - int n * hl"
  proof -
    have "nval refTarget div 2 ^ n \<le> nval powLimit" using assms(4) div_le_dividend le_trans by blast
    then show ?thesis
      unfolding r that asert_half_lives [OF assms(6)] asert_value_half_lives by (simp add: asert_clamped_def)
  qed
qed

theorem asert_monotone_in_time_witness:
  "\<exists>r r'. CalculateASERT (limbs_of 8 (2 ^ 200)) 60 7500 5 (limbs_of 8 (2 ^ 224)) 7200 = Inr r \<and>
    CalculateASERT (limbs_of 8 (2 ^ 200)) 60 14700 5 (limbs_of 8 (2 ^ 224)) 7200 = Inr r' \<and>
    nval r \<le> nval r' \<and> nval r = 2 ^ 201"
proof -
  let ?A = "\<lambda>t. CalculateASERT (limbs_of 8 (2 ^ 200)) 60 t 5 (limbs_of 8 (2 ^ 224)) 7200"
  have "\<exists>r. ?A t = Inr r" if "\<bar>t - 300\<bar> < 2 ^ 47" for t
    using CalculateASERT_correct [of "limbs_of 8 (2 ^ 200)" "limbs_of 8 (2 ^ 224)" 5 7200 60 t] that
    by (simp add: nval_limbs_of i64_range_def)
  then obtain r r' where "?A 7500 = Inr r" "?A 14700 = Inr r'" by force
  moreover from this have "nval r \<le> nval r'" "nval r = 2 ^ 201"
    using asert_monotone_in_time [of "limbs_of 8 (2 ^ 200)" "limbs_of 8 (2 ^ 224)" 5 7200 60 7500 14700 r r' 1]
    by (simp_all add: nval_limbs_of i64_range_def)
  ultimately show ?thesis by blast
qed

subsection \<open>Header rules\<close>

text \<open>
  C4. Headers-first synchronisation applies the same rule as validation: where ASERT is used and the
  cadence rule is not active, \<^verbatim>\<open>PermittedDifficultyTransition\<close> accepts the target of a header that
  follows a known block exactly when it is the one \<^verbatim>\<open>GetNextWorkRequired\<close> demands.
\<close>

theorem permitted_transition_is_required_work:
  assumes "st p = Some b" "0 \<le> bi_nHeight b" "bi_nHeight b < 2 ^ 31 - 1" "asert_params_ok params"
    "cp_fPowUseASERT params" "\<not> cp_fPowNoRetargeting params" "\<not> CadenceActiveAtHeight params (bi_nHeight b + 1)"
    "bits_ok (cp_powLimit params) (bi_nBits b)" "bits_ok (cp_powLimit params) new_nbits"
  shows "PermittedDifficultyTransition params (bi_nHeight b + 1) (bi_nBits b) new_nbits
      (Some (bi_GetBlockTime b)) (Some (uint (hdr_nTime blk))) =
    bindE (GetNextWorkRequired st (Some p) (Some blk) params) (\<lambda>c. Inr (new_nbits = c))"
  using PermittedDifficultyTransition_exact [of st p b params new_nbits blk] assms by blast

theorem permitted_transition_is_required_work_witness:
  "\<exists>st b. st (replicate 32 1) = Some b \<and>
    PermittedDifficultyTransition (CRegTestParams sample_regtest) 1 (bi_nBits b) 0x1d00ffff
      (Some (bi_GetBlockTime b)) (Some (uint (hdr_nTime sample_genesis))) =
    bindE (GetNextWorkRequired st (Some (replicate 32 1)) (Some sample_genesis) (CRegTestParams sample_regtest))
      (\<lambda>c. Inr (0x1d00ffff = c))"
proof -
  obtain bm :: BlockManager and b where bm: "bm_block_index bm = [replicate 32 1 \<mapsto> b]" "bi_nHeight b = 0" "bi_nBits b = 0x18109c29"
    by (rule sample_index)
  have p: "CRegTestParams sample_regtest = regtest_base sample_regtest"
    by (simp add: CRegTestParams_def sample_regtest_def)
  have "bits_ok (cp_powLimit (CRegTestParams sample_regtest)) 0x18109c29"
    "bits_ok (cp_powLimit (CRegTestParams sample_regtest)) 0x1d00ffff"
    unfolding p by (simp_all add: asert_params_eval regtest_base_def)
  moreover have "cp_fPowUseASERT (CRegTestParams sample_regtest)" "\<not> cp_fPowNoRetargeting (CRegTestParams sample_regtest)"
    "\<not> CadenceActiveAtHeight (CRegTestParams sample_regtest) 1"
    unfolding p by (simp_all add: regtest_base_def sample_regtest_def CadenceActiveAtHeight_def value_or_def)
  ultimately show ?thesis
    using permitted_transition_is_required_work [of "bm_block_index bm" "replicate 32 1" b "CRegTestParams sample_regtest"
        "0x1d00ffff" sample_genesis] bm regtest_asert_ok
    by (intro exI [of _ "bm_block_index bm"] exI [of _ b]) simp
qed



text \<open>
  C6. The proof-of-work check in plain arithmetic: a hash is accepted for a compact target exactly
  when the target is a positive number that is not above the limit and the hash, read as a
  little-endian number, is not above the target.
\<close>

theorem proof_of_work_check:
  assumes "length (cp_powLimit params) = 32" "length hash = 32"
  shows "CheckProofOfWork False hash nBits params \<longleftrightarrow>
    \<not> bit nBits 23 \<and> 0 < compact_value nBits \<and> compact_value nBits \<le> bval (cp_powLimit params) \<and>
    bval hash \<le> compact_value nBits"
  using CheckProofOfWorkImpl_spec [OF assms] by (simp add: CheckProofOfWork_def)

theorem proof_of_work_check_witness:
  "CheckProofOfWork False (le_bytes 32 (2 ^ 200)) 0x1d00ffff CMainParams \<and>
   \<not> CheckProofOfWork False (le_bytes 32 (2 ^ 230)) 0x1d00ffff CMainParams"
  using proof_of_work_check [of CMainParams "le_bytes 32 (2 ^ 200)" "0x1d00ffff"]
    proof_of_work_check [of CMainParams "le_bytes 32 (2 ^ 230)" "0x1d00ffff"]
  by (simp add: CMainParams_def Let_def bval_uint256_of_hex bval_le_bytes compact_value_def compact_decode_def)

text \<open>
  C7. The compact encoding of targets loses only low-order digits: decoding what was encoded gives a
  value that is not above the original, differs from it by less than one unit of the last place kept,
  is zero only for zero, never carries the sign or overflow flag, and encodes to the same bits again.
\<close>

theorem compact_encoding_rounds_down:
  assumes "length a = 8" "GetCompact a False = Inr c" "SetCompact c = (v, neg, ovf)"
  shows "\<not> neg \<and> \<not> ovf \<and> nval v \<le> nval a \<and> nval a < nval v + 256 ^ (enc_size (nval a) - 3) \<and>
    (nval v = 0 \<longleftrightarrow> nval a = 0) \<and> GetCompact v False = Inr c"
  using SetCompact_GetCompact_bounds [OF assms] GetCompact_stable [OF assms] by blast

theorem compact_encoding_rounds_down_witness:
  "\<exists>c v. GetCompact (limbs_of 8 0x123456789) False = Inr c \<and> SetCompact c = (v, False, False) \<and>
   nval v \<le> 0x123456789 \<and> 0 < nval v \<and> GetCompact v False = Inr c"
proof -
  obtain c where c: "GetCompact (limbs_of 8 0x123456789) False = Inr c"
    using GetCompact_nval [of "limbs_of 8 0x123456789"] by auto
  obtain v neg ovf where s: "SetCompact c = (v, neg, ovf)" by (cases "SetCompact c")
  show ?thesis using compact_encoding_rounds_down [OF _ c s] c s by (simp add: nval_limbs_of)
qed

subsection \<open>Scripts\<close>

text \<open>
  C8. Script flags are soft forks. Whatever an input check accepts under a set of flags, it accepts under
  every subset of them, for every script, redeem script, witness and transaction, as long as the smaller
  set respects the two implications that \<^verbatim>\<open>VerifyScript\<close> asserts (a clean stack needs the witness rules, and
  these need pay-to-script-hash). The accepting runs differ in nothing but the validation weight left.
\<close>

theorem flags_are_soft_forks:
  assumes "sc_checker ctx = TransactionSignatureChecker cc g" "flags_consistent (sc_flags ctx)"
    "sc_flags ctx AND F = sc_flags ctx" "VerifyScript (ctx\<lparr>sc_flags := F\<rparr>) scriptSig scriptPubKey witness = Inr ()"
  shows "VerifyScript ctx scriptSig scriptPubKey witness = Inr ()"
proof -
  have "stricter (ctx\<lparr>sc_flags := F\<rparr>) ctx" using assms(3) by (auto simp: stricter_def)
  then have "allows (\<lambda>_ _. True) (VerifyScript ctx scriptSig scriptPubKey witness) (VerifyScript (ctx\<lparr>sc_flags := F\<rparr>) scriptSig scriptPubKey witness)"
    using assms(1,2) by (intro tx_checker.VerifyScript_allows) (auto simp: flags_consistent_def flag_def)
  then show ?thesis using assms(4) by (auto simp: allows_def)
qed

theorem flags_are_soft_forks_witness:
  "VerifyScript sample_ctx [] (txout_scriptPubKey p2mr_output) p2mr_witness = Inr ()"
proof (rule flags_are_soft_forks [OF _ _ _ sample_spend])
  show "sc_checker sample_ctx = TransactionSignatureChecker sample_crypto (input_checker p2mr_output p2mr_spend 0 new_txdata)"
    by (simp add: sample_ctx_def)
qed (simp_all add: sample_ctx_def sample_flags)

text \<open>
  C9. The check of an input always gives a verdict. With the data precomputed for the transaction and the
  outputs it spends, \<^verbatim>\<open>CScriptCheck\<close> ends with acceptance or with an error code of the script for every
  script and witness: no assertion of the interpreter, of the signature hashes or of the checker is
  reached, among them those on missing data and on the stack of a pay-to-script-hash input, and no
  integer overflows.
\<close>

theorem script_check_gives_verdict:
  assumes "hashes_sized ctx" "flags_consistent F" "txdata_Init sha new_txdata tx outs False = Inr txdata"
    "unat nIn < length (tx_vin tx)" "outs \<noteq> []" "length (tx_vin tx) < 2 ^ 32" "length (tx_vout tx) < 2 ^ 32"
    "0 \<le> txout_nValue (outs ! unat nIn)"
  shows "case CScriptCheck_call ctx cc F (outs ! unat nIn) tx nIn txdata of
      Inr _ \<Rightarrow> True | Inl e \<Rightarrow> \<exists>err. e = Script_Error err"
  using CScriptCheck_clean [OF assms] by (auto simp: clean_def split: sum.split)

theorem script_check_gives_verdict_witness:
  "\<exists>txdata. txdata_Init sample_sha new_txdata p2mr_spend [p2mr_output] False = Inr txdata \<and>
    (case CScriptCheck_call sample_ctx sample_crypto consensus_flags p2mr_output p2mr_spend 0 txdata of
      Inr _ \<Rightarrow> True | Inl e \<Rightarrow> \<exists>err. e = Script_Error err)"
proof -
  have "length [p2mr_output] = length (tx_vin p2mr_spend)" by (simp add: p2mr_spend_def)
  then obtain d where d: "txdata_Init sample_sha new_txdata p2mr_spend [p2mr_output] False = Inr d"
    using txdata_Init_returns by blast
  show ?thesis using script_check_gives_verdict [OF sample_ctx_hashes sample_flags(1) d, of 0 sample_crypto] d
    by (simp add: p2mr_spend_def p2mr_output_def)
qed

text \<open>
  C10. The script machine is type safe. A run from a stack within the limits ends with a stack of at most
  1000 elements, none larger than the largest on entry or 520 bytes, and with the initialisation flags
  and the validation weight still in order, or it ends with an error code of the script.
\<close>

theorem script_machine_type_safe:
  assumes "520 \<le> lim" "checker_total (sc_sigversion ctx) (sc_checker ctx)" "hashes_sized ctx" "sc_sigversion ctx \<noteq> TAPROOT"
    "length stack \<le> MAX_STACK_SIZE" "small lim stack" "exec_ok ctx (d\<lparr>m_codeseparator_pos_init := True\<rparr>)"
  shows "case EvalScript ctx script stack d of
      Inr (stack', d') \<Rightarrow> length stack' \<le> MAX_STACK_SIZE \<and> small lim stack' \<and> exec_ok ctx d'
    | Inl e \<Rightarrow> \<exists>err. e = Script_Error err"
  by (rule EvalScript_safe [OF assms])

theorem script_machine_type_safe_witness:
  "case EvalScript sample_ctx [OP_DUP, OP_HASH160] [[1, 2, 3]] new_execdata of
      Inr (stack', d') \<Rightarrow> length stack' \<le> MAX_STACK_SIZE \<and> small 520 stack' \<and> exec_ok sample_ctx d'
    | Inl e \<Rightarrow> \<exists>err. e = Script_Error err"
proof (rule script_machine_type_safe [OF order.refl _ sample_ctx_hashes])
  show "checker_total (sc_sigversion sample_ctx) (sc_checker sample_ctx)"
    using ecdsa_total(1) [of "input_checker p2mr_output p2mr_spend 0 new_txdata" sample_crypto]
    by (simp add: sample_ctx_def input_checker_def p2mr_spend_def p2mr_output_def)
qed (simp_all add: sample_ctx_def MAX_STACK_SIZE_def small_def exec_ok_def)

text \<open>
  C11. A P2MR output binds its spender to a tree of scripts. If a witness is accepted for the root of a
  tree, then the script it runs, with its leaf version, is a leaf of that tree, or the hashes computed on
  the way up and in the tree contain a collision of the hash function.
\<close>

theorem p2mr_runs_committed_script:
  assumes "\<And>x. length (sc_sha256 ctx x) = 32" "flag ctx SCRIPT_VERIFY_P2MR_RULES"
    "list_all (\<lambda>x. length x \<le> MAX_SIZE) witness" "list_all (\<lambda>(v, s). length s \<le> MAX_SIZE) (leaves t)"
    "VerifyWitnessProgram ctx witness 2 (tree_root (sc_sha256 ctx) t) False = Inr ()"
    "spent_leaf (sc_sha256 ctx) witness = (leaf_version, script, control)"
  shows "(leaf_version, script) \<in> set (leaves t) \<or>
    collision (sc_sha256 ctx) (climb_inputs (sc_sha256 ctx) leaf_version script (control_path control)) (tree_inputs (sc_sha256 ctx) t)"
proof (rule verify_p2mr_committed [OF assms(1,3,4,2) _ assms(6)])
  show "verify_p2mr ctx witness (tree_root (sc_sha256 ctx) t) = Inr ()"
    using assms(5) by (simp add: VerifyWitnessProgram_def tree_root_length assms(1))
qed

theorem p2mr_runs_committed_script_witness:
  "(0xc0, [OP_1]) \<in> set (leaves sample_tree) \<or>
   collision sample_sha (climb_inputs sample_sha 0xc0 [OP_1] (control_path (last p2mr_witness))) (tree_inputs sample_sha sample_tree)"
proof -
  have e: "sc_sha256 sample_ctx = sample_sha" by (simp add: sample_ctx_def)
  have v: "VerifyWitnessProgram sample_ctx p2mr_witness 2 (tree_root (sc_sha256 sample_ctx) sample_tree) False = Inr ()" by code_simp
  have l: "spent_leaf (sc_sha256 sample_ctx) p2mr_witness = (0xc0, [OP_1], last p2mr_witness)" by code_simp
  have s: "\<And>x. length (sc_sha256 sample_ctx x) = 32" by (simp add: sample_ctx_def sample_sha_def)
  show ?thesis using p2mr_runs_committed_script [OF s _ _ _ v l] unfolding e
    by (simp add: sample_ctx_def flag_def has_flag_def consensus_flags_def flag_defs SCRIPT_VERIFY_P2SH_def SCRIPT_VERIFY_WITNESS_def
      p2mr_witness_def control_block_def sample_tree_def ComputeP2MRLeafHash_def GetSHA256_def sample_sha_def MAX_SIZE_def)
qed

text \<open>
  C12. Every script of the tree behind a P2MR output can be spent. For a leaf of version 0xc0 at a depth
  of at most 128, with its siblings in the control block, verification is exactly the resource check of
  the arguments followed by the run of the script, with the leaf hash and the validation weight of the
  whole witness in the execution data.
\<close>

theorem p2mr_leaf_can_be_spent:
  assumes "\<And>x. length (sc_sha256 ctx x) = 32" "flag ctx SCRIPT_VERIFY_P2MR_RULES"
    "((P2MR_LEAF_VERSION_V1, script), path) \<in> set (paths (sc_sha256 ctx) t)" "length path \<le> 128"
  shows "VerifyWitnessProgram ctx (args @ [script, control_block P2MR_LEAF_VERSION_V1 path]) 2 (tree_root (sc_sha256 ctx) t) False =
    bindE (CheckP2MRV1InitialStackResourceLimits args) (\<lambda>_.
      ExecuteWitnessScript (ctx\<lparr>sc_sigversion := P2MR\<rparr>) args script
        (start_weight (args @ [script, control_block P2MR_LEAF_VERSION_V1 path])
          (new_execdata\<lparr>m_annex_present := False, m_annex_init := True,
            m_tapleaf_hash := ComputeP2MRLeafHash (sc_sha256 ctx) P2MR_LEAF_VERSION_V1 script, m_tapleaf_hash_init := True\<rparr>)))"
proof -
  let ?c = "control_block P2MR_LEAF_VERSION_V1 path"
  have c: "?c ! 0 = 0xc1" by (simp add: control_block_def P2MR_LEAF_VERSION_V1_def)
  have l: "length ?c = 1 + 32 * length path" using climb_complete [OF assms(1,3)] by (simp add: control_block_def length_concat_nodes)
  have ne: "?c \<noteq> []" by (simp add: control_block_def)
  have a: "drop_annex (sc_sha256 ctx) (args @ [script, ?c]) new_execdata =
      (args @ [script, ?c], new_execdata\<lparr>m_annex_present := False, m_annex_init := True\<rparr>)"
    using c by (simp add: drop_annex_def ANNEX_TAG_def)
  have b: "butlast (args @ [script, ?c]) = args @ [script]" "last (args @ [script, ?c]) = ?c" "length (args @ [script, ?c]) = length args + 2"
    by (simp_all add: butlast_append)
  have v: "VerifyP2MRCommitment (sc_sha256 ctx) ?c (tree_root (sc_sha256 ctx) t) (ComputeP2MRLeafHash (sc_sha256 ctx) P2MR_LEAF_VERSION_V1 script) = Inr True"
    using VerifyP2MRCommitment_complete [OF assms(1,3,4)] .
  have m: "(0xc1 :: byte) AND TAPROOT_LEAF_MASK = P2MR_LEAF_VERSION_V1" "(0xc1 :: byte) AND 1 = 1"
    by (simp_all add: TAPROOT_LEAF_MASK_def P2MR_LEAF_VERSION_V1_def)
  show ?thesis
    using assms(2,4) l ne by (simp add: VerifyWitnessProgram_def tree_root_length assms(1) verify_p2mr_def a b c m v Let_def cxx_def
      P2MR_CONTROL_BASE_SIZE_def P2MR_CONTROL_MAX_SIZE_def P2MR_CONTROL_NODE_SIZE_def)
qed

theorem p2mr_leaf_can_be_spent_witness:
  "VerifyWitnessProgram sample_ctx ([] @ [[OP_1], control_block P2MR_LEAF_VERSION_V1 [ComputeP2MRLeafHash sample_sha 0xc0 [OP_RETURN]]]) 2
      (tree_root (sc_sha256 sample_ctx) sample_tree) False =
    bindE (CheckP2MRV1InitialStackResourceLimits []) (\<lambda>_.
      ExecuteWitnessScript (sample_ctx\<lparr>sc_sigversion := P2MR\<rparr>) [] [OP_1]
        (start_weight ([] @ [[OP_1], control_block P2MR_LEAF_VERSION_V1 [ComputeP2MRLeafHash sample_sha 0xc0 [OP_RETURN]]])
          (new_execdata\<lparr>m_annex_present := False, m_annex_init := True,
            m_tapleaf_hash := ComputeP2MRLeafHash (sc_sha256 sample_ctx) P2MR_LEAF_VERSION_V1 [OP_1], m_tapleaf_hash_init := True\<rparr>)))"
  by (rule p2mr_leaf_can_be_spent)
    (simp_all add: sample_ctx_def sample_sha_def flag_def has_flag_def consensus_flags_def flag_defs SCRIPT_VERIFY_P2SH_def
      SCRIPT_VERIFY_WITNESS_def sample_tree_def P2MR_LEAF_VERSION_V1_def)

text \<open>
  C13. The caches of signature hashes change no verdict. A checker object that carries its cache of
  midstates through any sequence of ECDSA checks of one input, and uses the precomputed transaction
  hashes, answers each of them as a check that computes the whole signature hash anew.
\<close>

theorem signature_caches_transparent:
  assumes "txdata_Init (cc_sha256 cc) new_txdata tx outs force = Inr txdata" "unat nIn < length (tx_vin tx)"
    "sv = WITNESS_V0 \<Longrightarrow> 0 \<le> amount"
  shows "ecdsa_checks cc \<lparr>gc_txTo = tx, gc_mdb = mdb, gc_nIn = nIn, gc_amount = amount, gc_txdata = Some txdata\<rparr> sv new_SigHashCache qs =
    Inr (map (\<lambda>(sig, key, code). CPubKey_IsValid key \<and> sig \<noteq> [] \<and>
      (\<exists>h. SignatureHash (cc_sha256 cc) code tx nIn (ucast (last sig)) amount sv None None = Inr (h, None) \<and>
        VerifyECDSASignature cc key h (butlast sig))) qs)"
  by (rule ecdsa_checks_plain [OF assms])

theorem signature_caches_transparent_witness:
  "\<exists>txdata. txdata_Init sample_sha new_txdata p2mr_spend [p2mr_output] False = Inr txdata \<and>
    ecdsa_checks sample_crypto \<lparr>gc_txTo = p2mr_spend, gc_mdb = FAIL, gc_nIn = 0, gc_amount = 5, gc_txdata = Some txdata\<rparr> WITNESS_V0
      new_SigHashCache [([1, 2], [2], [OP_1]), ([3, 2], [2], [OP_1])] = Inr [False, False]"
proof -
  have "length [p2mr_output] = length (tx_vin p2mr_spend)" by (simp add: p2mr_spend_def)
  then obtain d where d: "txdata_Init sample_sha new_txdata p2mr_spend [p2mr_output] False = Inr d"
    using txdata_Init_returns by blast
  then show ?thesis
    using signature_caches_transparent [of sample_crypto p2mr_spend "[p2mr_output]" False d 0 WITNESS_V0 5 FAIL
        "[([1, 2], [2], [OP_1]), ([3, 2], [2], [OP_1])]"]
    by (simp add: sample_crypto_def p2mr_spend_def CPubKey_IsValid_def GetLen_def)
qed

text \<open>
  C14. Script numbers have one minimal encoding. A nonzero number that fits the permitted width is read
  back from its serialization, and an encoding that the minimal reader accepts is the serialization of
  the number it reads.
\<close>

theorem script_number_roundtrip:
  assumes "0 < n" "n \<le> 8"
  shows "(0 < \<bar>v\<bar> \<and> \<bar>v\<bar> < 2 ^ (8 * n - 1) \<longrightarrow> CScriptNum (scriptnum_serialize v) minimal n = Inr v) \<and>
    (CScriptNum vch True n = Inr v \<longrightarrow> scriptnum_serialize v = vch)"
  using scriptnum_read_back [of v n minimal] scriptnum_unique [of vch n v] assms by auto

theorem script_number_roundtrip_witness:
  "CScriptNum (scriptnum_serialize (- 255)) True 4 = Inr (- 255) \<and> scriptnum_serialize (- 255) = [0xff, 0x80]"
proof -
  have c: "CScriptNum [0xff, 0x80] True 4 = Inr (- 255)" by code_simp
  show ?thesis using script_number_roundtrip [of 4 "- 255" True "[0xff, 0x80]"] c by simp
qed

text \<open>
  C15. The condition stack of the interpreter, which stores only its size and the position of the first
  false value, refines a stack of booleans: any sequence of pushes, pops and toggles that a list of
  booleans admits runs without an assertion and answers emptiness and truth of all values as the list.
\<close>

theorem condition_stack_refines_list:
  assumes "spec_conds ops [] = Some bs" "length ops < 2 ^ 32 - 1"
  shows "\<exists>c. run_conds ops new_ConditionStack = Inr c \<and> (cond_empty c \<longleftrightarrow> bs = []) \<and> (all_true c \<longleftrightarrow> False \<notin> set bs)"
  using run_conds_refine [OF cond_repr_new, of ops bs] assms cond_repr_empty cond_repr_all_true by auto

theorem condition_stack_refines_list_witness:
  "\<exists>c. run_conds [Cond_Push True, Cond_Push False, Cond_Toggle, Cond_Push False, Cond_Pop] new_ConditionStack = Inr c \<and>
    \<not> cond_empty c \<and> all_true c"
  using condition_stack_refines_list [of "[Cond_Push True, Cond_Push False, Cond_Toggle, Cond_Push False, Cond_Pop]" "[True, True]"]
  by simp

subsection \<open>Coins\<close>

text \<open>
  C16. The coin cache over the database refines a plain map of unspent coins. Any sequence of lookups,
  additions, spends, evictions, tip changes, syncs and flushes that the map admits gives the same answers
  on the cache with its flags, its linked list of flagged entries and its batched writes, whatever the
  batch size; afterwards the cache still represents the map and passes its own consistency check.
\<close>

theorem coin_cache_refines_map:
  assumes "mu [] = 0" "represents mu st s" "spec_calls calls s = Some (answers, s')"
  shows "\<exists>cache db. run_calls mu full calls st = Inr (answers, cache, db) \<and> represents mu (cache, db) s' \<and> SanityCheck mu cache = Inr ()"
proof -
  obtain st' where r: "run_calls mu full calls st = Inr (answers, st')" "represents mu st' s'"
    using run_calls_refine [OF assms] by blast
  obtain cache db where "st' = (cache, db)" by (cases st')
  then show ?thesis using r represents_sane [of mu cache db s'] by blast
qed

theorem coin_cache_refines_map_witness:
  "\<exists>cache db. run_calls (\<lambda>s. 0) (\<lambda>b. True) [Call_HaveCoin sample_point, Call_SpendCoin sample_point, Call_Flush, Call_GetCoin sample_point]
      (sample_cache, sample_db) = Inr ([Bool_Answer True, Coin_Answer (Some sample_coin), Bool_Answer True, Coin_Answer None], cache, db) \<and>
    SanityCheck (\<lambda>s. 0) cache = Inr ()"
  using coin_cache_refines_map [of "\<lambda>s. 0", OF _ sample_represents, of
      "[Call_HaveCoin sample_point, Call_SpendCoin sample_point, Call_Flush, Call_GetCoin sample_point]"
      "[Bool_Answer True, Coin_Answer (Some sample_coin), Bool_Answer True, Coin_Answer None]"
      "\<lparr>cs_coins = Map.empty, cs_tip = replicate 32 2\<rparr>" "\<lambda>b. True"]
  by auto

text \<open>
  C17. A crash in the middle of a flush leaves a database that says so. Each state the database passes
  through while a cache is written in batches has no best block, names the new and the old tip as its
  two heads, and has every coin either as it was or as it will be; the final state has the new tip, no
  heads and exactly the written coins.
\<close>

theorem flush_crash_consistent:
  assumes "db_tip_ok db new_tip" "distinct (map fst entries)"
  shows "\<exists>states final old_tip. db_BatchWrite full entries new_tip db = Inr (states, final) \<and>
    old_tip_of new_tip db = Inr old_tip \<and>
    db_GetBestBlock final = new_tip \<and> GetHeadBlocks final = [] \<and> db_coins final = flushed (db_coins db) entries \<and>
    (\<forall>s\<in>set states. db_best_block s = None \<and> GetHeadBlocks s = [new_tip, old_tip] \<and>
      (\<forall>op. db_coins s op = db_coins db op \<or> db_coins s op = db_coins final op))"
proof (rule db_BatchWrite_ok [OF assms, of full])
  fix states
  let ?final = "\<lparr>db_coins = flushed (db_coins db) entries, db_best_block = Some new_tip, db_head_blocks = None\<rparr>"
  assume w: "db_BatchWrite full entries new_tip db = Inr (states, ?final)"
    and s: "\<And>s. s \<in> set states \<Longrightarrow> db_best_block s = None \<and> (\<exists>t. old_tip_of new_tip db = Inr t \<and> db_head_blocks s = Some [new_tip, t]) \<and>
      (\<forall>op. db_coins s op = db_coins db op \<or> db_coins s op = flushed (db_coins db) entries op)"
  obtain t where t: "old_tip_of new_tip db = Inr t" using assms(1) by (auto simp: db_tip_ok_def)
  have "GetHeadBlocks x = [new_tip, t]" if "x \<in> set states" for x using s [OF that] t by (auto simp: GetHeadBlocks_def)
  then show ?thesis using s
    by (intro exI [of _ states] exI [of _ ?final] exI [of _ t]) (simp add: w t db_GetBestBlock_def GetHeadBlocks_def [of ?final])
qed

theorem flush_crash_consistent_witness:
  "\<exists>states final old_tip. db_BatchWrite (\<lambda>b. True) [(sample_point, \<lparr>ce_coin = coinEmpty, ce_dirty = True, ce_fresh = False\<rparr>)] (replicate 32 3) sample_db =
      Inr (states, final) \<and> old_tip_of (replicate 32 3) sample_db = Inr old_tip \<and>
    db_GetBestBlock final = replicate 32 3 \<and> (\<forall>s\<in>set states. db_best_block s = None \<and> GetHeadBlocks s = [replicate 32 3, old_tip])"
proof -
  have "db_tip_ok sample_db (replicate 32 3)"
    by (simp add: db_tip_ok_def sample_db_def old_tip_of_def db_GetBestBlock_def GetHeadBlocks_def uint256_IsNull_def list_all_iff)
  then show ?thesis using flush_crash_consistent [of sample_db "replicate 32 3" "[(sample_point, \<lparr>ce_coin = coinEmpty, ce_dirty = True, ce_fresh = False\<rparr>)]" "\<lambda>b. True"]
    by fastforce
qed

text \<open>
  C18. How adding a coin ends. A spent coin trips the assertion; a coin with an unspendable script changes
  nothing; a coin over an unspent cached one that the caller did not announce throws; in every other case
  the coin is added, provided the view below has none the caller did not announce, and the invariant of
  the cache is kept.
\<close>

theorem add_coin_outcomes:
  assumes "cache_inv mu B c" "mu [] = 0"
  shows "(Coin_IsSpent coin \<longrightarrow> AddCoin mu op coin ow c = Inl Assert_Failure) \<and>
    (\<not> Coin_IsSpent coin \<and> IsUnspendable (txout_scriptPubKey (coin_out coin)) \<longrightarrow> AddCoin mu op coin ow c = Inr c) \<and>
    (\<not> Coin_IsSpent coin \<and> \<not> IsUnspendable (txout_scriptPubKey (coin_out coin)) \<longrightarrow>
      (\<not> ow \<and> (\<exists>e. cc_cacheCoins c op = Some e \<and> \<not> Coin_IsSpent (ce_coin e)) \<longrightarrow> AddCoin mu op coin ow c = Inl Logic_Error) \<and>
      (ow \<or> cache_view B c op = None \<longrightarrow>
        (\<exists>c'. AddCoin mu op coin ow c = Inr c' \<and> cache_inv mu B c' \<and> cache_view B c' = (cache_view B c)(op \<mapsto> coin))))"
proof -
  have "\<exists>c'. AddCoin mu op coin ow c = Inr c' \<and> cache_inv mu B c' \<and> cache_view B c' = (cache_view B c)(op \<mapsto> coin)"
    if "\<not> Coin_IsSpent coin" "\<not> IsUnspendable (txout_scriptPubKey (coin_out coin))" "ow \<or> cache_view B c op = None"
    using AddCoin_ok [OF assms that(1,2)] that(3) by blast
  then show ?thesis using AddCoin_unspendable [of coin mu op ow c] AddCoin_refuses [of c op _ coin mu]
    by (auto simp: AddCoin_def cxx_assert_def)
qed

theorem add_coin_outcomes_witness:
  "AddCoin (\<lambda>s. 0) sample_point coinEmpty False sample_cache = Inl Assert_Failure \<and>
   (\<exists>c'. AddCoin (\<lambda>s. 0) sample_point sample_coin False sample_cache = Inr c' \<and>
     cache_view Map.empty c' = [sample_point \<mapsto> sample_coin])"
proof -
  note o = add_coin_outcomes [OF sample_cache_ok(1) [of Map.empty] refl, of _ sample_point False, unfolded sample_cache_ok(2)]
  show ?thesis using o [of coinEmpty] o [of sample_coin] sample_coin_good by auto
qed

text \<open>
  C19. Disconnecting a block undoes connecting it. From the undo data that the coin updates of
  \<^verbatim>\<open>ConnectBlock\<close> record, \<^verbatim>\<open>DisconnectBlock\<close> restores exactly the coins from before the block, reports a clean
  result and moves the tip to the previous block, for every block whose transactions can be connected.
\<close>

theorem disconnect_undoes_connect:
  assumes "cache_inv mu B c" "base_ok B" "mu [] = 0" "0 < bi_nHeight pindex" "bi_nHeight pindex < 2 ^ 31"
    "good_view (cache_view B c)" "block_connectable H (bi_nHeight pindex) txs (cache_view B c)" "txs \<noteq> []"
    "\<And>i. i < length txs \<Longrightarrow> IsCoinBase (txs ! i) \<longleftrightarrow> i = 0"
    "bi_phashBlock pindex = Some hash" "bi_pprev pindex = Some q" "index q = Some prev" "bi_phashBlock prev = Some prev_hash"
  shows "\<exists>undo c1 c2. connect_coins H mu B (bi_nHeight pindex) 0 txs [] c = Inr (undo, c1) \<and>
    cache_view B c1 = effects H (bi_nHeight pindex) txs (cache_view B c) \<and>
    DisconnectBlock H mu B index (Some undo) txs pindex c1 = Inr (DISCONNECT_OK, c2) \<and>
    cache_inv mu B c2 \<and> cache_view B c2 = cache_view B c \<and> cc_hashBlock c2 = prev_hash"
proof -
  obtain c1 where c1: "connect_coins H mu B (bi_nHeight pindex) 0 txs [] c = Inr (tl (undos H (bi_nHeight pindex) txs (cache_view B c)), c1)"
      "cache_inv mu B c1" "cache_view B c1 = effects H (bi_nHeight pindex) txs (cache_view B c)"
    using connect_coins_ok [OF assms(2,3,1,7), of 0 "[]"] by auto
  obtain c2 where "DisconnectBlock H mu B index (Some (tl (undos H (bi_nHeight pindex) txs (cache_view B c)))) txs pindex c1 = Inr (DISCONNECT_OK, c2)"
      "cache_inv mu B c2" "cache_view B c2 = cache_view B c" "cc_hashBlock c2 = prev_hash"
    using DisconnectBlock_ok [where st = index and prev = prev, OF c1(2) assms(2-9) c1(3) assms(10-13)] by blast
  then show ?thesis using c1 by blast
qed

theorem disconnect_undoes_connect_witness:
  "\<exists>undo c1 c2. connect_coins sample_hash (\<lambda>s. 0) [sample_point \<mapsto> sample_coin] 7 0 sample_block_coins [] sample_cache = Inr (undo, c1) \<and>
    cache_view [sample_point \<mapsto> sample_coin] c1 \<noteq> [sample_point \<mapsto> sample_coin] \<and>
    DisconnectBlock sample_hash (\<lambda>s. 0) [sample_point \<mapsto> sample_coin] [replicate 32 4 \<mapsto> new_CBlockIndex sample_genesis\<lparr>bi_phashBlock := Some (replicate 32 4)\<rparr>]
      (Some undo) sample_block_coins
      (new_CBlockIndex sample_genesis\<lparr>bi_nHeight := 7, bi_phashBlock := Some (replicate 32 5), bi_pprev := Some (replicate 32 4)\<rparr>) c1 =
      Inr (DISCONNECT_OK, c2) \<and> cache_view [sample_point \<mapsto> sample_coin] c2 = [sample_point \<mapsto> sample_coin]"
proof -
  let ?B = "[sample_point \<mapsto> sample_coin]"
  let ?b = "new_CBlockIndex sample_genesis\<lparr>bi_nHeight := 7, bi_phashBlock := Some (replicate 32 5), bi_pprev := Some (replicate 32 4)\<rparr>"
  note i = sample_cache_ok [of ?B]
  have g: "good_view ?B" "base_ok ?B" using sample_coin_good by (auto simp: good_view_def good_coin_def base_ok_def) (simp add: sample_coin_def)
  have cb: "IsCoinBase (sample_block_coins ! k) \<longleftrightarrow> k = 0" if "k < length sample_block_coins" for k
    using that by (cases k) (auto simp: sample_block_coins_def IsCoinBase_def COutPoint_IsNull_def uint256_IsNull_def uint256_null_def NULL_INDEX_def
      sample_point_def list_all_iff)
  have e: "effects sample_hash 7 sample_block_coins ?B sample_point = None"
    by (simp add: sample_block_coins_def tx_effect_def spent_by_def IsCoinBase_def COutPoint_IsNull_def uint256_IsNull_def uint256_null_def
      NULL_INDEX_def list_all_iff created_def Let_def tx_GetHash_def sample_hash_def sample_point_def map_add_def restrict_map_def replicate_eq_replicate)
  obtain undo c1 c2 where r: "connect_coins sample_hash (\<lambda>s. 0) ?B 7 0 sample_block_coins [] sample_cache = Inr (undo, c1)"
      "cache_view ?B c1 = effects sample_hash 7 sample_block_coins ?B"
      "DisconnectBlock sample_hash (\<lambda>s. 0) ?B [replicate 32 4 \<mapsto> new_CBlockIndex sample_genesis\<lparr>bi_phashBlock := Some (replicate 32 4)\<rparr>]
        (Some undo) sample_block_coins ?b c1 = Inr (DISCONNECT_OK, c2)" "cache_view ?B c2 = ?B"
    using disconnect_undoes_connect [OF i(1) g(2) refl, of ?b sample_hash sample_block_coins "replicate 32 5" "replicate 32 4"
        "[replicate 32 4 \<mapsto> new_CBlockIndex sample_genesis\<lparr>bi_phashBlock := Some (replicate 32 4)\<rparr>]"
        "new_CBlockIndex sample_genesis\<lparr>bi_phashBlock := Some (replicate 32 4)\<rparr>" "replicate 32 4"] g(1) cb sample_block_connectable
    by (auto simp: i(2) sample_block_coins_def)
  then have "cache_view ?B c1 \<noteq> ?B" using e by auto
  then show ?thesis using r by blast
qed

subsection \<open>Loops that end\<close>

text \<open>
  C20. The search for the last block with a real difficulty, a loop with no bound of its own, ends: in
  every index that can be built, started at any block, it returns after at most one round per block of
  height, with the compact target of some block.
\<close>

theorem real_difficulty_search_ends:
  assumes "reachable_index H bm" "bm_block_index bm p = Some b" "bi_nHeight b < 2 ^ 31" "0 < interval" "interval < 2 ^ 63"
    "nat (bi_nHeight b) < rounds"
  shows "\<exists>bits. last_real_bits rounds (bm_block_index bm) interval limit p = Inr bits"
  using last_real_bits_returns [where st = "bm_block_index bm", OF _ assms(4,5,2,3,6)] reachable_index_wf [OF assms(1)] by (auto simp: wf_manager_def)

theorem real_difficulty_search_ends_witness:
  "\<exists>bm p bits. reachable_index sample_hash bm \<and> last_real_bits 1 (bm_block_index bm) 2016 0x1d00ffff p = Inr bits"
proof -
  obtain bm b where b: "reachable_index sample_hash bm" "bm_block_index bm = [replicate 32 1 \<mapsto> b]" "bi_nHeight b = 0"
    by (rule sample_index)
  then have "\<exists>bits. last_real_bits 1 (bm_block_index bm) 2016 0x1d00ffff (replicate 32 1) = Inr bits"
    using real_difficulty_search_ends [OF b(1), of "replicate 32 1" b 2016 1] by simp
  then show ?thesis using b(1) by blast
qed

subsection \<open>Emission\<close>

text \<open>
  C21. The subsidy schedule in closed form, for parameters with an initial reward in the money range, a
  positive interval and a stepdown ratio from zero to one with a denominator below 2 to the 31: the reward at height \<^verbatim>\<open>h\<close> is the initial
  reward, multiplied by the ratio and rounded down once for every completed interval. So it never rises
  with the height and stays between zero and the initial reward. Below the genesis block it is zero.
\<close>

theorem subsidy_schedule:
  assumes "subsidy_params_ok params"
  shows "\<exists>s. GetBlockSubsidy h params = Inr s \<and>
    s = (if h < 0 then 0
         else ((\<lambda>r. r * cp_nSubsidyStepdownNumerator params div cp_nSubsidyStepdownDenominator params)
           ^^ nat (h div cp_nSubsidyStepInterval params)) (cp_nSubsidyInitial params)) \<and>
    0 \<le> s \<and> s \<le> cp_nSubsidyInitial params \<and>
    (\<forall>h'\<ge>h. 0 \<le> h \<longrightarrow> (\<exists>r\<le> s. GetBlockSubsidy h' params = Inr r))"
proof (cases "h < 0")
  case True
  then show ?thesis using assms by (simp add: GetBlockSubsidy_def subsidy_params_ok_def MoneyRange_def)
next
  case False
  let ?n = "\<lambda>h. nat (h div cp_nSubsidyStepInterval params)"
  let ?s = "\<lambda>h. subsidy_after (?n h) (cp_nSubsidyStepdownNumerator params)
      (cp_nSubsidyStepdownDenominator params) (cp_nSubsidyInitial params)"
  have p: "0 < cp_nSubsidyStepInterval params" "0 \<le> cp_nSubsidyStepdownNumerator params"
    "cp_nSubsidyStepdownNumerator params \<le> cp_nSubsidyStepdownDenominator params"
    "0 < cp_nSubsidyStepdownDenominator params" "0 \<le> cp_nSubsidyInitial params"
    using assms by (auto simp: subsidy_params_ok_def MoneyRange_def)
  have g: "GetBlockSubsidy h' params = Inr (?s h')" if "h \<le> h'" for h'
    using GetBlockSubsidy_after [OF assms] that False by simp
  have "?s h' \<le> ?s h" if "h \<le> h'" for h'
    using that p subsidy_after_mono [OF p(2-5)] by (simp add: zdiv_mono1 nat_mono)
  then show ?thesis using False g subsidy_after_bounds [OF p(2-5), of "?n h"]
    by (auto simp: subsidy_after_funpow)
qed

theorem subsidy_schedule_witness:
  "GetBlockSubsidy 43199 CMainParams = Inr 21000000000 \<and> GetBlockSubsidy 43200 CMainParams = Inr 20092800000 \<and>
   GetBlockSubsidy (2 * 43200) CMainParams = Inr 19224791040"
proof -
  have "cp_nSubsidyInitial CMainParams = 21000000000" "cp_nSubsidyStepInterval CMainParams = 43200"
    "cp_nSubsidyStepdownNumerator CMainParams = 598" "cp_nSubsidyStepdownDenominator CMainParams = 625"
    by (simp_all add: CMainParams_def Let_def COIN_def)
  then show ?thesis
    using subsidy_schedule [OF main_subsidy_params, of 43199] subsidy_schedule [OF main_subsidy_params, of 43200]
      subsidy_schedule [OF main_subsidy_params, of "2 * 43200"]
    by (auto simp: numeral_2_eq_2)
qed

text \<open>
  C22. The money supply is capped: on the main network the rewards of any number of blocks from the
  genesis block on add up to at most \<^verbatim>\<open>MAX_MONEY\<close>, and every single reward is in the money range.
\<close>

theorem emission_below_max_money:
  "(\<Sum>h<N. block_subsidy CMainParams h) \<le> MAX_MONEY \<and> MoneyRange (block_subsidy CMainParams h)"
  using main_emission main_subsidy by (simp add: MoneyRange_def)

subsection \<open>Merkle trees and merged mining\<close>

text \<open>
  C23. A Merkle root commits to its leaves: two leaf lists of trees of the same height with the same
  root, neither flagged as mutated, are equal, or two different strings that were hashed while
  computing the roots have the same hash.
\<close>

theorem merkle_root_commits:
  assumes "\<And>x. length (H x) = 32" "xs \<noteq> []" "ys \<noteq> []" "tree_height (length xs) = tree_height (length ys)"
    "list_all (\<lambda>h. length h = 32) xs" "list_all (\<lambda>h. length h = 32) ys"
    "ComputeMerkleRoot H xs = (root, False)" "ComputeMerkleRoot H ys = (root, False)"
  shows "xs = ys \<or> (\<exists>x\<in>merkle_inputs H xs. \<exists>y\<in>merkle_inputs H ys. x \<noteq> y \<and> H x = H y)"
  using ComputeMerkleRoot_binding [OF assms] unfolding collision_def .

theorem merkle_root_commits_witness:
  "ComputeMerkleRoot sample_hash [replicate 32 2] = (replicate 32 2, False) \<and>
   (replicate 32 2 = replicate 32 (2 :: byte) \<or>
    (\<exists>x\<in>merkle_inputs sample_hash [replicate 32 2]. \<exists>y\<in>merkle_inputs sample_hash [replicate 32 2].
       x \<noteq> y \<and> sample_hash x = sample_hash y))"
proof -
  have "ComputeMerkleRoot sample_hash [replicate 32 2] = (replicate 32 2, False)"
    by (simp add: ComputeMerkleRoot_def merkle_loop.simps)
  then show ?thesis
    using merkle_root_commits [of sample_hash "[replicate 32 2]" "[replicate 32 2]" "replicate 32 2"]
    by (simp add: sample_hash_def)
qed

text \<open>
  C24. The incremental algorithm agrees with the level by level one: for every position of a list of up
  to two to the thirty-one leaves \<^verbatim>\<open>MerkleComputation\<close> finds the root of \<^verbatim>\<open>ComputeMerkleRoot\<close>, and
  folding the branch it returns over the leaf with \<^verbatim>\<open>CheckMerkleBranch\<close> gives that root back.
\<close>

theorem merkle_path_agrees:
  assumes "length L \<le> 2 ^ 31" "P < length L"
  shows "\<exists>mut path. MerkleComputation H L P = Inr (fst (ComputeMerkleRoot H L), mut, path) \<and>
    ComputeMerklePath H L P = Inr path \<and>
    CheckMerkleBranch H (L ! P) path (of_nat P) = fst (ComputeMerkleRoot H L)"
proof -
  obtain mut path where m: "MerkleComputation H L P = Inr (fst (ComputeMerkleRoot H L), mut, path)"
    using MerkleComputation_ok [OF assms] by blast
  obtain path' where "ComputeMerklePath H L P = Inr path'"
    "CheckMerkleBranch H (L ! P) path' (of_nat P) = fst (ComputeMerkleRoot H L)"
    using ComputeMerklePath_checks [OF assms] by blast
  moreover have "ComputeMerklePath H L P = Inr path" using m by (simp add: ComputeMerklePath_def)
  ultimately show ?thesis using m by auto
qed

theorem merkle_path_agrees_witness:
  "\<exists>mut path. MerkleComputation sample_hash [[1], [2], [3]] 2 =
      Inr (fst (ComputeMerkleRoot sample_hash [[1], [2], [3]]), mut, path) \<and>
    CheckMerkleBranch sample_hash [3] path 2 = fst (ComputeMerkleRoot sample_hash [[1], [2], [3]])"
  using merkle_path_agrees [of "[[1], [2], [3]]" 2 sample_hash] by auto

text \<open>
  C25. Exactly which blocks pass the proof-of-work rule of merged mining. A block that does not signal
  merged mining passes when it carries no payload and, if work is checked, meets its own target. A block
  that does passes when it names this chain and its payload shows: a parent coinbase at the first place
  of the parent's tree, whose branch leads to the Merkle root of the parent header; a parent header that
  meets the target of this block, if work is checked; and in the scriptSig of that coinbase the root of
  the chain tree above this block, in a byte order that is allowed. Its first occurrence must stand right
  after every merged-mining header in the scriptSig, or start within the first 21 bytes when there is
  none, and be followed by the size of the chain tree and a nonce that assigns this chain the slot the
  payload uses.
\<close>

theorem accepted_auxpow:
  "auxpow_Validate H fuzz block params check_pow cv = None \<longleftrightarrow>
    (if SignalsAuxpow block then \<exists>a. hdr_auxpow block = Some a \<and>
      (let n = length (ap_chain_merkle_branch a);
           chain_id = of_int (cp_nAuxpowChainId params) :: u16;
           root = CheckMerkleBranch H (header_GetHash H block) (ap_chain_merkle_branch a) (of_int (ap_chain_index a));
           script = txin_scriptSig (tx_vin (ap_coinbase_tx a) ! 0) in
       GetChainId block = chain_id \<and> IsCoinBase (ap_coinbase_tx a) \<and> ap_coinbase_branch_index a = 0 \<and>
       n \<le> 30 \<and> length (ap_coinbase_merkle_branch a) < 32 \<and>
       CheckMerkleBranch H (tx_GetHash H (ap_coinbase_tx a)) (ap_coinbase_merkle_branch a) 0 = hdr_hashMerkleRoot (ap_parent_block a) \<and>
       (check_pow \<longrightarrow> CheckProofOfWork fuzz (header_GetHash H (ap_parent_block a)) (hdr_nBits block) params) \<and>
       (\<exists>c pos. c \<in> (case cv of INTERNAL \<Rightarrow> {root} | DISPLAY \<Rightarrow> {rev root} | EITHER \<Rightarrow> {root, rev root}) \<and>
         occurs_at c script pos \<and> (\<forall>i<pos. \<not> occurs_at c script i) \<and>
         (\<forall>i. occurs_at MERGED_MINING_HEADER script i \<longrightarrow> i + 4 = pos) \<and>
         ((\<exists>i. occurs_at MERGED_MINING_HEADER script i) \<or> pos \<le> 20) \<and>
         pos + length c + 8 \<le> length script \<and> ReadLE32 (drop (pos + length c) script) = 2 ^ n \<and>
         ap_chain_index a = GetExpectedIndex (ReadLE32 (drop (pos + length c + 4) script)) (uint chain_id) n))
    else hdr_auxpow block = None \<and>
      (check_pow \<longrightarrow> CheckProofOfWork fuzz (header_GetHash H block) (hdr_nBits block) params))"
proof (cases "SignalsAuxpow block")
  case True
  have m: "length MERGED_MINING_HEADER = 4" by (simp add: MERGED_MINING_HEADER_def)
  have "auxpow_Validate H fuzz block params check_pow cv = None \<longleftrightarrow> (\<exists>a. hdr_auxpow block = Some a \<and>
      GetChainId block = of_int (cp_nAuxpowChainId params) \<and>
      CAuxPow_Validate H fuzz a (header_GetHash H block) params (hdr_nBits block) (of_int (cp_nAuxpowChainId params)) check_pow cv = None)"
    using True by (auto simp: auxpow_Validate_def Let_def split: option.splits)
  then show ?thesis
    using True unfolding CAuxPow_Validate_iff check_commitment_iff set_commitments m LEGACY_COMMITMENT_START_LIMIT_def Let_def
    by (simp only: if_True) blast
next
  case False
  then show ?thesis by (auto simp: auxpow_Validate_def HasAuxpow_def)
qed

theorem accepted_auxpow_witness:
  "auxpow_Validate sample_hash False sample_merged_block CMainParams False INTERNAL = None \<and>
   (\<exists>pos. occurs_at (replicate 32 1) sample_script pos \<and> ReadLE32 (drop (pos + 32) sample_script) = 1 \<and>
     GetExpectedIndex (ReadLE32 (drop (36 + pos) sample_script)) 47 0 = 0)"
proof -
  have s: "SignalsAuxpow sample_merged_block" "GetChainId sample_merged_block = 47"
    "hdr_auxpow sample_merged_block = Some sample_auxpow" "hdr_nBits sample_merged_block = 0"
    by (simp_all add: SignalsAuxpow_def GetChainId_def sample_merged_block_def MakeVersion_fields)
  have cid: "cp_nAuxpowChainId CMainParams = 47"
    by (simp add: CMainParams_def Let_def QBIT_MAINNET_AUXPOW_CHAIN_ID_def)
  then have v: "auxpow_Validate sample_hash False sample_merged_block CMainParams False INTERNAL = None"
    using sample_auxpow_valid [of CMainParams] s
    by (simp add: auxpow_Validate_def header_GetHash_def sample_hash_def)
  then obtain pos where "occurs_at (replicate 32 1) sample_script pos" "ReadLE32 (drop (pos + 32) sample_script) = 1"
      "0 = GetExpectedIndex (ReadLE32 (drop (36 + pos) sample_script)) 47 0"
    using accepted_auxpow [of sample_hash False sample_merged_block CMainParams False INTERNAL] s cid
    by (auto simp: Let_def sample_auxpow_def header_GetHash_def sample_hash_def)
  then show ?thesis using v by auto
qed

text \<open>
  C26. Work is not shared between blocks of this chain: two blocks that a merged-mining proof with the
  same coinbase scriptSig was accepted for, under the rules of a fixed byte order and with the
  merged-mining header present, have the same hash, or their branches exhibit a hash collision.
\<close>

theorem parent_work_not_shared:
  assumes "\<And>x. length (H x) = 32" "cv \<noteq> EITHER"
    "CAuxPow_Validate H fuzz a1 h1 params bits1 cid pow1 cv = None"
    "CAuxPow_Validate H fuzz a2 h2 params bits2 cid pow2 cv = None"
    "txin_scriptSig (tx_vin (ap_coinbase_tx a2) ! 0) = txin_scriptSig (tx_vin (ap_coinbase_tx a1) ! 0)"
    "search_from 0 (txin_scriptSig (tx_vin (ap_coinbase_tx a1) ! 0)) MERGED_MINING_HEADER \<noteq> None"
    "length h1 = 32" "length h2 = 32" "list_all (\<lambda>x. length x = 32) (ap_chain_merkle_branch a1)"
    "list_all (\<lambda>x. length x = 32) (ap_chain_merkle_branch a2)"
  shows "h1 = h2 \<or>
    collision H (branch_inputs H h1 (ap_chain_merkle_branch a1) (of_int (ap_chain_index a1)))
      (branch_inputs H h2 (ap_chain_merkle_branch a2) (of_int (ap_chain_index a2)))"
  by (rule auxpow_single_commitment [OF assms])

theorem parent_work_not_shared_witness:
  "CAuxPow_Validate sample_hash False sample_auxpow (replicate 32 1) CMainParams 0 47 False INTERNAL = None \<and>
   (replicate 32 (1::byte) = replicate 32 1 \<or>
    collision sample_hash (branch_inputs sample_hash (replicate 32 1) [] 0) (branch_inputs sample_hash (replicate 32 1) [] 0))"
proof -
  have "txin_scriptSig (tx_vin (ap_coinbase_tx sample_auxpow) ! 0) = sample_script"
    "ap_chain_merkle_branch sample_auxpow = []" "ap_chain_index sample_auxpow = 0"
    by (simp_all add: sample_auxpow_def)
  then show ?thesis
    using parent_work_not_shared [of sample_hash INTERNAL False sample_auxpow "replicate 32 1" CMainParams 0 47 False
        sample_auxpow "replicate 32 1" 0 False] sample_auxpow_valid sample_header_found
    by (simp add: sample_hash_def)
qed

subsection \<open>256-bit arithmetic\<close>

text \<open>
  C27. Division of 256-bit integers: for a divisor other than zero the shift-and-subtract loop of
  \<^verbatim>\<open>operator/=\<close> returns the quotient rounded down, and for divisor zero, and only then, it throws.
\<close>

theorem division_is_floor_division:
  assumes "length a = 8" "length b = 8"
  shows "base_uint_div a b =
    (if nval b = 0 then Inl Uint_Error else Inr (limbs_of 8 (nval a div nval b)))"
proof (cases "nval b = 0")
  case False
  then obtain q where "base_uint_div a b = Inr q" "length q = 8" "nval q = nval a div nval b"
    using base_uint_div_correct [of a b] assms by auto
  then show ?thesis using False limbs_of_nval [of q 8] by simp
qed (simp add: base_uint_div_by_zero)

theorem division_is_floor_division_witness:
  "base_uint_div (limbs_of 8 1000000007) (limbs_of 8 0) = Inl Uint_Error \<and>
   base_uint_div (limbs_of 8 (2 ^ 200 + 12345)) (limbs_of 8 (2 ^ 70)) = Inr (limbs_of 8 (2 ^ 130))"
  using division_is_floor_division [of "limbs_of 8 1000000007" "limbs_of 8 0"]
    division_is_floor_division [of "limbs_of 8 (2 ^ 200 + 12345)" "limbs_of 8 (2 ^ 70)"]
  by (simp add: nval_limbs_of)

subsection \<open>Wire format\<close>

text \<open>
  C28. Transactions survive the wire: reading back a serialized transaction with witnesses, followed
  by any further bytes, returns exactly that transaction and leaves exactly those bytes.
\<close>

theorem transaction_roundtrip:
  assumes "good_tx tx"
  shows "UnserializeTransaction True (SerializeTransaction True tx @ r) = Inr (tx, r)"
  by (rule tx_with_witness_roundtrip [OF assms])

theorem transaction_roundtrip_witness:
  "UnserializeTransaction True (SerializeTransaction True sample_tx @ [1, 2, 3]) = Inr (sample_tx, [1, 2, 3])"
  using transaction_roundtrip [OF sample_tx_good, of "[1, 2, 3]"] .

text \<open>
  C29. The wire format of transactions is not malleable: whatever bytes the reader accepts are the
  bytes the writer produces for the transaction it returns. In particular two different byte strings
  never read as the same transaction.
\<close>

theorem transaction_encoding_unique:
  assumes "UnserializeTransaction True s = Inr (tx, r)"
  shows "s = SerializeTransaction True tx @ r \<and> good_tx tx"
  using tx_canonical [OF assms] by blast

theorem transaction_encoding_unique_witness:
  "\<exists>s tx. UnserializeTransaction True s = Inr (tx, [1, 2, 3]) \<and> s = SerializeTransaction True tx @ [1, 2, 3] \<and> good_tx tx \<and> tx = sample_tx"
  using transaction_encoding_unique [OF tx_with_witness_roundtrip [OF sample_tx_good, of "[1, 2, 3]"]]
    tx_with_witness_roundtrip [OF sample_tx_good, of "[1, 2, 3]"] by blast

text \<open>
  C30. Headers with their merged-mining proof, and whole blocks, survive the wire; the version bit of
  the header alone decides whether a proof is written and read.
\<close>

theorem block_survives_wire:
  assumes "good_block_header b" "list_all good_tx (blk_vtx b)" "length (blk_vtx b) \<le> MAX_SIZE"
  shows "\<exists>hs bs. ser_CBlockHeader b = Inr hs \<and> unser_CBlockHeader (hs @ r) = Inr (CBlockHeader.truncate b, r) \<and>
    ser_CBlock b = Inr bs \<and> unser_CBlock (bs @ r) = Inr (b, r)"
  using block_header_roundtrip [OF assms(1)] block_roundtrip [OF assms] by blast

theorem block_survives_wire_witness:
  "\<exists>bs. ser_CBlock sample_block = Inr bs \<and> unser_CBlock (bs @ [1]) = Inr (sample_block, [1])"
proof -
  have "good_block_header sample_block"
    by (simp add: good_block_header_def good_header_def sample_block_def SignalsAuxpow_def
        IsAuxpowVersion_def block_version_masks)
  then show ?thesis
    using block_survives_wire [of sample_block "[1]"] sample_tx_good
    by (auto simp: sample_block_def MAX_SIZE_def)
qed

text \<open>
  C31. Compact sizes have one encoding: the reader returns a number exactly for the bytes the writer
  produces for it, of the length \<^verbatim>\<open>GetSizeOfCompactSize\<close> announces, and enforces \<^verbatim>\<open>MAX_SIZE\<close> when asked to.
\<close>

theorem compact_size_encoding:
  "ReadCompactSize range_check s = Inr (n, r) \<longleftrightarrow>
    s = WriteCompactSize n @ r \<and> (\<not> range_check \<or> unat n \<le> MAX_SIZE)"
  using ReadCompactSize_canonical [of range_check s n r] ReadCompactSize_Write [of range_check n r] by blast

theorem compact_size_encoding_witness:
  "ReadCompactSize True (WriteCompactSize 70000 @ [5]) = Inr (70000, [5]) \<and>
   \<not> (\<exists>r. ReadCompactSize True [0xfd, 5, 0] = Inr (5, r))"
proof -
  have "WriteCompactSize 5 = [5]" by (simp add: WriteCompactSize_def ser_writedata8_def)
  then show ?thesis
    using compact_size_encoding [of True "WriteCompactSize 70000 @ [5]" 70000 "[5]"]
      compact_size_encoding [of True "[0xfd, 5, 0]" 5]
    by (simp add: MAX_SIZE_def)
qed

text \<open>
  C32. The block version is a faithful record of its fields: \<^verbatim>\<open>MakeVersion\<close> writes chain id, lane bit
  and signalling bits so that each reads back, and every version of the right shape with the reserved
  bits clear arises from its own fields.
\<close>

theorem version_fields:
  "(v = MakeVersion c a b \<longleftrightarrow>
     HasBIP9TopBitsShape v \<and> ReservedBits v = 0 \<and> ExtractChainId v = c \<and> IsAuxpowVersion v = a \<and> ExtractVersionBits v = b)"
  using MakeVersion_fields [of c a b] MakeVersion_complete [of v] by auto

text \<open>
  C33. Version rolling by permissionless miners cannot change what the version means: a version that
  differs from another one only inside the rolling mask has the same lane, signalling bits and shape.
\<close>

theorem version_rolling_is_neutral:
  assumes "v' XOR v = (v' XOR v) AND GetPermissionlessVersionRollingMask v"
  shows "IsAuxpowVersion v' = IsAuxpowVersion v \<and> ExtractVersionBits v' = ExtractVersionBits v \<and>
    ReservedBits v' = ReservedBits v \<and> HasBIP9TopBitsShape v' = HasBIP9TopBitsShape v"
  using rolling_keeps_fields [OF assms] by blast

theorem version_rolling_is_neutral_witness:
  "IsAuxpowVersion (0x20002000 :: u32) = IsAuxpowVersion 0x20000000"
proof -
  have "(0x20002000 XOR 0x20000000 :: u32) = (0x20002000 XOR 0x20000000) AND GetPermissionlessVersionRollingMask 0x20000000"
    by (simp add: GetPermissionlessVersionRollingMask_def IsAuxpowVersion_def HasBIP9TopBitsShape_def block_version_masks)
  from version_rolling_is_neutral [OF this] show ?thesis by blast
qed

subsection \<open>The block index\<close>

text \<open>
  C34. The skip list finds the right ancestor: in every index that can be built, \<^verbatim>\<open>GetAncestor\<close> returns
  within its bound the block reached by following \<^verbatim>\<open>pprev\<close> down to the height asked for, and the null
  pointer exactly for heights outside the chain of the block.
\<close>

theorem ancestor_by_skip_list:
  assumes "reachable_index H bm" "bm_block_index bm p = Some b"
  shows "GetAncestor (bm_block_index bm) p height =
    Inr (if 0 \<le> height \<and> height \<le> bi_nHeight b
         then walk (bm_block_index bm) (nat (bi_nHeight b - height)) p else None)"
  using GetAncestor_walk reachable_index_wf [OF assms(1)] assms(2) by (simp add: wf_manager_def)

theorem ancestor_by_skip_list_witness:
  "\<exists>bm b. reachable_index sample_hash bm \<and> bm_block_index bm (replicate 32 1) = Some b \<and>
    GetAncestor (bm_block_index bm) (replicate 32 1) 0 = Inr (Some (replicate 32 1)) \<and>
    GetAncestor (bm_block_index bm) (replicate 32 1) 1 = Inr None"
proof -
  obtain bm :: BlockManager and b where bm: "reachable_index sample_hash bm" "bm_block_index bm = [replicate 32 1 \<mapsto> b]" "bi_nHeight b = 0"
    by (rule sample_index)
  then show ?thesis
    using ancestor_by_skip_list [of sample_hash bm "replicate 32 1" b 0]
      ancestor_by_skip_list [of sample_hash bm "replicate 32 1" b 1]
    by (intro exI [of _ bm] exI [of _ b]) simp
qed

text \<open>
  C35. The two mining lanes are threaded correctly: in every index that can be built the lane links of
  a block are the nearest proper ancestors of each lane, and \<^verbatim>\<open>GetPreviousBlockForLane\<close> returns the
  block itself when it is of the lane, otherwise that ancestor unless it is below the minimum height.
\<close>

theorem lane_lookup:
  assumes "reachable_index H bm" "bm_block_index bm p = Some b"
  shows "bi_pprev_auxpow b = nearest_lane (bm_block_index bm) True (nat (bi_nHeight b)) p \<and>
    bi_pprev_permissionless b = nearest_lane (bm_block_index bm) False (nat (bi_nHeight b)) p \<and>
    GetPreviousBlockForLane (bm_block_index bm) p auxpow min_height = Inr (lane_spec (bm_block_index bm) p auxpow min_height)"
proof -
  have "wf_index (bm_block_index bm)" using reachable_index_wf [OF assms(1)] by (simp add: wf_manager_def)
  then show ?thesis using lane_links_nearest [of "bm_block_index bm" p b] GetPreviousBlockForLane_spec [of "bm_block_index bm" p b] assms(2) by blast
qed

theorem lane_lookup_witness:
  "\<exists>bm b. reachable_index sample_hash bm \<and> bm_block_index bm (replicate 32 1) = Some b \<and>
    bi_pprev_auxpow b = None \<and>
    GetPreviousBlockForLane (bm_block_index bm) (replicate 32 1) False 0 = Inr (Some (replicate 32 1))"
proof -
  obtain bm :: BlockManager and b where bm: "reachable_index sample_hash bm" "bm_block_index bm = [replicate 32 1 \<mapsto> b]"
      "bi_nHeight b = 0" "bi_nVersion b = 0x20000000"
    by (rule sample_index)
  have "\<not> bi_SignalsAuxpow b" using bm(4) by (simp add: bi_SignalsAuxpow_def IsAuxpowVersion_def block_version_masks)
  then show ?thesis
    using lane_lookup [of sample_hash bm "replicate 32 1" b False 0] bm
    by (intro exI [of _ bm] exI [of _ b]) (simp add: lane_spec_def)
qed

text \<open>
  C36. The work of a block: \<^verbatim>\<open>GetBlockProof\<close> computes two to the 256 over the target plus one, rounded
  down, although the dividend does not fit in 256 bits, and zero for a target that is negative,
  overflows or is zero. It never divides by zero.
\<close>

theorem block_proof_value:
  "\<exists>w. GetBlockProof b = Inr w \<and> length w = 8 \<and>
    nval w = (case SetCompact (bi_nBits b) of (t, neg, ovf) \<Rightarrow>
      if neg \<or> ovf \<or> nval t = 0 then 0 else 2 ^ 256 div (nval t + 1))"
  by (rule GetBlockProof_correct)

subsection \<open>The reference pages\<close>

text \<open>
  C37. The filter of the RPC reference pages: after the page is loaded and the reader has changed any
  toggles in any order, every element is known. The filter is off after loading and otherwise what the
  toggle changed last says; every toggle shows it; a card is hidden exactly when the filter is on and
  the card is not marked as changed; no other class, attribute or checkbox differs from the page as it
  was delivered. On a page without cards the script does nothing at all.
\<close>

theorem filter_consistent:
  assumes "dom_listeners d0 = []" "list_all (\<lambda>(i, v). i \<in> set (querySelectorAll ''rpc-show-changed-only'' d0)) changes"
  shows "if querySelectorAll ''rpc-method-card'' d0 = []
    then page d0 changes = fold (\<lambda>(i, v). update_node (setChecked v) i) changes d0
    else dom_nodes (page d0 changes) = map (shown (setting changes)) (dom_nodes d0)"
  using page_without_cards [OF assms(1)] page_shows [OF assms(1) _ assms(2)] by simp

theorem filter_consistent_witness:
  "dom_nodes (page sample_page [(0, True), (4, False), (4, True)]) =
     [\<lparr>el_class = [''rpc-show-changed-only''], el_changed = None, el_checked = True\<rparr>,
      \<lparr>el_class = [''rpc-method-card'', ''wide'', ''is-hidden''], el_changed = Some ''false'', el_checked = False\<rparr>,
      \<lparr>el_class = [''rpc-method-card''], el_changed = Some ''true'', el_checked = False\<rparr>,
      \<lparr>el_class = [''note'', ''is-hidden''], el_changed = None, el_checked = True\<rparr>,
      \<lparr>el_class = [''rpc-show-changed-only''], el_changed = None, el_checked = True\<rparr>]"
proof -
  have "querySelectorAll ''rpc-show-changed-only'' sample_page = [0, 4]" "querySelectorAll ''rpc-method-card'' sample_page = [1, 2]"
    by (simp_all add: querySelectorAll_def sample_page_def)
  then show ?thesis
    using filter_consistent [of sample_page "[(0, True), (4, False), (4, True)]"]
    by (simp add: setting_def shown_def sample_page_def)
qed

subsection \<open>Blocks\<close>

text \<open>
  C38. No block creates money. Whatever blocks \<^verbatim>\<open>ConnectBlock\<close> accepts and \<^verbatim>\<open>DisconnectBlock\<close> takes
  back, starting from an empty set of unspent outputs and on the parameters of the main network, the
  unspent outputs are worth at most the subsidies of the blocks of the current chain, and so at most
  \<^verbatim>\<open>MAX_MONEY\<close>. The transaction identifiers along the chain are assumed to be distinct (step
  \<^verbatim>\<open>connect\<close> of \<^const>\<open>chain_state\<close>), and an empty script to use no dynamic memory.
\<close>

theorem coin_supply_bounded:
  assumes "chain_state env past V" "ne_usage env [] = 0" "ne_params env = CMainParams"
  shows "finite (dom V) \<and> total_value V \<le> (\<Sum>h=1..length past. block_subsidy CMainParams h) \<and> total_value V \<le> MAX_MONEY"
proof -
  have h: "history_ok env past V" using chain_state_history assms by blast
  have v: "total_value V \<le> (\<Sum>h=1..length past. block_subsidy CMainParams h)" using history_value [OF h] assms(3) by simp
  also have "\<dots> \<le> (\<Sum>h<Suc (length past). block_subsidy CMainParams h)"
    by (rule sum_mono2) (auto simp: main_subsidy)
  also have "\<dots> \<le> MAX_MONEY" by (rule main_emission)
  finally show ?thesis using v history_finite [OF h] by blast
qed

theorem coin_supply_bounded_witness:
  "\<exists>b undo V. chain_state sample_env [(first_block, b, undo, Map.empty)] V \<and> total_value V = 5000 \<and>
    total_value V \<le> block_subsidy CMainParams 1 \<and> total_value V \<le> MAX_MONEY"
proof -
  obtain b undo V where c: "chain_state sample_env [(first_block, b, undo, Map.empty)] V" "total_value V = 5000" using first_chain by blast
  have "ne_usage sample_env [] = 0" "ne_params sample_env = CMainParams" by (simp_all add: sample_env_def)
  from coin_supply_bounded [OF c(1) this] have "total_value V \<le> block_subsidy CMainParams 1" "total_value V \<le> MAX_MONEY" by simp_all
  with c show ?thesis by blast
qed

text \<open>
  C39. The comparison of work ratios that decides whether script checks may be skipped is exact: over
  256-bit numbers it holds exactly when the work times the elapsed time exceeds the reference work times
  the required time, although these products do not fit 256 bits, and it is false when one of the
  operands is zero.
\<close>

theorem work_ratio_exact:
  assumes "length work = 8" "length reference_work = 8"
  shows "WorkDurationExceeds work reference_work elapsed_seconds seconds =
    Inr (nval work \<noteq> 0 \<and> nval reference_work \<noteq> 0 \<and> elapsed_seconds \<noteq> 0 \<and>
      nval reference_work * unat seconds < nval work * unat elapsed_seconds)"
proof (cases "nval work = 0 \<or> nval reference_work = 0 \<or> elapsed_seconds = 0")
  case True
  then show ?thesis using assms by (auto simp: WorkDurationExceeds_def EqualTo_nval)
next
  case False
  then show ?thesis using WorkDurationExceeds_correct [OF assms, of elapsed_seconds seconds] by (simp add: word_neq_0_conv)
qed

theorem work_ratio_exact_witness:
  "WorkDurationExceeds most_work most_work 1209601 1209600 = Inr True \<and>
   WorkDurationExceeds most_work most_work 1209600 1209600 = Inr False \<and> 2 ^ 256 < nval most_work * 1209600"
  using work_ratio_exact [of most_work most_work 1209601 1209600] work_ratio_exact [of most_work most_work 1209600 1209600]
  by (simp add: most_work_def)

text \<open>
  C40. Time locks that a script asks for hold for the block. When a transaction is final for a height and
  a cutoff time and its sequence locks are met at a block of the index, a lock time that
  \<^verbatim>\<open>OP_CHECKLOCKTIMEVERIFY\<close> accepts lies before that height or time, and a relative lock that
  \<^verbatim>\<open>OP_CHECKSEQUENCEVERIFY\<close> accepts has run since the coin was created: in blocks, or in units of 512
  seconds between the median times before the two blocks.
\<close>

theorem time_locks_enforced:
  assumes n: "unat (gc_nIn g) < length (tx_vin (gc_txTo g))"
    and final: "IsFinalTx (gc_txTo g) height cutoff"
    and locks: "SequenceLocks st (gc_txTo g) LOCKTIME_VERIFY_SEQUENCE prevHeights block = Inr True"
  shows "(gc_CheckLockTime g m \<and> 0 < m \<longrightarrow> m < (if m < LOCKTIME_THRESHOLD then height else cutoff)) \<and>
    (gc_CheckSequence g k \<longrightarrow> (\<exists>b now. st block = Some b \<and> GetMedianTimePast st (the (bi_pprev b)) = Inr now \<and>
      (let h = prevHeights ! unat (gc_nIn g) in
       if bit k 22 then \<exists>t. coin_time st block h = Inr t \<and> t + (k AND 65535) * 512 \<le> now
       else h + (k AND 65535) \<le> bi_nHeight b)))"
proof (intro conjI impI)
  assume "gc_CheckLockTime g m \<and> 0 < m"
  then show "m < (if m < LOCKTIME_THRESHOLD then height else cutoff)" using CheckLockTime_enforced final n by blast
next
  assume k: "gc_CheckSequence g k"
  let ?tx = "gc_txTo g"
  have v: "2 \<le> tx_version ?tx" using k by (auto simp: gc_CheckSequence_def Let_def split: if_splits)
  obtain lock hs' where calc: "CalculateSequenceLocks st ?tx LOCKTIME_VERIFY_SEQUENCE prevHeights block = Inr (lock, hs')"
    and ev: "EvaluateSequenceLocks st block lock = Inr True"
    using locks by (auto simp: SequenceLocks_def bindE_Inr_iff)
  have len: "length prevHeights = length (tx_vin ?tx)"
    and seq: "sequence_locks st block (tx_vin ?tx) prevHeights (- 1, - 1) = Inr (lock, hs')"
    using calc v by (auto simp: CalculateSequenceLocks_def bindE_Inr_iff LOCKTIME_VERIFY_SEQUENCE_def split: if_splits)
  obtain b now where b: "st block = Some b" "GetMedianTimePast st (the (bi_pprev b)) = Inr now" "fst lock < bi_nHeight b" "snd lock < now"
    using ev by (auto simp: EvaluateSequenceLocks_def bindE_Inr_iff deref_def split: option.splits)
  have "lock_met st block (bi_nHeight b) now (tx_vin ?tx ! unat (gc_nIn g)) (prevHeights ! unat (gc_nIn g))"
    using sequence_locks_met [OF seq len, of "bi_nHeight b" now] b(3,4) n len by (fastforce simp: set_zip)
  from CheckSequence_enforced [OF k this] b(1,2)
  show "\<exists>b now. st block = Some b \<and> GetMedianTimePast st (the (bi_pprev b)) = Inr now \<and>
      (let h = prevHeights ! unat (gc_nIn g) in
       if bit k 22 then \<exists>t. coin_time st block h = Inr t \<and> t + (k AND 65535) * 512 \<le> now
       else h + (k AND 65535) \<le> bi_nHeight b)" unfolding Let_def by blast
qed

theorem time_locks_enforced_witness:
  "gc_CheckLockTime lock_checker 550000000 \<and> gc_CheckSequence lock_checker 1 \<and>
   (\<exists>b. bm_block_index first_index (replicate 32 1) = Some b \<and> (0 :: int) + (1 AND 65535) \<le> bi_nHeight b)"
proof -
  have c: "gc_CheckLockTime lock_checker 550000000" "gc_CheckSequence lock_checker 1"
    by (simp_all add: gc_CheckLockTime_def gc_CheckSequence_def lock_checker_def first_coinbase_def Let_def LOCKTIME_THRESHOLD_def SEQUENCE_FINAL_def
      SEQUENCE_LOCKTIME_DISABLE_FLAG_def SEQUENCE_LOCKTIME_TYPE_FLAG_def SEQUENCE_LOCKTIME_MASK_def)
  have "SequenceLocks (bm_block_index first_index) (gc_txTo lock_checker) LOCKTIME_VERIFY_SEQUENCE [0] (replicate 32 1) = Inr True"
    by (simp add: SequenceLocks_def CalculateSequenceLocks_def EvaluateSequenceLocks_def lock_checker_def first_coinbase_def LOCKTIME_VERIFY_SEQUENCE_def
      SEQUENCE_LOCKTIME_DISABLE_FLAG_def input_lock_def SEQUENCE_LOCKTIME_TYPE_FLAG_def SEQUENCE_LOCKTIME_MASK_def i32_def i32_range_def first_indexed
      first_median)
  moreover have "IsFinalTx (gc_txTo lock_checker) 1 700000000" "unat (gc_nIn lock_checker) < length (tx_vin (gc_txTo lock_checker))"
    by (simp_all add: IsFinalTx_def lock_checker_def LOCKTIME_THRESHOLD_def)
  ultimately show ?thesis
    using time_locks_enforced [of lock_checker 1 700000000 "bm_block_index first_index" "[0]" "replicate 32 1" 550000000 1] c
    by (auto simp: lock_checker_def)
qed

end
